(* ===== verification/Rust_Prelude.thy ===== *)
theory Rust_Prelude
  imports
    Main
    "HOL-Library.Word"
    "HOL-Library.AList"
    "HOL-Library.Sublist"
    "HOL-Library.Multiset"
    "HOL-Library.Char_ord"
    "HOL-Library.List_Lexorder"
    "HOL-Library.Product_Lexorder"
begin

text \<open>
  The vocabulary the components share.  Section 1 is Rust's fixed-width integer arithmetic:
  the \<open>checked_*\<close> and \<open>saturating_*\<close> methods of the integer types, on words of any width, each
  with its reading in the natural numbers (collection \<open>rust_int\<close>).  Section 2 is the two map
  types the sources use: a \<open>HashMap\<close> is an association list without repeated keys, a \<open>BTreeMap\<close>
  one that is moreover sorted by key; both are instances of the interface \<open>rust_map\<close>.
  Section 3 is the generic notion of a reachable state of a component and the interface
  \<open>inv_system\<close> through which every component's invariant is carried to all its reachable
  states.  Plain \<open>+\<close> on words wraps, which is Rust's behaviour in the release profile.
\<close>

section \<open>Integers\<close>

type_synonym u8 = "8 word"
type_synonym u16 = "16 word"
type_synonym u32 = "32 word"
type_synonym u64 = "64 word"
type_synonym u128 = "128 word"
type_synonym bytes = "8 word list"

named_theorems rust_int
  \<open>readings of the fixed-width operations in the natural numbers\<close>

text \<open>The largest value of the type (\<open>u64::MAX\<close> and its siblings).\<close>

definition max_value :: "'a::len word" where
  "max_value = - 1"

definition checked_add :: "'a::len word \<Rightarrow> 'a word \<Rightarrow> 'a word option" where
  "checked_add a b = (if a \<le> a + b then Some (a + b) else None)"

definition checked_sub :: "'a::len word \<Rightarrow> 'a word \<Rightarrow> 'a word option" where
  "checked_sub a b = (if b \<le> a then Some (a - b) else None)"

definition checked_mul :: "'a::len word \<Rightarrow> 'a word \<Rightarrow> 'a word option" where
  "checked_mul a b = (if unat a * unat b < 2 ^ LENGTH('a) then Some (a * b) else None)"

definition saturating_add :: "'a::len word \<Rightarrow> 'a word \<Rightarrow> 'a word" where
  "saturating_add a b = (case checked_add a b of Some c \<Rightarrow> c | None \<Rightarrow> max_value)"

definition saturating_sub :: "'a::len word \<Rightarrow> 'a word \<Rightarrow> 'a word" where
  "saturating_sub a b = (case checked_sub a b of Some c \<Rightarrow> c | None \<Rightarrow> 0)"

definition saturating_mul :: "'a::len word \<Rightarrow> 'a word \<Rightarrow> 'a word" where
  "saturating_mul a b = (case checked_mul a b of Some c \<Rightarrow> c | None \<Rightarrow> max_value)"

lemma unat_max_value [rust_int]: "unat (max_value :: 'a::len word) = 2 ^ LENGTH('a) - 1"
  by (simp add: max_value_def unsigned_minus_1_eq_mask mask_eq_exp_minus_1)

lemma unat_bound: "unat (a :: 'a::len word) < 2 ^ LENGTH('a)"
  by (rule unsigned_less)

lemma unat_le_max: "unat (a :: 'a::len word) \<le> 2 ^ LENGTH('a) - 1"
  using unsigned_less [of a] by (metis Suc_pred' less_Suc_eq_le zero_less_numeral zero_less_power)

lemma add_no_wrap_iff: "(a :: 'a::len word) \<le> a + b \<longleftrightarrow> unat a + unat b < 2 ^ LENGTH('a)"
  by (metis add.commute no_olen_add_nat)

lemma checked_add_Some_iff [rust_int]:
  "checked_add a b = Some c \<longleftrightarrow> unat a + unat b = unat (c :: 'a::len word)"
proof
  assume "checked_add a b = Some c"
  then have "a \<le> a + b" "c = a + b" by (auto simp: checked_add_def split: if_splits)
  then show "unat a + unat b = unat c" by (simp add: add_no_wrap_iff unat_add_lem)
next
  assume *: "unat a + unat b = unat c"
  then have lt: "unat a + unat b < 2 ^ LENGTH('a)" by simp
  then have "unat (a + b) = unat c" using * by (metis unat_add_lem)
  then have "a + b = c" by (simp only: word_unat_eq_iff)
  moreover have "a \<le> a + b" using lt by (simp only: add_no_wrap_iff)
  ultimately show "checked_add a b = Some c" by (simp add: checked_add_def)
qed

lemma checked_add_None_iff [rust_int]:
  "checked_add a b = None \<longleftrightarrow> 2 ^ LENGTH('a) \<le> unat a + unat (b :: 'a::len word)"
  by (auto simp: checked_add_def add_no_wrap_iff not_less)

lemma checked_sub_Some_iff [rust_int]:
  "checked_sub a b = Some c \<longleftrightarrow> unat a = unat b + unat (c :: 'a::len word)"
proof
  assume "checked_sub a b = Some c"
  then have "b \<le> a" "c = a - b" by (auto simp: checked_sub_def split: if_splits)
  then show "unat a = unat b + unat c" by (simp add: unat_sub word_le_nat_alt)
next
  assume *: "unat a = unat b + unat c"
  then have le: "b \<le> a" by (simp add: word_le_nat_alt)
  then have "unat (a - b) = unat c" using * by (simp add: unat_sub)
  then have "a - b = c" by (simp only: word_unat_eq_iff)
  with le show "checked_sub a b = Some c" by (simp add: checked_sub_def)
qed

lemma checked_sub_None_iff [rust_int]:
  "checked_sub a b = None \<longleftrightarrow> unat a < unat (b :: 'a::len word)"
  by (auto simp: checked_sub_def word_le_nat_alt)

lemma checked_mul_Some_iff [rust_int]:
  "checked_mul a b = Some c \<longleftrightarrow> unat a * unat b = unat (c :: 'a::len word)"
proof
  assume "checked_mul a b = Some c"
  then have "unat a * unat b < 2 ^ LENGTH('a)" "c = a * b"
    by (auto simp: checked_mul_def split: if_splits)
  then show "unat a * unat b = unat c" by (simp add: unat_mult_lem)
next
  assume *: "unat a * unat b = unat c"
  then have lt: "unat a * unat b < 2 ^ LENGTH('a)" by simp
  then have "unat (a * b) = unat c" using * by (metis unat_mult_lem)
  then have "a * b = c" by (simp only: word_unat_eq_iff)
  with lt show "checked_mul a b = Some c" by (simp add: checked_mul_def)
qed

lemma checked_mul_None_iff [rust_int]:
  "checked_mul a b = None \<longleftrightarrow> 2 ^ LENGTH('a) \<le> unat a * unat (b :: 'a::len word)"
  by (auto simp: checked_mul_def not_less)

lemma unat_saturating_add [rust_int]:
  "unat (saturating_add a b) = min (unat a + unat b) (2 ^ LENGTH('a) - 1)"
  for a b :: "'a::len word"
proof (cases "checked_add a b")
  case None
  then have "2 ^ LENGTH('a) \<le> unat a + unat b" by (simp only: checked_add_None_iff)
  with None show ?thesis by (simp add: saturating_add_def unat_max_value)
next
  case (Some c)
  then have "unat a + unat b = unat c" by (simp only: checked_add_Some_iff)
  with Some show ?thesis using unat_le_max [of c] by (simp add: saturating_add_def)
qed

lemma unat_saturating_sub [rust_int]:
  "unat (saturating_sub a b) = unat a - unat (b :: 'a::len word)"
proof (cases "checked_sub a b")
  case None
  then have "unat a < unat b" by (simp only: checked_sub_None_iff)
  with None show ?thesis by (simp add: saturating_sub_def)
next
  case (Some c)
  then have "unat a = unat b + unat c" by (simp only: checked_sub_Some_iff)
  with Some show ?thesis by (simp add: saturating_sub_def)
qed

lemma unat_saturating_mul [rust_int]:
  "unat (saturating_mul a b) = min (unat a * unat b) (2 ^ LENGTH('a) - 1)"
  for a b :: "'a::len word"
proof (cases "checked_mul a b")
  case None
  then have "2 ^ LENGTH('a) \<le> unat a * unat b" by (simp only: checked_mul_None_iff)
  with None show ?thesis by (simp add: saturating_mul_def unat_max_value)
next
  case (Some c)
  then have "unat a * unat b = unat c" by (simp only: checked_mul_Some_iff)
  with Some show ?thesis using unat_le_max [of c] by (simp add: saturating_mul_def)
qed

lemma unat_word_max [rust_int]: "unat (max a b) = max (unat a) (unat (b :: 'a::len word))"
  by (simp add: max_def word_le_nat_alt)

lemma unat_word_min [rust_int]: "unat (min a b) = min (unat a) (unat (b :: 'a::len word))"
  by (simp add: min_def word_le_nat_alt)

lemma unat_ucast_mod: "unat (ucast (w :: 'a::len word) :: 'b::len word) = unat w mod 2 ^ LENGTH('b)"
  by (simp add: unsigned_ucast_eq take_bit_eq_mod)

lemma unat_ucast_u128: "unat (ucast (w :: u64) :: u128) = unat w"
  unfolding unat_ucast_mod by (rule mod_less, rule order.strict_trans2 [OF unsigned_less]) simp

lemmas word_order_nat [rust_int] = word_le_nat_alt word_less_nat_alt

lemma word_zero_nat [rust_int]: "(a :: 'a::len word) = 0 \<longleftrightarrow> unat a = 0"
  by (simp add: unat_eq_0)

section \<open>Sorting\<close>

lemma distinct_map_sort_key: "distinct (map f (sort_key g xs)) \<longleftrightarrow> distinct (map f xs)"
proof -
  have "mset (map f (sort_key g xs)) = mset (map f xs)" by simp
  then show ?thesis by (rule mset_eq_imp_distinct_iff)
qed

lemma strict_sorted_sort_key:
  "distinct (map f xs) \<Longrightarrow> sorted_wrt (<) (map f (sort_key f xs))"
  by (simp add: strict_sorted_iff distinct_map_sort_key)

section \<open>Bytes and external cryptography\<close>

text \<open>\<open>to_le_bytes\<close> of an integer of \<open>n\<close> bytes and \<open>str::as_bytes\<close>.\<close>

definition le_bytes :: "nat \<Rightarrow> 'a::len word \<Rightarrow> bytes" where
  "le_bytes n w = map (\<lambda>i. ucast (drop_bit (8 * i) w)) [0..<n]"

definition str_bytes :: "string \<Rightarrow> bytes" where
  "str_bytes s = map (\<lambda>c. word_of_nat (of_char c)) s"

text \<open>\<open>u64::from_le_bytes\<close>.\<close>

primrec from_le_bytes :: "bytes \<Rightarrow> 'a::len word" where
  "from_le_bytes [] = 0"
| "from_le_bytes (b # bs) = ucast b + push_bit 8 (from_le_bytes bs)"

lemma from_le_bytes_code [code]:
  "from_le_bytes bs = word_of_int (foldr (\<lambda>b a. uint b + 256 * a) bs 0)"
proof (induction bs)
  case (Cons b bs)
  have "from_le_bytes (b # bs) = word_of_int (uint b) + (word_of_int 256 :: 'a::len word) * from_le_bytes bs"
    by (simp add: push_bit_eq_mult mult.commute)
  then show ?case unfolding Cons.IH wi_hom_mult wi_hom_add by simp
qed simp

lemma length_le_bytes [simp]: "length (le_bytes n w) = n"
  by (simp add: le_bytes_def)

lemma le_bytes_Suc: "le_bytes (Suc n) w = ucast w # le_bytes n (drop_bit 8 w)"
  by (simp add: le_bytes_def upt_conv_Cons map_Suc_upt [symmetric] del: upt_Suc) (simp add: drop_bit_drop_bit add.commute)

lemma le_bytes_take_bit: "8 * n \<le> k \<Longrightarrow> le_bytes n (take_bit k w) = le_bytes n w"
  by (auto simp: le_bytes_def bit_simps intro!: bit_eqI)

lemma from_le_bytes_le_bytes: "from_le_bytes (le_bytes n (w :: 'a::len word)) = take_bit (8 * n) w"
proof (induction n arbitrary: w)
  case 0
  then show ?case by (simp add: le_bytes_def)
next
  case (Suc n)
  have "take_bit (8 * Suc n) w = push_bit 8 (drop_bit 8 (take_bit (8 * Suc n) w)) + take_bit 8 (take_bit (8 * Suc n) w)"
    by (simp only: bits_ident)
  also have "\<dots> = push_bit 8 (take_bit (8 * n) (drop_bit 8 w)) + take_bit 8 w"
    by (simp add: drop_bit_take_bit)
  moreover have "ucast (ucast w :: u8) = take_bit 8 w" by (intro bit_eqI) (auto simp: bit_simps)
  ultimately show ?case by (simp add: le_bytes_Suc Suc.IH add.commute)
qed

lemma le_bytes_from_le_bytes:
  "8 * length bs \<le> LENGTH('a) \<Longrightarrow> le_bytes (length bs) (from_le_bytes bs :: 'a::len word) = bs"
proof (induction bs)
  case Nil
  then show ?case by (simp add: le_bytes_def)
next
  case (Cons b bs)
  let ?w = "from_le_bytes bs :: 'a word"
  have "bit (ucast b :: 'a word) i \<Longrightarrow> \<not> bit (push_bit 8 ?w) i" for i
    by (auto simp: bit_simps dest: bit_imp_le_length)
  then have or: "ucast b + push_bit 8 ?w = or (ucast b) (push_bit 8 ?w)"
    by (intro disjunctive_add) blast
  have "ucast (ucast b + push_bit 8 ?w) = b"
    unfolding or using Cons.prems by (intro bit_eqI) (auto simp: bit_simps)
  moreover have "drop_bit 8 (ucast b + push_bit 8 ?w) = take_bit (LENGTH('a) - 8) ?w"
    unfolding or using Cons.prems by (intro bit_eqI) (auto simp: bit_simps dest: bit_imp_le_length)
  ultimately show ?case using Cons by (simp add: le_bytes_Suc le_bytes_take_bit)
qed

lemma le_bytes_zero: "le_bytes n (0 :: 'a::len word) = replicate n 0"
  by (induction n) (simp_all add: le_bytes_Suc, simp add: le_bytes_def)

text \<open>A full-width little-endian encoding determines the integer.\<close>

lemma le_bytes_inj:
  assumes "LENGTH('a) \<le> 8 * n" "le_bytes n (v :: 'a::len word) = le_bytes n w"
  shows "v = w"
  using arg_cong [OF assms(2), of "from_le_bytes :: bytes \<Rightarrow> 'a word"] assms(1)
  by (simp add: from_le_bytes_le_bytes take_bit_word_eq_self)

text \<open>The functions of the cryptographic crates (\<open>ed25519-dalek\<close>, \<open>blake3\<close>) are parameters:
  \<open>vkey_from_bytes\<close> parses a public key, \<open>sig_verify\<close> checks a signature (key, message,
  signature) and \<open>blake3\<close> is the hash.\<close>

record crypto =
  vkey_from_bytes :: "bytes \<Rightarrow> bytes option"
  sig_verify :: "bytes \<Rightarrow> bytes \<Rightarrow> bytes \<Rightarrow> bool"
  blake3 :: "bytes \<Rightarrow> bytes"

text \<open>The shape every signature check of the sources has: a key that does not parse is a
  failed check.\<close>

definition verify_with :: "crypto \<Rightarrow> bytes \<Rightarrow> bytes \<Rightarrow> bytes \<Rightarrow> bool" where
  "verify_with cr pubkey msg sig = (case vkey_from_bytes cr pubkey of
      None \<Rightarrow> False
    | Some key \<Rightarrow> sig_verify cr key msg sig)"

section \<open>Maps\<close>

text \<open>The interface every map type of the sources offers: what \<open>get\<close> returns after \<open>new\<close>,
  \<open>insert\<close> and \<open>remove\<close>, and that \<open>insert\<close> and \<open>remove\<close> keep the representation well formed.\<close>

locale rust_map =
  fixes mempty :: "'m"
    and mget :: "'m \<Rightarrow> 'k \<Rightarrow> 'v option"
    and minsert :: "'k \<Rightarrow> 'v \<Rightarrow> 'm \<Rightarrow> 'm"
    and mremove :: "'k \<Rightarrow> 'm \<Rightarrow> 'm"
    and mwf :: "'m \<Rightarrow> bool"
  assumes wf_empty: "mwf mempty"
    and wf_insert: "mwf m \<Longrightarrow> mwf (minsert k v m)"
    and wf_remove: "mwf m \<Longrightarrow> mwf (mremove k m)"
    and get_empty: "mget mempty k = None"
    and get_insert: "mwf m \<Longrightarrow> mget (minsert k v m) j = (if j = k then Some v else mget m j)"
    and get_remove: "mwf m \<Longrightarrow> mget (mremove k m) j = (if j = k then None else mget m j)"
begin

text \<open>A property of all bindings survives an insertion that satisfies it and any removal.\<close>

lemma all_insert:
  assumes "mwf m" "\<And>j w. mget m j = Some w \<Longrightarrow> P j w" "P k v" "mget (minsert k v m) j = Some w"
  shows "P j w"
  using assms by (auto simp: get_insert split: if_splits)

lemma all_remove:
  assumes "mwf m" "\<And>j w. mget m j = Some w \<Longrightarrow> P j w" "mget (mremove k m) j = Some w"
  shows "P j w"
  using assms by (auto simp: get_remove split: if_splits)

lemma insert_remove_absent:
  assumes "mwf m" "mget m k = None"
  shows "mget (mremove k (minsert k v m)) j = mget m j"
  using assms by (auto simp: get_insert get_remove wf_insert)

end

subsection \<open>\<open>HashMap\<close>: association lists without repeated keys\<close>

abbreviation hm_wf :: "('k \<times> 'v) list \<Rightarrow> bool" where
  "hm_wf m \<equiv> distinct (map fst m)"

lemma map_of_update [simp]: "map_of (AList.update k v m) j = (if j = k then Some v else map_of m j)"
  by (simp add: update_conv')

lemma map_of_delete_iff: "map_of (AList.delete k m) j = (if j = k then None else map_of m j)"
  by (simp add: delete_conv')

interpretation hm: rust_map "[]" map_of AList.update AList.delete hm_wf
  by unfold_locales (simp_all add: distinct_update distinct_delete map_of_delete_iff)

lemma set_update_sub: "set (AList.update k v m) \<subseteq> insert (k, v) (set m)"
  by (induction m) auto

lemma set_delete_sub: "set (AList.delete k m) \<subseteq> set m"
  by (auto simp: AList.delete_eq)

lemma length_update:
  "length (AList.update k v m) = (if map_of m k = None then Suc (length m) else length m)"
  by (induction m) auto

lemma length_delete:
  "hm_wf m \<Longrightarrow> length (AList.delete k m) = (if map_of m k = None then length m else length m - 1)"
proof (induction m)
  case Nil
  then show ?case by simp
next
  case (Cons p m)
  obtain a b where p: "p = (a, b)" by (cases p)
  show ?case
  proof (cases "a = k")
    case True
    with Cons.prems p have "k \<notin> fst ` set m" by auto
    with True p show ?thesis by simp
  next
    case False
    moreover have "map_of m k \<noteq> None \<Longrightarrow> 0 < length m" by (cases m) auto
    ultimately show ?thesis using Cons p by auto
  qed
qed

text \<open>Two representations of one map differ only in the order of their entries.\<close>

lemma hm_mset_eq:
  assumes "hm_wf m" "hm_wf m'" "map_of m = map_of m'"
  shows "mset m = mset m'"
proof -
  have "distinct m" "distinct m'" using assms(1,2) by (simp_all add: distinct_map)
  moreover have "set m = set m'"
    using map_of_inject_set [OF assms(1,2)] assms(3) by simp
  ultimately show ?thesis by (simp add: set_eq_iff_mset_eq_distinct)
qed

lemma fold_delete_filter: "fold AList.delete ks m = filter (\<lambda>x. fst x \<notin> set ks) m"
proof (induction ks arbitrary: m)
  case (Cons k ks)
  have "filter (\<lambda>x. fst x \<notin> set ks) (AList.delete k m) = filter (\<lambda>x. fst x \<notin> set (k # ks)) m"
    by (auto simp: AList.delete_eq intro!: filter_cong)
  then show ?case using Cons by simp
qed simp

lemma map_of_fold_delete: "map_of (fold AList.delete ks m) k = (if k \<in> set ks then None else map_of m k)"
  by (induction ks arbitrary: m) (auto simp: map_of_delete_iff)

lemma hm_wf_fold_delete: "hm_wf m \<Longrightarrow> hm_wf (fold AList.delete ks m)"
  by (induction ks arbitrary: m) (simp_all add: distinct_delete)

lemma set_fold_delete: "set (fold AList.delete ks m) \<subseteq> set m"
  by (induction ks arbitrary: m) (use set_delete_sub in \<open>fastforce+\<close>)

lemma map_of_map_values: "map_of (map (\<lambda>(k, v). (k, f v)) m) k = map_option f (map_of m k)"
  by (induction m) auto

lemma map_of_filter_key:
  "map_of (filter (\<lambda>x. P (fst x)) m) k = (if P k then map_of m k else None)"
  by (induction m) auto

lemma map_of_filter_value:
  "hm_wf m \<Longrightarrow> map_of (filter (\<lambda>(_, v). P v) m) k = Some w \<longleftrightarrow> map_of m k = Some w \<and> P w"
  by (auto simp: distinct_map_filter map_of_eq_Some_iff)

text \<open>The total of a weight over the values, before and after an update.\<close>

definition hm_total :: "('v \<Rightarrow> nat) \<Rightarrow> ('k \<times> 'v) list \<Rightarrow> nat" where
  "hm_total w m = sum_list (map (w \<circ> snd) m)"

lemma hm_total_simps [simp]:
  "hm_total w [] = 0"
  "hm_total w ((k, v) # m) = w v + hm_total w m"
  by (simp_all add: hm_total_def)

lemma hm_total_update_new:
  "map_of m k = None \<Longrightarrow> hm_total w (AList.update k v m) = hm_total w m + w v"
  by (induction m) (auto split: if_splits)

lemma hm_total_update_old:
  "map_of m k = Some u \<Longrightarrow> hm_total w (AList.update k v m) + w u = hm_total w m + w v"
  by (induction m) (auto split: if_splits)

lemma hm_total_member: "map_of m k = Some u \<Longrightarrow> w u \<le> hm_total w m"
  by (induction m) (auto split: if_splits)

lemma hm_total_delete:
  assumes "hm_wf m" "map_of m k = Some u"
  shows "hm_total w (AList.delete k m) + w u = hm_total w m"
  using assms
proof (induction m)
  case (Cons p m)
  obtain a b where p: "p = (a, b)" by (cases p)
  show ?case
  proof (cases "a = k")
    case True
    with Cons.prems p have "k \<notin> fst ` set m" by auto
    with True p Cons.prems show ?thesis by simp
  next
    case False
    with Cons p show ?thesis by simp
  qed
qed simp

subsection \<open>\<open>BTreeMap\<close>: association lists sorted by key\<close>

fun bt_insert :: "'k::linorder \<Rightarrow> 'v \<Rightarrow> ('k \<times> 'v) list \<Rightarrow> ('k \<times> 'v) list" where
  "bt_insert k v [] = [(k, v)]"
| "bt_insert k v ((j, w) # m) =
    (if k < j then (k, v) # (j, w) # m
     else if k = j then (k, v) # m
     else (j, w) # bt_insert k v m)"

text \<open>\<open>BTreeMap::range(lo..hi)\<close>: the bindings with \<open>lo \<le> key < hi\<close>, in key order.\<close>

definition bt_range :: "'k::linorder \<Rightarrow> 'k \<Rightarrow> ('k \<times> 'v) list \<Rightarrow> ('k \<times> 'v) list" where
  "bt_range lo hi m = filter (\<lambda>(k, _). lo \<le> k \<and> k < hi) m"

abbreviation bt_wf :: "('k::linorder \<times> 'v) list \<Rightarrow> bool" where
  "bt_wf m \<equiv> sorted_wrt (<) (map fst m)"

lemma set_keys_bt_insert: "fst ` set (bt_insert k v m) = insert k (fst ` set m)"
  by (induction k v m rule: bt_insert.induct) auto

lemma bt_wf_insert: "bt_wf m \<Longrightarrow> bt_wf (bt_insert k v m)"
proof (induction k v m rule: bt_insert.induct)
  case (2 k v j w m)
  then show ?case
    using set_keys_bt_insert [of k v m] by auto
qed simp

lemma map_of_bt_insert:
  "bt_wf m \<Longrightarrow> map_of (bt_insert k v m) j = (if j = k then Some v else map_of m j)"
  by (induction k v m rule: bt_insert.induct) auto

lemma strict_sorted_filter: "bt_wf m \<Longrightarrow> bt_wf (filter P m)"
  by (induction m) auto

lemma bt_wf_remove: "bt_wf m \<Longrightarrow> bt_wf (AList.delete k m)"
  by (simp add: AList.delete_eq strict_sorted_filter)

interpretation bt: rust_map "[]" map_of bt_insert AList.delete bt_wf
  by unfold_locales
    (simp_all add: bt_wf_insert bt_wf_remove map_of_bt_insert map_of_delete_iff)

lemma bt_wf_distinct: "bt_wf m \<Longrightarrow> hm_wf m"
  by (simp add: strict_sorted_iff)

lemma set_bt_insert_sub: "set (bt_insert k v m) \<subseteq> insert (k, v) (set m)"
  by (induction k v m rule: bt_insert.induct) auto

lemma length_bt_insert:
  "bt_wf m \<Longrightarrow> length (bt_insert k v m) = (if map_of m k = None then Suc (length m) else length m)"
proof (induction k v m rule: bt_insert.induct)
  case (2 k v j w m)
  then have "k < j \<Longrightarrow> map_of m k = None"
    by (auto simp: map_of_eq_None_iff)
  with 2 show ?case by auto
qed simp

lemma set_bt_range: "set (bt_range lo hi m) = {(k, v) \<in> set m. lo \<le> k \<and> k < hi}"
  by (auto simp: bt_range_def)

lemma bt_wf_range: "bt_wf m \<Longrightarrow> bt_wf (bt_range lo hi m)"
  by (simp add: bt_range_def strict_sorted_filter)

section \<open>Reachable states\<close>

inductive reachable :: "('s \<Rightarrow> bool) \<Rightarrow> ('s \<Rightarrow> 's \<Rightarrow> bool) \<Rightarrow> 's \<Rightarrow> bool"
  for init :: "'s \<Rightarrow> bool" and step :: "'s \<Rightarrow> 's \<Rightarrow> bool" where
  start: "init s \<Longrightarrow> reachable init step s"
| move: "reachable init step s \<Longrightarrow> step s t \<Longrightarrow> reachable init step t"

text \<open>A component with an invariant: it holds initially and every step keeps it.\<close>

locale inv_system =
  fixes init :: "'s \<Rightarrow> bool"
    and step :: "'s \<Rightarrow> 's \<Rightarrow> bool"
    and inv :: "'s \<Rightarrow> bool"
  assumes inv_init: "init s \<Longrightarrow> inv s"
    and inv_step: "inv s \<Longrightarrow> step s t \<Longrightarrow> inv t"
begin

lemma inv_reachable: "reachable init step s \<Longrightarrow> inv s"
  by (induction rule: reachable.induct) (auto intro: inv_init inv_step)

lemma inv_rtranclp: "step\<^sup>*\<^sup>* s t \<Longrightarrow> inv s \<Longrightarrow> inv t"
  by (induction rule: rtranclp_induct) (auto intro: inv_step)

end

end
