(* ===== verification/Primitives.thy ===== *)
theory Primitives
  imports Rust_Prelude
begin

text \<open>
  The canonical primitives every crate shares: the quorum threshold
  (\<open>savitri-consensus/src/primitives/quorum.rs\<close>), slot and epoch arithmetic
  (\<open>primitives/epoch.rs\<close> and \<open>savitri-core/src/core/unified_slot.rs\<close>) and group identifiers
  (\<open>primitives/group_id.rs\<close>, printed by \<open>savitri-masternode/src/group_formation.rs\<close>).
  The wall clock is an argument: the milliseconds since the Unix epoch, or \<open>None\<close> when the
  system clock stands before it.
\<close>

section \<open>Quorum threshold\<close>

definition quorum_for_voters :: "nat \<Rightarrow> nat" where
  "quorum_for_voters n = (if n = 0 then 0 else (2 * n + 2) div 3)"

text \<open>What a Byzantine protocol needs of a threshold: it can be met by the whole voter set, and
  it is at least two thirds of it.\<close>

locale bft_threshold =
  fixes q :: "nat \<Rightarrow> nat"
  assumes q_le: "q n \<le> n"
    and q_two_thirds: "2 * n \<le> 3 * q n"
begin

lemma q_pos: "0 < n \<Longrightarrow> 0 < q n"
  using q_two_thirds [of n] by (cases "q n") auto

text \<open>Two quorums share at least a third of the voters.\<close>

lemma overlap_third:
  assumes "finite V" "Q1 \<subseteq> V" "Q2 \<subseteq> V" "q (card V) \<le> card Q1" "q (card V) \<le> card Q2"
  shows "card V \<le> 3 * card (Q1 \<inter> Q2)"
proof -
  have fin: "finite Q1" "finite Q2" using assms finite_subset by blast+
  have "card Q1 + card Q2 = card (Q1 \<union> Q2) + card (Q1 \<inter> Q2)"
    using fin by (rule card_Un_Int)
  moreover have "card (Q1 \<union> Q2) \<le> card V" using assms by (intro card_mono) auto
  moreover have "2 * card V \<le> 3 * q (card V)" by (rule q_two_thirds)
  ultimately show ?thesis using assms(4,5) by linarith
qed

text \<open>With fewer than a third of the voters faulty, two quorums share a correct voter.\<close>

lemma overlap_correct:
  assumes "finite V" "Q1 \<subseteq> V" "Q2 \<subseteq> V" "q (card V) \<le> card Q1" "q (card V) \<le> card Q2"
    and "F \<subseteq> V" "3 * card F < card V"
  shows "\<exists>v \<in> Q1 \<inter> Q2. v \<notin> F"
proof (rule ccontr)
  assume "\<not> ?thesis"
  then have "Q1 \<inter> Q2 \<subseteq> F" by auto
  then have "card (Q1 \<inter> Q2) \<le> card F"
    using assms by (intro card_mono) (auto intro: finite_subset)
  then show False using overlap_third [OF assms(1-5)] assms(7) by linarith
qed

end

interpretation canonical: bft_threshold quorum_for_voters
  by unfold_locales (auto simp: quorum_for_voters_def)

section \<open>Slots and epochs\<close>

definition current_slot :: "u64 \<Rightarrow> u64 \<Rightarrow> u64 \<Rightarrow> u64" where
  "current_slot now_ms genesis_ms heartbeat_ms =
    (if heartbeat_ms = 0 \<or> now_ms \<le> genesis_ms then 0
     else (now_ms - genesis_ms) div heartbeat_ms)"

definition current_epoch :: "u64 \<Rightarrow> u64 \<Rightarrow> u64 \<Rightarrow> u64 \<Rightarrow> u64" where
  "current_epoch now_ms genesis_ms heartbeat_ms slots_per_epoch =
    (let spe = max slots_per_epoch 1
     in current_slot now_ms genesis_ms heartbeat_ms div spe)"

lemma unat_current_slot [rust_int]:
  "unat (current_slot now g h) = (unat now - unat g) div unat h"
  by (auto simp: current_slot_def unat_div unat_sub word_le_nat_alt word_less_nat_alt)

lemma unat_current_epoch [rust_int]:
  "unat (current_epoch now g h spe) = (unat now - unat g) div (unat h * max (unat spe) 1)"
  by (simp add: current_epoch_def Let_def unat_div unat_current_slot unat_word_max div_mult2_eq)

text \<open>The unified slot configuration (\<open>UnifiedSlotConfig\<close>).\<close>

record UnifiedSlotConfig =
  heartbeat_interval_ms :: u64
  slots_per_epoch :: u64
  monolith_epoch_ms :: u64
  genesis_timestamp_ms :: u64

definition usc_default :: UnifiedSlotConfig where
  "usc_default = \<lparr> heartbeat_interval_ms = 5000, slots_per_epoch = 20,
     monolith_epoch_ms = 86400000, genesis_timestamp_ms = 0 \<rparr>"

definition usc_new :: "u64 \<Rightarrow> u64 \<Rightarrow> u64 \<Rightarrow> u64 \<Rightarrow> UnifiedSlotConfig" where
  "usc_new h s m g = \<lparr> heartbeat_interval_ms = max h 1, slots_per_epoch = max s 1,
     monolith_epoch_ms = m, genesis_timestamp_ms = g \<rparr>"

definition epochs_per_monolith :: "UnifiedSlotConfig \<Rightarrow> u64" where
  "epochs_per_monolith c =
    (let epoch_ms = saturating_mul (heartbeat_interval_ms c) (slots_per_epoch c)
     in if epoch_ms = 0 then 864 else monolith_epoch_ms c div epoch_ms)"

datatype clock_error = ClockBeforeEpoch | TimeBeyondU64

definition elapsed_ms :: "nat option \<Rightarrow> UnifiedSlotConfig \<Rightarrow> clock_error + u64" where
  "elapsed_ms clock c = (case clock of
      None \<Rightarrow> Inl ClockBeforeEpoch
    | Some now \<Rightarrow>
        if now < 2 ^ 64 then Inr (saturating_sub (word_of_nat now) (genesis_timestamp_ms c))
        else Inl TimeBeyondU64)"

definition usc_current_slot :: "nat option \<Rightarrow> UnifiedSlotConfig \<Rightarrow> clock_error + u64" where
  "usc_current_slot clock c =
    map_sum id (\<lambda>e. e div max (heartbeat_interval_ms c) 1) (elapsed_ms clock c)"

definition usc_current_epoch :: "nat option \<Rightarrow> UnifiedSlotConfig \<Rightarrow> clock_error + u64" where
  "usc_current_epoch clock c =
    map_sum id (\<lambda>s. s div max (slots_per_epoch c) 1) (usc_current_slot clock c)"

definition usc_current_round :: "nat option \<Rightarrow> UnifiedSlotConfig \<Rightarrow> clock_error + u32" where
  "usc_current_round clock c =
    map_sum id (\<lambda>s. ucast (s mod max (slots_per_epoch c) 1)) (usc_current_slot clock c)"

definition usc_current_monolith_epoch :: "nat option \<Rightarrow> UnifiedSlotConfig \<Rightarrow> clock_error + u64" where
  "usc_current_monolith_epoch clock c =
    map_sum id (\<lambda>e. e div max (epochs_per_monolith c) 1) (usc_current_epoch clock c)"

definition epoch_duration_ms :: "UnifiedSlotConfig \<Rightarrow> u64" where
  "epoch_duration_ms c = saturating_mul (heartbeat_interval_ms c) (slots_per_epoch c)"

definition slot_start_ms :: "UnifiedSlotConfig \<Rightarrow> u64 \<Rightarrow> u64" where
  "slot_start_ms c slot =
    saturating_add (genesis_timestamp_ms c) (saturating_mul slot (heartbeat_interval_ms c))"

definition at_timestamp_ms :: "UnifiedSlotConfig \<Rightarrow> u64 \<Rightarrow> u64 \<times> u64 \<times> u32" where
  "at_timestamp_ms c timestamp_ms =
    (let elapsed = saturating_sub timestamp_ms (genesis_timestamp_ms c);
         slot = elapsed div max (heartbeat_interval_ms c) 1;
         epoch = slot div max (slots_per_epoch c) 1;
         round = ucast (slot mod max (slots_per_epoch c) 1)
     in (slot, epoch, round))"

definition is_monolith_boundary :: "nat option \<Rightarrow> UnifiedSlotConfig \<Rightarrow> clock_error + bool" where
  "is_monolith_boundary clock c =
    map_sum id (\<lambda>elapsed.
      let epoch_ms = epoch_duration_ms c in
      if epoch_ms = 0 then False
      else let current_epoch = elapsed div epoch_ms; m = epochs_per_monolith c in
      if m = 0 then False
      else let time_in_epoch = elapsed mod epoch_ms
           in current_epoch mod m = 0 \<and> time_in_epoch < heartbeat_interval_ms c)
     (elapsed_ms clock c)"

section \<open>Group identifiers\<close>

text \<open>Decimal printing of a \<open>usize\<close> or \<open>u64\<close> by \<open>format!\<close>, \<open>str::split\<close> on a character,
  and \<open>str::parse::<usize>\<close>: an optional plus sign, at least one digit, no overflow.\<close>

definition digit_char :: "nat \<Rightarrow> char" where
  "digit_char d = char_of (48 + d)"

fun dec :: "nat \<Rightarrow> string" where
  "dec n = (if n < 10 then [digit_char n] else dec (n div 10) @ [digit_char (n mod 10)])"

declare dec.simps [simp del]

fun split_on :: "char \<Rightarrow> string \<Rightarrow> string list" where
  "split_on c [] = [[]]"
| "split_on c (x # xs) =
    (if x = c then [] # split_on c xs
     else case split_on c xs of [] \<Rightarrow> [[x]] | p # ps \<Rightarrow> (x # p) # ps)"

definition digit_val :: "char \<Rightarrow> nat option" where
  "digit_val c = (let n = of_char c in if 48 \<le> n \<and> n \<le> 57 then Some (n - 48) else None)"

fun parse_digits :: "nat \<Rightarrow> string \<Rightarrow> nat option" where
  "parse_digits acc [] = Some acc"
| "parse_digits acc (c # cs) = (case digit_val c of
      None \<Rightarrow> None
    | Some d \<Rightarrow> if acc * 10 + d < 2 ^ 64 then parse_digits (acc * 10 + d) cs else None)"

definition parse_usize :: "string \<Rightarrow> nat option" where
  "parse_usize s = (case s of
      [] \<Rightarrow> None
    | c # cs \<Rightarrow> if c = CHR ''+'' then (if cs = [] then None else parse_digits 0 cs)
               else parse_digits 0 s)"

definition group_index_from_id :: "string \<Rightarrow> nat option" where
  "group_index_from_id group_id =
    (case split_on CHR ''_'' group_id of
       first # second # third # _ \<Rightarrow>
         if first \<noteq> ''group'' then None
         else if second = ''singleton'' then parse_usize third
         else parse_usize third
     | _ \<Rightarrow> None)"

text \<open>The identifier printed by group formation, with and without
  \<open>SAVITRI_FORCE_SINGLE_GROUP\<close>.\<close>

definition make_group_id :: "bool \<Rightarrow> nat \<Rightarrow> nat \<Rightarrow> string" where
  "make_group_id force_single epoch index =
    (if force_single then ''group_singleton_'' @ dec index
     else ''group_'' @ dec epoch @ ''_'' @ dec index @ ''_'' @ dec epoch)"

section \<open>Lemmas\<close>

subsection \<open>Printing and parsing decimal numbers\<close>

lemma digit_val_digit_char [simp]: "d < 10 \<Longrightarrow> digit_val (digit_char d) = Some d"
  by (simp add: digit_val_def digit_char_def)

lemma digit_char_neq:
  "d < 10 \<Longrightarrow> digit_char d \<noteq> CHR ''_''"
  "d < 10 \<Longrightarrow> digit_char d \<noteq> CHR ''+''"
proof -
  have "of_char (digit_char d) = 48 + d" if "d < 10" for d
    using that by (simp add: digit_char_def)
  moreover have "of_char CHR ''_'' = (95::nat)" "of_char CHR ''+'' = (43::nat)" by simp_all
  ultimately show "d < 10 \<Longrightarrow> digit_char d \<noteq> CHR ''_''" "d < 10 \<Longrightarrow> digit_char d \<noteq> CHR ''+''"
    by force+
qed

lemma dec_digits: "set (dec n) \<subseteq> digit_char ` {..<10}"
proof (induction n rule: dec.induct)
  case (1 n)
  then show ?case by (subst dec.simps) auto
qed

lemma dec_nonempty [simp]: "dec n \<noteq> []"
  by (subst dec.simps) simp

lemma dec_no_sep: "CHR ''_'' \<notin> set (dec n)" "CHR ''+'' \<notin> set (dec n)"
  using dec_digits [of n] digit_char_neq by fastforce+

lemma parse_digits_append:
  "parse_digits acc (xs @ ys) = Option.bind (parse_digits acc xs) (\<lambda>a. parse_digits a ys)"
  by (induction acc xs rule: parse_digits.induct) (auto split: option.splits)

lemma parse_digits_dec: "n < 2 ^ 64 \<Longrightarrow> parse_digits 0 (dec n) = Some n"
proof (induction n rule: dec.induct)
  case (1 n)
  show ?case
  proof (cases "n < 10")
    case True
    then show ?thesis by (subst dec.simps) simp
  next
    case False
    with 1 have "parse_digits 0 (dec (n div 10)) = Some (n div 10)" by simp
    moreover have "n div 10 * 10 + n mod 10 = n" by simp
    ultimately show ?thesis
      using False 1(2) by (subst dec.simps) (simp add: parse_digits_append)
  qed
qed

lemma parse_usize_dec: "n < 2 ^ 64 \<Longrightarrow> parse_usize (dec n) = Some n"
  using dec_no_sep(2) [of n]
  by (cases "dec n") (auto simp: parse_usize_def parse_digits_dec [symmetric] simp del: parse_digits.simps)

lemma split_on_none: "c \<notin> set xs \<Longrightarrow> split_on c xs = [xs]"
  by (induction xs) auto

lemma split_on_sep: "c \<notin> set xs \<Longrightarrow> split_on c (xs @ c # ys) = xs # split_on c ys"
  by (induction xs) auto

lemma dec_not_word: "dec n \<noteq> ''singleton''"
proof
  assume *: "dec n = ''singleton''"
  obtain d where "d < 10" "CHR ''s'' = digit_char d" using dec_digits [of n] * by auto
  then have "digit_val CHR ''s'' \<noteq> None" by simp
  then show False by (simp add: digit_val_def)
qed

subsection \<open>Slots\<close>

lemma at_timestamp_fields:
  "at_timestamp_ms c t = (slot, epoch, round) \<Longrightarrow>
   unat slot = (unat t - unat (genesis_timestamp_ms c)) div max (unat (heartbeat_interval_ms c)) 1 \<and>
   unat epoch = unat slot div max (unat (slots_per_epoch c)) 1 \<and>
   unat round = unat slot mod max (unat (slots_per_epoch c)) 1 mod 2 ^ 32"
  by (auto simp: at_timestamp_ms_def Let_def unat_div unat_mod unat_word_max unat_saturating_sub
        unsigned_ucast_eq take_bit_eq_mod)

lemma unat_slot_start_ms:
  assumes "unat (genesis_timestamp_ms c) + unat s * unat (heartbeat_interval_ms c) < 2 ^ 64"
  shows "unat (slot_start_ms c s) =
    unat (genesis_timestamp_ms c) + unat s * unat (heartbeat_interval_ms c)"
  using assms by (simp add: slot_start_ms_def unat_saturating_add unat_saturating_mul)

lemma epochs_per_monolith_default: "epochs_per_monolith usc_default = 864"
  by (simp add: epochs_per_monolith_def usc_default_def saturating_mul_def checked_mul_def)

lemma unat_u64_of_nat: "n < 2 ^ 64 \<Longrightarrow> unat (word_of_nat n :: u64) = n"
  by (simp add: unsigned_of_nat take_bit_nat_eq_self)

lemma max_one_pos: "0 < (h :: u64) \<Longrightarrow> max h 1 = h"
  by (auto simp: word_unat_eq_iff unat_word_max word_less_nat_alt)

lemma usc_current_slot_canonical:
  assumes "now < 2 ^ 64" "0 < heartbeat_interval_ms c"
  shows "usc_current_slot (Some now) c =
    Inr (current_slot (word_of_nat now) (genesis_timestamp_ms c) (heartbeat_interval_ms c))"
proof -
  have "saturating_sub (word_of_nat now) g div h = current_slot (word_of_nat now) g h" for g h :: u64
    by (simp add: word_unat_eq_iff unat_div unat_saturating_sub unat_current_slot)
  with assms show ?thesis by (simp add: usc_current_slot_def elapsed_ms_def max_one_pos)
qed

lemma usc_current_epoch_canonical:
  assumes "now < 2 ^ 64" "0 < heartbeat_interval_ms c"
  shows "usc_current_epoch (Some now) c =
    Inr (current_epoch (word_of_nat now) (genesis_timestamp_ms c) (heartbeat_interval_ms c)
           (slots_per_epoch c))"
  using usc_current_slot_canonical [OF assms]
  by (simp add: usc_current_epoch_def current_epoch_def)

section \<open>Properties\<close>

text \<open>The canonical quorum is safe: in a voter set of any size, two sets of voters that each
  reach \<open>quorum_for_voters\<close> share a voter outside every set of faulty voters smaller than a third
  of the voter set.\<close>

theorem quorum_intersection:
  assumes "finite V" "Q1 \<subseteq> V" "Q2 \<subseteq> V"
    and "quorum_for_voters (card V) \<le> card Q1" "quorum_for_voters (card V) \<le> card Q2"
    and "F \<subseteq> V" "3 * card F < card V"
  shows "\<exists>v \<in> Q1 \<inter> Q2. v \<notin> F"
  using assms by (rule canonical.overlap_correct)

theorem quorum_intersection_witness:
  "\<exists>v \<in> {0, 1, 2} \<inter> {1, 2, 3}. v \<notin> {1::nat}"
  by (rule quorum_intersection [of "{0, 1, 2, 3::nat}"]) (simp_all add: quorum_for_voters_def)

text \<open>Group identifiers round-trip: whatever the epoch and the deployment mode, the index
  parsed from the identifier printed by group formation is the group's index, so that two
  identifiers of one group under different epochs are matched to the same group.\<close>

theorem group_id_roundtrip:
  assumes "index < 2 ^ 64"
  shows "group_index_from_id (make_group_id force_single epoch index) = Some index"
proof (cases force_single)
  case True
  have "make_group_id force_single epoch index = ''group'' @ CHR ''_'' # ''singleton'' @ CHR ''_'' # dec index"
    using True by (simp add: make_group_id_def)
  then have "split_on CHR ''_'' (make_group_id force_single epoch index) = [''group'', ''singleton'', dec index]"
    by (simp only: split_on_sep split_on_none dec_no_sep) (simp add: split_on_none dec_no_sep)
  with assms show ?thesis by (simp add: group_index_from_id_def parse_usize_dec)
next
  case False
  have "make_group_id force_single epoch index =
      ''group'' @ CHR ''_'' # dec epoch @ CHR ''_'' # dec index @ CHR ''_'' # dec epoch"
    using False by (simp add: make_group_id_def)
  moreover have "CHR ''_'' \<notin> set ''group''" by simp
  ultimately have "split_on CHR ''_'' (make_group_id force_single epoch index) =
      [''group'', dec epoch, dec index, dec epoch]"
    by (simp only: split_on_sep split_on_none dec_no_sep not_False_eq_True)
  with assms show ?thesis by (simp add: group_index_from_id_def parse_usize_dec)
qed

theorem group_id_roundtrip_witness:
  "group_index_from_id (make_group_id False 17 4) = Some 4"
  by (rule group_id_roundtrip) simp

text \<open>The two slot clocks agree and are monotone: with a positive heartbeat and at least one
  slot per epoch the unified configuration reports the slot and epoch of the canonical functions,
  the epoch is the whole number of \<open>heartbeat * slots\<close> periods since genesis, and a later clock
  never gives an earlier epoch.\<close>

theorem epoch_clock:
  fixes now later :: nat
  assumes "now \<le> later" "later < 2 ^ 64"
    and "c = \<lparr> heartbeat_interval_ms = h, slots_per_epoch = s, monolith_epoch_ms = m,
           genesis_timestamp_ms = g \<rparr>"
    and "0 < h" "0 < s"
  shows "usc_current_slot (Some now) c = Inr (current_slot (word_of_nat now) g h) \<and>
    usc_current_epoch (Some now) c = Inr (current_epoch (word_of_nat now) g h s) \<and>
    unat (current_epoch (word_of_nat now) g h s) = (now - unat g) div (unat h * unat s) \<and>
    current_epoch (word_of_nat now) g h s \<le> current_epoch (word_of_nat later) g h s"
proof -
  have u: "unat (word_of_nat now :: u64) = now" "unat (word_of_nat later :: u64) = later"
    using assms by (simp_all add: unat_u64_of_nat)
  have "max (unat s) 1 = unat s" using assms by (simp add: word_less_nat_alt)
  then have "unat (current_epoch (word_of_nat now) g h s) = (now - unat g) div (unat h * unat s)"
    by (simp add: unat_current_epoch u)
  moreover have "current_epoch (word_of_nat now) g h s \<le> current_epoch (word_of_nat later) g h s"
    using assms(1) by (simp add: word_le_nat_alt unat_current_epoch u div_le_mono)
  ultimately show ?thesis
    using assms usc_current_slot_canonical [of now c] usc_current_epoch_canonical [of now c] by simp
qed

theorem epoch_clock_witness:
  "usc_current_slot (Some 260000) usc_default = Inr (current_slot (word_of_nat 260000) 0 5000) \<and>
   usc_current_epoch (Some 260000) usc_default = Inr (current_epoch (word_of_nat 260000) 0 5000 20) \<and>
   unat (current_epoch (word_of_nat 260000) 0 5000 20) = 2"
  using epoch_clock [of 260000 300000 usc_default 5000 20 86400000 0]
  by (simp add: usc_default_def)

text \<open>Slots partition time: the start of a slot is mapped back to that slot, and the slot
  decomposes into its epoch and its round within the epoch, the round below the epoch length.\<close>

theorem slot_start_roundtrip:
  assumes "unat (genesis_timestamp_ms c) + unat s * unat (heartbeat_interval_ms c) < 2 ^ 64"
    and "0 < heartbeat_interval_ms c" "0 < slots_per_epoch c" "slots_per_epoch c \<le> 2 ^ 32"
    and "at_timestamp_ms c (slot_start_ms c s) = (slot, epoch, round)"
  shows "slot = s \<and> unat s = unat epoch * unat (slots_per_epoch c) + unat round \<and>
    unat round < unat (slots_per_epoch c)"
proof -
  let ?S = "unat (slots_per_epoch c)"
  have pos: "0 < unat (heartbeat_interval_ms c)" "0 < ?S"
    using assms(2,3) by (simp_all add: word_less_nat_alt)
  have "unat (2 ^ 32 :: u64) = 2 ^ 32" by simp
  then have S: "?S \<le> 2 ^ 32" using assms(4) by (simp add: word_le_nat_alt)
  note f = at_timestamp_fields [OF assms(5)]
  have slot: "unat slot = unat s"
    using f pos by (simp add: unat_slot_start_ms [OF assms(1)] max_absorb1)
  have "unat slot mod ?S < 2 ^ 32" using S pos by (meson mod_less_divisor order_less_le_trans)
  then have "unat round = unat slot mod ?S" using f pos by (simp add: max_absorb1)
  moreover have "unat epoch = unat slot div ?S" using f pos by (simp add: max_absorb1)
  ultimately show ?thesis using slot pos by (simp add: word_unat_eq_iff)
qed

theorem slot_start_roundtrip_witness:
  "at_timestamp_ms usc_default (slot_start_ms usc_default 47) = (47, 2, 7) \<and>
   unat (47 :: u64) = unat (2 :: u64) * unat (20 :: u64) + unat (7 :: u32)"
proof -
  have at: "at_timestamp_ms usc_default (slot_start_ms usc_default 47) = (47, 2, 7)"
    by (simp add: at_timestamp_ms_def slot_start_ms_def usc_default_def saturating_add_def
        saturating_mul_def saturating_sub_def checked_add_def checked_mul_def checked_sub_def max_one_pos)
  then show ?thesis
    using slot_start_roundtrip [of usc_default 47 47 2 7] by (simp add: usc_default_def)
qed

end
