(* ===== verification/Lattice.thy ===== *)
theory Lattice
  imports Primitives
begin

text \<open>
  The lattice (DAG) layer of consensus: the cell types of
  \<open>savitri-consensus/src/types/lattice.rs\<close> and the attestation aggregator of
  \<open>savitri-consensus/src/lattice/aggregator.rs\<close>.  The aggregator's state is the record
  \<open>LatticeAggregator\<close>: cells waiting for attestations, keyed by cell id, and certified cells,
  keyed by round and author.  Its operations are \<open>observe_cell\<close>, \<open>observe_attestation\<close>,
  \<open>gc_old_cells\<close> and \<open>set_group_size\<close>; \<open>agg_step\<close> is one call of any of them and \<open>agg_inv\<close> the
  invariant.  A call of \<open>certified_at_round\<close> at the last round panics (its range bound wraps
  around), which is the value \<open>None\<close>.
\<close>

section \<open>Cells and certificates\<close>

type_synonym CellId = bytes

record LatticeCell =
  round :: u64
  group_id :: string
  author :: string
  author_pubkey :: bytes
  parents :: "CellId list"
  batch_root :: bytes
  author_signature :: bytes

definition signable_bytes :: "LatticeCell \<Rightarrow> bytes" where
  "signable_bytes c =
     str_bytes ''savitri-lattice-cell-v1|'' @ le_bytes 8 (round c) @ str_bytes ''|'' @
     str_bytes (group_id c) @ str_bytes ''|'' @
     str_bytes (author c) @ str_bytes ''|'' @
     author_pubkey c @ str_bytes ''|'' @
     concat (parents c) @ str_bytes ''|'' @
     batch_root c"

definition with_sorted_parents ::
  "u64 \<Rightarrow> string \<Rightarrow> string \<Rightarrow> bytes \<Rightarrow> CellId list \<Rightarrow> bytes \<Rightarrow> bytes \<Rightarrow> LatticeCell" where
  "with_sorted_parents r gid auth pk ps root sig =
     \<lparr> round = r, group_id = gid, author = auth, author_pubkey = pk, parents = sort ps,
       batch_root = root, author_signature = sig \<rparr>"

definition cell_id :: "crypto \<Rightarrow> LatticeCell \<Rightarrow> CellId" where
  "cell_id cr c = blake3 cr (signable_bytes c)"

definition verify_author_signature :: "crypto \<Rightarrow> LatticeCell \<Rightarrow> bool" where
  "verify_author_signature cr c =
     verify_with cr (author_pubkey c) (signable_bytes c) (author_signature c)"

record CellAttestation =
  signer :: string
  signer_pubkey :: bytes
  signature :: bytes

record CellCertificate =
  cell :: LatticeCell
  attestations :: "CellAttestation list"

definition attestation_count :: "CellCertificate \<Rightarrow> nat" where
  "attestation_count c = length (attestations c)"

definition cert_cell_id :: "crypto \<Rightarrow> CellCertificate \<Rightarrow> CellId" where
  "cert_cell_id cr c = cell_id cr (cell c)"

record Cycle =
  index :: u64
  cycle_group_id :: string
  pivot :: string
  pivot_cell :: CellId
  committed_cells :: "CellId list"

definition anchor_round :: "Cycle \<Rightarrow> u64" where
  "anchor_round cy = saturating_mul (index cy) 2"

definition follow_round :: "Cycle \<Rightarrow> u64" where
  "follow_round cy = saturating_add (saturating_mul (index cy) 2) 1"

definition did_commit :: "Cycle \<Rightarrow> bool" where
  "did_commit cy \<longleftrightarrow> committed_cells cy \<noteq> []"

definition lattice_quorum :: "nat \<Rightarrow> nat" where
  "lattice_quorum group_size =
     (if group_size = 0 then 0 else let f = (group_size - 1) div 3 in 2 * f + 1)"

section \<open>The aggregator\<close>

record AggregatorConfig =
  group_size :: nat
  retention_rounds :: u64
  max_attestations_per_cell :: nat

definition default_aggregator_config :: AggregatorConfig where
  "default_aggregator_config =
     \<lparr> group_size = 5, retention_rounds = 64, max_attestations_per_cell = 256 \<rparr>"

datatype AggregatorError =
    BadCellSignature
  | BadAttestationSignature
  | UnknownCell CellId
  | AttestationCapReached

datatype AttestationOutcome =
    Pending nat nat
  | Certified CellCertificate
  | AlreadyCertified
  | Rejected AggregatorError

record PendingCell =
  pcell :: LatticeCell
  patts :: "(string \<times> CellAttestation) list"

record LatticeAggregator =
  config :: AggregatorConfig
  pending :: "(CellId \<times> PendingCell) list"
  certified :: "((u64 \<times> string) \<times> CellCertificate) list"
  high_water_round :: u64

definition new_aggregator :: "AggregatorConfig \<Rightarrow> LatticeAggregator" where
  "new_aggregator cfg =
     \<lparr> config = cfg, pending = [], certified = [], high_water_round = 0 \<rparr>"

definition set_group_size :: "nat \<Rightarrow> LatticeAggregator \<Rightarrow> LatticeAggregator" where
  "set_group_size n a = a\<lparr> config := (config a)\<lparr> group_size := n \<rparr> \<rparr>"

definition quorum :: "LatticeAggregator \<Rightarrow> nat" where
  "quorum a = lattice_quorum (group_size (config a))"

definition observe_cell ::
  "crypto \<Rightarrow> LatticeCell \<Rightarrow> LatticeAggregator \<Rightarrow> LatticeAggregator \<times> (AggregatorError + CellId)" where
  "observe_cell cr c a =
    (if \<not> verify_author_signature cr c then (a, Inl BadCellSignature)
     else
       let cid = cell_id cr c;
           a = (if high_water_round a < round c then a\<lparr> high_water_round := round c \<rparr> else a)
       in if map_of (certified a) (round c, author c) \<noteq> None then (a, Inr cid)
          else
            (case map_of (pending a) cid of
               Some _ \<Rightarrow> (a, Inr cid)
             | None \<Rightarrow>
                 (a\<lparr> pending := AList.update cid \<lparr> pcell = c, patts = [] \<rparr> (pending a) \<rparr>, Inr cid)))"

definition verify_attestation_against_cell :: "crypto \<Rightarrow> CellAttestation \<Rightarrow> LatticeCell \<Rightarrow> bool" where
  "verify_attestation_against_cell cr att c =
     verify_with cr (signer_pubkey att) (signable_bytes c) (signature att)"

definition observe_attestation ::
  "crypto \<Rightarrow> CellId \<Rightarrow> CellAttestation \<Rightarrow> LatticeAggregator \<Rightarrow> LatticeAggregator \<times> AttestationOutcome" where
  "observe_attestation cr cid att a =
    (case map_of (pending a) cid of
       None \<Rightarrow>
         (case find (\<lambda>(_, c). cert_cell_id cr c = cid) (certified a) of
            Some _ \<Rightarrow> (a, AlreadyCertified)
          | None \<Rightarrow> (a, Rejected (UnknownCell cid)))
     | Some p \<Rightarrow>
         if \<not> verify_attestation_against_cell cr att (pcell p)
         then (a, Rejected BadAttestationSignature)
         else if max_attestations_per_cell (config a) \<le> length (patts p) \<and>
                 map_of (patts p) (signer att) = None
         then (a, Rejected AttestationCapReached)
         else
           let p = p\<lparr> patts := AList.update (signer att) att (patts p) \<rparr>;
               a = a\<lparr> pending := AList.update cid p (pending a) \<rparr>;
               signer_count = length (patts p);
               quorum = lattice_quorum (group_size (config a))
           in if quorum \<le> signer_count then
                let atts = sort_key signer (map snd (patts p));
                    cert = \<lparr> cell = pcell p, attestations = atts \<rparr>
                in (a\<lparr> pending := AList.delete cid (pending a),
                       certified := bt_insert (round (pcell p), author (pcell p)) cert (certified a) \<rparr>,
                    Certified cert)
              else (a, Pending signer_count quorum))"

definition gc_old_cells :: "LatticeAggregator \<Rightarrow> LatticeAggregator \<times> nat" where
  "gc_old_cells a =
    (let cutoff = saturating_sub (high_water_round a) (retention_rounds (config a));
         kept = filter (\<lambda>(_, p). \<not> round (pcell p) < cutoff) (pending a);
         to_drop = filter (\<lambda>(r, _). r < cutoff) (map fst (certified a));
         certs = fold AList.delete to_drop (certified a)
     in (a\<lparr> pending := kept, certified := certs \<rparr>,
         (length (pending a) - length kept) + length to_drop))"

definition certified_at_round :: "u64 \<Rightarrow> LatticeAggregator \<Rightarrow> CellCertificate list option" where
  "certified_at_round r a =
    (let lo = (r, ''''); hi = (r + 1, '''')
     in if hi < lo then None else Some (map snd (bt_range lo hi (certified a))))"

definition certified_get :: "u64 \<Rightarrow> string \<Rightarrow> LatticeAggregator \<Rightarrow> CellCertificate option" where
  "certified_get r auth a = map_of (certified a) (r, auth)"

definition certified_count :: "LatticeAggregator \<Rightarrow> nat" where
  "certified_count a = length (certified a)"

definition pending_count :: "LatticeAggregator \<Rightarrow> nat" where
  "pending_count a = length (pending a)"

section \<open>Invariant\<close>

text \<open>A pending entry: stored under its cell's id, signed by its author, at most one attestation
  per signer name, each verified against the cell, within the cap.\<close>

definition pending_ok :: "crypto \<Rightarrow> nat \<Rightarrow> u64 \<Rightarrow> CellId \<times> PendingCell \<Rightarrow> bool" where
  "pending_ok cr cap high = (\<lambda>(cid, p).
     cid = cell_id cr (pcell p) \<and> verify_author_signature cr (pcell p) \<and> round (pcell p) \<le> high \<and>
     hm_wf (patts p) \<and> length (patts p) \<le> cap \<and>
     (\<forall>(s, att) \<in> set (patts p). s = signer att \<and> verify_attestation_against_cell cr att (pcell p)))"

text \<open>A certificate: stored under its cell's round and author, with at least \<open>q\<close> verified
  attestations by signers of different names in ascending order.\<close>

definition cert_ok :: "crypto \<Rightarrow> nat \<Rightarrow> u64 \<Rightarrow> (u64 \<times> string) \<times> CellCertificate \<Rightarrow> bool" where
  "cert_ok cr q high = (\<lambda>(k, c).
     k = (round (cell c), author (cell c)) \<and> verify_author_signature cr (cell c) \<and>
     round (cell c) \<le> high \<and> q \<le> attestation_count c \<and>
     sorted_wrt (<) (map signer (attestations c)) \<and>
     (\<forall>att \<in> set (attestations c). verify_attestation_against_cell cr att (cell c)))"

definition agg_inv :: "crypto \<Rightarrow> nat \<Rightarrow> LatticeAggregator \<Rightarrow> bool" where
  "agg_inv cr q a \<longleftrightarrow>
     hm_wf (pending a) \<and> bt_wf (certified a) \<and> q \<le> quorum a \<and>
     (\<forall>x \<in> set (pending a).
        pending_ok cr (max_attestations_per_cell (config a)) (high_water_round a) x) \<and>
     (\<forall>x \<in> set (certified a). cert_ok cr q (high_water_round a) x)"

text \<open>One call of an operation.  The group may be resized while its quorum stays at least \<open>q\<close>.\<close>

inductive agg_step :: "crypto \<Rightarrow> nat \<Rightarrow> LatticeAggregator \<Rightarrow> LatticeAggregator \<Rightarrow> bool"
  for cr :: crypto and q :: nat where
  cell: "agg_step cr q a (fst (observe_cell cr c a))"
| attestation: "agg_step cr q a (fst (observe_attestation cr cid att a))"
| gc: "agg_step cr q a (fst (gc_old_cells a))"
| resize: "q \<le> lattice_quorum n \<Longrightarrow> agg_step cr q a (set_group_size n a)"

definition agg_init :: "nat \<Rightarrow> LatticeAggregator \<Rightarrow> bool" where
  "agg_init q a \<longleftrightarrow> (\<exists>cfg. q \<le> lattice_quorum (group_size cfg) \<and> a = new_aggregator cfg)"

subsection \<open>Preservation\<close>

lemma pending_ok_high: "pending_ok cr cap h x \<Longrightarrow> h \<le> h' \<Longrightarrow> pending_ok cr cap h' x"
  by (auto simp: pending_ok_def)

lemma cert_ok_high: "cert_ok cr q h x \<Longrightarrow> h \<le> h' \<Longrightarrow> cert_ok cr q h' x"
  by (auto simp: cert_ok_def)

lemma agg_inv_raise_high:
  assumes "agg_inv cr q a" "high_water_round a \<le> h"
  shows "agg_inv cr q (a\<lparr> high_water_round := h \<rparr>)"
  using assms by (auto simp: agg_inv_def quorum_def intro: pending_ok_high cert_ok_high)

lemma agg_inv_pending:
  assumes "agg_inv cr q a"
    and "pending_ok cr (max_attestations_per_cell (config a)) (high_water_round a) (cid, p)"
  shows "agg_inv cr q (a\<lparr> pending := AList.update cid p (pending a) \<rparr>)"
  using assms set_update_sub [of cid p "pending a"]
  by (auto simp: agg_inv_def quorum_def distinct_update)

lemma agg_inv_observe_cell:
  assumes "agg_inv cr q a"
  shows "agg_inv cr q (fst (observe_cell cr c a))"
proof -
  define b where "b = (if high_water_round a < round c then a\<lparr> high_water_round := round c \<rparr> else a)"
  have b: "agg_inv cr q b" "round c \<le> high_water_round b"
    using assms agg_inv_raise_high [of cr q a "round c"] by (auto simp: b_def)
  have new: "pending_ok cr (max_attestations_per_cell (config b)) (high_water_round b)
      (cell_id cr c, \<lparr> pcell = c, patts = [] \<rparr>)" if "verify_author_signature cr c"
    using that b by (simp add: pending_ok_def)
  show ?thesis
    unfolding observe_cell_def Let_def b_def [symmetric]
    using assms b agg_inv_pending [OF b(1) new] by (auto split: option.split)
qed

text \<open>The certificate that a pending entry at quorum turns into.\<close>

lemma certify_ok:
  assumes "pending_ok cr cap h (cid, p)" "q \<le> length (patts p)"
  shows "cert_ok cr q h ((round (pcell p), author (pcell p)),
    \<lparr> cell = pcell p, attestations = sort_key signer (map snd (patts p)) \<rparr>)"
proof -
  let ?atts = "map snd (patts p)"
  have "map signer ?atts = map fst (patts p)"
    using assms(1) by (auto simp: pending_ok_def)
  then have "distinct (map signer ?atts)"
    using assms(1) by (simp only: pending_ok_def prod.case)
  then have "sorted_wrt (<) (map signer (sort_key signer ?atts))"
    by (rule strict_sorted_sort_key)
  with assms show ?thesis
    by (auto simp: cert_ok_def pending_ok_def attestation_count_def)
qed

lemma pending_ok_attest:
  assumes "pending_ok cr cap h (cid, p)" "verify_attestation_against_cell cr att (pcell p)"
    and "\<not> (cap \<le> length (patts p) \<and> map_of (patts p) (signer att) = None)"
  shows "pending_ok cr cap h (cid, p\<lparr> patts := AList.update (signer att) att (patts p) \<rparr>)"
proof -
  let ?m = "AList.update (signer att) att (patts p)"
  have "length ?m \<le> cap"
    using assms(1,3) by (auto simp: pending_ok_def length_update)
  moreover have "hm_wf ?m" using assms(1) by (simp add: pending_ok_def distinct_update)
  moreover have "s = signer x \<and> verify_attestation_against_cell cr x (pcell p)" if "(s, x) \<in> set ?m" for s x
  proof -
    have "(s, x) = (signer att, att) \<or> (s, x) \<in> set (patts p)"
      using that set_update_sub by fastforce
    then show ?thesis using assms(1,2) by (auto simp: pending_ok_def)
  qed
  ultimately show ?thesis using assms(1) by (auto simp: pending_ok_def)
qed

lemma agg_inv_certify:
  assumes "agg_inv cr q a" "cert_ok cr q (high_water_round a) (k, c)"
  shows "agg_inv cr q (a\<lparr> pending := AList.delete cid (pending a),
                          certified := bt_insert k c (certified a) \<rparr>)"
  using assms set_delete_sub [of cid "pending a"] set_bt_insert_sub [of k c "certified a"]
  by (auto simp: agg_inv_def quorum_def distinct_delete bt_wf_insert)

text \<open>What an accepted attestation does to the state.\<close>

definition attested :: "CellAttestation \<Rightarrow> PendingCell \<Rightarrow> PendingCell" where
  "attested att p = p\<lparr> patts := AList.update (signer att) att (patts p) \<rparr>"

definition cert_of :: "PendingCell \<Rightarrow> CellCertificate" where
  "cert_of p = \<lparr> cell = pcell p, attestations = sort_key signer (map snd (patts p)) \<rparr>"

definition certify :: "CellId \<Rightarrow> PendingCell \<Rightarrow> LatticeAggregator \<Rightarrow> LatticeAggregator" where
  "certify cid p a = a\<lparr> pending := AList.delete cid (pending a),
     certified := bt_insert (round (pcell p), author (pcell p)) (cert_of p) (certified a) \<rparr>"

definition admissible :: "crypto \<Rightarrow> CellAttestation \<Rightarrow> PendingCell \<Rightarrow> LatticeAggregator \<Rightarrow> bool" where
  "admissible cr att p a \<longleftrightarrow> verify_attestation_against_cell cr att (pcell p) \<and>
     \<not> (max_attestations_per_cell (config a) \<le> length (patts p) \<and> map_of (patts p) (signer att) = None)"

lemma observe_attestation_cases:
  "observe_attestation cr cid att a =
    (case map_of (pending a) cid of
       None \<Rightarrow> (a, if \<exists>x \<in> set (certified a). cert_cell_id cr (snd x) = cid then AlreadyCertified
                  else Rejected (UnknownCell cid))
     | Some p \<Rightarrow>
         if \<not> verify_attestation_against_cell cr att (pcell p) then (a, Rejected BadAttestationSignature)
         else if \<not> admissible cr att p a then (a, Rejected AttestationCapReached)
         else let p' = attested att p in
           if quorum a \<le> length (patts p') then (certify cid p' a, Certified (cert_of p'))
           else (a\<lparr> pending := AList.update cid p' (pending a) \<rparr>, Pending (length (patts p')) (quorum a)))"
proof -
  have "(case find (\<lambda>(_, c). cert_cell_id cr c = cid) xs of Some _ \<Rightarrow> y | None \<Rightarrow> z) =
      (if \<exists>x \<in> set xs. cert_cell_id cr (snd x) = cid then y else z)"
    for xs :: "((u64 \<times> string) \<times> CellCertificate) list" and y z :: "LatticeAggregator \<times> AttestationOutcome"
    by (induction xs) auto
  moreover have "AList.delete cid (AList.update cid p m) = AList.delete cid m"
    for p :: PendingCell and m by (rule delete_update_same)
  ultimately show ?thesis
    by (simp add: observe_attestation_def admissible_def attested_def cert_of_def certify_def
        quorum_def Let_def split: option.split)
qed

lemma agg_inv_observe_attestation:
  assumes inv: "agg_inv cr q a"
  shows "agg_inv cr q (fst (observe_attestation cr cid att a))"
proof (cases "map_of (pending a) cid")
  case None
  then show ?thesis using inv by (simp add: observe_attestation_cases)
next
  case (Some p)
  let ?p = "attested att p"
  have pok: "pending_ok cr (max_attestations_per_cell (config a)) (high_water_round a) (cid, p)"
    using inv Some by (auto simp: agg_inv_def dest: map_of_SomeD)
  have pok': "pending_ok cr (max_attestations_per_cell (config a)) (high_water_round a) (cid, ?p)"
    if "admissible cr att p a"
    using pending_ok_attest [OF pok] that unfolding admissible_def attested_def by blast
  have "agg_inv cr q (certify cid ?p a)" if "admissible cr att p a" "quorum a \<le> length (patts ?p)"
  proof -
    have "q \<le> length (patts ?p)" using inv that by (simp add: agg_inv_def)
    then have "cert_ok cr q (high_water_round a) ((round (pcell ?p), author (pcell ?p)), cert_of ?p)"
      unfolding cert_of_def by (rule certify_ok [OF pok' [OF that(1)]])
    then show ?thesis unfolding certify_def by (rule agg_inv_certify [OF inv])
  qed
  then show ?thesis
    using inv Some agg_inv_pending [OF inv pok'] by (simp add: observe_attestation_cases Let_def)
qed

text \<open>Garbage collection keeps exactly the entries of the retention window.\<close>

lemma gc_old_cells_filter:
  "fst (gc_old_cells a) =
    (let cutoff = saturating_sub (high_water_round a) (retention_rounds (config a)) in
     a\<lparr> pending := filter (\<lambda>(_, p). cutoff \<le> round (pcell p)) (pending a),
        certified := filter (\<lambda>((r, _), _). cutoff \<le> r) (certified a) \<rparr>)"
proof -
  let ?cut = "saturating_sub (high_water_round a) (retention_rounds (config a))"
  let ?drop = "filter (\<lambda>(r, _). r < ?cut) (map fst (certified a))"
  have "filter (\<lambda>x. fst x \<notin> set ?drop) (certified a) = filter (\<lambda>((r, _), _). ?cut \<le> r) (certified a)"
  proof (intro filter_cong refl)
    fix x assume x: "x \<in> set (certified a)"
    obtain r s c where [simp]: "x = ((r, s), c)" by (metis prod.exhaust)
    have "(r, s) \<in> set ?drop \<longleftrightarrow> r < ?cut" using x by force
    then show "(fst x \<notin> set ?drop) = (case x of (x, xa) \<Rightarrow> (case x of (r, uu) \<Rightarrow> \<lambda>_. ?cut \<le> r) xa)"
      by (simp add: not_less)
  qed
  then show ?thesis by (simp add: gc_old_cells_def Let_def fold_delete_filter not_less)
qed

lemma gc_count:
  assumes "gc_old_cells a = (b, n)"
  shows "length (pending b) + length (certified b) + n = length (pending a) + length (certified a)"
proof -
  let ?cut = "saturating_sub (high_water_round a) (retention_rounds (config a))"
  let ?old = "\<lambda>((r, _), _). r < ?cut"
  have b: "pending b = filter (\<lambda>(_, p). ?cut \<le> round (pcell p)) (pending a)"
    "certified b = filter (\<lambda>x. \<not> ?old x) (certified a)"
    using gc_old_cells_filter [of a] assms by (simp_all add: Let_def case_prod_unfold not_less)
  have n: "n = length (pending a) - length (pending b) + length (filter ?old (certified a))"
    using assms unfolding gc_old_cells_def Let_def b
    by (auto simp: filter_map o_def case_prod_unfold not_less)
  have "length (filter ?old (certified a)) + length (certified b) = length (certified a)"
    unfolding b by (rule sum_length_filter_compl)
  moreover have "length (pending b) \<le> length (pending a)" unfolding b by simp
  ultimately show ?thesis using n by simp
qed

lemma agg_inv_gc: "agg_inv cr q a \<Longrightarrow> agg_inv cr q (fst (gc_old_cells a))"
  by (auto simp: gc_old_cells_filter Let_def agg_inv_def quorum_def strict_sorted_filter
      distinct_map_filter)

lemma agg_inv_resize:
  "agg_inv cr q a \<Longrightarrow> q \<le> lattice_quorum n \<Longrightarrow> agg_inv cr q (set_group_size n a)"
  by (simp add: set_group_size_def agg_inv_def quorum_def)

lemma agg_inv_step: "agg_step cr q a b \<Longrightarrow> agg_inv cr q a \<Longrightarrow> agg_inv cr q b"
  by (induction rule: agg_step.induct)
    (blast intro: agg_inv_observe_cell agg_inv_observe_attestation agg_inv_gc agg_inv_resize)+

lemma agg_inv_init: "agg_init q a \<Longrightarrow> agg_inv cr q a"
  by (auto simp: agg_init_def new_aggregator_def agg_inv_def quorum_def)

interpretation agg: inv_system "agg_init q" "agg_step cr q" "agg_inv cr q"
  by unfold_locales (blast intro: agg_inv_init agg_inv_step)+

subsection \<open>Thresholds\<close>

lemma pos_mod3_cases:
  assumes "0 < (n :: nat)"
  obtains f r where "n = 3 * f + Suc r" "r < 3"
proof
  show "n = 3 * ((n - 1) div 3) + Suc ((n - 1) mod 3)" using assms by simp
  show "(n - 1) mod 3 < 3" by simp
qed

lemma lattice_quorum_eq: "r < 3 \<Longrightarrow> lattice_quorum (3 * f + Suc r) = 2 * f + 1"
  by (simp add: lattice_quorum_def)

lemma quorum_for_voters_eq:
  "r < 3 \<Longrightarrow> quorum_for_voters (3 * f + Suc r) = 2 * f + (if r = 0 then 1 else 2)"
  by (simp add: quorum_for_voters_def) presburger

lemma intervals_overlap:
  assumes "q \<le> n" "2 * q \<le> n + f"
  shows "\<exists>Q1 Q2. Q1 \<subseteq> {..<n} \<and> Q2 \<subseteq> {..<n} \<and> q \<le> card Q1 \<and> q \<le> card Q2 \<and> card (Q1 \<inter> Q2) \<le> f"
proof (intro exI conjI)
  show "{..<q} \<subseteq> {..<n}" "{n - q..<n} \<subseteq> {..<n}" "q \<le> card {..<q}" "q \<le> card {n - q..<n}"
    using assms by auto
  have "{..<q} \<inter> {n - q..<n} = {n - q..<q}" using assms by auto
  then show "card ({..<q} \<inter> {n - q..<n}) \<le> f" using assms by simp
qed

subsection \<open>Attestations under many names\<close>

text \<open>The check of an attestation does not look at the signer's name.\<close>

lemma verify_attestation_rename [simp]:
  "verify_attestation_against_cell cr (att\<lparr> signer := s \<rparr>) c = verify_attestation_against_cell cr att c"
  by (simp add: verify_attestation_against_cell_def)

definition attest_as :: "crypto \<Rightarrow> CellId \<Rightarrow> CellAttestation \<Rightarrow> string list \<Rightarrow> LatticeAggregator \<Rightarrow> LatticeAggregator" where
  "attest_as cr cid att ss a =
     fold (\<lambda>s a. fst (observe_attestation cr cid (att\<lparr> signer := s \<rparr>) a)) ss a"

definition renamed :: "CellAttestation \<Rightarrow> string list \<Rightarrow> (string \<times> CellAttestation) list" where
  "renamed att ss = map (\<lambda>s. (s, att\<lparr> signer := s \<rparr>)) ss"

lemma renamed_facts [simp]:
  "length (renamed att ss) = length ss" "map_of (renamed att ss) s = None \<longleftrightarrow> s \<notin> set ss"
  by (auto simp: renamed_def map_of_eq_None_iff image_image)

lemma update_renamed:
  "s \<notin> set ss \<Longrightarrow> AList.update s (att\<lparr> signer := s \<rparr>) (renamed att ss) = renamed att (ss @ [s])"
  by (induction ss) (auto simp: renamed_def)

lemma attest_as_pending:
  assumes "map_of (pending a) cid = Some p" "patts p = []"
    and "verify_attestation_against_cell cr att (pcell p)"
    and "distinct ss" "length ss < quorum a" "length ss \<le> max_attestations_per_cell (config a)"
  shows "attest_as cr cid att ss a =
    a\<lparr> pending := AList.update cid (p\<lparr> patts := renamed att ss \<rparr>) (pending a) \<rparr>"
  using assms(4-6)
proof (induction ss rule: rev_induct)
  case Nil
  have "p\<lparr> patts := [] \<rparr> = p" using assms(2) by (cases p) simp
  with assms(1) show ?case by (simp add: attest_as_def renamed_def update_triv)
next
  case (snoc s ss)
  let ?b = "a\<lparr> pending := AList.update cid (p\<lparr> patts := renamed att ss \<rparr>) (pending a) \<rparr>"
  have IH: "attest_as cr cid att ss a = ?b" using snoc by simp
  have s: "s \<notin> set ss" using snoc.prems by simp
  have "fst (observe_attestation cr cid (att\<lparr> signer := s \<rparr>) ?b) =
      a\<lparr> pending := AList.update cid (p\<lparr> patts := renamed att (ss @ [s]) \<rparr>) (pending a) \<rparr>"
    using assms(3) snoc.prems s
    by (simp add: observe_attestation_cases admissible_def attested_def quorum_def Let_def update_renamed)
  then show ?case using IH by (simp add: attest_as_def)
qed

section \<open>Concrete inputs\<close>

text \<open>A toy instance of the external cryptography, used only to evaluate the properties at
  concrete inputs: every key parses, a signature is valid when it equals the key, and the hash keeps
  two bytes of its input (of a cell: the low byte of the round and the last byte of the batch root).\<close>

definition toy_crypto :: crypto where
  "toy_crypto = \<lparr> vkey_from_bytes = Some, sig_verify = (\<lambda>k m s. s = k), 
     blake3 = (\<lambda>m. [m ! 24, last m]) \<rparr>"

definition toy_cell :: "u64 \<Rightarrow> string \<Rightarrow> bytes \<Rightarrow> LatticeCell" where
  "toy_cell r auth root = \<lparr> round = r, group_id = ''g'', author = auth, author_pubkey = [7],
     parents = [], batch_root = root, author_signature = [7] \<rparr>"

definition toy_att :: "string \<Rightarrow> CellAttestation" where
  "toy_att s = \<lparr> signer = s, signer_pubkey = [9], signature = [9] \<rparr>"

definition toy_agg :: "nat \<Rightarrow> LatticeAggregator" where
  "toy_agg n = new_aggregator (default_aggregator_config\<lparr> group_size := n \<rparr>)"

definition toy_seen :: "nat \<Rightarrow> LatticeAggregator" where
  "toy_seen n = fst (observe_cell toy_crypto (toy_cell 3 ''A'' [0]) (toy_agg n))"

definition toy_id :: CellId where
  "toy_id = cell_id toy_crypto (toy_cell 3 ''A'' [0])"

text \<open>A group of three (threshold one) in which \<open>A\<close> published two cells for round 3, the first
  already certified.\<close>

definition toy_equiv :: LatticeAggregator where
  "toy_equiv = fst (observe_attestation toy_crypto toy_id (toy_att ''x'')
     (fst (observe_cell toy_crypto (toy_cell 3 ''A'' [1]) (toy_seen 3))))"

lemma toy_steps:
  "reachable (agg_init 1) (agg_step toy_crypto 1) (toy_agg 3)"
  "reachable (agg_init 1) (agg_step toy_crypto 1) (toy_seen 3)"
  "reachable (agg_init 1) (agg_step toy_crypto 1) toy_equiv"
proof -
  have "agg_init 1 (toy_agg 3)" unfolding agg_init_def toy_agg_def
    by (rule exI [of _ "default_aggregator_config\<lparr> group_size := 3 \<rparr>"]) (simp add: lattice_quorum_def)
  then show 1: "reachable (agg_init 1) (agg_step toy_crypto 1) (toy_agg 3)" by (rule reachable.start)
  show 2: "reachable (agg_init 1) (agg_step toy_crypto 1) (toy_seen 3)"
    unfolding toy_seen_def by (rule reachable.move [OF 1 agg_step.cell])
  show "reachable (agg_init 1) (agg_step toy_crypto 1) toy_equiv"
    unfolding toy_equiv_def
    by (rule reachable.move [OF reachable.move [OF 2 agg_step.cell] agg_step.attestation])
qed

lemma toy_equiv_cert:
  "certified_get 3 ''A'' toy_equiv = Some \<lparr> cell = toy_cell 3 ''A'' [0], attestations = [toy_att ''x''] \<rparr>"
  by code_simp

lemma toy_seen_pending:
  "map_of (pending (toy_seen 5)) toy_id = Some \<lparr> pcell = toy_cell 3 ''A'' [0], patts = [] \<rparr>"
  by code_simp

section \<open>Properties\<close>

text \<open>C2. Every certificate of a reachable aggregator is sound: it is stored under the round and
  author of its cell, the author signed the cell, and it carries at least \<open>q\<close> attestations (the
  smallest quorum in force since the start), each verified against the cell, by signers of
  pairwise different names in ascending order.\<close>

theorem certificates_sound:
  assumes "reachable (agg_init q) (agg_step cr q) a"
    and "certified_get r auth a = Some c"
  shows "round (cell c) = r \<and> author (cell c) = auth \<and> verify_author_signature cr (cell c) \<and>
    q \<le> card (signer ` set (attestations c)) \<and>
    sorted_wrt (<) (map signer (attestations c)) \<and>
    (\<forall>att \<in> set (attestations c). verify_attestation_against_cell cr att (cell c))"
proof -
  have "agg_inv cr q a" using assms(1) by (rule agg.inv_reachable)
  then have ok: "cert_ok cr q (high_water_round a) ((r, auth), c)"
    using assms(2) by (auto simp: agg_inv_def certified_get_def dest: map_of_SomeD)
  then have "distinct (map signer (attestations c))" by (simp add: cert_ok_def strict_sorted_iff)
  then have "card (signer ` set (attestations c)) = length (attestations c)"
    using distinct_card by fastforce
  with ok show ?thesis by (auto simp: cert_ok_def attestation_count_def)
qed

theorem certificates_sound_witness:
  "verify_author_signature toy_crypto (toy_cell 3 ''A'' [0]) \<and>
   1 \<le> card (signer ` set [toy_att ''x''])"
  using certificates_sound [OF toy_steps(3) toy_equiv_cert] by simp

text \<open>The lattice threshold is not the canonical one: the two agree exactly for group sizes
  that leave remainder one modulo three (and for the empty group); for every other size the
  lattice threshold is smaller, and there are two sets of members that reach it and share no more
  than \<open>(n - 1) / 3\<close> members, the number of faulty members a group of \<open>n\<close> must tolerate.\<close>

theorem lattice_quorum_gap:
  assumes "0 < n"
  shows "(lattice_quorum n = quorum_for_voters n \<longleftrightarrow> n mod 3 = 1) \<and>
    (n mod 3 \<noteq> 1 \<longrightarrow> lattice_quorum n < quorum_for_voters n \<and>
      (\<exists>Q1 Q2. Q1 \<subseteq> {..<n} \<and> Q2 \<subseteq> {..<n} \<and> lattice_quorum n \<le> card Q1 \<and>
         lattice_quorum n \<le> card Q2 \<and> card (Q1 \<inter> Q2) \<le> (n - 1) div 3))"
proof -
  obtain f r where n: "n = 3 * f + Suc r" "r < 3" using assms by (rule pos_mod3_cases)
  have m: "n mod 3 = 1 \<longleftrightarrow> r = 0" using n by (cases "r = 2") auto
  have f: "(n - 1) div 3 = f" using n by simp
  have sets: "r \<noteq> 0 \<Longrightarrow> \<exists>Q1 Q2. Q1 \<subseteq> {..<n} \<and> Q2 \<subseteq> {..<n} \<and> 2 * f + 1 \<le> card Q1 \<and>
      2 * f + 1 \<le> card Q2 \<and> card (Q1 \<inter> Q2) \<le> f"
    by (rule intervals_overlap) (use n in simp_all)
  have lq: "lattice_quorum n = 2 * f + 1" and qv: "quorum_for_voters n = 2 * f + (if r = 0 then 1 else 2)"
    unfolding n(1) by (rule lattice_quorum_eq [OF n(2)], rule quorum_for_voters_eq [OF n(2)])
  show ?thesis
    unfolding lq qv m f by (intro conjI impI) (simp, simp, erule sets)
qed

theorem lattice_quorum_gap_witness:
  "lattice_quorum 6 < quorum_for_voters 6 \<and>
   (\<exists>Q1 Q2. Q1 \<subseteq> {..<6::nat} \<and> Q2 \<subseteq> {..<6} \<and> lattice_quorum 6 \<le> card Q1 \<and>
      lattice_quorum 6 \<le> card Q2 \<and> card (Q1 \<inter> Q2) \<le> 1)"
  using lattice_quorum_gap [of 6] by simp

text \<open>C40. Attestations are counted by name, not by key: for a freshly observed cell, one valid
  attestation replayed under as many different signer names as the quorum asks certifies the cell,
  and every attestation of the certificate carries the same public key.\<close>

theorem single_key_certifies:
  assumes "map_of (pending a) cid = Some p" "patts p = []"
    and "verify_attestation_against_cell cr att (pcell p)"
    and "distinct ss" "length ss = quorum a" "0 < quorum a"
    and "quorum a \<le> max_attestations_per_cell (config a)"
    and "bt_wf (certified a)"
  shows "\<exists>c. certified_get (round (pcell p)) (author (pcell p)) (attest_as cr cid att ss a) = Some c \<and>
    cell c = pcell p \<and> attestation_count c = quorum a \<and>
    (\<forall>x \<in> set (attestations c). signer_pubkey x = signer_pubkey att)"
proof -
  obtain ts s where ss: "ss = ts @ [s]" using assms(5,6) by (cases ss rule: rev_cases) auto
  let ?q = "p\<lparr> patts := renamed att ts \<rparr>" and ?p = "p\<lparr> patts := renamed att ss \<rparr>"
  let ?b = "a\<lparr> pending := AList.update cid ?q (pending a) \<rparr>"
  have b: "attest_as cr cid att ts a = ?b"
    using assms ss by (intro attest_as_pending) auto
  have "s \<notin> set ts" using assms(4) ss by simp
  then have "fst (observe_attestation cr cid (att\<lparr> signer := s \<rparr>) ?b) = certify cid ?p ?b"
    using assms ss
    by (simp add: observe_attestation_cases admissible_def attested_def quorum_def Let_def update_renamed)
  then have "attest_as cr cid att ss a = certify cid ?p ?b"
    using b ss by (simp add: attest_as_def)
  then have "certified_get (round (pcell p)) (author (pcell p)) (attest_as cr cid att ss a) = Some (cert_of ?p)"
    using assms(8) by (simp add: certified_get_def certify_def map_of_bt_insert)
  moreover have "attestation_count (cert_of ?p) = quorum a"
    using assms(5) by (simp add: attestation_count_def cert_of_def)
  ultimately show ?thesis by (auto simp: cert_of_def renamed_def)
qed

theorem single_key_certifies_witness:
  "\<exists>c. certified_get 3 ''A''
         (attest_as toy_crypto toy_id (toy_att '''') [''p'', ''q'', ''r''] (toy_seen 5)) = Some c \<and>
     attestation_count c = 3 \<and> (\<forall>x \<in> set (attestations c). signer_pubkey x = [9])"
proof -
  have q: "quorum (toy_seen 5) = 3" and cap: "max_attestations_per_cell (config (toy_seen 5)) = 256"
    and wf: "bt_wf (certified (toy_seen 5))"
    and ok: "verify_attestation_against_cell toy_crypto (toy_att '''') (toy_cell 3 ''A'' [0])"
    by code_simp+
  show ?thesis
    using single_key_certifies [OF toy_seen_pending, of toy_crypto "toy_att ''''" "[''p'', ''q'', ''r'']"]
      q cap wf ok by (auto simp: toy_cell_def toy_att_def)
qed

text \<open>A certified slot can be overwritten: when an author has signed two different cells for one
  round and the second reaches the quorum after the first was certified, the aggregator issues a
  certificate for the second and the first certificate is gone.\<close>

theorem equivocation_overwrites:
  assumes "agg_inv cr q a"
    and "certified_get (round (pcell p)) (author (pcell p)) a = Some old"
    and "map_of (pending a) cid = Some p"
    and "admissible cr att p a" "quorum a \<le> length (patts (attested att p))"
  shows "snd (observe_attestation cr cid att a) = Certified (cert_of (attested att p)) \<and>
    certified_get (round (pcell p)) (author (pcell p)) (fst (observe_attestation cr cid att a)) =
      Some (cert_of (attested att p)) \<and>
    certified_count (fst (observe_attestation cr cid att a)) = certified_count a"
  using assms
  by (simp add: observe_attestation_cases admissible_def Let_def certify_def certified_get_def
      map_of_bt_insert certified_count_def length_bt_insert agg_inv_def attested_def)

theorem equivocation_overwrites_witness:
  "certified_get 3 ''A'' toy_equiv = Some \<lparr> cell = toy_cell 3 ''A'' [0], attestations = [toy_att ''x''] \<rparr> \<and>
   certified_get 3 ''A'' (fst (observe_attestation toy_crypto (cell_id toy_crypto (toy_cell 3 ''A'' [1]))
     (toy_att ''y'') toy_equiv)) = Some \<lparr> cell = toy_cell 3 ''A'' [1], attestations = [toy_att ''y''] \<rparr>"
proof -
  let ?p = "\<lparr> pcell = toy_cell 3 ''A'' [1], patts = [] \<rparr>"
  have inv: "agg_inv toy_crypto 1 toy_equiv" by (rule agg.inv_reachable [OF toy_steps(3)])
  have p: "map_of (pending toy_equiv) (cell_id toy_crypto (toy_cell 3 ''A'' [1])) = Some ?p"
    and adm: "admissible toy_crypto (toy_att ''y'') ?p toy_equiv"
    and q: "quorum toy_equiv \<le> length (patts (attested (toy_att ''y'') ?p))"
    and c: "cert_of (attested (toy_att ''y'') ?p) =
      \<lparr> cell = toy_cell 3 ''A'' [1], attestations = [toy_att ''y''] \<rparr>"
    and k: "round (toy_cell 3 ''A'' [1]) = 3" "author (toy_cell 3 ''A'' [1]) = ''A''"
    by code_simp+
  show ?thesis
    using equivocation_overwrites [OF inv _ p adm q] toy_equiv_cert c k by simp
qed

text \<open>Garbage collection keeps exactly the retention window below the highest round seen and
  reports the number of entries it removed.\<close>

theorem gc_window:
  assumes "agg_inv cr q a" "gc_old_cells a = (b, n)"
    and "cutoff = saturating_sub (high_water_round a) (retention_rounds (config a))"
  shows "(\<forall>cid p. map_of (pending b) cid = Some p \<longleftrightarrow>
        map_of (pending a) cid = Some p \<and> cutoff \<le> round (pcell p)) \<and>
    (\<forall>r auth. certified_get r auth b = (if cutoff \<le> r then certified_get r auth a else None)) \<and>
    pending_count b + certified_count b + n = pending_count a + certified_count a"
proof -
  have wf: "hm_wf (pending a)" "hm_wf (certified a)"
    using assms(1) by (auto simp: agg_inv_def bt_wf_distinct)
  have b: "pending b = filter (\<lambda>(_, p). cutoff \<le> round (pcell p)) (pending a)"
    "certified b = filter (\<lambda>((r, _), _). cutoff \<le> r) (certified a)"
    using gc_old_cells_filter [of a] assms(2,3) by (simp_all add: Let_def)
  have "map_of (pending b) cid = Some p \<longleftrightarrow> map_of (pending a) cid = Some p \<and> cutoff \<le> round (pcell p)"
    for cid p using wf by (simp add: b map_of_filter_value)
  moreover have "certified_get r auth b = (if cutoff \<le> r then certified_get r auth a else None)" for r auth
    unfolding certified_get_def b using map_of_filter_key [of "\<lambda>(r, _). cutoff \<le> r" "certified a" "(r, auth)"]
    by (simp add: case_prod_unfold)
  moreover have "pending_count b + certified_count b + n = pending_count a + certified_count a"
    using gc_count [OF assms(2)] by (simp add: pending_count_def certified_count_def)
  ultimately show ?thesis by blast
qed

theorem gc_window_witness:
  "certified_get 3 ''A'' (fst (gc_old_cells toy_equiv)) = certified_get 3 ''A'' toy_equiv"
proof -
  obtain b n where g: "gc_old_cells toy_equiv = (b, n)" by (metis prod.exhaust)
  have "saturating_sub (high_water_round toy_equiv) (retention_rounds (config toy_equiv)) = 0"
    by code_simp
  then show ?thesis
    using gc_window [OF agg.inv_reachable [OF toy_steps(3)] g refl] g by simp
qed

text \<open>One self-signed cell empties the tables: the highest round seen follows the round an
  author writes in its cell, so a cell of a round far in the future makes the next garbage
  collection drop every certificate of the window before it.\<close>

theorem high_water_poisoned:
  assumes "verify_author_signature cr c"
    and "\<forall>((r, auth), x) \<in> set (certified a). unat r + unat (retention_rounds (config a)) < unat (round c)"
  shows "certified (fst (gc_old_cells (fst (observe_cell cr c a)))) = []"
proof -
  let ?b = "fst (observe_cell cr c a)"
  have b: "certified ?b = certified a" "config ?b = config a" "round c \<le> high_water_round ?b"
    using assms(1) by (auto simp: observe_cell_def Let_def split: option.split)
  have "r < saturating_sub (high_water_round ?b) (retention_rounds (config a))"
    if "((r, auth), x) \<in> set (certified a)" for r auth x
    using assms(2) that b(3) by (fastforce simp: rust_int)
  then show ?thesis by (fastforce simp: gc_old_cells_filter Let_def b filter_empty_conv not_le)
qed

theorem high_water_poisoned_witness:
  "certified toy_equiv \<noteq> [] \<and>
   certified (fst (gc_old_cells (fst (observe_cell toy_crypto (toy_cell 1000 ''Z'' []) toy_equiv)))) = []"
proof
  show "certified toy_equiv \<noteq> []" by code_simp
  show "certified (fst (gc_old_cells (fst (observe_cell toy_crypto (toy_cell 1000 ''Z'' []) toy_equiv)))) = []"
    by (rule high_water_poisoned) code_simp+
qed

end
