(* ===== verification/Lattice_Commit.thy ===== *)
theory Lattice_Commit
  imports Lattice
begin

text \<open>
  Cycle commits on top of the aggregator: pivot election
  (\<open>savitri-consensus/src/lattice/pivot.rs\<close>) and the lineage commit walker
  (\<open>lattice/commit.rs\<close>).  The walker's worklist loop is the function \<open>walk_loop\<close>, whose
  termination measure is the number of parent ids not seen yet plus the length of the queue.
  A result \<open>None\<close> of the walker is a panic inherited from \<open>certified_at_round\<close>.
\<close>

unbundle bit_operations_syntax

section \<open>Pivot election\<close>

definition PIVOT_TENURE_SLOTS :: nat where
  "PIVOT_TENURE_SLOTS = 1"

definition weight :: "string \<times> u32 \<Rightarrow> u64" where
  "weight e = max (ucast (snd e)) 1"

text \<open>The slot allocation loop: each peer is pushed until the schedule has reached its target.\<close>

fun fill_slots :: "nat \<Rightarrow> u64 \<Rightarrow> u64 \<Rightarrow> string list \<Rightarrow> (string \<times> u32) list \<Rightarrow> string list" where
  "fill_slots n_slots total_w acc schedule [] = schedule"
| "fill_slots n_slots total_w acc schedule (e # ranked) =
    (let s = weight e;
         target = ((acc + s) * word_of_nat n_slots) div total_w;
         schedule = schedule @ replicate (unat target - length schedule) (fst e)
     in fill_slots n_slots total_w (acc + s) schedule ranked)"

definition xorshift64 :: "u64 \<Rightarrow> u64" where
  "xorshift64 x =
    (let x = x XOR push_bit 13 x;
         x = x XOR drop_bit 7 x
     in x XOR push_bit 17 x)"

definition swap :: "nat \<Rightarrow> nat \<Rightarrow> 'a list \<Rightarrow> 'a list" where
  "swap i j xs = xs[i := xs ! j, j := xs ! i]"

text \<open>The Fisher-Yates loop for \<open>i\<close> from \<open>len - 1\<close> down to \<open>1\<close>.\<close>

primrec shuffle_down :: "nat \<Rightarrow> u64 \<Rightarrow> 'a list \<Rightarrow> 'a list" where
  "shuffle_down 0 rng xs = xs"
| "shuffle_down (Suc i) rng xs =
    (let rng = xorshift64 rng; j = unat rng mod (Suc i + 1)
     in shuffle_down i rng (swap (Suc i) j xs))"

definition build_weighted_pivot_schedule ::
  "crypto \<Rightarrow> (string \<times> u32) list \<Rightarrow> u64 \<Rightarrow> string \<Rightarrow> string list" where
  "build_weighted_pivot_schedule cr ranked cycle_index gid =
    (let n_slots = PIVOT_TENURE_SLOTS;
         total_w = max (sum_list (map weight ranked)) 1;
         schedule = fill_slots n_slots total_w 0 [] ranked;
         schedule = schedule @ replicate (n_slots - length schedule) (fst (ranked ! 0));
         tenure_window = cycle_index div word_of_nat PIVOT_TENURE_SLOTS;
         seed_input = ''savitri-lattice-pivot-v1|'' @ gid @ ''|'' @ dec (unat tenure_window);
         seed_bytes = blake3 cr (str_bytes seed_input);
         rng = from_le_bytes (take 8 seed_bytes);
         rng = (if rng = 0 then 0xdeadbeefdeadbeef else rng)
     in shuffle_down (length schedule - 1) rng schedule)"

definition pivot_for_cycle :: "crypto \<Rightarrow> string \<Rightarrow> u64 \<Rightarrow> (string \<times> u32) list \<Rightarrow> string option" where
  "pivot_for_cycle cr gid cycle_index ranked_pou =
    (if ranked_pou = [] then None
     else
       let schedule = build_weighted_pivot_schedule cr ranked_pou cycle_index gid;
           slot = unat cycle_index mod PIVOT_TENURE_SLOTS
       in if slot < length schedule then Some (schedule ! slot) else None)"

section \<open>The commit walker\<close>

datatype CommitDecision =
    Committed Cycle
  | AnchorNotCertified
  | BelowFollowerQuorum nat nat

primrec scan_rounds ::
  "crypto \<Rightarrow> LatticeAggregator \<Rightarrow> CellId \<Rightarrow> nat \<Rightarrow> (u64 \<times> string \<times> CellCertificate) option option" where
  "scan_rounds cr a cid 0 =
    (case certified_at_round 0 a of
       None \<Rightarrow> None
     | Some cs \<Rightarrow>
         (case find (\<lambda>c. cert_cell_id cr c = cid) cs of
            Some c \<Rightarrow> Some (Some (0, author (cell c), c))
          | None \<Rightarrow> Some None))"
| "scan_rounds cr a cid (Suc r) =
    (case certified_at_round (word_of_nat (Suc r)) a of
       None \<Rightarrow> None
     | Some cs \<Rightarrow>
         (case find (\<lambda>c. cert_cell_id cr c = cid) cs of
            Some c \<Rightarrow> Some (Some (word_of_nat (Suc r), author (cell c), c))
          | None \<Rightarrow> scan_rounds cr a cid r))"

definition find_by_id ::
  "crypto \<Rightarrow> LatticeAggregator \<Rightarrow> CellId \<Rightarrow> (u64 \<times> string \<times> CellCertificate) option option" where
  "find_by_id cr a cid = scan_rounds cr a cid (unat (high_water_round a))"

fun enqueue_parents ::
  "u64 \<Rightarrow> CellId list \<Rightarrow> (CellId \<times> u64) list \<Rightarrow> CellId set \<Rightarrow> (CellId \<times> u64) list \<times> CellId set" where
  "enqueue_parents r [] queue seen = (queue, seen)"
| "enqueue_parents r (p # ps) queue seen =
    (if p \<notin> seen then enqueue_parents r ps (queue @ [(p, saturating_sub r 1)]) (insert p seen)
     else enqueue_parents r ps queue seen)"

subsection \<open>The loop of the walker and its termination\<close>

definition all_parents :: "LatticeAggregator \<Rightarrow> CellId set" where
  "all_parents a = (\<Union>(k, c) \<in> set (certified a). set (parents (cell c)))"

lemma finite_all_parents [simp]: "finite (all_parents a)"
  by (auto simp: all_parents_def)

lemma certified_at_round_mem:
  assumes "certified_at_round r a = Some cs" "c \<in> set cs"
  shows "\<exists>k. (k, c) \<in> set (certified a)"
proof -
  have "cs = map snd (bt_range (r, '''') (r + 1, '''') (certified a))"
    using assms(1) unfolding certified_at_round_def Let_def by (metis option.distinct(1) option.inject)
  then obtain k where "(k, c) \<in> set (bt_range (r, '''') (r + 1, '''') (certified a))"
    using assms(2) by auto
  then have "(k, c) \<in> set (certified a)" by (simp add: bt_range_def)
  then show ?thesis by blast
qed

lemma scan_rounds_mem:
  "scan_rounds cr a cid n = Some (Some (r, auth, c)) \<Longrightarrow> \<exists>k. (k, c) \<in> set (certified a)"
  by (induction n)
    (auto split: option.splits dest!: certified_at_round_mem simp: find_Some_iff nth_mem)

lemma find_by_id_parents:
  "find_by_id cr a cid = Some (Some (r, auth, c)) \<Longrightarrow> set (parents (cell c)) \<subseteq> all_parents a"
  unfolding find_by_id_def by (drule scan_rounds_mem) (auto simp: all_parents_def)

lemma enqueue_measure:
  assumes "enqueue_parents r ps queue seen = (queue', seen')" "set ps \<subseteq> U" "finite U"
  shows "card (U - seen') + length queue' \<le> card (U - seen) + length queue"
  using assms
proof (induction r ps queue seen rule: enqueue_parents.induct)
  case (2 r p ps queue seen)
  show ?case
  proof (cases "p \<in> seen")
    case True
    with 2 show ?thesis by simp
  next
    case False
    have "card (U - insert p seen) < card (U - seen)"
      using 2(4,5) False by (intro psubset_card_mono) auto
    moreover have "card (U - seen') + length queue' \<le> card (U - insert p seen) + length queue + 1"
      using 2 False by simp
    ultimately show ?thesis by simp
  qed
qed simp

lemma walk_decrease:
  assumes "find_by_id cr a cid = Some (Some (r, auth, c))"
    and "(queue', seen') = enqueue_parents r (parents (cell c)) queue seen"
  shows "card (all_parents a - seen') + length queue' < Suc (card (all_parents a - seen) + length queue)"
  using enqueue_measure [OF assms(2) [symmetric] find_by_id_parents [OF assms(1)]] by simp

function walk_loop ::
  "crypto \<Rightarrow> LatticeAggregator \<Rightarrow> (CellId \<times> u64) list \<Rightarrow> CellId set \<Rightarrow> ((u64 \<times> string) \<times> CellId) list \<Rightarrow>
   ((u64 \<times> string) \<times> CellId) list option" where
  "walk_loop cr a [] seen visited = Some visited"
| "walk_loop cr a ((cid, _) # queue) seen visited =
    (case find_by_id cr a cid of
       None \<Rightarrow> None
     | Some None \<Rightarrow> walk_loop cr a queue seen visited
     | Some (Some (r, auth, c)) \<Rightarrow>
         (case enqueue_parents r (parents (cell c)) queue seen of
            (queue', seen') \<Rightarrow> walk_loop cr a queue' seen' (bt_insert (r, auth) cid visited)))"
  by pat_completeness auto
termination
  by (relation "measure (\<lambda>(cr, a, queue, seen, visited). card (all_parents a - seen) + length queue)")
    (auto dest: walk_decrease)

definition walk_causal_history :: "crypto \<Rightarrow> LatticeAggregator \<Rightarrow> CellId \<Rightarrow> u64 \<Rightarrow> CellId list option" where
  "walk_causal_history cr a start start_round =
     map_option (map snd) (walk_loop cr a [(start, start_round)] {start} [])"

definition try_commit ::
  "crypto \<Rightarrow> LatticeAggregator \<Rightarrow> u64 \<Rightarrow> string \<Rightarrow> string \<Rightarrow> CommitDecision option" where
  "try_commit cr a cycle_index pivot_author gid =
    (let anchor_round = saturating_mul cycle_index 2;
         follow_round = saturating_add anchor_round 1;
         quorum = quorum a
     in case certified_get anchor_round pivot_author a of
          None \<Rightarrow> Some AnchorNotCertified
        | Some anchor_cert \<Rightarrow>
            let anchor_cell_id = cert_cell_id cr anchor_cert
            in case certified_at_round follow_round a of
                 None \<Rightarrow> None
               | Some cs \<Rightarrow>
                   let follower_count = length (filter (\<lambda>c. anchor_cell_id \<in> set (parents (cell c))) cs)
                   in if follower_count < quorum then Some (BelowFollowerQuorum follower_count quorum)
                      else map_option (\<lambda>ids. Committed
                             \<lparr> index = cycle_index, cycle_group_id = gid, pivot = pivot_author,
                               pivot_cell = anchor_cell_id, committed_cells = ids \<rparr>)
                           (walk_causal_history cr a anchor_cell_id anchor_round))"

section \<open>Lemmas\<close>

subsection \<open>Reading the certified table\<close>

lemma unat_next_round: "r \<noteq> max_value \<Longrightarrow> unat (r + 1) = Suc (unat (r :: u64))"
proof -
  assume "r \<noteq> max_value"
  then have "1 + r \<noteq> 0" by (simp add: max_value_def add_eq_0_iff)
  then have "unat (1 + r) = Suc (unat r)" by (rule unatSuc)
  then show ?thesis by (simp only: add.commute)
qed

lemma round_range:
  assumes "r \<noteq> max_value"
  shows "(r, []) \<le> k \<and> k < (r + 1, []) \<longleftrightarrow> fst (k :: u64 \<times> string) = r"
proof -
  obtain x s where k: "k = (x, s)" by (cases k)
  have "x < r + 1 \<longleftrightarrow> x \<le> r"
    using unat_next_round [OF assms] by (simp add: word_less_nat_alt word_le_nat_alt less_Suc_eq_le)
  then show ?thesis by (auto simp: k less_prod_def less_eq_prod_def)
qed

lemma certified_at_round_eq:
  assumes "r \<noteq> max_value"
  shows "certified_at_round r a = Some (map snd (filter (\<lambda>x. fst (fst x) = r) (certified a)))"
proof -
  have "\<not> r + 1 < r" using unat_next_round [OF assms] by (simp add: word_less_nat_alt)
  moreover have "bt_range (r, []) (r + 1, []) (certified a) = filter (\<lambda>x. fst (fst x) = r) (certified a)"
    unfolding bt_range_def by (intro filter_cong refl) (use round_range [OF assms] in \<open>auto split: prod.split\<close>)
  ultimately show ?thesis by (simp add: certified_at_round_def Let_def less_prod_def)
qed

text \<open>No two certified cells have the same id: what the hash promises for the cells of the table.\<close>

definition ids_unique :: "crypto \<Rightarrow> LatticeAggregator \<Rightarrow> bool" where
  "ids_unique cr a \<longleftrightarrow> (\<forall>x \<in> set (certified a). \<forall>y \<in> set (certified a).
     cert_cell_id cr (snd x) = cert_cell_id cr (snd y) \<longrightarrow> x = y)"

lemma find_round_none:
  "\<forall>x \<in> set m. cert_cell_id cr (snd x) \<noteq> cid \<Longrightarrow>
   find (\<lambda>c. cert_cell_id cr c = cid) (map snd (filter P m)) = None"
  by (auto simp: find_None_iff)

lemma find_unique:
  assumes "\<forall>x \<in> set l. P x \<longrightarrow> x = c" "P c"
  shows "find P l = (if c \<in> set l then Some c else None)"
proof (cases "find P l")
  case None
  then have "\<not> (\<exists>x. x \<in> set l \<and> P x)" by (simp only: find_None_iff not_False_eq_True)
  with None assms(2) show ?thesis by auto
next
  case (Some x)
  then have "x \<in> set l" "P x" by (auto simp: find_Some_iff nth_mem)
  with assms(1) Some show ?thesis by metis
qed

lemma find_round_other:
  assumes "ids_unique cr a" "((r, auth), c) \<in> set (certified a)"
  shows "find (\<lambda>c'. cert_cell_id cr c' = cert_cell_id cr c)
      (map snd (filter (\<lambda>x. fst (fst x) = r') (certified a))) = (if r' = r then Some c else None)"
proof -
  let ?l = "map snd (filter (\<lambda>x. fst (fst x) = r') (certified a))"
  have uniq: "x = ((r, auth), c)" if "x \<in> set (certified a)" "cert_cell_id cr (snd x) = cert_cell_id cr c" for x
    using that assms unfolding ids_unique_def by force
  then have "\<forall>c' \<in> set ?l. cert_cell_id cr c' = cert_cell_id cr c \<longrightarrow> c' = c" by fastforce
  moreover have "c \<in> set ?l \<longleftrightarrow> r' = r"
  proof
    assume "c \<in> set ?l"
    then obtain x where "x \<in> set (certified a)" "snd x = c" "fst (fst x) = r'" by auto
    with uniq [of x] show "r' = r" by auto
  qed (use assms(2) in force)
  ultimately show ?thesis by (simp add: find_unique)
qed

lemma scan_rounds_found:
  assumes "ids_unique cr a" "((r, author (cell c)), c) \<in> set (certified a)"
    and "unat r \<le> n" "n < 2 ^ 64 - 1"
  shows "scan_rounds cr a (cert_cell_id cr c) n = Some (Some (r, author (cell c), c))"
  using assms(3,4)
proof (induction n)
  case 0
  then have "r = 0" by (simp add: unat_eq_0)
  then show ?case
    by (simp add: certified_at_round_eq max_value_def find_round_other [OF assms(1,2)])
next
  case (Suc n)
  have u: "unat (word_of_nat (Suc n) :: u64) = Suc n" by (rule unat_u64_of_nat) (use Suc.prems in simp)
  define w :: u64 where "w = word_of_nat (Suc n)"
  have w: "scan_rounds cr a (cert_cell_id cr c) (Suc n) =
      (case certified_at_round w a of
         None \<Rightarrow> None
       | Some cs \<Rightarrow>
           (case find (\<lambda>c'. cert_cell_id cr c' = cert_cell_id cr c) cs of
              Some c' \<Rightarrow> Some (Some (w, author (cell c'), c'))
            | None \<Rightarrow> scan_rounds cr a (cert_cell_id cr c) n))"
    unfolding w_def by simp
  have u': "unat w = Suc n" using u by (simp only: w_def)
  then have max: "w \<noteq> max_value" using Suc.prems(2) by (auto simp: unat_max_value)
  show ?case
  proof (cases "w = r")
    case True
    then show ?thesis
      unfolding w by (simp add: certified_at_round_eq [OF max, unfolded True] find_round_other [OF assms(1,2)])
  next
    case False
    then have "unat r \<noteq> Suc n" using u' by (metis word_unat_eq_iff)
    then have "unat r \<le> n" using Suc.prems(1) by simp
    with False Suc show ?thesis
      by (simp add: w certified_at_round_eq [OF max] find_round_other [OF assms(1,2)] del: scan_rounds.simps)
  qed
qed

lemma scan_rounds_none:
  assumes "\<forall>x \<in> set (certified a). cert_cell_id cr (snd x) \<noteq> cid" "n < 2 ^ 64 - 1"
  shows "scan_rounds cr a cid n = Some None"
  using assms(2)
proof (induction n)
  case 0
  then show ?case by (simp add: certified_at_round_eq max_value_def find_round_none [OF assms(1)])
next
  case (Suc n)
  have "unat (word_of_nat (Suc n) :: u64) = Suc n" by (rule unat_u64_of_nat) (use Suc.prems in simp)
  then have "(word_of_nat (Suc n) :: u64) \<noteq> max_value" using Suc.prems by (auto simp: word_unat_eq_iff unat_max_value simp del: of_nat_Suc)
  from certified_at_round_eq [OF this, of a] show ?case
    using Suc by (simp add: find_round_none [OF assms(1)] del: of_nat_Suc)
qed

text \<open>The setting of the walker: an aggregator that satisfies its invariant, has not seen the
  last round, and whose certified cells have different ids.\<close>

definition walkable :: "crypto \<Rightarrow> nat \<Rightarrow> LatticeAggregator \<Rightarrow> bool" where
  "walkable cr q a \<longleftrightarrow> agg_inv cr q a \<and> high_water_round a \<noteq> max_value \<and> ids_unique cr a"

lemma walkable_key:
  "walkable cr q a \<Longrightarrow> (k, c) \<in> set (certified a) \<Longrightarrow>
   k = (round (cell c), author (cell c)) \<and> round (cell c) \<le> high_water_round a"
  by (auto simp: walkable_def agg_inv_def cert_ok_def)

lemma walkable_high: "walkable cr q a \<Longrightarrow> unat (high_water_round a) < 2 ^ 64 - 1"
  using unat_le_max [of "high_water_round a"]
  by (auto simp: walkable_def word_unat_eq_iff unat_max_value)

lemma find_by_id_found:
  assumes "walkable cr q a" "(k, c) \<in> set (certified a)"
  shows "find_by_id cr a (cert_cell_id cr c) = Some (Some (fst k, snd k, c))"
proof -
  note key = walkable_key [OF assms]
  have "scan_rounds cr a (cert_cell_id cr c) (unat (high_water_round a)) =
      Some (Some (round (cell c), author (cell c), c))"
    using assms key walkable_high [OF assms(1)]
    by (intro scan_rounds_found) (auto simp: walkable_def word_le_nat_alt)
  with key show ?thesis by (simp add: find_by_id_def)
qed

lemma find_by_id_none:
  assumes "walkable cr q a" "\<forall>x \<in> set (certified a). cert_cell_id cr (snd x) \<noteq> cid"
  shows "find_by_id cr a cid = Some None"
  unfolding find_by_id_def by (rule scan_rounds_none [OF assms(2) walkable_high [OF assms(1)]])

text \<open>Reading the last round panics, and so does a scan that starts there.\<close>

lemma certified_at_last_round: "certified_at_round max_value a = None"
  by (simp add: certified_at_round_def max_value_def less_prod_def word_gt_0)

lemma find_by_id_last_round:
  assumes "high_water_round a = max_value"
  shows "find_by_id cr a cid = None"
proof -
  have "unat (high_water_round a) = Suc (2 ^ 64 - 2)" using assms by (simp add: unat_max_value)
  moreover have "(word_of_nat (Suc (2 ^ 64 - 2)) :: u64) = max_value" by (simp add: max_value_def)
  ultimately show ?thesis
    unfolding find_by_id_def scan_rounds.simps(2) by (simp only: scan_rounds.simps(2) certified_at_last_round option.case)
qed

lemma walk_causal_history_last_round: "high_water_round a = max_value \<Longrightarrow> walk_causal_history cr a start r = None"
  by (simp add: walk_causal_history_def find_by_id_last_round)

subsection \<open>Causal history\<close>

text \<open>The cells a cell depends on: itself, and the parents of every certified cell among them.\<close>

inductive ancestor :: "crypto \<Rightarrow> LatticeAggregator \<Rightarrow> CellId \<Rightarrow> CellId \<Rightarrow> bool"
  for cr :: crypto and a :: LatticeAggregator and start :: CellId where
  self: "ancestor cr a start start"
| parent: "ancestor cr a start (cert_cell_id cr c) \<Longrightarrow> (k, c) \<in> set (certified a) \<Longrightarrow>
    p \<in> set (parents (cell c)) \<Longrightarrow> ancestor cr a start p"

text \<open>The invariant of the walker's loop.  Its quantifiers range over keys, which are pairs; they
  are kept whole in this section.\<close>

declare split_paired_All [simp del] split_paired_Ex [simp del]

definition walk_inv ::
  "crypto \<Rightarrow> LatticeAggregator \<Rightarrow> CellId \<Rightarrow> (CellId \<times> u64) list \<Rightarrow> CellId set \<Rightarrow>
   ((u64 \<times> string) \<times> CellId) list \<Rightarrow> bool" where
  "walk_inv cr a start queue seen visited \<longleftrightarrow>
     bt_wf visited \<and> start \<in> seen \<and> fst ` set queue \<subseteq> seen \<and> (\<forall>x \<in> seen. ancestor cr a start x) \<and>
     (\<forall>k x. (k, x) \<in> set visited \<longrightarrow>
        ancestor cr a start x \<and> (\<exists>c. (k, c) \<in> set (certified a) \<and> cert_cell_id cr c = x)) \<and>
     (\<forall>k c. (k, c) \<in> set (certified a) \<longrightarrow> cert_cell_id cr c \<in> seen - fst ` set queue \<longrightarrow>
        (k, cert_cell_id cr c) \<in> set visited \<and> set (parents (cell c)) \<subseteq> seen)"

lemma enqueue_parents_sets:
  "enqueue_parents r ps queue seen = (queue', seen') \<Longrightarrow>
   seen' = seen \<union> set ps \<and> fst ` set queue' = fst ` set queue \<union> (set ps - seen)"
  by (induction r ps queue seen rule: enqueue_parents.induct) (auto split: if_splits)

lemma set_bt_insert:
  "bt_wf m \<Longrightarrow> set (bt_insert k v m) = insert (k, v) {x \<in> set m. fst x \<noteq> k}"
  by (induction k v m rule: bt_insert.induct) auto

lemma walk_inv_skip:
  assumes "walk_inv cr a start ((cid, r) # queue) seen visited"
    and "\<forall>x \<in> set (certified a). cert_cell_id cr (snd x) \<noteq> cid"
  shows "walk_inv cr a start queue seen visited"
proof -
  have "cert_cell_id cr c \<in> seen - fst ` set ((cid, r) # queue)"
    if "(k, c) \<in> set (certified a)" "cert_cell_id cr c \<in> seen - fst ` set queue" for k c
    using that assms(2) by force
  moreover have "fst ` set queue \<subseteq> fst ` set ((cid, r) # queue)" by auto
  ultimately show ?thesis using assms(1) unfolding walk_inv_def by (meson order_trans)
qed

text \<open>Processing a certified cell keeps the invariant.\<close>

lemma walk_inv_visit:
  assumes wk: "walkable cr q a" and inv: "walk_inv cr a start ((cid, r) # queue) seen visited"
    and c: "(k, c) \<in> set (certified a)" "cert_cell_id cr c = cid"
    and enq: "enqueue_parents r' (parents (cell c)) queue seen = (queue', seen')"
  shows "walk_inv cr a start queue' seen' (bt_insert k cid visited)"
proof -
  have sets: "seen' = seen \<union> set (parents (cell c))"
    "fst ` set queue' = fst ` set queue \<union> (set (parents (cell c)) - seen)"
    using enqueue_parents_sets [OF enq] by auto
  have wf: "bt_wf visited" and sub: "fst ` set queue \<subseteq> seen" "cid \<in> seen" and st: "start \<in> seen"
    and anc: "\<And>x. x \<in> seen \<Longrightarrow> ancestor cr a start x"
    and vis: "\<And>k x. (k, x) \<in> set visited \<Longrightarrow>
        ancestor cr a start x \<and> (\<exists>c. (k, c) \<in> set (certified a) \<and> cert_cell_id cr c = x)"
    using inv unfolding walk_inv_def by auto
  have clo: "(j, cert_cell_id cr d) \<in> set visited \<and> set (parents (cell d)) \<subseteq> seen"
    if "(j, d) \<in> set (certified a)" "cert_cell_id cr d \<in> seen - fst ` set ((cid, r) # queue)" for j d
    using inv that unfolding walk_inv_def by blast
  have keys: "hm_wf (certified a)" using wk by (auto simp: walkable_def agg_inv_def bt_wf_distinct)
  have same: "c' = c" if "(k, c') \<in> set (certified a)" for c'
    using that c(1) keys by (meson eq_key_imp_eq_value)
  have one: "x = (k, c)" if "x \<in> set (certified a)" "cert_cell_id cr (snd x) = cid" for x
    using wk that c unfolding walkable_def ids_unique_def by fastforce
  have at_k: "x = cid" if "(k, x) \<in> set visited" for x
    using vis [OF that] same c(2) by blast
  have visited': "set (bt_insert k cid visited) = insert (k, cid) (set visited)"
    unfolding set_bt_insert [OF wf] using at_k by force
  have anc': "ancestor cr a start x" if "x \<in> seen'" for x
    using that sets anc sub(2) ancestor.parent [OF _ c(1)] c(2) by auto
  show ?thesis
    unfolding walk_inv_def
  proof (intro conjI allI impI ballI)
    show "bt_wf (bt_insert k cid visited)" using wf by (rule bt_wf_insert)
    show "start \<in> seen'" "fst ` set queue' \<subseteq> seen'" using sets sub st by auto
    show "ancestor cr a start x" if "x \<in> seen'" for x using that by (rule anc')
  next
    fix j x assume "(j, x) \<in> set (bt_insert k cid visited)"
    then have "j = k \<and> x = cid \<or> (j, x) \<in> set visited" using visited' by blast
    then show "ancestor cr a start x" "\<exists>c. (j, c) \<in> set (certified a) \<and> cert_cell_id cr c = x"
      using vis c anc [OF sub(2)] by blast+
  next
    fix j d assume d: "(j, d) \<in> set (certified a)" "cert_cell_id cr d \<in> seen' - fst ` set queue'"
    then have old: "cert_cell_id cr d \<in> seen" "cert_cell_id cr d \<notin> fst ` set queue" using sets by auto
    have "(j, cert_cell_id cr d) \<in> set (bt_insert k cid visited) \<and> set (parents (cell d)) \<subseteq> seen'"
    proof (cases "cert_cell_id cr d = cid")
      case True
      then have "j = k" "d = c" using one [of "(j, d)"] d(1) by auto
      then show ?thesis using True visited' sets by simp
    next
      case False
      then have "cert_cell_id cr d \<in> seen - fst ` set ((cid, r) # queue)" using old by simp
      from clo [OF d(1) this] show ?thesis using visited' sets by blast
    qed
    then show "(j, cert_cell_id cr d) \<in> set (bt_insert k cid visited)" "set (parents (cell d)) \<subseteq> seen'"
      by blast+
  qed
qed

lemma walk_loop_correct:
  assumes "walkable cr q a" "walk_inv cr a start queue seen visited"
  shows "\<exists>seen' visited'. walk_loop cr a queue seen visited = Some visited' \<and>
    walk_inv cr a start [] seen' visited'"
  using assms
proof (induction cr a queue seen visited rule: walk_loop.induct)
  case (1 cr a seen visited)
  then show ?case by auto
next
  case (2 cr a cid r queue seen visited)
  note wk = 2(3) and inv = 2(4)
  show ?case
  proof (cases "\<exists>k c. (k, c) \<in> set (certified a) \<and> cert_cell_id cr c = cid")
    case False
    then have none: "\<forall>x \<in> set (certified a). cert_cell_id cr (snd x) \<noteq> cid" by force
    note f = find_by_id_none [OF wk none]
    from 2(1) [OF f refl wk walk_inv_skip [OF inv none]] show ?thesis by (simp add: f)
  next
    case True
    then obtain k c where c: "(k, c) \<in> set (certified a)" "cert_cell_id cr c = cid" by blast
    have f: "find_by_id cr a cid = Some (Some (fst k, snd k, c))" using find_by_id_found [OF wk c(1)] c(2) by simp
    obtain queue' seen' where enq: "enqueue_parents (fst k) (parents (cell c)) queue seen = (queue', seen')"
      by (metis prod.exhaust)
    have inv': "walk_inv cr a start queue' seen' (bt_insert (fst k, snd k) cid visited)"
      using walk_inv_visit [OF wk inv c enq] by simp
    from 2(2) [OF f refl refl refl enq [symmetric] wk inv'] show ?thesis by (simp add: f enq)
  qed
qed

lemma bt_eqI:
  assumes "bt_wf m" "bt_wf m'" "set m = set m'"
  shows "m = m'"
  using assms
proof (induction m arbitrary: m')
  case (Cons x m)
  then obtain y m'' where m': "m' = y # m''" by (cases m') auto
  have "fst x \<le> fst y" "fst y \<le> fst x" using Cons.prems m' by fastforce+
  then have fxy: "fst x = fst y" by simp
  have "x = y" using Cons.prems fxy m' by fastforce
  moreover have "set m = set m''" using Cons.prems m' \<open>x = y\<close> by fastforce
  ultimately show ?case using Cons m' by simp
qed simp

text \<open>The walker returns the certified causal history of its start in the order of the table.\<close>

lemma walk_causal_history_eq:
  assumes "walkable cr q a"
  shows "walk_causal_history cr a start r =
    Some (map (\<lambda>x. cert_cell_id cr (snd x))
      (filter (\<lambda>x. ancestor cr a start (cert_cell_id cr (snd x))) (certified a)))"
proof -
  let ?anc = "\<lambda>x. ancestor cr a start (cert_cell_id cr (snd x))"
  let ?m = "map (\<lambda>x. (fst x, cert_cell_id cr (snd x))) (filter ?anc (certified a))"
  have "walk_inv cr a start [(start, r)] {start} []" by (simp add: walk_inv_def ancestor.self)
  then obtain seen visited where
    w: "walk_loop cr a [(start, r)] {start} [] = Some visited" and
    inv: "walk_inv cr a start [] seen visited"
    using walk_loop_correct [OF assms] by blast
  have closed: "(k, cert_cell_id cr c) \<in> set visited \<and> set (parents (cell c)) \<subseteq> seen"
    if "(k, c) \<in> set (certified a)" "cert_cell_id cr c \<in> seen" for k c
    using inv that unfolding walk_inv_def by auto
  have seen: "ancestor cr a start x \<Longrightarrow> x \<in> seen" for x
  proof (induction rule: ancestor.induct)
    case self
    then show ?case using inv by (simp add: walk_inv_def)
  next
    case (parent c k p)
    then show ?case using closed by blast
  qed
  have "set visited = set ?m"
  proof
    show "set ?m \<subseteq> set visited" using closed seen by fastforce
    show "set visited \<subseteq> set ?m" using inv unfolding walk_inv_def by (auto simp: image_iff) force
  qed
  moreover have "bt_wf visited" using inv by (simp add: walk_inv_def)
  moreover have "bt_wf ?m"
    using assms strict_sorted_filter [of "certified a" ?anc] by (simp add: walkable_def agg_inv_def o_def)
  ultimately have "visited = ?m" by (intro bt_eqI)
  then show ?thesis using w by (simp add: walk_causal_history_def o_def)
qed

declare split_paired_All [simp] split_paired_Ex [simp]

subsection \<open>Followers\<close>

text \<open>The authors whose certified cell of a round has a given cell among its parents.\<close>

definition followers :: "LatticeAggregator \<Rightarrow> u64 \<Rightarrow> CellId \<Rightarrow> string set" where
  "followers a r cid = {auth. \<exists>c. certified_get r auth a = Some c \<and> cid \<in> set (parents (cell c))}"

lemma follower_count_eq:
  assumes "bt_wf (certified a)"
  shows "length (filter P (map snd (filter (\<lambda>x. fst (fst x) = r) (certified a)))) =
    card {auth. \<exists>c. certified_get r auth a = Some c \<and> P c}"
proof -
  let ?l = "filter (\<lambda>x. fst (fst x) = r \<and> P (snd x)) (certified a)"
  have dist: "hm_wf (certified a)" using assms by (rule bt_wf_distinct)
  then have "distinct (map fst ?l)" by (rule distinct_map_filter)
  then have "distinct (map (snd \<circ> fst) ?l)"
    by (auto simp: distinct_map inj_on_def prod_eq_iff)
  then have "card ((snd \<circ> fst) ` set ?l) = length ?l" using distinct_card by fastforce
  moreover have "(snd \<circ> fst) ` set ?l = {auth. \<exists>c. certified_get r auth a = Some c \<and> P c}"
    using dist by (force simp: certified_get_def)
  moreover have "length (filter P (map snd (filter (\<lambda>x. fst (fst x) = r) (certified a)))) = length ?l"
    by (simp add: filter_map o_def conj_commute)
  ultimately show ?thesis by simp
qed

subsection \<open>Weights\<close>

lemma unat_weight: "unat (weight e) = max (unat (snd e)) 1"
proof -
  have "unat (snd e) < 2 ^ 64" using unat_bound [of "snd e"] by simp
  then have "unat (ucast (snd e) :: u64) = unat (snd e)"
    by (simp add: unsigned_ucast_eq take_bit_nat_eq_self)
  then show ?thesis by (simp add: weight_def unat_word_max)
qed

lemma weight_bounds: "1 \<le> unat (weight e)" "unat (weight e) < 2 ^ 32"
  using unat_bound [of "snd e"] by (simp_all add: unat_weight)

lemma sum_weights:
  assumes "length ranked < 2 ^ 32"
  shows "unat (sum_list (map weight ranked)) = sum_list (map (\<lambda>e. unat (weight e)) ranked)"
    and "sum_list (map (\<lambda>e. unat (weight e)) ranked) < 2 ^ 64"
proof -
  have "sum_list (map (\<lambda>e. unat (weight e)) ranked) \<le> length ranked * 2 ^ 32" for ranked
    by (induction ranked) (use weight_bounds(2) in \<open>auto intro: add_le_mono less_imp_le\<close>)
  also have "length ranked * 2 ^ 32 < 2 ^ 32 * 2 ^ 32"
    using assms by (intro mult_less_mono1) simp_all
  finally show lt: "sum_list (map (\<lambda>e. unat (weight e)) ranked) < 2 ^ 64" by simp
  show "unat (sum_list (map weight ranked)) = sum_list (map (\<lambda>e. unat (weight e)) ranked)"
    using lt
  proof (induction ranked)
    case (Cons e ranked)
    then have IH: "unat (sum_list (map weight ranked)) = sum_list (map (\<lambda>e. unat (weight e)) ranked)" by simp
    show ?case using Cons.prems by (simp add: unat_add_lem [THEN iffD1] IH)
  qed simp
qed

lemma fill_slots_last:
  assumes "unat acc + sum_list (map (\<lambda>e. unat (weight e)) (e # ranked)) = unat w"
  shows "fill_slots 1 w acc [] (e # ranked) = [fst (last (e # ranked))]"
  using assms
proof (induction ranked arbitrary: acc e)
  case Nil
  then have "acc + weight e = w" "w \<noteq> 0"
    using weight_bounds(1) [of e] unat_bound [of w] by (auto simp: word_unat_eq_iff unat_word_ariths)
  moreover from this have "w div w = 1" by (simp add: word_unat_eq_iff unat_div)
  ultimately show ?case by (simp add: Let_def)
next
  case (Cons e' ranked)
  have lt: "unat acc + unat (weight e) < unat w"
    using Cons.prems weight_bounds(1) [of e'] by simp
  then have u: "unat (acc + weight e) = unat acc + unat (weight e)"
    using unat_bound [of w] by (intro unat_add_lem [THEN iffD1]) simp
  then have "unat ((acc + weight e) div w) = 0" using lt by (simp add: unat_div)
  moreover have "fill_slots 1 w (acc + weight e) [] (e' # ranked) = [fst (last (e' # ranked))]"
    by (rule Cons.IH) (use Cons.prems u in simp)
  ultimately show ?case by (simp add: Let_def)
qed

subsection \<open>The commit decision\<close>

lemma cycle_rounds:
  "unat k < 2 ^ 63 - 1 \<Longrightarrow> saturating_mul k 2 = 2 * k \<and> saturating_add (2 * k) 1 = 2 * k + 1 \<and> 2 * k + 1 \<noteq> (max_value :: u64)"
  "2 ^ 63 - 1 \<le> unat k \<Longrightarrow> saturating_add (saturating_mul k 2) 1 = (max_value :: u64)"
proof -
  assume k: "unat k < 2 ^ 63 - 1"
  then have u: "unat (2 * k) = 2 * unat k" "unat (2 * k + 1) = 2 * unat k + 1"
    by (simp_all add: unat_word_ariths)
  have "saturating_mul k 2 = 2 * k"
    using u k by (simp add: word_unat_eq_iff unat_saturating_mul)
  moreover have "saturating_add (2 * k) 1 = 2 * k + 1"
    using u k by (simp only: word_unat_eq_iff unat_saturating_add) simp
  moreover have "2 * k + 1 \<noteq> max_value"
    using u k by (simp only: word_unat_eq_iff unat_max_value) simp
  ultimately show "saturating_mul k 2 = 2 * k \<and> saturating_add (2 * k) 1 = 2 * k + 1 \<and> 2 * k + 1 \<noteq> (max_value :: u64)" by simp
next
  assume "2 ^ 63 - 1 \<le> unat k"
  then show "saturating_add (saturating_mul k 2) 1 = (max_value :: u64)"
    by (simp add: word_unat_eq_iff unat_saturating_add unat_saturating_mul unat_max_value min_def)
qed

lemma try_commit_eq:
  assumes "agg_inv cr q a" "ids_unique cr a"
  shows "try_commit cr a k piv gid =
    (case certified_get (saturating_mul k 2) piv a of
       None \<Rightarrow> Some AnchorNotCertified
     | Some anchor \<Rightarrow>
         if 2 ^ 63 - 1 \<le> unat k then None
         else
           let cid = cert_cell_id cr anchor; n = card (followers a (2 * k + 1) cid) in
           if n < quorum a then Some (BelowFollowerQuorum n (quorum a))
           else if high_water_round a = max_value then None
           else Some (Committed \<lparr> index = k, cycle_group_id = gid, pivot = piv, pivot_cell = cid,
             committed_cells = map (\<lambda>x. cert_cell_id cr (snd x))
               (filter (\<lambda>x. ancestor cr a cid (cert_cell_id cr (snd x))) (certified a)) \<rparr>))"
proof (cases "2 ^ 63 - 1 \<le> unat k")
  case True
  then show ?thesis
    unfolding try_commit_def Let_def cycle_rounds(2) [OF True] certified_at_last_round by (simp split: option.split)
next
  case False
  then have k: "unat k < 2 ^ 63 - 1" by simp
  note r = cycle_rounds(1) [OF k, THEN conjunct1] cycle_rounds(1) [OF k, THEN conjunct2, THEN conjunct1]
    certified_at_round_eq [OF cycle_rounds(1) [OF k, THEN conjunct2, THEN conjunct2]]
  have wf: "bt_wf (certified a)" using assms(1) by (simp add: agg_inv_def)
  have fc: "length (filter (\<lambda>c. cid \<in> set (parents (cell c)))
      (map snd (filter (\<lambda>x. fst (fst x) = 2 * k + 1) (certified a)))) = card (followers a (2 * k + 1) cid)" for cid
    unfolding followers_def by (rule follower_count_eq [OF wf])
  show ?thesis
  proof (cases "high_water_round a = max_value")
    case True
    then show ?thesis
      using False unfolding try_commit_def Let_def r option.case fc walk_causal_history_last_round [OF True]
      by (simp split: option.split)
  next
    case high: False
    then have "walkable cr q a" using assms by (simp add: walkable_def)
    from walk_causal_history_eq [OF this] show ?thesis
      using False high unfolding try_commit_def Let_def r option.case fc by (simp split: option.split)
  qed
qed

section \<open>Concrete inputs\<close>

text \<open>A lattice of a group of one: \<open>A\<close>'s cells of rounds 1, 2 and 3, each the parent of the next,
  all certified, and one more pending cell.\<close>

definition chain_cell :: "u64 \<Rightarrow> CellId list \<Rightarrow> LatticeCell" where
  "chain_cell r ps = (toy_cell r ''A'' [])\<lparr> parents := ps \<rparr>"

definition chain_add :: "LatticeCell \<Rightarrow> LatticeAggregator \<Rightarrow> LatticeAggregator" where
  "chain_add c a = fst (observe_attestation toy_crypto (cell_id toy_crypto c) (toy_att ''x'')
     (fst (observe_cell toy_crypto c a)))"

definition chain_id :: "u8 \<Rightarrow> CellId" where
  "chain_id r = [r, 124]"

definition chain_agg :: LatticeAggregator where
  "chain_agg = chain_add (chain_cell 3 [chain_id 2])
     (chain_add (chain_cell 2 [chain_id 1]) (chain_add (chain_cell 1 []) (toy_agg 1)))"

lemma chain_agg_eq: "chain_agg =
  \<lparr> config = default_aggregator_config\<lparr> group_size := 1 \<rparr>, pending = [],
    certified =
      [((1, ''A''), \<lparr> cell = chain_cell 1 [], attestations = [toy_att ''x''] \<rparr>),
       ((2, ''A''), \<lparr> cell = chain_cell 2 [chain_id 1], attestations = [toy_att ''x''] \<rparr>),
       ((3, ''A''), \<lparr> cell = chain_cell 3 [chain_id 2], attestations = [toy_att ''x''] \<rparr>)],
    high_water_round = 3 \<rparr>"
  by code_simp

lemma chain_reachable: "reachable (agg_init 1) (agg_step toy_crypto 1) chain_agg"
proof -
  have "agg_init 1 (toy_agg 1)" unfolding agg_init_def toy_agg_def
    by (rule exI [of _ "default_aggregator_config\<lparr> group_size := 1 \<rparr>"]) (simp add: lattice_quorum_def)
  then have start: "reachable (agg_init 1) (agg_step toy_crypto 1) (toy_agg 1)" by (rule reachable.start)
  have add: "reachable (agg_init 1) (agg_step toy_crypto 1) (chain_add c a)"
    if "reachable (agg_init 1) (agg_step toy_crypto 1) a" for c a
    unfolding chain_add_def
    by (rule reachable.move [OF reachable.move [OF that agg_step.cell] agg_step.attestation])
  show ?thesis unfolding chain_agg_def by (intro add start)
qed

lemma chain_walkable: "walkable toy_crypto 1 chain_agg"
proof -
  have "high_water_round chain_agg \<noteq> max_value" unfolding chain_agg_eq by code_simp
  moreover have "ids_unique toy_crypto chain_agg" unfolding chain_agg_eq by code_simp
  ultimately show ?thesis
    using agg.inv_reachable [OF chain_reachable] by (simp add: walkable_def)
qed

lemma chain_id_eq: "chain_id r = chain_id s \<longleftrightarrow> r = s"
  by (simp add: chain_id_def)

lemma chain_ids:
  "cell_id toy_crypto (chain_cell 1 []) = chain_id 1"
  "cell_id toy_crypto (chain_cell 2 [chain_id 1]) = chain_id 2"
  "cell_id toy_crypto (chain_cell 3 [chain_id 2]) = chain_id 3"
  by code_simp+

lemma chain_find:
  "find_by_id toy_crypto chain_agg (chain_id 1) =
     Some (Some (1, ''A'', \<lparr> cell = chain_cell 1 [], attestations = [toy_att ''x''] \<rparr>))"
  "find_by_id toy_crypto chain_agg (chain_id 2) =
     Some (Some (2, ''A'', \<lparr> cell = chain_cell 2 [chain_id 1], attestations = [toy_att ''x''] \<rparr>))"
  using find_by_id_found [OF chain_walkable, of "(1, ''A'')" "\<lparr> cell = chain_cell 1 [], attestations = [toy_att ''x''] \<rparr>"]
    find_by_id_found [OF chain_walkable, of "(2, ''A'')" "\<lparr> cell = chain_cell 2 [chain_id 1], attestations = [toy_att ''x''] \<rparr>"]
  by (simp_all add: cert_cell_id_def chain_ids) (simp_all add: chain_agg_eq)

lemma chain_commit:
  "try_commit toy_crypto chain_agg 1 ''A'' ''g'' = Some (Committed
     \<lparr> index = 1, cycle_group_id = ''g'', pivot = ''A'', pivot_cell = chain_id 2,
       committed_cells = [chain_id 1, chain_id 2] \<rparr>)"
proof -
  have "walk_causal_history toy_crypto chain_agg (chain_id 2) 2 = Some [chain_id 1, chain_id 2]"
    by (simp add: walk_causal_history_def chain_find chain_cell_def toy_cell_def chain_id_eq)
  moreover have "saturating_mul 1 2 = (2 :: u64)" "saturating_add 2 1 = (3 :: u64)"
    by (simp_all add: saturating_mul_def checked_mul_def saturating_add_def checked_add_def)
  moreover have "certified_get 2 ''A'' chain_agg = Some \<lparr> cell = chain_cell 2 [chain_id 1], attestations = [toy_att ''x''] \<rparr>"
    by (simp add: certified_get_def chain_agg_eq)
  moreover have "certified_at_round 3 chain_agg = Some [\<lparr> cell = chain_cell 3 [chain_id 2], attestations = [toy_att ''x''] \<rparr>]"
    by (simp add: certified_at_round_eq max_value_def) (simp add: chain_agg_eq)
  moreover have "quorum chain_agg = 1" by (simp add: quorum_def chain_agg_eq lattice_quorum_def)
  moreover have "parents (chain_cell 3 [chain_id 2]) = [chain_id 2]" by (simp add: chain_cell_def)
  ultimately show ?thesis by (simp add: try_commit_def Let_def cert_cell_id_def chain_ids)
qed

section \<open>Properties\<close>

text \<open>C4. In every reachable state of the aggregator whose certified cells have different ids, a cycle
  commit decides as the rule says: with no certificate of the pivot at the anchor round the anchor is
  missing; with fewer followers (distinct authors of the next round whose cell has the anchor among its
  parents) than the quorum the decision is deferred; otherwise the cells committed are exactly the
  certified causal history of the anchor, listed in ascending order of round and author.  It panics in
  exactly two cases, both shown: the anchor is certified and the following round is the last round of
  64 bits, or a commit is due and the aggregator has seen a cell of that last round, which anyone can
  send.\<close>

theorem commit_is_causal_history:
  assumes "reachable (agg_init q) (agg_step cr q) a" "ids_unique cr a"
  shows "try_commit cr a k piv gid =
    (case certified_get (saturating_mul k 2) piv a of
       None \<Rightarrow> Some AnchorNotCertified
     | Some anchor \<Rightarrow>
         if 2 ^ 63 - 1 \<le> unat k then None
         else
           let cid = cert_cell_id cr anchor; n = card (followers a (2 * k + 1) cid) in
           if n < quorum a then Some (BelowFollowerQuorum n (quorum a))
           else if high_water_round a = max_value then None
           else Some (Committed \<lparr> index = k, cycle_group_id = gid, pivot = piv, pivot_cell = cid,
             committed_cells = map (\<lambda>x. cert_cell_id cr (snd x))
               (filter (\<lambda>x. ancestor cr a cid (cert_cell_id cr (snd x))) (certified a)) \<rparr>))"
  by (rule try_commit_eq [OF agg.inv_reachable [OF assms(1)] assms(2)])

theorem commit_is_causal_history_witness:
  "map (\<lambda>x. cert_cell_id toy_crypto (snd x))
     (filter (\<lambda>x. ancestor toy_crypto chain_agg (chain_id 2) (cert_cell_id toy_crypto (snd x)))
       (certified chain_agg)) = [chain_id 1, chain_id 2]"
proof -
  have "ids_unique toy_crypto chain_agg" using chain_walkable by (simp add: walkable_def)
  from commit_is_causal_history [OF chain_reachable this, of 1 "''A''" "''g''"] show ?thesis
    using chain_commit by (auto simp: Let_def split: option.splits if_splits)
qed

text \<open>The anchor of a committed cycle is among the committed cells, every committed cell is
  certified and is ordered after all committed cells of earlier rounds.\<close>

theorem commit_contains_anchor:
  assumes "walkable cr q a" "try_commit cr a k piv gid = Some (Committed cy)"
  shows "pivot_cell cy \<in> set (committed_cells cy) \<and> did_commit cy \<and>
    (\<exists>cs. committed_cells cy = map (cert_cell_id cr) cs \<and> set cs \<subseteq> snd ` set (certified a) \<and>
       sorted (map (\<lambda>c. (round (cell c), author (cell c))) cs))"
proof -
  let ?m = "filter (\<lambda>x. ancestor cr a (pivot_cell cy) (cert_cell_id cr (snd x))) (certified a)"
  obtain anchor where anchor: "certified_get (saturating_mul k 2) piv a = Some anchor"
    and cy: "pivot_cell cy = cert_cell_id cr anchor"
      "committed_cells cy = map (\<lambda>x. cert_cell_id cr (snd x)) ?m"
    using assms(2) assms(1) [unfolded walkable_def] try_commit_eq [of cr q a k piv gid]
    by (auto simp: Let_def split: option.splits if_splits)
  have "((saturating_mul k 2, piv), anchor) \<in> set ?m"
    using anchor cy(1) by (auto simp: certified_get_def ancestor.self dest: map_of_SomeD)
  then have "cert_cell_id cr anchor \<in> set (committed_cells cy)" unfolding cy(2) by force
  then have mem: "pivot_cell cy \<in> set (committed_cells cy)" by (simp add: cy(1))
  have "map (\<lambda>c. (round (cell c), author (cell c))) (map snd ?m) = map fst ?m"
    using walkable_key [OF assms(1)] by (auto simp: prod_eq_iff)
  moreover have "sorted (map fst ?m)"
    using assms(1) strict_sorted_filter [of "certified a"]
    by (simp add: walkable_def agg_inv_def strict_sorted_iff)
  ultimately have "sorted (map (\<lambda>c. (round (cell c), author (cell c))) (map snd ?m))"
    by (simp only:)
  moreover have "committed_cells cy = map (cert_cell_id cr) (map snd ?m)" by (simp add: cy(2))
  moreover have "set (map snd ?m) \<subseteq> snd ` set (certified a)" by auto
  ultimately have "\<exists>cs. committed_cells cy = map (cert_cell_id cr) cs \<and> set cs \<subseteq> snd ` set (certified a) \<and>
       sorted (map (\<lambda>c. (round (cell c), author (cell c))) cs)" by blast
  moreover have "did_commit cy" unfolding did_commit_def using mem by (metis empty_iff list.set(1))
  ultimately show ?thesis using mem by blast
qed

theorem commit_contains_anchor_witness:
  "chain_id 2 \<in> set [chain_id 1, chain_id 2] \<and>
   did_commit \<lparr> index = 1, cycle_group_id = ''g'', pivot = ''A'', pivot_cell = chain_id 2,
     committed_cells = [chain_id 1, chain_id 2] \<rparr> \<and>
   (\<exists>cs. [chain_id 1, chain_id 2] = map (cert_cell_id toy_crypto) cs \<and>
      set cs \<subseteq> snd ` set (certified chain_agg) \<and>
      sorted (map (\<lambda>c. (round (cell c), author (cell c))) cs))"
proof -
  from commit_contains_anchor [OF chain_walkable chain_commit] show ?thesis
    unfolding Cycle.select_convs .
qed

text \<open>The elected pivot never rotates: whatever the group, the cycle and the scores, the
  schedule has a single slot and it goes to the last peer of the ranking, the one with the lowest
  score.\<close>

theorem pivot_always_last:
  assumes "ranked \<noteq> []" "length ranked < 2 ^ 32"
  shows "pivot_for_cycle cr gid k ranked = Some (fst (last ranked))"
proof -
  obtain e es where r: "ranked = e # es" using assms(1) by (cases ranked) auto
  let ?w = "sum_list (map weight ranked)"
  have pos: "1 \<le> unat ?w"
    using sum_weights(1) [OF assms(2)] weight_bounds(1) [of e] by (simp add: r)
  then have "max ?w 1 = ?w" by (simp add: max_one_pos word_less_nat_alt)
  moreover have "fill_slots 1 ?w 0 [] ranked = [fst (last ranked)]"
    unfolding r by (rule fill_slots_last) (use sum_weights(1) [OF assms(2)] in \<open>simp add: r\<close>)
  ultimately show ?thesis
    using assms(1)
    by (simp add: pivot_for_cycle_def build_weighted_pivot_schedule_def PIVOT_TENURE_SLOTS_def Let_def)
qed

theorem pivot_always_last_witness:
  "pivot_for_cycle toy_crypto ''g'' 41 [(''best'', 990), (''mid'', 500), (''worst'', 3)] = Some ''worst''"
  using pivot_always_last [of "[(''best'', 990), (''mid'', 500), (''worst'', 3)]" toy_crypto "''g''" 41] by simp

end
