(* ===== verification/Lattice_Runtime.thy ===== *)
theory Lattice_Runtime
  imports Lattice_Commit
begin

text \<open>
  The light node's lattice tasks (\<open>savitri-lightnode/src/lattice_runtime.rs\<close>): the two receive
  handlers, the publisher's tick and the commit poller's tick.  A handler takes the decoded
  message (\<open>None\<close> when decoding failed) and returns the new state with the messages handed to the
  network channel; encoding a message and sending it are taken to succeed.  The signing key is the
  function \<open>sign\<close> of the state, the wall clock (Unix seconds, \<open>None\<close> before the epoch) an argument.
  Ticks of the poller return \<open>None\<close> when the commit walker panics.
\<close>

section \<open>State and messages\<close>

record LatticeRuntimeState =
  local_peer_id :: string
  verifying_key :: bytes
  sign :: "bytes \<Rightarrow> bytes"
  aggregator :: LatticeAggregator

record AttestationEnvelope =
  env_cell_id :: CellId
  attestation :: CellAttestation

datatype NetMsg = CellMsg LatticeCell | AttestationMsg AttestationEnvelope

definition cell_topic_for_group :: "string \<Rightarrow> string" where
  "cell_topic_for_group gid = ''/savitri/group/'' @ gid @ ''/lattice/cell/1''"

definition attestation_topic_for_group :: "string \<Rightarrow> string" where
  "attestation_topic_for_group gid = ''/savitri/group/'' @ gid @ ''/lattice/attestation/1''"

definition LATTICE_ROUND_DURATION_SECS :: u64 where
  "LATTICE_ROUND_DURATION_SECS = 1"

definition new_runtime :: "string \<Rightarrow> bytes \<Rightarrow> (bytes \<Rightarrow> bytes) \<Rightarrow> AggregatorConfig \<Rightarrow> LatticeRuntimeState" where
  "new_runtime peer pk sg cfg =
     \<lparr> local_peer_id = peer, verifying_key = pk, sign = sg, aggregator = new_aggregator cfg \<rparr>"

definition current_lattice_round :: "u64 option \<Rightarrow> u64" where
  "current_lattice_round now_secs = (case now_secs of
      Some d \<Rightarrow> d div max LATTICE_ROUND_DURATION_SECS 1
    | None \<Rightarrow> 0)"

definition placeholder_batch_root :: bytes where
  "placeholder_batch_root =
    [0x53, 0x41, 0x56, 0x49, 0x54, 0x52, 0x49, 0x2d, 0x4c, 0x41, 0x54, 0x54, 0x49, 0x43, 0x45,
     0x2d, 0x50, 0x4c, 0x41, 0x43, 0x45, 0x48, 0x4f, 0x4c, 0x44, 0x45, 0x52, 0x2d, 0x42, 0x41,
     0x54, 0x43]"

section \<open>Receive handlers\<close>

definition publish_attestation ::
  "crypto \<Rightarrow> CellId \<Rightarrow> LatticeCell \<Rightarrow> LatticeRuntimeState \<Rightarrow> LatticeRuntimeState \<times> (string \<times> NetMsg) list" where
  "publish_attestation cr cid c st =
    (let att = \<lparr> signer = local_peer_id st, signer_pubkey = verifying_key st,
                 signature = sign st (signable_bytes c) \<rparr>;
         (agg, _) = observe_attestation cr cid att (aggregator st);
         env = \<lparr> env_cell_id = cid, attestation = att \<rparr>
     in (st\<lparr> aggregator := agg \<rparr>, [(attestation_topic_for_group (group_id c), AttestationMsg env)]))"

definition process_cell_message ::
  "crypto \<Rightarrow> string option \<Rightarrow> LatticeCell option \<Rightarrow> LatticeRuntimeState \<Rightarrow>
   LatticeRuntimeState \<times> (string \<times> NetMsg) list" where
  "process_cell_message cr local_group data st =
    (case data of
       None \<Rightarrow> (st, [])
     | Some c \<Rightarrow>
         (case local_group of
            None \<Rightarrow> (st, [])
          | Some gid \<Rightarrow>
              if gid \<noteq> group_id c then (st, [])
              else
                (case observe_cell cr c (aggregator st) of
                   (agg, Inl _) \<Rightarrow> (st\<lparr> aggregator := agg \<rparr>, [])
                 | (agg, Inr cid) \<Rightarrow>
                     let st = st\<lparr> aggregator := agg \<rparr>
                     in if author c = local_peer_id st then (st, [])
                        else publish_attestation cr cid c st)))"

definition process_attestation_message ::
  "crypto \<Rightarrow> string option \<Rightarrow> AttestationEnvelope option \<Rightarrow> LatticeRuntimeState \<Rightarrow>
   LatticeRuntimeState \<times> AttestationOutcome option" where
  "process_attestation_message cr local_group data st =
    (case data of
       None \<Rightarrow> (st, None)
     | Some env \<Rightarrow>
         let (agg, outcome) = observe_attestation cr (env_cell_id env) (attestation env) (aggregator st)
         in (st\<lparr> aggregator := agg \<rparr>, Some outcome))"

section \<open>Periodic tasks\<close>

text \<open>One tick of the publisher.  The outer option is the panic of \<open>certified_at_round\<close>.\<close>

definition publisher_tick ::
  "crypto \<Rightarrow> u64 option \<Rightarrow> (string \<times> (string \<times> u32) list) option \<Rightarrow> LatticeRuntimeState \<Rightarrow>
   (LatticeRuntimeState \<times> (string \<times> NetMsg) list) option" where
  "publisher_tick cr now_secs grp st =
    (case grp of
       None \<Rightarrow> Some (st, [])
     | Some (gid, _) \<Rightarrow>
         let rnd = current_lattice_round now_secs;
             ps = (if rnd = 0 then Some []
                   else map_option (\<lambda>cs. take 16 (map (cert_cell_id cr) cs))
                          (certified_at_round (rnd - 1) (aggregator st)))
         in case ps of
              None \<Rightarrow> None
            | Some ps \<Rightarrow>
                let c = with_sorted_parents rnd gid (local_peer_id st) (verifying_key st) ps
                          placeholder_batch_root (replicate 64 0);
                    c = c\<lparr> author_signature := sign st (signable_bytes c) \<rparr>
                in case observe_cell cr c (aggregator st) of
                     (agg, Inl _) \<Rightarrow> Some (st\<lparr> aggregator := agg \<rparr>, [])
                   | (agg, Inr _) \<Rightarrow>
                       Some (st\<lparr> aggregator := agg \<rparr>, [(cell_topic_for_group gid, CellMsg c)]))"

text \<open>The loop of the commit poller over the cycles still to attempt: the last committed cycle and
  the cycles committed in this tick.\<close>

fun poll_cycles ::
  "crypto \<Rightarrow> LatticeAggregator \<Rightarrow> string \<Rightarrow> (string \<times> u32) list \<Rightarrow> u64 option \<Rightarrow> u64 list \<Rightarrow>
   (u64 option \<times> Cycle list) option" where
  "poll_cycles cr a gid ranked lastc [] = Some (lastc, [])"
| "poll_cycles cr a gid ranked lastc (k # ks) =
    (case pivot_for_cycle cr gid k ranked of
       None \<Rightarrow> Some (lastc, [])
     | Some piv \<Rightarrow>
         (case try_commit cr a k piv gid of
            None \<Rightarrow> None
          | Some (Committed cy) \<Rightarrow>
              map_option (\<lambda>(lastc', cys). (lastc', cy # cys)) (poll_cycles cr a gid ranked (Some k) ks)
          | Some AnchorNotCertified \<Rightarrow> Some (lastc, [])
          | Some (BelowFollowerQuorum _ _) \<Rightarrow> Some (lastc, [])))"

definition commit_poll_tick ::
  "crypto \<Rightarrow> u64 option \<Rightarrow> (string \<times> (string \<times> u32) list) option \<Rightarrow>
   LatticeRuntimeState \<times> u64 option \<Rightarrow> ((LatticeRuntimeState \<times> u64 option) \<times> Cycle list) option" where
  "commit_poll_tick cr now_secs grp = (\<lambda>(st, lastc).
    (case grp of
       None \<Rightarrow> Some ((st, lastc), [])
     | Some (gid, ranked) \<Rightarrow>
         let current_cycle = current_lattice_round now_secs div 2;
             max_attempt_cycle = saturating_sub current_cycle 1;
             start_cycle = (case lastc of Some c \<Rightarrow> c + 1 | None \<Rightarrow> 0);
             cycles = map word_of_nat [unat start_cycle ..< Suc (unat max_attempt_cycle)]
         in map_option (\<lambda>(lastc', cys).
              ((st\<lparr> aggregator := fst (gc_old_cells (aggregator st)) \<rparr>, lastc'), cys))
              (poll_cycles cr (aggregator st) gid ranked lastc cycles)))"

section \<open>Invariant\<close>

inductive runtime_step :: "crypto \<Rightarrow> LatticeRuntimeState \<Rightarrow> LatticeRuntimeState \<Rightarrow> bool" for cr :: crypto where
  cell_msg: "runtime_step cr st (fst (process_cell_message cr grp data st))"
| attestation_msg: "runtime_step cr st (fst (process_attestation_message cr grp env st))"
| publish: "publisher_tick cr now grp' st = Some (st', out) \<Longrightarrow> runtime_step cr st st'"
| poll: "commit_poll_tick cr now grp' (st, l) = Some ((st', l'), cys) \<Longrightarrow> runtime_step cr st st'"

definition runtime_inv :: "crypto \<Rightarrow> nat \<Rightarrow> LatticeRuntimeState \<Rightarrow> bool" where
  "runtime_inv cr q st \<longleftrightarrow> agg_inv cr q (aggregator st)"

definition runtime_init :: "nat \<Rightarrow> LatticeRuntimeState \<Rightarrow> bool" where
  "runtime_init q st \<longleftrightarrow> agg_init q (aggregator st)"

lemma process_cell_message_inv:
  assumes "runtime_inv cr q st"
  shows "runtime_inv cr q (fst (process_cell_message cr grp data st))"
proof -
  have cell: "agg_inv cr q (fst (observe_cell cr c (aggregator st)))" for c
    using assms by (auto simp: runtime_inv_def intro: agg_inv_observe_cell)
  have att: "agg_inv cr q (fst (observe_attestation cr cid att a))" if "agg_inv cr q a" for cid att a
    using that by (rule agg_inv_observe_attestation)
  show ?thesis
    using assms cell
    by (auto simp: process_cell_message_def publish_attestation_def runtime_inv_def Let_def case_prod_unfold
        split: option.split sum.split intro!: att)
qed

lemma publisher_tick_inv:
  assumes "runtime_inv cr q st" "publisher_tick cr now grp st = Some (st', out)"
  shows "runtime_inv cr q st'"
proof -
  have cell: "agg_inv cr q (fst (observe_cell cr c (aggregator st)))" for c
    using assms by (auto simp: runtime_inv_def intro: agg_inv_observe_cell)
  show ?thesis
    using assms cell
    by (auto simp: publisher_tick_def runtime_inv_def Let_def case_prod_unfold
        split: option.splits sum.splits)
qed

lemma runtime_inv_step: "runtime_step cr st st' \<Longrightarrow> runtime_inv cr q st \<Longrightarrow> runtime_inv cr q st'"
proof (induction rule: runtime_step.induct)
  case (cell_msg st grp data)
  then show ?case by (rule process_cell_message_inv)
next
  case (attestation_msg st grp env)
  then show ?case
    using agg_inv_observe_attestation
    by (auto simp: process_attestation_message_def runtime_inv_def case_prod_unfold Let_def split: option.split)
next
  case (publish now grp' st st' out)
  then show ?case by (blast intro: publisher_tick_inv)
next
  case (poll now grp' st l st' l' cys)
  then show ?case
    using agg_inv_gc by (auto simp: commit_poll_tick_def runtime_inv_def Let_def split: option.splits)
qed

interpretation runtime: inv_system "runtime_init q" "runtime_step cr" "runtime_inv cr q"
  by unfold_locales (auto simp: runtime_init_def runtime_inv_def agg_inv_init intro: runtime_inv_step [unfolded runtime_inv_def])

section \<open>Lemmas\<close>

lemma observe_cell_accepts: "verify_author_signature cr c \<Longrightarrow> snd (observe_cell cr c a) = Inr (cell_id cr c)"
  by (auto simp: observe_cell_def Let_def split: option.split)

lemma process_cell_message_attests:
  assumes "verify_author_signature cr c" "group_id c = gid" "author c \<noteq> local_peer_id st"
  shows "\<exists>a st'. process_cell_message cr (Some gid) (Some c) st = (st', [(attestation_topic_for_group gid,
        AttestationMsg \<lparr> env_cell_id = cell_id cr c, attestation = a \<rparr>)]) \<and>
      signature a = sign st (signable_bytes c) \<and> sign st' = sign st \<and> local_peer_id st' = local_peer_id st"
proof -
  obtain agg where o: "observe_cell cr c (aggregator st) = (agg, Inr (cell_id cr c))"
    using observe_cell_accepts [OF assms(1), of "aggregator st"] by (metis prod.collapse)
  show ?thesis
    using assms(2,3)
    by (auto simp: process_cell_message_def o publish_attestation_def Let_def case_prod_unfold)
qed

lemma certified_get_gc: "certified_get r auth a = None \<Longrightarrow> certified_get r auth (fst (gc_old_cells a)) = None"
  using map_of_filter_key [of "\<lambda>(r, _). saturating_sub (high_water_round a) (retention_rounds (config a)) \<le> r"
      "certified a" "(r, auth)"]
  by (auto simp: certified_get_def gc_old_cells_filter Let_def case_prod_unfold)

lemma poll_cycles_blocked:
  assumes "\<forall>auth. certified_get 0 auth a = None"
  shows "poll_cycles cr a gid ranked l (0 # ks) = Some (l, [])"
proof -
  have "saturating_mul 0 2 = (0 :: u64)" by (simp add: saturating_mul_def checked_mul_def)
  then have "try_commit cr a 0 piv gid = Some AnchorNotCertified" for piv
    using assms by (simp add: try_commit_def Let_def)
  then show ?thesis by (simp split: option.split)
qed

lemma commit_poll_blocked:
  assumes "\<forall>auth. certified_get 0 auth (aggregator st) = None"
  shows "commit_poll_tick cr now (Some (gid, ranked)) (st, None) =
    Some ((st\<lparr> aggregator := fst (gc_old_cells (aggregator st)) \<rparr>, None), [])"
proof -
  have "map word_of_nat [unat (0 :: u64) ..< Suc n] = (0 :: u64) # map word_of_nat [1 ..< Suc n]" for n
    by (simp add: upt_conv_Cons del: upt_Suc)
  then show ?thesis
    using poll_cycles_blocked [OF assms]
    by (simp add: commit_poll_tick_def Let_def del: upt_Suc poll_cycles.simps)
qed

section \<open>Properties\<close>

text \<open>Whatever messages the network delivers and whenever the periodic tasks run, every
  certificate a light node holds carries at least the quorum of attestations by different names,
  each verified against the certified cell.\<close>

theorem runtime_certificates:
  assumes "reachable (runtime_init q) (runtime_step cr) st"
    and "(k, c) \<in> set (certified (aggregator st))"
  shows "k = (round (cell c), author (cell c)) \<and> q \<le> attestation_count c \<and>
    distinct (map signer (attestations c)) \<and>
    (\<forall>att \<in> set (attestations c). verify_attestation_against_cell cr att (cell c))"
proof -
  have "runtime_inv cr q st" using assms(1) by (rule runtime.inv_reachable)
  with assms(2) show ?thesis
    by (auto simp: runtime_inv_def agg_inv_def cert_ok_def strict_sorted_iff)
qed

theorem runtime_certificates_witness:
  "\<exists>st. reachable (runtime_init 1) (runtime_step toy_crypto) st \<and>
     (\<exists>c. certified_get 3 ''A'' (aggregator st) = Some c \<and> 1 \<le> attestation_count c)"
proof -
  let ?st = "new_runtime ''B'' [9] (\<lambda>m. [9]) (default_aggregator_config\<lparr> group_size := 3 \<rparr>)"
  let ?st' = "fst (process_cell_message toy_crypto (Some ''g'') (Some (toy_cell 3 ''A'' [0])) ?st)"
  let ?c = "\<lparr> cell = toy_cell 3 ''A'' [0], attestations = [\<lparr> signer = ''B'', signer_pubkey = [9], signature = [9] \<rparr>] \<rparr>"
  have "agg_init 1 (aggregator ?st)" unfolding agg_init_def new_runtime_def
    by (rule exI [of _ "default_aggregator_config\<lparr> group_size := 3 \<rparr>"]) (simp add: lattice_quorum_def)
  then have "reachable (runtime_init 1) (runtime_step toy_crypto) ?st"
    by (intro reachable.start) (simp add: runtime_init_def)
  then have r: "reachable (runtime_init 1) (runtime_step toy_crypto) ?st'"
    using runtime_step.cell_msg by (rule reachable.move)
  have g: "certified_get 3 ''A'' (aggregator ?st') = Some ?c" by code_simp
  then have "((3, ''A''), ?c) \<in> set (certified (aggregator ?st'))"
    by (auto simp: certified_get_def dest: map_of_SomeD)
  from runtime_certificates [OF r this] g r show ?thesis by blast
qed

text \<open>A light node attests every well-signed cell of its group that another node authored,
  whatever it attested before: two different cells of one author and one round are both answered
  with a signed attestation.\<close>

theorem attests_equivocations:
  assumes "verify_author_signature cr c1" "verify_author_signature cr c2"
    and "group_id c1 = gid" "group_id c2 = gid"
    and "round c1 = round c2" "author c1 = author c2" "author c1 \<noteq> local_peer_id st"
    and "process_cell_message cr (Some gid) (Some c1) st = (st1, out1)"
    and "process_cell_message cr (Some gid) (Some c2) st1 = (st2, out2)"
  shows "\<exists>a1 a2. out1 = [(attestation_topic_for_group gid,
        AttestationMsg \<lparr> env_cell_id = cell_id cr c1, attestation = a1 \<rparr>)] \<and>
      out2 = [(attestation_topic_for_group gid,
        AttestationMsg \<lparr> env_cell_id = cell_id cr c2, attestation = a2 \<rparr>)] \<and>
      signature a1 = sign st (signable_bytes c1) \<and> signature a2 = sign st (signable_bytes c2)"
proof -
  obtain a1 where 1: "out1 = [(attestation_topic_for_group gid,
      AttestationMsg \<lparr> env_cell_id = cell_id cr c1, attestation = a1 \<rparr>)]"
    "signature a1 = sign st (signable_bytes c1)" "sign st1 = sign st" "local_peer_id st1 = local_peer_id st"
    using process_cell_message_attests [OF assms(1,3,7)] assms(8) by auto
  have "author c2 \<noteq> local_peer_id st1" using assms(6,7) 1(4) by simp
  from process_cell_message_attests [OF assms(2,4) this] obtain a2 where
    "out2 = [(attestation_topic_for_group gid,
      AttestationMsg \<lparr> env_cell_id = cell_id cr c2, attestation = a2 \<rparr>)]"
    "signature a2 = sign st1 (signable_bytes c2)"
    using assms(9) by auto
  with 1 show ?thesis by auto
qed

theorem attests_equivocations_witness:
  "\<exists>a1 a2 st1 st2.
     process_cell_message toy_crypto (Some ''g'') (Some (toy_cell 3 ''A'' [0]))
       (new_runtime ''B'' [9] (\<lambda>m. [9]) default_aggregator_config) =
       (st1, [(attestation_topic_for_group ''g'',
         AttestationMsg \<lparr> env_cell_id = cell_id toy_crypto (toy_cell 3 ''A'' [0]), attestation = a1 \<rparr>)]) \<and>
     process_cell_message toy_crypto (Some ''g'') (Some (toy_cell 3 ''A'' [1])) st1 =
       (st2, [(attestation_topic_for_group ''g'',
         AttestationMsg \<lparr> env_cell_id = cell_id toy_crypto (toy_cell 3 ''A'' [1]), attestation = a2 \<rparr>)]) \<and>
     cell_id toy_crypto (toy_cell 3 ''A'' [0]) \<noteq> cell_id toy_crypto (toy_cell 3 ''A'' [1])"
proof -
  let ?st = "new_runtime ''B'' [9] (\<lambda>m. [9]) default_aggregator_config"
  obtain st1 out1 where 1: "process_cell_message toy_crypto (Some ''g'') (Some (toy_cell 3 ''A'' [0])) ?st = (st1, out1)"
    by (metis prod.exhaust)
  obtain st2 out2 where 2: "process_cell_message toy_crypto (Some ''g'') (Some (toy_cell 3 ''A'' [1])) st1 = (st2, out2)"
    by (metis prod.exhaust)
  have v: "verify_author_signature toy_crypto (toy_cell 3 ''A'' [x])" for x
    by (simp add: verify_author_signature_def verify_with_def toy_crypto_def toy_cell_def)
  have ids: "cell_id toy_crypto (toy_cell 3 ''A'' [0]) \<noteq> cell_id toy_crypto (toy_cell 3 ''A'' [1])" by code_simp
  show ?thesis
    using attests_equivocations [OF v v _ _ _ _ _ 1 2] 1 2 ids
    by (auto simp: toy_cell_def new_runtime_def)
qed

text \<open>The commit poller never starts: it attempts cycles in order from cycle 0 and stops at the
  first one whose anchor is missing, so as long as no cell of round 0 is certified (rounds are
  numbered by Unix time) no tick ever commits a cycle.\<close>

theorem poller_stuck:
  assumes "\<forall>auth. certified_get 0 auth (aggregator st) = None"
    and "commit_poll_tick cr now grp (st, None) = Some ((st', l'), cys)"
  shows "l' = None \<and> cys = [] \<and> (\<forall>auth. certified_get 0 auth (aggregator st') = None)"
proof (cases grp)
  case None
  then show ?thesis using assms by (simp add: commit_poll_tick_def)
next
  case (Some g)
  then show ?thesis
    using assms commit_poll_blocked [OF assms(1)] certified_get_gc by (cases g) auto
qed

theorem poller_stuck_witness:
  "\<exists>st'. commit_poll_tick toy_crypto (Some 1700000000) (Some (''g'', [(''A'', 5)]))
      (new_runtime ''B'' [9] (\<lambda>m. [9]) default_aggregator_config, None) = Some ((st', None), []) \<and>
    (\<forall>auth. certified_get 0 auth (aggregator st') = None)"
proof -
  let ?st = "new_runtime ''B'' [9] (\<lambda>m. [9]) default_aggregator_config"
  have none: "\<forall>auth. certified_get 0 auth (aggregator ?st) = None"
    by (simp add: new_runtime_def new_aggregator_def certified_get_def)
  note tick = commit_poll_blocked [OF none, of toy_crypto "Some 1700000000" "''g''" "[(''A'', 5)]"]
  show ?thesis using tick poller_stuck [OF none tick] by blast
qed

end
