(* ===== verification/Vote_Aggregator.thy ===== *)
theory Vote_Aggregator
  imports Primitives
begin

text \<open>
  The masternode's vote aggregator (\<open>savitri-masternode/src/vote_aggregator.rs\<close>): signed votes are
  collected per proposal (height, round, block hash, group) and a certificate is issued at the
  group's quorum.  The masternode calls \<open>add_vote\<close> from one task, so a call is one step.
  \<open>group_mn_sizes\<close> is refreshed by another task between calls.  The iteration order of the map
  given to \<open>set_group_mn_sizes\<close> is the order of the list that stands for it.  \<open>va_step\<close> is one
  call, with the certificates issued so far kept as a history.
\<close>

section \<open>Votes and certificates\<close>

datatype VoteType = Approve | Reject

record MasternodeVote =
  round_id :: u64
  height :: u64
  block_hash :: bytes
  voter_pubkey :: bytes
  vote_type :: VoteType
  signature :: bytes
  group_id :: string
  state_root :: bytes
  tx_root :: bytes
  parent_hash :: bytes

record BlockCertificate =
  cert_round_id :: u64
  cert_height :: u64
  cert_block_hash :: bytes
  cert_votes :: "MasternodeVote list"
  cert_timestamp :: u64
  cert_group_id :: string
  cert_state_root :: bytes
  cert_tx_root :: bytes
  cert_parent_hash :: bytes
  reward_recipients :: "bytes list"

record ProposalKey =
  key_height :: u64
  key_round_id :: u64
  key_block_hash :: bytes
  key_group_id :: string

record ProposalVotes =
  approve_votes :: "MasternodeVote list"
  reject_votes :: "MasternodeVote list"

definition new_proposal_votes :: ProposalVotes where
  "new_proposal_votes = \<lparr> approve_votes = [], reject_votes = [] \<rparr>"

definition pv_add_vote :: "MasternodeVote \<Rightarrow> ProposalVotes \<Rightarrow> ProposalVotes" where
  "pv_add_vote vote pv = (case vote_type vote of
      Approve \<Rightarrow>
        if \<not> (\<exists>v \<in> set (approve_votes pv). voter_pubkey v = voter_pubkey vote)
        then pv\<lparr> approve_votes := approve_votes pv @ [vote] \<rparr> else pv
    | Reject \<Rightarrow>
        if \<not> (\<exists>v \<in> set (reject_votes pv). voter_pubkey v = voter_pubkey vote)
        then pv\<lparr> reject_votes := reject_votes pv @ [vote] \<rparr> else pv)"

definition get_certificate_votes :: "ProposalVotes \<Rightarrow> MasternodeVote list" where
  "get_certificate_votes pv = approve_votes pv"

section \<open>The aggregator\<close>

definition index_alias_key :: "nat \<Rightarrow> string" where
  "index_alias_key i = ''#idx:'' @ dec i"

record VoteAggregator =
  votes :: "(ProposalKey \<times> ProposalVotes) list"
  group_mn_sizes :: "(string \<times> nat) list"
  issued_certs :: "ProposalKey set"
  fallback_voters :: nat

definition new_vote_aggregator :: "nat \<Rightarrow> VoteAggregator" where
  "new_vote_aggregator total_voters =
     \<lparr> votes = [], group_mn_sizes = [], issued_certs = {}, fallback_voters = total_voters \<rparr>"

fun insert_sizes :: "(string \<times> nat) list \<Rightarrow> (string \<times> nat) list \<Rightarrow> (string \<times> nat) list" where
  "insert_sizes [] m = m"
| "insert_sizes ((gid, n) # sizes) m =
    (let m = (case group_index_from_id gid of
                Some i \<Rightarrow> AList.update (index_alias_key i) n m
              | None \<Rightarrow> m)
     in insert_sizes sizes (AList.update gid n m))"

definition set_group_mn_sizes :: "(string \<times> nat) list \<Rightarrow> VoteAggregator \<Rightarrow> VoteAggregator" where
  "set_group_mn_sizes sizes s = s\<lparr> group_mn_sizes := insert_sizes sizes [] \<rparr>"

definition quorum_for_group :: "VoteAggregator \<Rightarrow> string \<Rightarrow> nat" where
  "quorum_for_group s gid =
    (case map_of (group_mn_sizes s) gid of
       Some n \<Rightarrow> quorum_for_voters n
     | None \<Rightarrow>
         (case group_index_from_id gid of
            Some i \<Rightarrow>
              (case map_of (group_mn_sizes s) (index_alias_key i) of
                 Some n \<Rightarrow> quorum_for_voters n
               | None \<Rightarrow> quorum_for_voters (fallback_voters s))
          | None \<Rightarrow> quorum_for_voters (fallback_voters s)))"

definition vote_data :: "MasternodeVote \<Rightarrow> bytes" where
  "vote_data v = le_bytes 8 (round_id v) @ le_bytes 8 (height v) @ block_hash v @ voter_pubkey v @
     [case vote_type v of Approve \<Rightarrow> 1 | Reject \<Rightarrow> 0] @ str_bytes (group_id v)"

definition verify_vote_signature :: "crypto \<Rightarrow> MasternodeVote \<Rightarrow> bool" where
  "verify_vote_signature cr v = verify_with cr (voter_pubkey v) (vote_data v) (signature v)"

definition vote_key :: "MasternodeVote \<Rightarrow> ProposalKey" where
  "vote_key v = \<lparr> key_height = height v, key_round_id = round_id v,
     key_block_hash = block_hash v, key_group_id = group_id v \<rparr>"

definition make_certificate :: "u64 \<Rightarrow> ProposalKey \<Rightarrow> ProposalVotes \<Rightarrow> BlockCertificate" where
  "make_certificate now key pv =
    (let (sr, tr, ph) = (case approve_votes pv of
           v # _ \<Rightarrow> (state_root v, tx_root v, parent_hash v)
         | [] \<Rightarrow> (replicate 64 0, replicate 64 0, replicate 64 0))
     in \<lparr> cert_round_id = key_round_id key, cert_height = key_height key,
          cert_block_hash = key_block_hash key, cert_votes = get_certificate_votes pv,
          cert_timestamp = now, cert_group_id = key_group_id key,
          cert_state_root = sr, cert_tx_root = tr, cert_parent_hash = ph, reward_recipients = [] \<rparr>)"

definition add_vote ::
  "crypto \<Rightarrow> u64 \<Rightarrow> MasternodeVote \<Rightarrow> VoteAggregator \<Rightarrow> VoteAggregator \<times> BlockCertificate option" where
  "add_vote cr now vote s =
    (if \<not> verify_vote_signature cr vote then (s, None)
     else
       let key = vote_key vote
       in if key \<in> issued_certs s then (s, None)
          else
            let quorum = quorum_for_group s (key_group_id key);
                pv = (case map_of (votes s) key of Some pv \<Rightarrow> pv | None \<Rightarrow> new_proposal_votes);
                pv = pv_add_vote vote pv;
                s = s\<lparr> votes := AList.update key pv (votes s) \<rparr>
            in if quorum \<le> length (approve_votes pv) then
                 (s\<lparr> votes := AList.delete key (votes s), issued_certs := insert key (issued_certs s) \<rparr>,
                  Some (make_certificate now key pv))
               else (s, None))"

definition cleanup_old_votes :: "u64 \<Rightarrow> VoteAggregator \<Rightarrow> VoteAggregator" where
  "cleanup_old_votes max_height s =
    (let floor = saturating_sub max_height 10
     in s\<lparr> votes := filter (\<lambda>(key, _). floor \<le> key_height key) (votes s),
           issued_certs := Set.filter (\<lambda>key. floor \<le> key_height key) (issued_certs s) \<rparr>)"

definition get_stats :: "VoteAggregator \<Rightarrow> nat \<times> nat" where
  "get_stats s =
    (length (votes s),
     sum_list (map (\<lambda>(_, pv). length (approve_votes pv) + length (reject_votes pv)) (votes s)))"

section \<open>Invariant\<close>

text \<open>A vote that counts towards proposal \<open>k\<close>, and a certificate whose votes all count.\<close>

definition vote_for :: "crypto \<Rightarrow> VoteType \<Rightarrow> ProposalKey \<Rightarrow> MasternodeVote \<Rightarrow> bool" where
  "vote_for cr vt k v \<longleftrightarrow> verify_vote_signature cr v \<and> vote_key v = k \<and> vote_type v = vt"

definition bucket_ok :: "crypto \<Rightarrow> ProposalKey \<Rightarrow> ProposalVotes \<Rightarrow> bool" where
  "bucket_ok cr k pv \<longleftrightarrow>
     distinct (map voter_pubkey (approve_votes pv)) \<and> distinct (map voter_pubkey (reject_votes pv)) \<and>
     (\<forall>v \<in> set (approve_votes pv). vote_for cr Approve k v) \<and>
     (\<forall>v \<in> set (reject_votes pv). vote_for cr Reject k v)"

definition cert_key :: "BlockCertificate \<Rightarrow> ProposalKey" where
  "cert_key c = \<lparr> key_height = cert_height c, key_round_id = cert_round_id c,
     key_block_hash = cert_block_hash c, key_group_id = cert_group_id c \<rparr>"

definition voters :: "BlockCertificate \<Rightarrow> bytes set" where
  "voters c = voter_pubkey ` set (cert_votes c)"

definition certificate_ok :: "crypto \<Rightarrow> (string \<Rightarrow> nat) \<Rightarrow> BlockCertificate \<Rightarrow> bool" where
  "certificate_ok cr Q c \<longleftrightarrow>
     distinct (map voter_pubkey (cert_votes c)) \<and> Q (cert_group_id c) \<le> length (cert_votes c) \<and>
     (\<forall>v \<in> set (cert_votes c). vote_for cr Approve (cert_key c) v)"

text \<open>One call on the aggregator, with the history of certificates.  The group table may be
  refreshed as long as no group's quorum falls below \<open>Q\<close>; \<open>clean\<close> says whether
  \<open>cleanup_old_votes\<close> may be called.\<close>

inductive va_step ::
  "crypto \<Rightarrow> (string \<Rightarrow> nat) \<Rightarrow> bool \<Rightarrow> VoteAggregator \<times> BlockCertificate list \<Rightarrow>
   VoteAggregator \<times> BlockCertificate list \<Rightarrow> bool"
  for cr :: crypto and Q :: "string \<Rightarrow> nat" and clean :: bool where
  vote: "add_vote cr now v s = (s', c) \<Longrightarrow>
    va_step cr Q clean (s, es) (s', case c of None \<Rightarrow> es | Some c \<Rightarrow> c # es)"
| sizes: "(\<And>g. Q g \<le> quorum_for_group (set_group_mn_sizes sizes s) g) \<Longrightarrow>
    va_step cr Q clean (s, es) (set_group_mn_sizes sizes s, es)"
| cleanup: "clean \<Longrightarrow> va_step cr Q clean (s, es) (cleanup_old_votes h s, es)"

definition va_init :: "(string \<Rightarrow> nat) \<Rightarrow> VoteAggregator \<times> BlockCertificate list \<Rightarrow> bool" where
  "va_init Q w \<longleftrightarrow> (\<exists>n. w = (new_vote_aggregator n, []) \<and> (\<forall>g. Q g \<le> quorum_for_voters n))"

definition va_inv ::
  "crypto \<Rightarrow> (string \<Rightarrow> nat) \<Rightarrow> bool \<Rightarrow> VoteAggregator \<times> BlockCertificate list \<Rightarrow> bool" where
  "va_inv cr Q clean = (\<lambda>(s, es).
     hm_wf (votes s) \<and> (\<forall>g. Q g \<le> quorum_for_group s g) \<and>
     (\<forall>k pv. map_of (votes s) k = Some pv \<longrightarrow> bucket_ok cr k pv) \<and>
     (\<forall>c \<in> set es. certificate_ok cr Q c) \<and>
     (\<not> clean \<longrightarrow> distinct (map cert_key es) \<and> cert_key ` set es \<subseteq> issued_certs s))"

section \<open>Lemmas\<close>

definition bucket :: "VoteAggregator \<Rightarrow> ProposalKey \<Rightarrow> ProposalVotes" where
  "bucket s k = (case map_of (votes s) k of Some pv \<Rightarrow> pv | None \<Rightarrow> new_proposal_votes)"

lemma add_vote_cases:
  "add_vote cr now v s =
    (if \<not> verify_vote_signature cr v \<or> vote_key v \<in> issued_certs s then (s, None)
     else let k = vote_key v; pv = pv_add_vote v (bucket s k) in
       if quorum_for_group s (group_id v) \<le> length (approve_votes pv) then
         (s\<lparr> votes := AList.delete k (votes s), issued_certs := insert k (issued_certs s) \<rparr>,
          Some (make_certificate now k pv))
       else (s\<lparr> votes := AList.update k pv (votes s) \<rparr>, None))"
  by (simp add: add_vote_def Let_def bucket_def vote_key_def delete_update_same)

lemma bucket_ok_new: "bucket_ok cr k new_proposal_votes"
  by (simp add: bucket_ok_def new_proposal_votes_def)

lemma bucket_ok_add:
  assumes "bucket_ok cr k pv" "verify_vote_signature cr v" "vote_key v = k"
  shows "bucket_ok cr k (pv_add_vote v pv)"
proof (cases "vote_type v")
  case Approve
  have "vote_for cr Approve k v" using assms Approve by (simp add: vote_for_def)
  then show ?thesis using assms(1) Approve
    by (cases "\<exists>w \<in> set (approve_votes pv). voter_pubkey w = voter_pubkey v")
      (simp_all add: bucket_ok_def pv_add_vote_def image_iff eq_commute)
next
  case Reject
  have "vote_for cr Reject k v" using assms Reject by (simp add: vote_for_def)
  then show ?thesis using assms(1) Reject
    by (cases "\<exists>w \<in> set (reject_votes pv). voter_pubkey w = voter_pubkey v")
      (simp_all add: bucket_ok_def pv_add_vote_def image_iff eq_commute)
qed

lemma make_certificate_fields [simp]:
  "cert_key (make_certificate now k pv) = k"
  "cert_group_id (make_certificate now k pv) = key_group_id k"
  "cert_votes (make_certificate now k pv) = approve_votes pv"
  by (cases "approve_votes pv"; simp add: make_certificate_def cert_key_def get_certificate_votes_def)+

lemma make_certificate_ok:
  assumes "bucket_ok cr k pv" "Q (key_group_id k) \<le> length (approve_votes pv)"
  shows "certificate_ok cr Q (make_certificate now k pv)"
  using assms by (auto simp: certificate_ok_def bucket_ok_def)

lemma quorum_for_group_upd [simp]:
  "quorum_for_group (s\<lparr> votes := m \<rparr>) g = quorum_for_group s g"
  "quorum_for_group (s\<lparr> votes := m, issued_certs := i \<rparr>) g = quorum_for_group s g"
  by (simp_all add: quorum_for_group_def split: option.split)

lemma va_inv_vote:
  assumes inv: "va_inv cr Q clean (s, es)" and add: "add_vote cr now v s = (s', c)"
  shows "va_inv cr Q clean (s', case c of None \<Rightarrow> es | Some c \<Rightarrow> c # es)"
proof (cases "\<not> verify_vote_signature cr v \<or> vote_key v \<in> issued_certs s")
  case True
  then show ?thesis using inv add by (auto simp: add_vote_cases)
next
  case False
  let ?k = "vote_key v"
  let ?pv = "pv_add_vote v (bucket s ?k)"
  have "bucket_ok cr ?k (bucket s ?k)"
    using inv bucket_ok_new by (auto simp: bucket_def va_inv_def split: option.split)
  then have ok: "bucket_ok cr ?k ?pv" using False by (intro bucket_ok_add) auto
  have g: "key_group_id ?k = group_id v" by (simp add: vote_key_def)
  have wf: "hm_wf (votes s)" using inv by (simp add: va_inv_def)
  show ?thesis
  proof (cases "quorum_for_group s (group_id v) \<le> length (approve_votes ?pv)")
    case True
    then have "certificate_ok cr Q (make_certificate now ?k ?pv)"
      using inv g by (intro make_certificate_ok [OF ok]) (auto simp: va_inv_def intro: order_trans)
    moreover have "\<not> clean \<Longrightarrow> ?k \<notin> cert_key ` set es" "\<not> clean \<Longrightarrow> cert_key ` set es \<subseteq> insert ?k (issued_certs s)"
      using inv False by (auto simp: va_inv_def)
    moreover have "s' = s\<lparr> votes := AList.delete ?k (votes s), issued_certs := insert ?k (issued_certs s) \<rparr>"
      "c = Some (make_certificate now ?k ?pv)"
      using False True add by (auto simp: add_vote_cases Let_def)
    ultimately show ?thesis
      using inv wf by (simp add: va_inv_def distinct_delete map_of_delete_iff)
  next
    case lt: False
    then show ?thesis
      using False inv add wf ok
      by (auto simp: add_vote_cases Let_def va_inv_def distinct_update split: if_splits)
  qed
qed

lemma va_inv_cleanup:
  assumes "va_inv cr Q True (s, es)"
  shows "va_inv cr Q True (cleanup_old_votes h s, es)"
proof -
  let ?m = "filter (\<lambda>p. saturating_sub h 10 \<le> key_height (fst p)) (votes s)"
  have c: "cleanup_old_votes h s =
      s\<lparr> votes := ?m, issued_certs := Set.filter (\<lambda>k. saturating_sub h 10 \<le> key_height k) (issued_certs s) \<rparr>"
    by (simp add: cleanup_old_votes_def Let_def case_prod_unfold)
  have "map_of ?m k = Some pv \<Longrightarrow> map_of (votes s) k = Some pv" for k pv
    using map_of_filter_key [of "\<lambda>k. saturating_sub h 10 \<le> key_height k" "votes s" k]
    by (simp split: if_splits)
  then show ?thesis
    using assms by (simp add: c va_inv_def distinct_map_filter)
qed

lemma va_inv_step: "va_step cr Q clean w w' \<Longrightarrow> va_inv cr Q clean w \<Longrightarrow> va_inv cr Q clean w'"
proof (induction rule: va_step.induct)
  case (vote now v s s' c es)
  then show ?case by (intro va_inv_vote)
next
  case (sizes sz s es)
  then show ?case by (simp add: va_inv_def set_group_mn_sizes_def)
next
  case (cleanup s es h)
  then show ?case using va_inv_cleanup by (cases clean) auto
qed

lemma va_inv_init: "va_init Q w \<Longrightarrow> va_inv cr Q clean w"
  by (auto simp: va_init_def va_inv_def new_vote_aggregator_def quorum_for_group_def split: option.split)

interpretation va: inv_system "va_init Q" "va_step cr Q clean" "va_inv cr Q clean"
  by unfold_locales (blast intro: va_inv_init va_inv_step)+

lemma card_voters: "certificate_ok cr Q c \<Longrightarrow> card (voters c) = length (cert_votes c)"
  using distinct_card by (fastforce simp: certificate_ok_def voters_def)

subsection \<open>Collecting a quorum\<close>

definition run_votes :: "crypto \<Rightarrow> u64 \<Rightarrow> MasternodeVote list \<Rightarrow> VoteAggregator \<Rightarrow> VoteAggregator" where
  "run_votes cr now vs s = fold (\<lambda>v s. fst (add_vote cr now v s)) vs s"

lemma pv_add_new:
  assumes "vote_type v = Approve" "voter_pubkey v \<notin> voter_pubkey ` set vs"
  shows "pv_add_vote v \<lparr> approve_votes = vs, reject_votes = [] \<rparr> = \<lparr> approve_votes = vs @ [v], reject_votes = [] \<rparr>"
  using assms by (auto simp: pv_add_vote_def image_iff)

lemma run_votes_pending:
  assumes "vs \<noteq> []" "distinct (map voter_pubkey vs)" "\<forall>v \<in> set vs. vote_for cr Approve k v"
    and "k \<notin> issued_certs s" "map_of (votes s) k = None"
    and "length vs < quorum_for_group s (key_group_id k)"
  shows "run_votes cr now vs s =
    s\<lparr> votes := AList.update k \<lparr> approve_votes = vs, reject_votes = [] \<rparr> (votes s) \<rparr>"
  using assms
proof (induction vs rule: rev_induct)
  case (snoc v vs)
  let ?s = "run_votes cr now vs s"
  have v: "vote_for cr Approve k v" and new: "voter_pubkey v \<notin> voter_pubkey ` set vs" using snoc.prems by auto
  then have vk: "vote_key v = k" "verify_vote_signature cr v" "group_id v = key_group_id k" "vote_type v = Approve"
    by (auto simp: vote_for_def vote_key_def)
  have b: "bucket ?s k = \<lparr> approve_votes = vs, reject_votes = [] \<rparr>"
    "k \<notin> issued_certs ?s" "quorum_for_group ?s g = quorum_for_group s g"
    "AList.update k pv (votes ?s) = AList.update k pv (votes s)" "s\<lparr> votes := m \<rparr> = ?s\<lparr> votes := m \<rparr>" for g pv m
    using snoc by (cases "vs = []"; simp add: bucket_def run_votes_def new_proposal_votes_def)+
  have "fst (add_vote cr now v ?s) =
      s\<lparr> votes := AList.update k \<lparr> approve_votes = vs @ [v], reject_votes = [] \<rparr> (votes s) \<rparr>"
    using snoc.prems vk b pv_add_new [OF vk(4) new] by (simp add: add_vote_cases Let_def)
  then show ?case by (simp add: run_votes_def)
qed simp

lemma run_votes_bucket:
  assumes "distinct (map voter_pubkey vs)" "\<forall>v \<in> set vs. vote_for cr Approve k v"
    and "k \<notin> issued_certs s" "map_of (votes s) k = None"
    and "length vs < quorum_for_group s (key_group_id k)"
  shows "bucket (run_votes cr now vs s) k = \<lparr> approve_votes = vs, reject_votes = [] \<rparr> \<and>
    k \<notin> issued_certs (run_votes cr now vs s) \<and>
    quorum_for_group (run_votes cr now vs s) g = quorum_for_group s g"
proof (cases "vs = []")
  case True
  then show ?thesis using assms by (simp add: run_votes_def bucket_def new_proposal_votes_def)
next
  case False
  from run_votes_pending [OF this assms] show ?thesis using assms(3) by (simp add: bucket_def)
qed

lemma roots_not_signed:
  "verify_vote_signature cr (v\<lparr> state_root := x, tx_root := y, parent_hash := z \<rparr>) = verify_vote_signature cr v"
  by (simp add: verify_vote_signature_def vote_data_def)

section \<open>Concrete inputs\<close>

definition toy_verify :: crypto where
  "toy_verify = \<lparr> vkey_from_bytes = Some, sig_verify = (\<lambda>k m s. s = k), blake3 = (\<lambda>m. m) \<rparr>"

definition toy_vote :: "u8 \<Rightarrow> bytes \<Rightarrow> bytes \<Rightarrow> MasternodeVote" where
  "toy_vote k blk root = \<lparr> round_id = 1, height = 10, block_hash = blk, voter_pubkey = [k],
     vote_type = Approve, signature = [k], group_id = ''g'', state_root = root, tx_root = [],
     parent_hash = [] \<rparr>"

definition toy_key :: "bytes \<Rightarrow> ProposalKey" where
  "toy_key blk = \<lparr> key_height = 10, key_round_id = 1, key_block_hash = blk, key_group_id = ''g'' \<rparr>"

lemma toy_vote_for: "vote_for toy_verify Approve (toy_key blk) (toy_vote k blk root)"
  by (simp add: vote_for_def toy_vote_def toy_key_def vote_key_def verify_vote_signature_def
      verify_with_def toy_verify_def)

lemma toy_init: "va_init (\<lambda>_. quorum_for_voters n) (new_vote_aggregator n, [])"
  by (auto simp: va_init_def)

text \<open>Signatures under which every key has signed one message only: its approval of block \<open>[0]\<close>
  at height 10 and round 1 of group \<open>g\<close>.\<close>

definition toy_honest :: crypto where
  "toy_honest = \<lparr> vkey_from_bytes = Some,
     sig_verify = (\<lambda>k m s. m = le_bytes 8 (1 :: u64) @ le_bytes 8 (10 :: u64) @ [0] @ k @ [1] @ str_bytes ''g''),
     blake3 = (\<lambda>m. m) \<rparr>"

lemma toy_honest_once:
  assumes "vote_for toy_honest Approve (vote_key v) v" "vote_for toy_honest Approve (vote_key w) w"
    and "voter_pubkey v = voter_pubkey w" "group_id v = group_id w" "height v = height w" "round_id v = round_id w"
  shows "block_hash v = block_hash w"
proof -
  have "vote_data v = vote_data w"
    using assms by (simp add: vote_for_def verify_vote_signature_def verify_with_def toy_honest_def)
  moreover have "vote_type v = vote_type w" using assms by (simp add: vote_for_def)
  ultimately show ?thesis using assms(3-6) by (simp add: vote_data_def)
qed

lemma toy_issue:
  "\<exists>s. add_vote toy_honest 0 (toy_vote 7 [0] root) (new_vote_aggregator 1) =
     (s, Some (make_certificate 0 (toy_key [0]) \<lparr> approve_votes = [toy_vote 7 [0] root], reject_votes = [] \<rparr>))"
proof -
  have "verify_vote_signature toy_honest (toy_vote 7 [0] root)"
    by (simp add: verify_vote_signature_def verify_with_def toy_honest_def vote_data_def toy_vote_def)
  moreover have "pv_add_vote (toy_vote 7 [0] root) new_proposal_votes = \<lparr> approve_votes = [toy_vote 7 [0] root], reject_votes = [] \<rparr>"
    by (simp add: pv_add_vote_def new_proposal_votes_def toy_vote_def)
  moreover have "vote_key (toy_vote 7 [0] root) = toy_key [0]" "group_id (toy_vote 7 [0] root) = ''g''"
    by (simp_all add: vote_key_def toy_vote_def toy_key_def)
  moreover have "quorum_for_group (new_vote_aggregator 1) ''g'' = 1" by code_simp
  moreover have "bucket (new_vote_aggregator 1) k = new_proposal_votes" "k \<notin> issued_certs (new_vote_aggregator 1)" for k
    by (simp_all add: bucket_def new_vote_aggregator_def)
  ultimately show ?thesis by (simp add: add_vote_cases Let_def)
qed

lemma toy_reach:
  "\<exists>s. reachable (va_init (\<lambda>_. 1)) (va_step toy_honest (\<lambda>_. 1) False)
     (s, [make_certificate 0 (toy_key [0]) \<lparr> approve_votes = [toy_vote 7 [0] root], reject_votes = [] \<rparr>])"
proof -
  obtain s where "add_vote toy_honest 0 (toy_vote 7 [0] root) (new_vote_aggregator 1) =
     (s, Some (make_certificate 0 (toy_key [0]) \<lparr> approve_votes = [toy_vote 7 [0] root], reject_votes = [] \<rparr>))"
    using toy_issue by blast
  from va_step.vote [OF this, of "\<lambda>_. 1" False "[]"]
  have "va_step toy_honest (\<lambda>_. 1) False (new_vote_aggregator 1, [])
     (s, [make_certificate 0 (toy_key [0]) \<lparr> approve_votes = [toy_vote 7 [0] root], reject_votes = [] \<rparr>])" by simp
  moreover have "va_init (\<lambda>_. 1) (new_vote_aggregator 1, [])"
    using toy_init [of 1] by (simp add: quorum_for_voters_def)
  ultimately show ?thesis by (blast intro: reachable.intros)
qed

section \<open>Properties\<close>

text \<open>C1. Agreement: take two certificates issued by any two correct aggregators for one group,
  height and round.  If all their voters are among the group's masternodes, fewer than a third of
  which are faulty, the quorum in force was the group's, and a correct masternode approves at most
  one block per group, height and round, then both certificates are for the same block.\<close>

theorem certificate_agreement:
  assumes "reachable (va_init Q) (va_step cr Q clean) (s1, es1)" "c1 \<in> set es1"
    and "reachable (va_init Q) (va_step cr Q clean) (s2, es2)" "c2 \<in> set es2"
    and "cert_group_id c1 = g" "cert_group_id c2 = g"
    and "cert_height c1 = cert_height c2" "cert_round_id c1 = cert_round_id c2"
    and "finite V" "voters c1 \<subseteq> V" "voters c2 \<subseteq> V" "F \<subseteq> V" "3 * card F < card V"
    and "quorum_for_voters (card V) \<le> Q g"
    and honest: "\<And>v w. vote_for cr Approve (vote_key v) v \<Longrightarrow> vote_for cr Approve (vote_key w) w \<Longrightarrow>
      voter_pubkey v = voter_pubkey w \<Longrightarrow> voter_pubkey v \<in> V - F \<Longrightarrow> group_id v = group_id w \<Longrightarrow>
      height v = height w \<Longrightarrow> round_id v = round_id w \<Longrightarrow> block_hash v = block_hash w"
  shows "cert_block_hash c1 = cert_block_hash c2"
proof -
  have ok: "certificate_ok cr Q c1" "certificate_ok cr Q c2"
    using va.inv_reachable [OF assms(1)] va.inv_reachable [OF assms(3)] assms(2,4) by (auto simp: va_inv_def)
  have "quorum_for_voters (card V) \<le> card (voters c)" if "certificate_ok cr Q c" "cert_group_id c = g" for c
    using card_voters [OF that(1)] that assms(14) by (simp add: certificate_ok_def)
  then obtain p where p: "p \<in> voters c1" "p \<in> voters c2" "p \<notin> F"
    using canonical.overlap_correct [OF assms(9,10,11) _ _ assms(12,13)] ok assms(5,6) by blast
  then obtain v w where v: "v \<in> set (cert_votes c1)" "voter_pubkey v = p"
    and w: "w \<in> set (cert_votes c2)" "voter_pubkey w = p" by (auto simp: voters_def)
  have vf: "vote_for cr Approve (cert_key c1) v" "vote_for cr Approve (cert_key c2) w"
    using ok v(1) w(1) by (auto simp: certificate_ok_def)
  then have "vote_key v = cert_key c1" "vote_key w = cert_key c2" by (auto simp: vote_for_def)
  then have "block_hash v = block_hash w"
    using vf v(2) w(2) p assms(5-8,10) by (intro honest) (auto simp: vote_key_def cert_key_def)
  then show ?thesis
    using \<open>vote_key v = cert_key c1\<close> \<open>vote_key w = cert_key c2\<close> by (simp add: vote_key_def cert_key_def)
qed

theorem certificate_agreement_witness:
  "cert_block_hash (make_certificate 0 (toy_key [0]) \<lparr> approve_votes = [toy_vote 7 [0] [1]], reject_votes = [] \<rparr>) =
   cert_block_hash (make_certificate 0 (toy_key [0]) \<lparr> approve_votes = [toy_vote 7 [0] [2]], reject_votes = [] \<rparr>)"
proof -
  let ?c = "\<lambda>root. make_certificate 0 (toy_key [0]) \<lparr> approve_votes = [toy_vote 7 [0] root], reject_votes = [] \<rparr>"
  obtain s1 s2 where r: "reachable (va_init (\<lambda>_. 1)) (va_step toy_honest (\<lambda>_. 1) False) (s1, [?c [1]])"
    "reachable (va_init (\<lambda>_. 1)) (va_step toy_honest (\<lambda>_. 1) False) (s2, [?c [2]])"
    using toy_reach by blast
  show ?thesis
    by (rule certificate_agreement [OF r(1) _ r(2), where g = "''g''" and V = "{[7]}" and F = "{}"])
      (auto simp: make_certificate_def toy_key_def voters_def get_certificate_votes_def toy_vote_def
        quorum_for_voters_def intro: toy_honest_once)
qed

text \<open>C31. Without clean-up of old entries at most one certificate is ever issued for a proposal,
  and each carries at least the group's quorum of verified approving votes by different keys.\<close>

theorem one_certificate_per_proposal:
  assumes "reachable (va_init Q) (va_step cr Q False) (s, es)"
  shows "distinct (map cert_key es) \<and>
    (\<forall>c \<in> set es. Q (cert_group_id c) \<le> card (voters c) \<and>
       (\<forall>v \<in> set (cert_votes c). vote_for cr Approve (cert_key c) v))"
proof -
  have "va_inv cr Q False (s, es)" using assms by (rule va.inv_reachable)
  then show ?thesis using card_voters by (fastforce simp: va_inv_def certificate_ok_def)
qed

theorem one_certificate_per_proposal_witness:
  "\<exists>s c. reachable (va_init (\<lambda>_. 1)) (va_step toy_honest (\<lambda>_. 1) False) (s, [c]) \<and>
     1 \<le> card (voters c) \<and> distinct (map cert_key [c])"
  using toy_reach [of "[]"] one_certificate_per_proposal by fastforce

text \<open>C32. Any quorum of validly signed votes is certified, whoever the keys belong to, and the
  certificate's state root, transaction root and parent hash are those written in the first vote:
  these fields are not covered by the vote's signature, so the first vote stays valid when they
  are replaced.\<close>

theorem quorum_of_votes_certifies:
  assumes "distinct (map voter_pubkey vs)" "\<forall>v \<in> set vs. vote_for cr Approve k v"
    and "k \<notin> issued_certs s" "map_of (votes s) k = None"
    and "length vs = quorum_for_group s (key_group_id k)" "vs = v # vs'"
  shows "\<exists>s' c. add_vote cr now (last vs) (run_votes cr now (butlast vs) s) = (s', Some c) \<and>
    cert_key c = k \<and> cert_votes c = vs \<and> cert_state_root c = state_root v \<and>
    cert_tx_root c = tx_root v \<and> cert_parent_hash c = parent_hash v \<and> k \<in> issued_certs s' \<and>
    verify_vote_signature cr (v\<lparr> state_root := x, tx_root := y, parent_hash := z \<rparr>)"
proof -
  let ?ws = "butlast vs" and ?w = "last vs" and ?t = "run_votes cr now (butlast vs) s"
  let ?pv = "\<lparr> approve_votes = vs, reject_votes = [] \<rparr>"
  have vs: "vs = ?ws @ [?w]" using assms(6) by (metis append_butlast_last_id list.distinct(1))
  have dist: "distinct (map voter_pubkey ?ws)" "voter_pubkey ?w \<notin> voter_pubkey ` set ?ws"
    using assms(1) by (subst (asm) vs, simp)+
  have sub: "set vs = insert ?w (set ?ws)" by (subst vs) simp
  have w: "vote_for cr Approve k ?w" and ws: "\<forall>v \<in> set ?ws. vote_for cr Approve k v" and v: "vote_for cr Approve k v"
    using assms(2,6) sub by auto
  have "length ?ws < quorum_for_group s (key_group_id k)" using assms(5,6) by simp
  note t = run_votes_bucket [OF dist(1) ws assms(3,4) this]
  have wk: "vote_key ?w = k" "verify_vote_signature cr ?w" "group_id ?w = key_group_id k" "vote_type ?w = Approve"
    using w by (auto simp: vote_for_def vote_key_def)
  have "pv_add_vote ?w (bucket ?t k) = ?pv" using pv_add_new [OF wk(4) dist(2)] t vs by simp
  then have "add_vote cr now ?w ?t =
      (?t\<lparr> votes := AList.delete k (votes ?t), issued_certs := insert k (issued_certs ?t) \<rparr>, Some (make_certificate now k ?pv))"
    using wk t assms(5) by (simp add: add_vote_cases Let_def)
  moreover have "verify_vote_signature cr (v\<lparr> state_root := x, tx_root := y, parent_hash := z \<rparr>)"
    using v by (simp add: roots_not_signed vote_for_def)
  moreover have "cert_state_root (make_certificate now k ?pv) = state_root v"
    "cert_tx_root (make_certificate now k ?pv) = tx_root v"
    "cert_parent_hash (make_certificate now k ?pv) = parent_hash v"
    by (simp_all add: make_certificate_def assms(6))
  ultimately show ?thesis by simp
qed

theorem quorum_of_votes_certifies_witness:
  "\<exists>s' c. add_vote toy_verify 0 (toy_vote 3 [5] [])
      (run_votes toy_verify 0 [toy_vote 1 [5] [66], toy_vote 2 [5] []] (new_vote_aggregator 4)) = (s', Some c) \<and>
    cert_state_root c = [66] \<and> cert_key c = toy_key [5]"
proof -
  let ?vs = "[toy_vote 1 [5] [66], toy_vote 2 [5] [], toy_vote 3 [5] []]"
  have "distinct (map voter_pubkey ?vs)" by (simp add: toy_vote_def)
  moreover have "\<forall>v \<in> set ?vs. vote_for toy_verify Approve (toy_key [5]) v" by (simp add: toy_vote_for)
  ultimately show ?thesis
    using quorum_of_votes_certifies [of ?vs toy_verify "toy_key [5]" "new_vote_aggregator 4" "toy_vote 1 [5] [66]"
        "[toy_vote 2 [5] [], toy_vote 3 [5] []]" 0]
    by (fastforce simp: new_vote_aggregator_def quorum_for_group_def quorum_for_voters_def toy_vote_def
        group_index_from_id_def toy_key_def)
qed

end
