(* ===== verification/Merkle.thy ===== *)
theory Merkle
  imports Rust_Prelude
begin

text \<open>
  The two Merkle trees of the code base: the state trie of
  \<open>savitri-storage/src/storage/merkle_trie.rs\<close>, which pads an odd level with the empty hash, and
  the consensus tree of \<open>savitri-consensus/src/crypto/merkle.rs\<close>, which pads it with a copy of the
  last node.  SHA-256 is the parameter \<open>sha\<close>.  Both trees reduce a level with \<open>pair_level\<close>; its
  lemmas are shared.
\<close>

section \<open>One level up\<close>

text \<open>\<open>chunks(2)\<close> with a combination of each chunk; \<open>pad\<close> gives the missing right half of a last
  chunk of one element.\<close>

fun pair_level :: "('h \<Rightarrow> 'h \<Rightarrow> 'h) \<Rightarrow> ('h \<Rightarrow> 'h) \<Rightarrow> 'h list \<Rightarrow> 'h list" where
  "pair_level node pad [] = []"
| "pair_level node pad [x] = [node x (pad x)]"
| "pair_level node pad (x # y # xs) = node x y # pair_level node pad xs"

lemma length_pair_level [simp]: "length (pair_level node pad xs) = (length xs + 1) div 2"
  by (induction node pad xs rule: pair_level.induct) auto

text \<open>The \<open>while level.len() > 1\<close> loop.\<close>

function collapse :: "('h \<Rightarrow> 'h \<Rightarrow> 'h) \<Rightarrow> ('h \<Rightarrow> 'h) \<Rightarrow> 'h list \<Rightarrow> 'h list" where
  "collapse node pad xs = (if length xs \<le> 1 then xs else collapse node pad (pair_level node pad xs))"
  by pat_completeness auto
termination by (relation "measure (\<lambda>(node, pad, xs). length xs)") auto

declare collapse.simps [simp del]

section \<open>The state trie\<close>

type_synonym TrieHash = bytes

definition EMPTY_HASH :: TrieHash where
  "EMPTY_HASH = replicate 32 0"

definition trie_hash_leaf :: "(bytes \<Rightarrow> bytes) \<Rightarrow> bytes \<Rightarrow> bytes \<Rightarrow> TrieHash" where
  "trie_hash_leaf sha key val = sha (str_bytes ''LEAF'' @ key @ val)"

definition hash_node :: "(bytes \<Rightarrow> bytes) \<Rightarrow> TrieHash \<Rightarrow> TrieHash \<Rightarrow> TrieHash" where
  "hash_node sha left right = sha (str_bytes ''NODE'' @ left @ right)"

definition trie_level :: "(bytes \<Rightarrow> bytes) \<Rightarrow> TrieHash list \<Rightarrow> TrieHash list" where
  "trie_level sha = pair_level (hash_node sha) (\<lambda>_. EMPTY_HASH)"

definition merkle_root_from_leaves :: "(bytes \<Rightarrow> bytes) \<Rightarrow> TrieHash list \<Rightarrow> TrieHash" where
  "merkle_root_from_leaves sha leaves =
    (if leaves = [] then EMPTY_HASH
     else if length leaves = 1 then leaves ! 0
     else collapse (hash_node sha) (\<lambda>_. EMPTY_HASH) leaves ! 0)"

definition trie_leaves :: "(bytes \<Rightarrow> bytes) \<Rightarrow> (bytes \<times> bytes) list \<Rightarrow> TrieHash list" where
  "trie_leaves sha entries = map (\<lambda>(key, val). trie_hash_leaf sha key val) entries"

definition trie_compute_merkle_root :: "(bytes \<Rightarrow> bytes) \<Rightarrow> (bytes \<times> bytes) list \<Rightarrow> TrieHash" where
  "trie_compute_merkle_root sha entries =
    (if entries = [] then EMPTY_HASH else merkle_root_from_leaves sha (trie_leaves sha entries))"

record TrieProof =
  key :: bytes
  val :: bytes
  leaf_index :: nat
  siblings :: "TrieHash list"
  root :: TrieHash

function collect_proof_siblings :: "(bytes \<Rightarrow> bytes) \<Rightarrow> TrieHash list \<Rightarrow> nat \<Rightarrow> TrieHash list" where
  "collect_proof_siblings sha level index =
    (if length level \<le> 1 then []
     else
       let sibling_index = (if index mod 2 = 0 then index + 1 else index - 1);
           sibling = (if sibling_index < length level then level ! sibling_index else EMPTY_HASH)
       in sibling # collect_proof_siblings sha (trie_level sha level) (index div 2))"
  by pat_completeness auto
termination by (relation "measure (\<lambda>(sha, level, index). length level)") (auto simp: trie_level_def)

declare collect_proof_siblings.simps [simp del]

fun position :: "('a \<Rightarrow> bool) \<Rightarrow> 'a list \<Rightarrow> nat option" where
  "position P [] = None"
| "position P (x # xs) = (if P x then Some 0 else map_option Suc (position P xs))"

definition generate_proof :: "(bytes \<Rightarrow> bytes) \<Rightarrow> (bytes \<times> bytes) list \<Rightarrow> bytes \<Rightarrow> TrieProof option" where
  "generate_proof sha entries k =
    (case position (\<lambda>k'. k' = k) (map fst entries) of
       None \<Rightarrow> None
     | Some index \<Rightarrow>
         let leaves = trie_leaves sha entries
         in case map_of entries k of
              None \<Rightarrow> None
            | Some v \<Rightarrow> Some \<lparr> key = k, val = v, leaf_index = index,
                siblings = collect_proof_siblings sha leaves index,
                root = merkle_root_from_leaves sha leaves \<rparr>)"

fun climb :: "(bytes \<Rightarrow> bytes) \<Rightarrow> TrieHash \<Rightarrow> nat \<Rightarrow> TrieHash list \<Rightarrow> TrieHash" where
  "climb sha h index [] = h"
| "climb sha h index (sibling # ss) =
    climb sha (if index mod 2 = 0 then hash_node sha h sibling else hash_node sha sibling h) (index div 2) ss"

definition verify_proof :: "(bytes \<Rightarrow> bytes) \<Rightarrow> TrieProof \<Rightarrow> bool" where
  "verify_proof sha p \<longleftrightarrow>
     climb sha (trie_hash_leaf sha (key p) (val p)) (leaf_index p) (siblings p) = root p"

definition compute_state_root_from_overlay_bytes :: "(bytes \<Rightarrow> bytes) \<Rightarrow> (bytes \<times> bytes) list \<Rightarrow> TrieHash" where
  "compute_state_root_from_overlay_bytes sha overlay = trie_compute_merkle_root sha overlay"

section \<open>The consensus tree\<close>

definition hash_leaf :: "(bytes \<Rightarrow> bytes) \<Rightarrow> bytes \<Rightarrow> bytes" where
  "hash_leaf sha data = sha (0x00 # data)"

definition hash_internal :: "(bytes \<Rightarrow> bytes) \<Rightarrow> bytes \<Rightarrow> bytes \<Rightarrow> bytes" where
  "hash_internal sha left right = sha (0x01 # left @ right)"

datatype MerkleError = EmptyInput | InvalidProof | IndexOutOfBounds nat nat

datatype ProofDirection = Left | Right

record ProofStep =
  step_hash :: bytes
  direction :: ProofDirection

record MerkleProof =
  leaf_hash :: bytes
  path :: "ProofStep list"
  proof_root :: bytes

fun verify_path :: "(bytes \<Rightarrow> bytes) \<Rightarrow> bytes \<Rightarrow> ProofStep list \<Rightarrow> bytes" where
  "verify_path sha current [] = current"
| "verify_path sha current (step # steps) =
    verify_path sha (case direction step of
        Left \<Rightarrow> hash_internal sha (step_hash step) current
      | Right \<Rightarrow> hash_internal sha current (step_hash step)) steps"

definition verify :: "(bytes \<Rightarrow> bytes) \<Rightarrow> MerkleProof \<Rightarrow> bool" where
  "verify sha p \<longleftrightarrow> verify_path sha (leaf_hash p) (path p) = proof_root p"

record MerkleTree =
  leaves :: "bytes list"
  nodes :: "bytes list list"
  tree_root :: bytes

definition next_level :: "(bytes \<Rightarrow> bytes) \<Rightarrow> bytes list \<Rightarrow> bytes list" where
  "next_level sha current =
    (let padded = (if length current mod 2 = 1 then current @ [last current] else current)
     in pair_level (hash_internal sha) id padded)"

lemma length_next_level [simp]: "length (next_level sha xs) = (length xs + 1) div 2"
  by (simp add: next_level_def Let_def) presburger

function build_levels :: "(bytes \<Rightarrow> bytes) \<Rightarrow> bytes list \<Rightarrow> bytes list list" where
  "build_levels sha current =
    current # (if 1 < length current then build_levels sha (next_level sha current) else [])"
  by pat_completeness auto
termination by (relation "measure (\<lambda>(sha, xs). length xs)") auto

declare build_levels.simps [simp del]

definition from_leaf_hashes :: "(bytes \<Rightarrow> bytes) \<Rightarrow> bytes list \<Rightarrow> MerkleError + MerkleTree" where
  "from_leaf_hashes sha ls =
    (if ls = [] then Inl EmptyInput
     else let ns = build_levels sha ls
          in Inr \<lparr> leaves = ls, nodes = ns, tree_root = last ns ! 0 \<rparr>)"

definition from_leaves :: "(bytes \<Rightarrow> bytes) \<Rightarrow> bytes list \<Rightarrow> MerkleError + MerkleTree" where
  "from_leaves sha data =
    (if data = [] then Inl EmptyInput else from_leaf_hashes sha (map (hash_leaf sha) data))"

fun proof_path :: "bytes list list \<Rightarrow> nat \<Rightarrow> ProofStep list" where
  "proof_path [] index = []"
| "proof_path (level # levels) index =
    (let sibling_index = (if index mod 2 = 0 then index + 1 else index - 1)
     in (if sibling_index < length level
         then [\<lparr> step_hash = level ! sibling_index, direction = (if index mod 2 = 0 then Right else Left) \<rparr>]
         else []) @ proof_path levels (index div 2))"

definition proof_at :: "MerkleTree \<Rightarrow> nat \<Rightarrow> MerkleError + MerkleProof" where
  "proof_at t index =
    (if length (leaves t) \<le> index then Inl (IndexOutOfBounds index (length (leaves t)))
     else Inr \<lparr> leaf_hash = leaves t ! index, path = proof_path (butlast (nodes t)) index,
                proof_root = tree_root t \<rparr>)"

definition verify_leaf :: "(bytes \<Rightarrow> bytes) \<Rightarrow> MerkleTree \<Rightarrow> bytes \<Rightarrow> nat \<Rightarrow> MerkleError + bool" where
  "verify_leaf sha t leaf_data index =
    (if length (leaves t) \<le> index \<or> leaves t ! index \<noteq> hash_leaf sha leaf_data then Inr False
     else map_sum id (verify sha) (proof_at t index))"

definition compute_tx_root :: "(bytes \<Rightarrow> bytes) \<Rightarrow> bytes list \<Rightarrow> bytes" where
  "compute_tx_root sha tx_hashes =
    (if tx_hashes = [] then replicate 32 0
     else if length tx_hashes = 1 then tx_hashes ! 0
     else case from_leaf_hashes sha tx_hashes of Inr t \<Rightarrow> tree_root t | Inl _ \<Rightarrow> replicate 32 0)"

definition verify_tx_inclusion :: "(bytes \<Rightarrow> bytes) \<Rightarrow> bytes \<Rightarrow> bytes \<Rightarrow> MerkleProof \<Rightarrow> bool" where
  "verify_tx_inclusion sha tx_hash tx_root p \<longleftrightarrow>
     leaf_hash p = tx_hash \<and> proof_root p = tx_root \<and> verify sha p"

definition compute_merkle_root :: "(bytes \<Rightarrow> bytes) \<Rightarrow> bytes list \<Rightarrow> MerkleError + bytes" where
  "compute_merkle_root sha data = map_sum id tree_root (from_leaves sha data)"

record MultiProof =
  leaf_indices :: "nat list"
  leaf_hashes :: "bytes list"
  proof_hashes :: "bytes list"
  multi_root :: bytes

fun gather_leaves :: "MerkleTree \<Rightarrow> nat list \<Rightarrow> MerkleError + bytes list" where
  "gather_leaves t [] = Inr []"
| "gather_leaves t (i # is) =
    (if length (leaves t) \<le> i then Inl (IndexOutOfBounds i (length (leaves t)))
     else map_sum id (\<lambda>hs. leaves t ! i # hs) (gather_leaves t is))"

definition push_new :: "'a list \<Rightarrow> 'a \<Rightarrow> 'a list" where
  "push_new xs x = (if x \<in> set xs then xs else xs @ [x])"

fun gather_hashes :: "MerkleTree \<Rightarrow> nat list \<Rightarrow> bytes list \<Rightarrow> MerkleError + bytes list" where
  "gather_hashes t [] acc = Inr acc"
| "gather_hashes t (i # is) acc =
    (case proof_at t i of
       Inl e \<Rightarrow> Inl e
     | Inr p \<Rightarrow> gather_hashes t is (foldl push_new acc (map step_hash (path p))))"

definition multi_proof :: "MerkleTree \<Rightarrow> nat list \<Rightarrow> MerkleError + MultiProof" where
  "multi_proof t indices =
    (case gather_leaves t indices of
       Inl e \<Rightarrow> Inl e
     | Inr hs \<Rightarrow>
         map_sum id (\<lambda>ps. \<lparr> leaf_indices = indices, leaf_hashes = hs, proof_hashes = ps,
                            multi_root = tree_root t \<rparr>) (gather_hashes t indices []))"

section \<open>Lemmas\<close>

lemma nth_pair_level:
  "p < (length xs + 1) div 2 \<Longrightarrow>
   pair_level node pad xs ! p = node (xs ! (2 * p)) (if 2 * p + 1 < length xs then xs ! (2 * p + 1) else pad (xs ! (2 * p)))"
proof (induction node pad xs arbitrary: p rule: pair_level.induct)
  case (3 node pad x y xs)
  then show ?case by (cases p) auto
qed auto

lemma collapse_small: "length xs \<le> 1 \<Longrightarrow> collapse node pad xs = xs"
  by (simp add: collapse.simps)

lemma collapse_step: "1 < length xs \<Longrightarrow> collapse node pad xs = collapse node pad (pair_level node pad xs)"
  by (subst collapse.simps) simp



subsection \<open>The trie: completeness\<close>

lemma climb_collect:
  "i < length xs \<Longrightarrow>
   climb sha (xs ! i) i (collect_proof_siblings sha xs i) = collapse (hash_node sha) (\<lambda>_. EMPTY_HASH) xs ! 0"
proof (induction sha xs i rule: collect_proof_siblings.induct)
  case (1 sha xs i)
  show ?case
  proof (cases "length xs \<le> 1")
    case True
    moreover have "i = 0" using True 1(2) by simp
    ultimately show ?thesis by (simp add: collect_proof_siblings.simps collapse_small)
  next
    case False
    let ?up = "trie_level sha xs"
    let ?s = "if i mod 2 = 0 then i + 1 else i - 1"
    let ?sib = "if ?s < length xs then xs ! ?s else EMPTY_HASH"
    have up: "i div 2 < length ?up" using 1(2) by (simp add: trie_level_def)
    have "?up ! (i div 2) = (if i mod 2 = 0 then hash_node sha (xs ! i) ?sib else hash_node sha ?sib (xs ! i))"
    proof (cases "i mod 2 = 0")
      case True
      then have "2 * (i div 2) = i" by auto
      then show ?thesis using True up by (simp add: trie_level_def nth_pair_level)
    next
      case odd: False
      then have "2 * (i div 2) = i - 1" "0 < i" "i - 1 < length xs"
        using 1(2) by (auto simp: minus_mod_eq_mult_div [symmetric])
      then show ?thesis using odd up 1(2) by (simp add: trie_level_def nth_pair_level)
    qed
    moreover have "collect_proof_siblings sha xs i = ?sib # collect_proof_siblings sha ?up (i div 2)"
      using False by (subst collect_proof_siblings.simps) (simp add: Let_def)
    moreover have "collapse (hash_node sha) (\<lambda>_. EMPTY_HASH) xs = collapse (hash_node sha) (\<lambda>_. EMPTY_HASH) ?up"
      using False by (simp add: collapse_step trie_level_def)
    moreover have "climb sha (?up ! (i div 2)) (i div 2) (collect_proof_siblings sha ?up (i div 2)) =
        collapse (hash_node sha) (\<lambda>_. EMPTY_HASH) ?up ! 0"
      using 1(1) [OF False refl refl up] by simp
    ultimately show ?thesis by simp
  qed
qed

lemma position_Some:
  "position P xs = Some i \<Longrightarrow> i < length xs \<and> P (xs ! i)"
  by (induction xs arbitrary: i) (auto split: if_splits)

lemma position_None: "position P xs = None \<longleftrightarrow> (\<forall>x \<in> set xs. \<not> P x)"
  by (induction xs) auto

lemma root_collapse:
  "xs \<noteq> [] \<Longrightarrow> merkle_root_from_leaves sha xs = collapse (hash_node sha) (\<lambda>_. EMPTY_HASH) xs ! 0"
  by (auto simp: merkle_root_from_leaves_def collapse_small)

subsection \<open>The trie: soundness\<close>

text \<open>The messages hashed when the trie is built and when a proof is checked.\<close>

function level_msgs :: "(bytes \<Rightarrow> bytes) \<Rightarrow> TrieHash list \<Rightarrow> bytes list" where
  "level_msgs sha xs =
    (if length xs \<le> 1 then []
     else map (\<lambda>p. str_bytes ''NODE'' @ xs ! (2 * p) @ (if 2 * p + 1 < length xs then xs ! (2 * p + 1) else EMPTY_HASH))
            [0..<(length xs + 1) div 2] @ level_msgs sha (trie_level sha xs))"
  by pat_completeness auto
termination by (relation "measure (\<lambda>(sha, xs). length xs)") (auto simp: trie_level_def)

declare level_msgs.simps [simp del]

definition tree_msgs :: "(bytes \<Rightarrow> bytes) \<Rightarrow> (bytes \<times> bytes) list \<Rightarrow> bytes list" where
  "tree_msgs sha entries =
     map (\<lambda>(k, v). str_bytes ''LEAF'' @ k @ v) entries @ level_msgs sha (trie_leaves sha entries)"

fun climb_msgs :: "(bytes \<Rightarrow> bytes) \<Rightarrow> TrieHash \<Rightarrow> nat \<Rightarrow> TrieHash list \<Rightarrow> bytes list" where
  "climb_msgs sha h index [] = []"
| "climb_msgs sha h index (s # ss) =
    (let m = str_bytes ''NODE'' @ (if index mod 2 = 0 then h @ s else s @ h)
     in m # climb_msgs sha (sha m) (index div 2) ss)"

definition proof_msgs :: "(bytes \<Rightarrow> bytes) \<Rightarrow> TrieProof \<Rightarrow> bytes list" where
  "proof_msgs sha p = (str_bytes ''LEAF'' @ key p @ val p) #
     climb_msgs sha (trie_hash_leaf sha (key p) (val p)) (leaf_index p) (siblings p)"

text \<open>The hash behaves on a set of messages: digests of 32 bytes, different for different
  messages, never all zero.\<close>

definition hash_ok :: "(bytes \<Rightarrow> bytes) \<Rightarrow> bytes set \<Rightarrow> bool" where
  "hash_ok sha M \<longleftrightarrow> inj_on sha M \<and> (\<forall>m \<in> M. length (sha m) = 32 \<and> sha m \<noteq> EMPTY_HASH)"

text \<open>A value that occurs in the trie above \<open>xs\<close>, and the same with the child it has.\<close>

inductive in_trie :: "(bytes \<Rightarrow> bytes) \<Rightarrow> TrieHash list \<Rightarrow> TrieHash \<Rightarrow> bool" for sha :: "bytes \<Rightarrow> bytes" where
  leaf: "h \<in> set xs \<Longrightarrow> in_trie sha xs h"
| up: "1 < length xs \<Longrightarrow> in_trie sha (trie_level sha xs) h \<Longrightarrow> in_trie sha xs h"

lemma collapse_in_trie:
  "xs \<noteq> [] \<Longrightarrow> in_trie sha xs (collapse (hash_node sha) (\<lambda>_. EMPTY_HASH) xs ! 0)"
proof (induction "length xs" arbitrary: xs rule: less_induct)
  case less
  show ?case
  proof (cases "length xs \<le> 1")
    case True
    with less(2) show ?thesis by (cases xs) (auto simp: collapse_small intro: in_trie.leaf)
  next
    case False
    have "trie_level sha xs \<noteq> []" "length (trie_level sha xs) < length xs"
      using False by (auto simp: trie_level_def simp flip: length_greater_0_conv)
    with less(1) False show ?thesis by (auto simp: collapse_step trie_level_def intro: in_trie.up)
  qed
qed

text \<open>Every value of the trie is a leaf or the hash of two values, the left one and the right one
  in the trie or the right one empty.\<close>

lemma in_trie_cases:
  assumes "in_trie sha xs h"
  shows "h \<in> set xs \<or> (\<exists>l r. h = hash_node sha l r \<and> (str_bytes ''NODE'' @ l @ r) \<in> set (level_msgs sha xs) \<and>
    in_trie sha xs l \<and> (in_trie sha xs r \<or> r = EMPTY_HASH))"
  using assms
proof (induction rule: in_trie.induct)
  case (up xs h)
  have sub: "set (level_msgs sha (trie_level sha xs)) \<subseteq> set (level_msgs sha xs)"
    using up(1) by (subst (2) level_msgs.simps) auto
  from up(3) show ?case
  proof
    assume "h \<in> set (trie_level sha xs)"
    then obtain p where p: "p < (length xs + 1) div 2" "h = trie_level sha xs ! p"
      by (auto simp: in_set_conv_nth trie_level_def)
    let ?l = "xs ! (2 * p)" and ?r = "if 2 * p + 1 < length xs then xs ! (2 * p + 1) else EMPTY_HASH"
    have "h = hash_node sha ?l ?r" using p by (simp add: trie_level_def nth_pair_level)
    moreover have "str_bytes ''NODE'' @ ?l @ ?r \<in> set (level_msgs sha xs)"
      using p(1) up(1) by (subst level_msgs.simps) auto
    moreover have "in_trie sha xs ?l" using p(1) by (intro in_trie.leaf nth_mem) simp
    moreover have "in_trie sha xs ?r \<or> ?r = EMPTY_HASH" by (auto intro: in_trie.leaf)
    ultimately show ?thesis by blast
  next
    assume "\<exists>l r. h = hash_node sha l r \<and> str_bytes ''NODE'' @ l @ r \<in> set (level_msgs sha (trie_level sha xs)) \<and>
      in_trie sha (trie_level sha xs) l \<and> (in_trie sha (trie_level sha xs) r \<or> r = EMPTY_HASH)"
    then show ?thesis using sub up(1) in_trie.up by blast
  qed
qed blast

lemma node_not_leaf: "str_bytes ''NODE'' @ xs \<noteq> str_bytes ''LEAF'' @ ys"
  by (simp add: str_bytes_def)

text \<open>The leaves and the hashed messages of a trie, for a hash that behaves on \<open>M\<close>.\<close>

definition trie_over :: "(bytes \<Rightarrow> bytes) \<Rightarrow> bytes set \<Rightarrow> TrieHash list \<Rightarrow> bool" where
  "trie_over sha M xs \<longleftrightarrow> hash_ok sha M \<and> set (level_msgs sha xs) \<subseteq> M \<and>
     (\<forall>x \<in> set xs. \<exists>b. str_bytes ''LEAF'' @ b \<in> M \<and> x = sha (str_bytes ''LEAF'' @ b))"

lemma in_trie_digest:
  assumes "trie_over sha M xs" "in_trie sha xs h"
  shows "\<exists>m \<in> M. h = sha m"
  using in_trie_cases [OF assms(2)] assms(1) by (fastforce simp: trie_over_def hash_node_def)

lemma climb_back:
  assumes over: "trie_over sha M xs" and h: "m0 \<in> M" "h = sha m0"
    and msgs: "set (climb_msgs sha h i (s # ss)) \<subseteq> M" and s: "length s = 32"
    and trie: "in_trie sha xs (if i mod 2 = 0 then hash_node sha h s else hash_node sha s h)"
  shows "in_trie sha xs h"
proof -
  let ?m = "str_bytes ''NODE'' @ (if i mod 2 = 0 then h @ s else s @ h)"
  have ok: "hash_ok sha M" and m: "?m \<in> M" using over msgs by (auto simp: trie_over_def Let_def)
  have eq: "(if i mod 2 = 0 then hash_node sha h s else hash_node sha s h) = sha ?m" by (simp add: hash_node_def)
  have same: "m1 = m2" if "sha m1 = sha m2" "m1 \<in> M" "m2 \<in> M" for m1 m2
    using ok that by (auto simp: hash_ok_def dest: inj_onD)
  have "sha ?m \<notin> set xs" using over same m node_not_leaf by (fastforce simp: trie_over_def)
  then obtain l r where lr: "sha ?m = sha (str_bytes ''NODE'' @ l @ r)"
    "str_bytes ''NODE'' @ l @ r \<in> set (level_msgs sha xs)" "in_trie sha xs l" "in_trie sha xs r \<or> r = EMPTY_HASH"
    using in_trie_cases [OF trie [unfolded eq]] unfolding hash_node_def by blast
  have "?m = str_bytes ''NODE'' @ l @ r"
    by (rule same [OF lr(1) m]) (use lr(2) over in \<open>auto simp: trie_over_def\<close>)
  then have cat: "(if i mod 2 = 0 then h @ s else s @ h) = l @ r" by simp
  have len: "length h = 32" "h \<noteq> EMPTY_HASH" using ok h by (auto simp: hash_ok_def)
  obtain m1 where "m1 \<in> M" "l = sha m1" using in_trie_digest [OF over lr(3)] by blast
  then have "length l = 32" using ok by (simp add: hash_ok_def)
  with cat len s have "h = l \<or> h = r" by (auto split: if_splits)
  then show ?thesis using lr(3,4) len by blast
qed

lemma hash_ok_inj: "hash_ok sha M \<Longrightarrow> sha m1 = sha m2 \<Longrightarrow> m1 \<in> M \<Longrightarrow> m2 \<in> M \<Longrightarrow> m1 = m2"
  by (auto simp: hash_ok_def dest: inj_onD)

lemma leaf_in_trie_is_leaf:
  assumes over: "trie_over sha M xs" and m: "str_bytes ''LEAF'' @ b \<in> M"
    and trie: "in_trie sha xs (sha (str_bytes ''LEAF'' @ b))"
  shows "sha (str_bytes ''LEAF'' @ b) \<in> set xs"
proof (rule ccontr)
  assume "sha (str_bytes ''LEAF'' @ b) \<notin> set xs"
  then obtain l r where lr: "sha (str_bytes ''LEAF'' @ b) = sha (str_bytes ''NODE'' @ l @ r)"
    "str_bytes ''NODE'' @ l @ r \<in> set (level_msgs sha xs)"
    using in_trie_cases [OF trie] unfolding hash_node_def by blast
  have "hash_ok sha M" "str_bytes ''NODE'' @ l @ r \<in> M" using over lr(2) by (auto simp: trie_over_def)
  from hash_ok_inj [OF this(1) lr(1) m this(2)] show False using node_not_leaf by metis
qed

lemma climb_sound:
  assumes "trie_over sha M xs"
  shows "m0 \<in> M \<Longrightarrow> h = sha m0 \<Longrightarrow> set (climb_msgs sha h i ss) \<subseteq> M \<Longrightarrow> \<forall>s \<in> set ss. length s = 32 \<Longrightarrow>
    in_trie sha xs (climb sha h i ss) \<Longrightarrow> in_trie sha xs h"
proof (induction ss arbitrary: h i m0)
  case (Cons s ss)
  let ?m = "str_bytes ''NODE'' @ (if i mod 2 = 0 then h @ s else s @ h)"
  have eq: "(if i mod 2 = 0 then hash_node sha h s else hash_node sha s h) = sha ?m" by (simp add: hash_node_def)
  have m: "?m \<in> M" "set (climb_msgs sha (sha ?m) (i div 2) ss) \<subseteq> M" using Cons.prems(3) by (auto simp: Let_def)
  have "in_trie sha xs (sha ?m)"
    by (rule Cons.IH [OF m(1) refl m(2)]) (use Cons.prems(4,5) eq in auto)
  then have "in_trie sha xs (if i mod 2 = 0 then hash_node sha h s else hash_node sha s h)" by (simp only: eq)
  then show ?case using Cons.prems by (intro climb_back [OF assms Cons.prems(1,2,3)]) auto
qed simp

subsection \<open>The consensus tree\<close>

lemma next_level_even: "length xs mod 2 = 0 \<Longrightarrow> next_level sha xs = pair_level (hash_internal sha) id xs"
  by (simp add: next_level_def)

lemma next_level_dup: "length xs mod 2 = 1 \<Longrightarrow> next_level sha (xs @ [last xs]) = next_level sha xs"
proof -
  assume "length xs mod 2 = 1"
  moreover from this have "length (xs @ [last xs]) mod 2 = 0" by simp presburger
  ultimately show ?thesis by (simp add: next_level_def)
qed

lemma build_levels_small: "length xs \<le> 1 \<Longrightarrow> build_levels sha xs = [xs]"
  by (subst build_levels.simps) simp

lemma build_levels_step: "1 < length xs \<Longrightarrow> build_levels sha xs = xs # build_levels sha (next_level sha xs)"
  by (subst build_levels.simps) simp

lemma build_levels_nonempty [simp]: "build_levels sha xs \<noteq> []"
  by (subst build_levels.simps) simp

lemma proof_path_verifies:
  "length xs = 2 ^ d \<Longrightarrow> i < length xs \<Longrightarrow>
   verify_path sha (xs ! i) (proof_path (butlast (build_levels sha xs)) i) = last (build_levels sha xs) ! 0"
proof (induction d arbitrary: xs i)
  case 0
  then show ?case by (simp add: build_levels_small)
next
  case (Suc d)
  let ?up = "next_level sha xs" and ?s = "if i mod 2 = 0 then i + 1 else i - 1"
  have "(1 :: nat) \<le> 2 ^ d" by (rule one_le_power) simp
  with Suc.prems(1) have "1 < length xs" unfolding power_Suc by linarith
  then have len: "length xs mod 2 = 0" "1 < length xs" "length ?up = 2 ^ d"
    using Suc.prems(1) by (simp_all add: next_level_def)
  have s: "?s < length xs" using Suc.prems(2) len(1) by presburger
  have up: "?up ! (i div 2) = (if i mod 2 = 0 then hash_internal sha (xs ! i) (xs ! ?s) else hash_internal sha (xs ! ?s) (xs ! i))"
  proof (cases "i mod 2 = 0")
    case True
    then have "2 * (i div 2) = i" by auto
    then show ?thesis using True s Suc.prems by (simp add: next_level_even [OF len(1)] nth_pair_level)
  next
    case False
    then have "2 * (i div 2) = i - 1" "0 < i" by (auto simp: minus_mod_eq_mult_div [symmetric])
    then show ?thesis using False s Suc.prems by (simp add: next_level_even [OF len(1)] nth_pair_level)
  qed
  have "verify_path sha (?up ! (i div 2)) (proof_path (butlast (build_levels sha ?up)) (i div 2)) =
      last (build_levels sha ?up) ! 0"
    using Suc.prems len by (intro Suc.IH) auto
  then show ?case using s unfolding up
    by (cases "i mod 2 = 0") (simp_all add: build_levels_step [OF len(2)] Let_def)
qed

lemma compute_tx_root_levels: "ls \<noteq> [] \<Longrightarrow> compute_tx_root sha ls = last (build_levels sha ls) ! 0"
  by (auto simp: compute_tx_root_def from_leaf_hashes_def Let_def build_levels_small)

text \<open>A stand-in for the hash, used by the concrete instances below.\<close>

lemma EMPTY_HASH_eq: "EMPTY_HASH = 0 # replicate 31 0"
  by (simp add: EMPTY_HASH_def numeral_eq_Suc)

definition toy_sha :: "bytes \<Rightarrow> bytes" where
  "toy_sha m = word_of_nat (length m) # replicate 31 1"

section \<open>Properties\<close>

text \<open>C8. Completeness of state proofs: for every key of the state, whatever the number of entries,
  a proof is generated for the stored value, its root is the state root, and it verifies; for a key
  that is absent no proof is generated.\<close>

theorem trie_proof_complete:
  assumes "bt_wf entries"
  shows "case map_of entries k of
      None \<Rightarrow> generate_proof sha entries k = None
    | Some v \<Rightarrow> \<exists>p. generate_proof sha entries k = Some p \<and> key p = k \<and> val p = v \<and>
        root p = trie_compute_merkle_root sha entries \<and> verify_proof sha p"
proof (cases "map_of entries k")
  case None
  then have "position (\<lambda>k'. k' = k) (map fst entries) = None"
    by (auto simp: position_None map_of_eq_None_iff)
  with None show ?thesis by (simp add: generate_proof_def)
next
  case (Some v)
  have dist: "hm_wf entries" using assms by (rule bt_wf_distinct)
  from Some have "k \<in> set (map fst entries)" by (force dest: map_of_SomeD)
  then obtain i where i: "position (\<lambda>k'. k' = k) (map fst entries) = Some i"
    using position_None [of "\<lambda>k'. k' = k" "map fst entries"] by blast
  then have len: "i < length entries" and k: "fst (entries ! i) = k" by (auto dest: position_Some)
  then have "map_of entries k = Some (snd (entries ! i))"
    using dist map_of_is_SomeI [OF dist, of k "snd (entries ! i)"] nth_mem [OF len] by (metis prod.collapse)
  then have leaf: "trie_leaves sha entries ! i = trie_hash_leaf sha k v" "i < length (trie_leaves sha entries)"
    using Some len k by (auto simp: trie_leaves_def case_prod_unfold)
  have ne: "trie_leaves sha entries \<noteq> []" "entries \<noteq> []" using leaf(2) by (auto simp: trie_leaves_def)
  from climb_collect [OF leaf(2), of sha] leaf Some i show ?thesis
    by (auto simp: generate_proof_def verify_proof_def Let_def trie_compute_merkle_root_def root_collapse [OF ne(1)] ne(2))
qed

theorem trie_proof_complete_witness:
  "\<exists>p. generate_proof id [([1], [9]), ([2], [8]), ([3], [7])] [3] = Some p \<and> val p = [7] \<and> verify_proof id p"
proof -
  have "bt_wf [([1 :: u8], [9 :: u8]), ([2], [8]), ([3], [7])]" by simp
  from trie_proof_complete [where k = "[3]" and sha = id, OF this] show ?thesis by auto
qed

text \<open>C7. Soundness of state proofs: a proof with digests of the right length that verifies against
  the state root is for a key and a value of the state, provided the hash behaves on the messages
  hashed by the two sides and all keys have one length.\<close>

theorem trie_proof_sound:
  assumes "hash_ok sha (set (tree_msgs sha entries) \<union> set (proof_msgs sha p))"
    and "entries \<noteq> []" "root p = trie_compute_merkle_root sha entries" "verify_proof sha p"
    and "\<forall>s \<in> set (siblings p). length s = 32"
    and "\<forall>(k, v) \<in> set entries. length k = length (key p)"
  shows "(key p, val p) \<in> set entries"
proof -
  let ?M = "set (tree_msgs sha entries) \<union> set (proof_msgs sha p)"
  let ?xs = "trie_leaves sha entries" and ?b = "key p @ val p"
  let ?m = "str_bytes ''LEAF'' @ ?b"
  have over: "trie_over sha ?M ?xs"
    using assms(1) by (fastforce simp: trie_over_def tree_msgs_def trie_leaves_def trie_hash_leaf_def)
  have ne: "?xs \<noteq> []" using assms(2) by (simp add: trie_leaves_def)
  have h: "?m \<in> ?M" "trie_hash_leaf sha (key p) (val p) = sha ?m"
    by (simp_all add: proof_msgs_def trie_hash_leaf_def)
  have "in_trie sha ?xs (climb sha (sha ?m) (leaf_index p) (siblings p))"
    using assms(2-4) collapse_in_trie [OF ne] ne h(2)
    by (simp add: verify_proof_def trie_compute_merkle_root_def root_collapse)
  then have "in_trie sha ?xs (sha ?m)"
    using assms(5) h(2) by (intro climb_sound [OF over h(1) refl]) (auto simp: proof_msgs_def)
  then have "sha ?m \<in> set ?xs"
    using leaf_in_trie_is_leaf [OF over h(1)] by blast
  then obtain k v where kv: "(k, v) \<in> set entries" "sha ?m = sha (str_bytes ''LEAF'' @ k @ v)"
    by (auto simp: trie_leaves_def trie_hash_leaf_def)
  have "?m = str_bytes ''LEAF'' @ k @ v"
    by (rule hash_ok_inj [OF assms(1) kv(2) h(1)]) (use kv(1) in \<open>force simp: tree_msgs_def\<close>)
  then have "key p @ val p = k @ v" by simp
  moreover have "length k = length (key p)" using assms(6) kv(1) by auto
  ultimately show ?thesis using kv(1) by simp
qed

theorem trie_proof_sound_witness:
  "\<exists>p. root p = trie_compute_merkle_root toy_sha [([1], [9]), ([2], [8, 8])] \<and> verify_proof toy_sha p \<and>
    (key p, val p) \<in> set [([1], [9]), ([2], [8, 8])]"
proof -
  let ?e = "[([1], [9]), ([2], [8, 8])]" and ?l = "str_bytes ''LEAF'' @ [1, 9]" and ?m = "str_bytes ''LEAF'' @ [2, 8, 8]"
  let ?p = "\<lparr> key = [2], val = [8, 8], leaf_index = 1, siblings = [toy_sha ?l],
    root = trie_compute_merkle_root toy_sha ?e \<rparr>"
  have r: "trie_compute_merkle_root toy_sha ?e = toy_sha (str_bytes ''NODE'' @ toy_sha ?l @ toy_sha ?m)"
    by (simp add: trie_compute_merkle_root_def root_collapse trie_leaves_def collapse_step collapse_small
        trie_hash_leaf_def hash_node_def)
  have tm: "set (tree_msgs toy_sha ?e) \<union> set (proof_msgs toy_sha ?p) =
      {?l, ?m, str_bytes ''NODE'' @ toy_sha ?l @ toy_sha ?m}"
    by (auto simp: tree_msgs_def proof_msgs_def trie_leaves_def trie_hash_leaf_def level_msgs.simps trie_level_def
        hash_node_def Let_def)
  have ok: "hash_ok toy_sha (set (tree_msgs toy_sha ?e) \<union> set (proof_msgs toy_sha ?p))"
    unfolding tm by (simp add: hash_ok_def toy_sha_def str_bytes_def EMPTY_HASH_eq)
  have v: "verify_proof toy_sha ?p"
    using r by (simp add: verify_proof_def trie_hash_leaf_def hash_node_def)
  have "(key ?p, val ?p) \<in> set ?e"
    by (rule trie_proof_sound [OF ok]) (use v in \<open>simp_all add: toy_sha_def\<close>)
  with v show ?thesis by (intro exI [of _ ?p]) simp
qed

text \<open>The boundary between key and value is not hashed: a proof that verifies still verifies
  when bytes are moved from the value to the key or back.\<close>

theorem trie_key_value_ambiguous:
  assumes "verify_proof sha p" "k' @ v' = key p @ val p"
  shows "verify_proof sha (p\<lparr> key := k', val := v' \<rparr>)"
  using assms by (simp add: verify_proof_def trie_hash_leaf_def)

theorem trie_key_value_ambiguous_witness:
  "\<exists>p. generate_proof id [([1], [9]), ([2, 3], [8])] [2, 3] = Some p \<and> verify_proof id (p\<lparr> key := [2], val := [3, 8] \<rparr>)"
proof -
  obtain p where p: "generate_proof id [([1], [9]), ([2, 3], [8])] [2, 3] = Some p"
    and kv: "key p = [2, 3]" "val p = [8]" and "verify_proof id p"
    by (simp add: generate_proof_def verify_proof_def Let_def trie_leaves_def root_collapse collapse_step
        collapse_small collect_proof_siblings.simps trie_level_def)
  from trie_key_value_ambiguous [OF this(4), of "[2]" "[3, 8]"] p kv show ?thesis by auto
qed

text \<open>With a power of two of transactions every inclusion proof of the consensus tree verifies
  against the transaction root.\<close>

theorem tx_proof_power_of_two:
  assumes "length ls = 2 ^ d" "i < length ls"
  shows "\<exists>t p. from_leaf_hashes sha ls = Inr t \<and> proof_at t i = Inr p \<and>
    verify_tx_inclusion sha (ls ! i) (compute_tx_root sha ls) p"
proof -
  have "ls \<noteq> []" using assms(2) by auto
  then show ?thesis
    using assms proof_path_verifies [OF assms, of sha]
    by (simp add: from_leaf_hashes_def proof_at_def Let_def verify_tx_inclusion_def verify_def compute_tx_root_levels)
qed

theorem tx_proof_power_of_two_witness:
  "\<exists>t p. from_leaf_hashes id [[1], [2], [3], [4]] = Inr t \<and> proof_at t 2 = Inr p \<and>
    verify_tx_inclusion id [3] (compute_tx_root id [[1], [2], [3], [4]]) p"
  using tx_proof_power_of_two [of "[[1], [2], [3], [4]]" 2 2 id] by simp

text \<open>With three transactions the proof of the last one leaves out its padding and does not
  verify, unless the hash collides on the two messages compared or maps the last node to itself.\<close>

theorem tx_proof_last_of_three:
  assumes "from_leaf_hashes sha [a, b, c] = Inr t" "proof_at t 2 = Inr p"
    and "hash_internal sha c c \<noteq> c"
    and "inj_on (hash_internal sha (hash_internal sha a b)) {c, hash_internal sha c c}"
  shows "\<not> verify sha p"
proof -
  have l: "build_levels sha [a, b, c] = [[a, b, c], [hash_internal sha a b, hash_internal sha c c],
      [hash_internal sha (hash_internal sha a b) (hash_internal sha c c)]]"
    by (simp add: build_levels_step build_levels_small next_level_def)
  have "verify sha p \<longleftrightarrow> hash_internal sha (hash_internal sha a b) c =
      hash_internal sha (hash_internal sha a b) (hash_internal sha c c)"
    using assms(1,2) by (auto simp: from_leaf_hashes_def Let_def l proof_at_def verify_def)
  then show ?thesis using assms(3,4) by (auto dest: inj_onD)
qed

theorem tx_proof_last_of_three_witness:
  "\<exists>t p. from_leaf_hashes id [[1], [2], [3]] = Inr t \<and> proof_at t 2 = Inr p \<and> \<not> verify id p"
proof -
  obtain t where t: "from_leaf_hashes id [[1], [2], [3]] = Inr t" by (simp add: from_leaf_hashes_def Let_def)
  then have "leaves t = [[1], [2], [3]]" by (auto simp: from_leaf_hashes_def Let_def)
  then obtain p where p: "proof_at t 2 = Inr p" by (simp add: proof_at_def)
  have "\<not> verify id p"
    by (rule tx_proof_last_of_three [OF t p]) (simp_all add: hash_internal_def inj_on_def)
  with t p show ?thesis by blast
qed

text \<open>The transaction root does not determine the number of transactions: repeating the last
  hash of an odd list gives the same root.\<close>

theorem tx_root_duplicate:
  assumes "length ls mod 2 = 1" "1 < length ls"
  shows "compute_tx_root sha (ls @ [last ls]) = compute_tx_root sha ls"
proof -
  have "ls \<noteq> []" using assms(2) by auto
  then show ?thesis
    using assms by (simp add: compute_tx_root_levels build_levels_step next_level_dup)
qed

theorem tx_root_duplicate_witness:
  "compute_tx_root id [[1], [2], [3], [3]] = compute_tx_root id [[1], [2], [3]]"
  using tx_root_duplicate [of "[[1], [2], [3]]" id] by simp

end
