(* ===== verification/Latency_Canon.thy ===== *)
theory Latency_Canon
  imports Rust_Prelude
begin

text \<open>
  Canonical latency of peers: signed reports of bucketed round-trip times
  (\<open>savitri-consensus/src/types/latency_canon.rs\<close>), their aggregation into a table by a lower
  median (\<open>types/latency_table.rs\<close>) and the light node's bounded buffer of reports with its cached
  table (\<open>savitri-lightnode/src/latency_canon_state.rs\<close>), with the receive handler and the periodic
  rebuild of \<open>savitri-lightnode/src/p2p/intra_group/mod.rs\<close>.  Decoding of a message is done before
  the handler; the current group and the wall clock are arguments.
\<close>

section \<open>Reports\<close>

definition RTT_BUCKET_MS :: u64 where
  "RTT_BUCKET_MS = 5"

definition RTT_BUCKET_MAX :: u8 where
  "RTT_BUCKET_MAX = max_value"

definition bucket_from_rtt_ms :: "u64 \<Rightarrow> u8" where
  "bucket_from_rtt_ms rtt_ms =
    (let bucketed = rtt_ms div RTT_BUCKET_MS
     in if ucast RTT_BUCKET_MAX \<le> bucketed then RTT_BUCKET_MAX else ucast bucketed)"

record PeerLatencyObservation =
  peer_id :: string
  rtt_ms_bucket :: u8
  samples :: u8

record LatencyReport =
  report_round :: u64
  report_group :: string
  reporter :: string
  observations :: "PeerLatencyObservation list"
  nonce :: u64
  reporter_pubkey :: bytes
  report_signature :: bytes

definition report_signable_bytes :: "LatencyReport \<Rightarrow> bytes" where
  "report_signable_bytes r =
     str_bytes ''savitri-latency-canon-v1|'' @ le_bytes 8 (report_round r) @ str_bytes ''|'' @
     le_bytes 8 (nonce r) @ str_bytes ''|'' @ str_bytes (report_group r) @ str_bytes ''|'' @
     str_bytes (reporter r) @ str_bytes ''|'' @
     concat (map (\<lambda>obs. str_bytes (peer_id obs) @ str_bytes '':'' @ [rtt_ms_bucket obs] @ str_bytes '':'' @
       [samples obs] @ str_bytes '','') (observations r))"

definition verify_report :: "crypto \<Rightarrow> LatencyReport \<Rightarrow> bool" where
  "verify_report cr r = verify_with cr (reporter_pubkey r) (report_signable_bytes r) (report_signature r)"

section \<open>The table\<close>

definition MIN_SAMPLES :: u8 where
  "MIN_SAMPLES = 3"

definition MIN_REPORTERS :: nat where
  "MIN_REPORTERS = 2"

definition WINDOW_SIZE :: u64 where
  "WINDOW_SIZE = 3"

record LatencyTable =
  entries :: "((string \<times> string) \<times> u8 option) list"
  last_update_round :: u64

definition new_table :: LatencyTable where
  "new_table = \<lparr> entries = [], last_update_round = 0 \<rparr>"

definition lookup :: "LatencyTable \<Rightarrow> string \<Rightarrow> string \<Rightarrow> u8 option" where
  "lookup t group_id peer = (case map_of (entries t) (group_id, peer) of None \<Rightarrow> None | Some b \<Rightarrow> b)"

text \<open>The inner loop of \<open>compute_canonical_bucket\<close> with its three guards.\<close>

definition add_observation ::
  "string \<Rightarrow> LatencyReport \<Rightarrow> PeerLatencyObservation \<Rightarrow> (string \<times> u8) list \<Rightarrow> (string \<times> u8) list" where
  "add_observation target r obs by_reporter =
    (if peer_id obs \<noteq> target then by_reporter
     else if samples obs < MIN_SAMPLES then by_reporter
     else if reporter r = target then by_reporter
     else AList.update (reporter r) (rtt_ms_bucket obs) by_reporter)"

definition add_observations :: "string \<Rightarrow> LatencyReport \<Rightarrow> (string \<times> u8) list \<Rightarrow> (string \<times> u8) list" where
  "add_observations target r by_reporter = fold (add_observation target r) (observations r) by_reporter"

definition lower_median :: "u8 list \<Rightarrow> u8" where
  "lower_median xs = sort xs ! ((length xs - 1) div 2)"

definition compute_canonical_bucket :: "LatencyReport list \<Rightarrow> string \<Rightarrow> u8 option" where
  "compute_canonical_bucket group_reports target =
    (let by_reporter = fold (add_observations target) group_reports []
     in if length by_reporter < MIN_REPORTERS then None
        else Some (lower_median (map snd by_reporter)))"

text \<open>The window test; both additions wrap.\<close>

definition skip_report :: "u64 \<Rightarrow> u64 \<Rightarrow> LatencyReport \<Rightarrow> bool" where
  "skip_report window_end window_size r \<longleftrightarrow>
     report_round r + window_size < window_end + 1 \<and> report_round r \<noteq> window_end \<and>
     window_size < saturating_sub window_end (report_round r)"

definition group_push :: "u64 \<Rightarrow> u64 \<Rightarrow> LatencyReport \<Rightarrow> (string \<times> LatencyReport list) list \<Rightarrow>
    (string \<times> LatencyReport list) list" where
  "group_push window_end window_size r by_group =
    (if skip_report window_end window_size r then by_group
     else AList.update (report_group r)
            ((case map_of by_group (report_group r) of None \<Rightarrow> [] | Some rs \<Rightarrow> rs) @ [r]) by_group)"

definition target_peers :: "LatencyReport list \<Rightarrow> string list" where
  "target_peers rs = sort (remdups (concat (map (\<lambda>r. map peer_id (observations r)) rs)))"

definition insert_group :: "string \<times> LatencyReport list \<Rightarrow> ((string \<times> string) \<times> u8 option) list \<Rightarrow>
    ((string \<times> string) \<times> u8 option) list" where
  "insert_group gr es = (case gr of (group_id, group_reports) \<Rightarrow>
     fold (\<lambda>target es. AList.update (group_id, target) (compute_canonical_bucket group_reports target) es)
       (target_peers group_reports) es)"

definition rebuild_from_reports :: "LatencyReport list \<Rightarrow> u64 \<Rightarrow> u64 \<Rightarrow> LatencyTable" where
  "rebuild_from_reports reports window_end window_size =
    \<lparr> entries = fold insert_group (fold (group_push window_end window_size) reports []) [],
      last_update_round = window_end \<rparr>"

definition defined_pair_count :: "LatencyTable \<Rightarrow> nat" where
  "defined_pair_count t = length (filter (\<lambda>v. v \<noteq> None) (map snd (entries t)))"

section \<open>The light node's state\<close>

definition MAX_BUFFERED_REPORTS :: nat where
  "MAX_BUFFERED_REPORTS = 512"

record LatencyCanonState =
  buffer :: "LatencyReport list"
  cached :: "LatencyTable option"

definition new_canon_state :: LatencyCanonState where
  "new_canon_state = \<lparr> buffer = [], cached = None \<rparr>"

definition ingest_report :: "LatencyReport \<Rightarrow> LatencyCanonState \<Rightarrow> LatencyCanonState" where
  "ingest_report report g =
    \<lparr> buffer = (if MAX_BUFFERED_REPORTS \<le> length (buffer g) then tl (buffer g) else buffer g) @ [report],
      cached = None \<rparr>"

text \<open>\<open>rebuild_with\<close> reads the buffer and stores the table under two separate locks.\<close>

definition rebuild_read :: "u64 \<Rightarrow> u64 \<Rightarrow> LatencyCanonState \<Rightarrow> LatencyTable" where
  "rebuild_read window_end window_size g = rebuild_from_reports (buffer g) window_end window_size"

definition rebuild_store :: "LatencyTable \<Rightarrow> LatencyCanonState \<Rightarrow> LatencyCanonState" where
  "rebuild_store t g = g\<lparr> cached := Some t \<rparr>"

definition rebuild_with :: "u64 \<Rightarrow> u64 \<Rightarrow> LatencyCanonState \<Rightarrow> LatencyTable \<times> LatencyCanonState" where
  "rebuild_with window_end window_size g =
    (let table = rebuild_read window_end window_size g in (table, rebuild_store table g))"

definition rebuild :: "u64 \<Rightarrow> LatencyCanonState \<Rightarrow> LatencyTable \<times> LatencyCanonState" where
  "rebuild current_round g = rebuild_with current_round WINDOW_SIZE g"

definition lookup_bucket :: "LatencyCanonState \<Rightarrow> string \<Rightarrow> string \<Rightarrow> u8 option" where
  "lookup_bucket g group_id peer = (case cached g of None \<Rightarrow> None | Some t \<Rightarrow> lookup t group_id peer)"

definition current_table :: "LatencyCanonState \<Rightarrow> LatencyTable option" where
  "current_table g = cached g"

definition buffered_count :: "LatencyCanonState \<Rightarrow> nat" where
  "buffered_count g = length (buffer g)"

definition bucket_to_score :: "u8 \<Rightarrow> u16" where
  "bucket_to_score bucket = saturating_sub 1000 (saturating_mul (ucast bucket) 5)"

definition lookup_score :: "LatencyCanonState \<Rightarrow> string \<Rightarrow> string \<Rightarrow> u16" where
  "lookup_score g group_id peer = (case lookup_bucket g group_id peer of
      Some b \<Rightarrow> bucket_to_score b
    | None \<Rightarrow> 1000)"

text \<open>The receive handler, after decoding; \<open>local_group\<close> is the empty string outside a group.\<close>

definition process_latency_canon_message ::
  "crypto \<Rightarrow> string \<Rightarrow> LatencyReport \<Rightarrow> LatencyCanonState option \<Rightarrow> LatencyCanonState option" where
  "process_latency_canon_message cr local_group report st =
    (if \<not> verify_report cr report then st
     else if local_group \<noteq> [] \<and> report_group report \<noteq> local_group then st
     else map_option (ingest_report report) st)"

definition rebuild_latency_canon_table :: "u64 \<Rightarrow> LatencyCanonState option \<Rightarrow> nat \<times> LatencyCanonState option" where
  "rebuild_latency_canon_table bucket st = (case st of
      None \<Rightarrow> (0, None)
    | Some g \<Rightarrow> (let (table, g') = rebuild bucket g in (defined_pair_count table, Some g')))"

section \<open>Abstract table\<close>

text \<open>The buckets a reporter gave for a peer in the order received, the reporters that gave one, and
  the bucket the documentation of \<open>latency_table.rs\<close> describes: the lower median of the latest
  value of each reporter, when there are at least two reporters.\<close>

definition eligible :: "string \<Rightarrow> LatencyReport \<Rightarrow> PeerLatencyObservation \<Rightarrow> bool" where
  "eligible peer r obs \<longleftrightarrow> peer_id obs = peer \<and> MIN_SAMPLES \<le> samples obs \<and> reporter r \<noteq> peer"

definition reported :: "string \<Rightarrow> string \<Rightarrow> LatencyReport list \<Rightarrow> u8 list" where
  "reported peer name rs = concat (map (\<lambda>r. if reporter r = name
     then map rtt_ms_bucket (filter (eligible peer r) (observations r)) else []) rs)"

definition contributors :: "string \<Rightarrow> LatencyReport list \<Rightarrow> string list" where
  "contributors peer rs = filter (\<lambda>name. reported peer name rs \<noteq> []) (remdups (map reporter rs))"

definition canonical_bucket :: "LatencyReport list \<Rightarrow> string \<Rightarrow> u8 option" where
  "canonical_bucket rs peer =
    (let buckets = map (\<lambda>name. last (reported peer name rs)) (contributors peer rs)
     in if length buckets < 2 then None else Some (lower_median buckets))"

definition used_reports :: "u64 \<Rightarrow> u64 \<Rightarrow> string \<Rightarrow> LatencyReport list \<Rightarrow> LatencyReport list" where
  "used_reports window_end window_size group_id rs =
    filter (\<lambda>r. \<not> skip_report window_end window_size r \<and> report_group r = group_id) rs"

section \<open>Lemmas\<close>

lemma reported_simps [simp]:
  "reported peer name [] = []"
  "reported peer name (r # rs) = (if reporter r = name
     then map rtt_ms_bucket (filter (eligible peer r) (observations r)) else []) @ reported peer name rs"
  by (simp_all add: reported_def)

lemma reported_outside: "name \<notin> reporter ` set rs \<Longrightarrow> reported peer name rs = []"
  by (induction rs) auto

lemma add_observation_eq:
  "add_observation peer r obs m = (if eligible peer r obs then AList.update (reporter r) (rtt_ms_bucket obs) m else m)"
  by (auto simp: add_observation_def eligible_def)

lemma add_observations_map:
  assumes "hm_wf m"
  shows "hm_wf (add_observations peer r m)"
    and "map_of (add_observations peer r m) name =
      (if reported peer name [r] = [] then map_of m name else Some (last (reported peer name [r])))"
proof -
  have "hm_wf m \<Longrightarrow> hm_wf (fold (add_observation peer r) os m)" for os
    by (induction os arbitrary: m) (simp_all add: add_observation_eq distinct_update)
  then show "hm_wf (add_observations peer r m)" using assms by (simp add: add_observations_def)
  have "map_of (fold (add_observation peer r) os m) name = (if reporter r = name \<and> filter (eligible peer r) os \<noteq> []
      then Some (rtt_ms_bucket (last (filter (eligible peer r) os))) else map_of m name)" for os
  proof (induction os arbitrary: m)
    case (Cons obs os)
    have "map_of (add_observation peer r obs m) name =
        (if eligible peer r obs \<and> reporter r = name then Some (rtt_ms_bucket obs) else map_of m name)"
      by (simp add: add_observation_eq)
    then show ?case by (auto simp: Cons.IH)
  qed simp
  then show "map_of (add_observations peer r m) name =
      (if reported peer name [r] = [] then map_of m name else Some (last (reported peer name [r])))"
    by (simp add: add_observations_def last_map)
qed

lemma by_reporter_map:
  "hm_wf m \<Longrightarrow> hm_wf (fold (add_observations peer) rs m) \<and>
   map_of (fold (add_observations peer) rs m) name =
    (if reported peer name rs = [] then map_of m name else Some (last (reported peer name rs)))"
proof (induction rs arbitrary: m)
  case (Cons r rs)
  note a = add_observations_map [OF Cons.prems, of peer r]
  show ?case using Cons.IH [OF a(1)] unfolding fold_simps comp_def a(2) by simp
qed simp

lemma by_reporter_mset:
  "mset (fold (add_observations peer) rs []) =
   mset (map (\<lambda>name. (name, last (reported peer name rs))) (contributors peer rs))"
proof (rule hm_mset_eq)
  let ?m = "map (\<lambda>name. (name, last (reported peer name rs))) (contributors peer rs)"
  show "hm_wf (fold (add_observations peer) rs [])" using by_reporter_map [of "[]"] by simp
  show "hm_wf ?m" by (simp add: contributors_def comp_def)
  show "map_of (fold (add_observations peer) rs []) = map_of ?m"
  proof
    fix name
    have "map_of ?m name = (if name \<in> set (contributors peer rs) then Some (last (reported peer name rs)) else None)"
      by (simp add: map_of_map_restrict restrict_map_def)
    moreover have "name \<in> set (contributors peer rs) \<longleftrightarrow> reported peer name rs \<noteq> []"
      using reported_outside [of name rs peer] by (auto simp: contributors_def)
    ultimately show "map_of (fold (add_observations peer) rs []) name = map_of ?m name"
      using by_reporter_map [of "[]" peer rs name] by simp
  qed
qed

lemma lower_median_mset: "mset xs = mset ys \<Longrightarrow> lower_median xs = lower_median ys"
proof -
  assume eq: "mset xs = mset ys"
  then have "sort xs = sort ys" by (intro properties_for_sort) simp_all
  with mset_eq_length [OF eq] show ?thesis by (simp add: lower_median_def)
qed

lemma compute_canonical_bucket_eq: "compute_canonical_bucket rs peer = canonical_bucket rs peer"
proof -
  let ?a = "fold (add_observations peer) rs []"
    and ?b = "map (\<lambda>name. (name, last (reported peer name rs))) (contributors peer rs)"
  have eq: "mset ?a = mset ?b" by (rule by_reporter_mset)
  have "mset (map snd ?a) = mset (map snd ?b)" unfolding mset_map eq ..
  then have "lower_median (map snd ?a) = lower_median (map snd ?b)" by (rule lower_median_mset)
  moreover have "length ?a = length ?b" by (rule mset_eq_length [OF eq])
  moreover have "map snd ?b = map (\<lambda>name. last (reported peer name rs)) (contributors peer rs)" by simp
  ultimately show ?thesis
    by (simp only: compute_canonical_bucket_def canonical_bucket_def MIN_REPORTERS_def Let_def length_map)
qed

lemma by_group_map:
  "map_of (fold (group_push e w) rs m) g =
    (if used_reports e w g rs = [] then map_of m g
     else Some ((case map_of m g of None \<Rightarrow> [] | Some xs \<Rightarrow> xs) @ used_reports e w g rs))"
proof (induction rs arbitrary: m)
  case (Cons r rs)
  have "map_of (group_push e w r m) g = (if skip_report e w r \<or> report_group r \<noteq> g then map_of m g
      else Some ((case map_of m g of None \<Rightarrow> [] | Some xs \<Rightarrow> xs) @ [r]))"
    by (simp add: group_push_def)
  then show ?case by (simp add: Cons.IH used_reports_def)
qed (simp add: used_reports_def)

lemma by_group_wf: "hm_wf m \<Longrightarrow> hm_wf (fold (group_push e w) rs m)"
  by (induction rs arbitrary: m) (simp_all add: group_push_def distinct_update)

lemma insert_group_map:
  "map_of (insert_group (g, rs) es) (g', p) =
    (if g' = g \<and> p \<in> set (target_peers rs) then Some (compute_canonical_bucket rs p) else map_of es (g', p))"
proof -
  have "map_of (fold (\<lambda>target es. AList.update (g, target) (f target) es) ps es) (g', p) =
      (if g' = g \<and> p \<in> set ps then Some (f p) else map_of es (g', p))" for ps and f :: "string \<Rightarrow> u8 option"
    by (induction ps arbitrary: es) auto
  then show ?thesis by (simp add: insert_group_def)
qed

lemma insert_groups_map:
  "hm_wf gs \<Longrightarrow> map_of (fold insert_group gs es) (g, p) =
    (case map_of gs g of
       Some rs \<Rightarrow> if p \<in> set (target_peers rs) then Some (compute_canonical_bucket rs p) else map_of es (g, p)
     | None \<Rightarrow> map_of es (g, p))"
proof (induction gs arbitrary: es)
  case (Cons gr gs)
  obtain h rs where gr: "gr = (h, rs)" by (cases gr)
  have "map_of gs h = None" using Cons.prems by (simp add: gr map_of_eq_None_iff)
  then show ?case using Cons.prems by (auto simp: gr Cons.IH insert_group_map split: option.split)
qed simp

lemma target_peers_set: "set (target_peers rs) = (\<Union>r \<in> set rs. peer_id ` set (observations r))"
  by (simp add: target_peers_def)

lemma table_map:
  "map_of (entries (rebuild_from_reports rs e w)) (g, p) =
    (if p \<in> set (target_peers (used_reports e w g rs))
     then Some (canonical_bucket (used_reports e w g rs) p) else None)"
  by (simp add: rebuild_from_reports_def insert_groups_map by_group_wf by_group_map compute_canonical_bucket_eq
      target_peers_def)

lemma reported_unmentioned: "p \<notin> set (target_peers rs) \<Longrightarrow> reported p name rs = []"
  by (induction rs) (auto simp: target_peers_set eligible_def filter_empty_conv)

lemma table_lookup: "lookup (rebuild_from_reports rs e w) g p = canonical_bucket (used_reports e w g rs) p"
proof (cases "p \<in> set (target_peers (used_reports e w g rs))")
  case False
  then show ?thesis
    using reported_unmentioned [OF False] by (simp add: lookup_def table_map canonical_bucket_def contributors_def)
qed (simp add: lookup_def table_map)

text \<open>The window in unbounded arithmetic: there is no upper end.\<close>

lemma skip_report_iff:
  assumes "unat e < 2 ^ 64 - 1"
  shows "skip_report e w r \<longleftrightarrow> unat (report_round r) + unat w < unat e"
proof -
  have e: "unat (e + 1) = unat e + 1" using assms by (subst unat_add_lem [THEN iffD1]) simp_all
  have "unat (report_round r + w) = unat (report_round r) + unat w"
    if "unat w < unat e - unat (report_round r)"
    using that assms by (subst unat_add_lem [THEN iffD1]) simp_all
  then show ?thesis
    by (auto simp: skip_report_def word_less_nat_alt e unat_saturating_sub)
qed

lemma reported_filter: "reported p name (filter (\<lambda>r. reporter r = name) rs) = reported p name rs"
  by (induction rs) auto

lemma canonical_bucket_cong:
  assumes "\<And>name. filter (\<lambda>r. reporter r = name) rs = filter (\<lambda>r. reporter r = name) rs'"
  shows "canonical_bucket rs p = canonical_bucket rs' p" "set rs = set rs'"
proof -
  have sub: "r \<in> set ys" if "r \<in> set xs" and eq: "filter (\<lambda>q. reporter q = reporter r) xs = filter (\<lambda>q. reporter q = reporter r) ys"
    for r :: LatencyReport and xs ys
  proof -
    have "r \<in> set (filter (\<lambda>q. reporter q = reporter r) xs)" using that(1) by simp
    then show ?thesis unfolding eq by simp
  qed
  show set: "set rs = set rs'"
    using sub [OF _ assms] sub [OF _ assms [symmetric]] by (intro equalityI subsetI)
  have rep: "reported p name rs = reported p name rs'" for name
    by (subst (1 2) reported_filter [symmetric]) (simp only: assms)
  have "mset (contributors p rs) = mset (contributors p rs')"
    by (subst set_eq_iff_mset_eq_distinct [symmetric]) (simp_all add: contributors_def rep set)
  then have m: "mset (map (\<lambda>name. last (reported p name rs')) (contributors p rs)) =
      mset (map (\<lambda>name. last (reported p name rs')) (contributors p rs'))" by simp
  show "canonical_bucket rs p = canonical_bucket rs' p"
    using lower_median_mset [OF m] mset_eq_length [OF m] by (simp add: canonical_bucket_def rep Let_def)
qed

lemma used_reports_cong:
  assumes "\<And>g name. filter (\<lambda>r. report_group r = g \<and> reporter r = name) rs =
      filter (\<lambda>r. report_group r = g \<and> reporter r = name) rs'"
  shows "filter (\<lambda>r. reporter r = name) (used_reports e w g rs) = filter (\<lambda>r. reporter r = name) (used_reports e w g rs')"
proof -
  have "filter (\<lambda>r. reporter r = name) (used_reports e w g xs) =
      filter (\<lambda>r. \<not> skip_report e w r) (filter (\<lambda>r. report_group r = g \<and> reporter r = name) xs)" for xs
    by (simp add: used_reports_def conj_ac)
  then show ?thesis by (simp only: assms)
qed

text \<open>Fewer than half the values outside an interval leave the lower median inside it.\<close>

lemma lower_median_in:
  assumes "2 * length (filter (\<lambda>x. x < lo \<or> hi < x) xs) < length xs"
  shows "lo \<le> lower_median xs \<and> lower_median xs \<le> hi"
proof -
  let ?s = "sort xs" and ?k = "(length xs - 1) div 2" and ?P = "\<lambda>x. x < lo \<or> hi < x"
  have k: "?k < length ?s" "2 * (?k + 1) \<ge> length xs" "2 * (length xs - ?k) \<ge> length xs" using assms by auto
  have "mset (filter ?P ?s) = mset (filter ?P xs)" by (simp add: mset_filter)
  then have len: "length (filter ?P ?s) = length (filter ?P xs)" by (rule mset_eq_length)
  have parts: "length (filter ?P (take n ?s)) + length (filter ?P (drop n ?s)) = length (filter ?P ?s)" for n
    by (simp flip: length_append filter_append)
  have few: "2 * length (filter ?P (take n ?s)) < length xs" "2 * length (filter ?P (drop n ?s)) < length xs" for n
    using assms parts [of n] unfolding len by linarith+
  have "\<not> ?s ! ?k < lo"
  proof
    assume lt: "?s ! ?k < lo"
    have "?P x" if x: "x \<in> set (take (?k + 1) ?s)" for x
    proof -
      from x obtain i where "i < ?k + 1" "i < length ?s" "x = ?s ! i" by (auto simp: in_set_conv_nth)
      then have "x \<le> ?s ! ?k" using k(1) by (simp add: sorted_nth_mono)
      with lt show ?thesis by auto
    qed
    then have "length (filter ?P (take (?k + 1) ?s)) = ?k + 1" using k(1) by (subst filter_True) auto
    with few(1) [of "?k + 1"] k(2) show False by linarith
  qed
  moreover have "\<not> hi < ?s ! ?k"
  proof
    assume lt: "hi < ?s ! ?k"
    have "?P x" if x: "x \<in> set (drop ?k ?s)" for x
    proof -
      from x obtain i where "i < length ?s - ?k" "x = ?s ! (?k + i)" by (auto simp: in_set_conv_nth)
      then have "?s ! ?k \<le> x" using k(1) by (simp add: sorted_nth_mono)
      with lt show ?thesis by auto
    qed
    then have "length (filter ?P (drop ?k ?s)) = length xs - ?k" using k(1) by (subst filter_True) auto
    with few(2) [of ?k] k(3) show False by linarith
  qed
  ultimately show ?thesis by (simp add: lower_median_def not_less)
qed

text \<open>The reporters that count towards a bucket, as a set, and their bad values.\<close>

lemma contributors_bad:
  assumes "\<forall>r \<in> set rs. reporter r \<in> H \<longrightarrow>
      (\<forall>obs \<in> set (observations r). peer_id obs = p \<longrightarrow> lo \<le> rtt_ms_bucket obs \<and> rtt_ms_bucket obs \<le> hi)"
  shows "length (filter (\<lambda>x. x < lo \<or> hi < x) (map (\<lambda>name. last (reported p name rs)) (contributors p rs))) \<le>
    card (set (contributors p rs) - H)"
proof -
  have good: "lo \<le> b \<and> b \<le> hi" if "b \<in> set (reported p name rs)" "name \<in> H" for b name
    using that assms by (auto simp: reported_def eligible_def split: if_splits)
  have last: "lo \<le> last (reported p name rs) \<and> last (reported p name rs) \<le> hi"
    if "name \<in> set (contributors p rs)" "name \<in> H" for name
    using that by (intro good last_in_set) (auto simp: contributors_def)
  have "distinct (contributors p rs)" by (simp add: contributors_def)
  then have eq: "length (filter P (contributors p rs)) = card {name \<in> set (contributors p rs). P name}" for P
    by (subst distinct_card [symmetric]) (simp_all add: set_filter)
  have "{name \<in> set (contributors p rs). last (reported p name rs) < lo \<or> hi < last (reported p name rs)} \<subseteq>
      set (contributors p rs) - H"
    using last by (auto dest!: leD dest: last)
  then show ?thesis by (simp add: filter_map comp_def eq card_mono)
qed

text \<open>A small buffer for the concrete instances below.\<close>

definition toy_report :: "string \<Rightarrow> u64 \<Rightarrow> u8 \<Rightarrow> LatencyReport" where
  "toy_report name n b = \<lparr> report_round = n, report_group = ''g'', reporter = name,
    observations = [\<lparr> peer_id = ''p'', rtt_ms_bucket = b, samples = 3 \<rparr>], nonce = 0,
    reporter_pubkey = [], report_signature = [] \<rparr>"

section \<open>Properties\<close>



text \<open>C30. Two nodes whose buffers hold the reports of each reporter of a group in the same order
  build the same table, however the reports of different reporters are interleaved.\<close>

theorem table_deterministic:
  assumes "\<And>g name. filter (\<lambda>r. report_group r = g \<and> reporter r = name) reports =
      filter (\<lambda>r. report_group r = g \<and> reporter r = name) reports'"
  shows "map_of (entries (rebuild_from_reports reports window_end window_size)) =
    map_of (entries (rebuild_from_reports reports' window_end window_size))"
proof
  fix gp :: "string \<times> string"
  obtain g p where gp: "gp = (g, p)" by (cases gp)
  note cong = canonical_bucket_cong [OF used_reports_cong [OF assms]]
  show "map_of (entries (rebuild_from_reports reports window_end window_size)) gp =
      map_of (entries (rebuild_from_reports reports' window_end window_size)) gp"
    unfolding gp table_map target_peers_set cong ..
qed

theorem table_deterministic_witness:
  "map_of (entries (rebuild_from_reports [toy_report ''a'' 9 4, toy_report ''b'' 10 7, toy_report ''a'' 10 5] 10 3)) =
   map_of (entries (rebuild_from_reports [toy_report ''a'' 9 4, toy_report ''a'' 10 5, toy_report ''b'' 10 7] 10 3))"
  by (rule table_deterministic) (auto simp: toy_report_def)

text \<open>The order of one reporter's reports matters, although the nonce and the round could order
  them: the same two nodes' reports in two orders give different buckets.\<close>

theorem table_depends_on_order:
  "\<exists>reports reports'. mset reports = mset reports' \<and>
     lookup (rebuild_from_reports reports 10 WINDOW_SIZE) ''g'' ''p'' \<noteq>
     lookup (rebuild_from_reports reports' 10 WINDOW_SIZE) ''g'' ''p''"
proof -
  let ?x = "toy_report ''a'' 10 1" and ?y = "toy_report ''a'' 10 2" and ?z = "toy_report ''b'' 10 3"
  have "lookup (rebuild_from_reports [?x, ?y, ?z] 10 WINDOW_SIZE) ''g'' ''p'' = Some 2"
    "lookup (rebuild_from_reports [?y, ?x, ?z] 10 WINDOW_SIZE) ''g'' ''p'' = Some 1"
    by code_simp+
  then show ?thesis by (intro exI [of _ "[?x, ?y, ?z]"] exI [of _ "[?y, ?x, ?z]"]) simp
qed

text \<open>Robustness: when fewer than half of the reporters that count are faulty, the bucket lies
  within the values the correct ones report.\<close>

theorem median_robust:
  assumes "lookup (rebuild_from_reports reports window_end window_size) g p = Some b"
    and "\<forall>r \<in> set reports. reporter r \<in> H \<longrightarrow>
      (\<forall>obs \<in> set (observations r). peer_id obs = p \<longrightarrow> lo \<le> rtt_ms_bucket obs \<and> rtt_ms_bucket obs \<le> hi)"
    and "2 * card (set (contributors p (used_reports window_end window_size g reports)) - H) <
      length (contributors p (used_reports window_end window_size g reports))"
  shows "lo \<le> b \<and> b \<le> hi"
proof -
  let ?rs = "used_reports window_end window_size g reports"
  have "\<forall>r \<in> set ?rs. reporter r \<in> H \<longrightarrow>
      (\<forall>obs \<in> set (observations r). peer_id obs = p \<longrightarrow> lo \<le> rtt_ms_bucket obs \<and> rtt_ms_bucket obs \<le> hi)"
    using assms(2) unfolding used_reports_def by auto
  from contributors_bad [OF this] assms(3)
  have "2 * length (filter (\<lambda>x. x < lo \<or> hi < x) (map (\<lambda>name. last (reported p name ?rs)) (contributors p ?rs))) <
      length (map (\<lambda>name. last (reported p name ?rs)) (contributors p ?rs))" by simp
  from lower_median_in [OF this] assms(1) show ?thesis
    by (auto simp: table_lookup canonical_bucket_def Let_def split: if_splits)
qed

theorem median_robust_witness:
  "4 \<le> (5 :: u8) \<and> (5 :: u8) \<le> 6 \<and> lookup (rebuild_from_reports
     [toy_report ''a'' 10 4, toy_report ''b'' 10 5, toy_report ''c'' 10 200] 10 3) ''g'' ''p'' = Some 5"
proof -
  let ?rs = "[toy_report ''a'' 10 4, toy_report ''b'' 10 5, toy_report ''c'' 10 200]"
  have b: "lookup (rebuild_from_reports ?rs 10 3) ''g'' ''p'' = Some 5" by code_simp
  have c: "contributors ''p'' (used_reports 10 3 ''g'' ?rs) = [''a'', ''b'', ''c'']" by code_simp
  have "4 \<le> (5 :: u8) \<and> (5 :: u8) \<le> 6"
  proof (rule median_robust [OF b, where H = "{''a'', ''b''}"])
    show "2 * card (set (contributors ''p'' (used_reports 10 3 ''g'' ?rs)) - {''a'', ''b''}) <
        length (contributors ''p'' (used_reports 10 3 ''g'' ?rs))" unfolding c by simp
  qed (simp add: toy_report_def)
  with b show ?thesis by simp
qed

end
