(* ===== verification/Scoring.thy ===== *)
theory Scoring
  imports Latency_Canon
begin

text \<open>
  Proof-of-Unity scores: the integer score calculators of
  \<open>savitri-consensus/src/types/score.rs\<close>, the per-peer observation store of
  \<open>savitri-consensus/src/scoring/observations.rs\<close> that feeds them, and one tick of the light node's
  latency publisher (\<open>savitri-lightnode/src/latency_canon_publisher.rs\<close>).  The wall clock is an
  argument of every operation.  Latitude and longitude, which no score uses, are left out.
\<close>

section \<open>Score calculators\<close>

type_synonym PouScore = u16

definition POU_SCORE_MAX :: PouScore where "POU_SCORE_MAX = 1000"
definition POU_SCORE_MIN :: PouScore where "POU_SCORE_MIN = 0"
definition POU_SCORE_DEFAULT :: PouScore where "POU_SCORE_DEFAULT = 500"
definition PERMILLE :: u64 where "PERMILLE = 1000"

record ScoreComponents =
  latency_score :: PouScore
  availability_score :: PouScore
  integrity_score :: PouScore
  geographic_score :: PouScore
  performance_score :: PouScore
  reputation_score :: PouScore
  fl_integrity_score :: PouScore

record ScoreConfig =
  latency_weight :: u32
  availability_weight :: u32
  integrity_weight :: u32
  geographic_weight :: u32
  performance_weight :: u32
  reputation_weight :: u32
  fl_integrity_weight :: u32
  update_interval_secs :: u64
  decay_rate :: u32
  min_threshold :: PouScore
  max_threshold :: PouScore

definition default_score_config :: ScoreConfig where
  "default_score_config = \<lparr> latency_weight = 250, availability_weight = 200, integrity_weight = 150,
     geographic_weight = 50, performance_weight = 100, reputation_weight = 50, fl_integrity_weight = 200,
     update_interval_secs = 60, decay_rate = 10, min_threshold = POU_SCORE_MIN, max_threshold = POU_SCORE_MAX \<rparr>"

definition default_score_components :: ScoreComponents where
  "default_score_components = \<lparr> latency_score = POU_SCORE_DEFAULT, availability_score = POU_SCORE_DEFAULT,
     integrity_score = POU_SCORE_DEFAULT, geographic_score = POU_SCORE_DEFAULT,
     performance_score = POU_SCORE_DEFAULT, reputation_score = POU_SCORE_DEFAULT,
     fl_integrity_score = POU_SCORE_MAX \<rparr>"

datatype LatencyType = Ping | BlockPropagation | TransactionPropagation | ConsensusMessage

record LatencyMeasurement =
  lm_peer_id :: string
  lm_rtt_ms :: u64
  lm_timestamp :: u64
  measurement_type :: LatencyType

record AvailabilityMeasurement =
  av_node_id :: string
  successful_pings :: u32
  total_pings :: u32
  last_seen :: u64
  av_window_secs :: u64

record IntegrityMeasurement =
  im_node_id :: string
  valid_blocks :: u32
  total_blocks :: u32
  valid_transactions :: u32
  total_transactions :: u32
  im_slash_events :: u32
  im_epoch :: u64

record GeographicInfo =
  geo_node_id :: string
  region :: string
  country_code :: string
  timezone :: string

record PerformanceMetrics =
  pm_node_id :: string
  cpu_usage_permille :: u32
  memory_usage_permille :: u32
  network_bandwidth_kbps :: u64
  block_processing_time_ms :: u64
  tx_processing_time_ms :: u64
  pm_timestamp :: u64

record ReputationInfo =
  rep_node_id :: string
  rep_score :: PouScore
  positive_interactions :: u32
  negative_interactions :: u32
  total_interactions :: u32
  last_updated :: u64

text \<open>\<open>Ord::clamp\<close>.\<close>

definition clamp :: "'a::linorder \<Rightarrow> 'a \<Rightarrow> 'a \<Rightarrow> 'a" where
  "clamp x lo hi = (if x < lo then lo else if hi < x then hi else x)"

definition weighted_sum :: "ScoreComponents \<Rightarrow> ScoreConfig \<Rightarrow> u64" where
  "weighted_sum c cfg =
     ucast (latency_score c) * ucast (latency_weight cfg)
     + ucast (availability_score c) * ucast (availability_weight cfg)
     + ucast (integrity_score c) * ucast (integrity_weight cfg)
     + ucast (geographic_score c) * ucast (geographic_weight cfg)
     + ucast (performance_score c) * ucast (performance_weight cfg)
     + ucast (reputation_score c) * ucast (reputation_weight cfg)
     + ucast (fl_integrity_score c) * ucast (fl_integrity_weight cfg)"

definition calculate_score :: "ScoreComponents \<Rightarrow> ScoreConfig \<Rightarrow> PouScore" where
  "calculate_score c cfg =
    (let rounded = (weighted_sum c cfg + PERMILLE div 2) div PERMILLE
     in ucast (min rounded (ucast POU_SCORE_MAX)))"

definition calculate_latency_score :: "LatencyMeasurement list \<Rightarrow> PouScore" where
  "calculate_latency_score measurements =
    (if measurements = [] then POU_SCORE_DEFAULT
     else let total_rtt = sum_list (map lm_rtt_ms measurements);
              avg_rtt = total_rtt div word_of_nat (length measurements);
              score = (if avg_rtt \<le> 50 then POU_SCORE_MAX
                       else if 500 \<le> avg_rtt then POU_SCORE_MIN
                       else min (ucast ((500 - avg_rtt) * ucast POU_SCORE_MAX div 450)) POU_SCORE_MAX)
          in clamp score POU_SCORE_MIN POU_SCORE_MAX)"

definition calculate_availability_score :: "AvailabilityMeasurement \<Rightarrow> PouScore" where
  "calculate_availability_score m =
    (if total_pings m = 0 then POU_SCORE_MIN
     else let score = ucast (successful_pings m) * ucast POU_SCORE_MAX div (ucast (total_pings m) :: u64)
          in clamp (ucast score) POU_SCORE_MIN POU_SCORE_MAX)"

definition block_integrity :: "IntegrityMeasurement \<Rightarrow> u64" where
  "block_integrity m =
    (if 0 < total_blocks m then ucast (valid_blocks m) * PERMILLE div ucast (total_blocks m) else PERMILLE)"

definition tx_integrity :: "IntegrityMeasurement \<Rightarrow> u64" where
  "tx_integrity m =
    (if 0 < total_transactions m then ucast (valid_transactions m) * PERMILLE div ucast (total_transactions m)
     else PERMILLE)"

definition calculate_integrity_score :: "IntegrityMeasurement \<Rightarrow> PouScore" where
  "calculate_integrity_score m =
    (let slash_penalty = ucast (im_slash_events m) * (100 :: u64);
         combined = (block_integrity m + tx_integrity m) div 2;
         adjusted = saturating_sub combined slash_penalty
     in ucast (min adjusted (ucast POU_SCORE_MAX)))"

definition calculate_geographic_score :: "GeographicInfo \<Rightarrow> string \<Rightarrow> PouScore" where
  "calculate_geographic_score info target_region =
    (if region info = target_region then POU_SCORE_MAX else POU_SCORE_DEFAULT)"

definition processing_score :: "u64 \<Rightarrow> u64" where
  "processing_score bpt = (if bpt < 100 then PERMILLE else if 1000 < bpt then 0
     else saturating_sub 1000 bpt * PERMILLE div 900)"

definition calculate_performance_score :: "PerformanceMetrics \<Rightarrow> PouScore" where
  "calculate_performance_score m =
    (let cpu_score = saturating_sub PERMILLE (ucast (cpu_usage_permille m));
         memory_score = saturating_sub PERMILLE (ucast (memory_usage_permille m));
         combined = (cpu_score + memory_score + processing_score (block_processing_time_ms m)) div 3
     in ucast (min combined (ucast POU_SCORE_MAX)))"

definition calculate_reputation_score :: "ReputationInfo \<Rightarrow> PouScore" where
  "calculate_reputation_score info =
    (if total_interactions info = 0 then POU_SCORE_DEFAULT
     else let score = ucast (positive_interactions info) * ucast POU_SCORE_MAX div (ucast (total_interactions info) :: u64)
          in clamp (ucast score) POU_SCORE_MIN POU_SCORE_MAX)"

datatype Ordering = Less | Equal | Greater

definition cmp :: "'a::linorder \<Rightarrow> 'a \<Rightarrow> Ordering" where
  "cmp a b = (if a < b then Less else if a = b then Equal else Greater)"

definition compare_pou_scores :: "PouScore \<Rightarrow> string \<Rightarrow> PouScore \<Rightarrow> string \<Rightarrow> Ordering" where
  "compare_pou_scores score1 peer_id1 score2 peer_id2 =
    (case cmp score1 score2 of Equal \<Rightarrow> cmp peer_id1 peer_id2 | other \<Rightarrow> other)"

section \<open>The observation store\<close>

definition DEFAULT_WINDOW_SECS :: u64 where
  "DEFAULT_WINDOW_SECS = 3600"

definition MAX_SAMPLES_PER_METRIC :: nat where
  "MAX_SAMPLES_PER_METRIC = 1024"

record LatencySample =
  ls_ts_secs :: u64
  ls_rtt_ms :: u64
  ls_kind :: LatencyType

record ValidationSample =
  vs_ts_secs :: u64
  vs_valid :: bool

datatype SlashReason = DoubleVote | Equivocation | InvalidBlock | LateVote | MaliciousGradient | Other

record SlashEvent =
  se_ts_secs :: u64
  se_reason :: SlashReason

record FlContributionSample =
  fl_ts_secs :: u64
  fl_round_id :: u64
  fl_score_permille :: u16

record PeerObservations =
  latency :: "LatencySample list"
  block_validations :: "ValidationSample list"
  tx_validations :: "ValidationSample list"
  slash_events :: "SlashEvent list"
  fl_contributions :: "FlContributionSample list"

definition default_observations :: PeerObservations where
  "default_observations = \<lparr> latency = [], block_validations = [], tx_validations = [], slash_events = [],
     fl_contributions = [] \<rparr>"

text \<open>Both loops of \<open>prune_deque\<close> pop at the front.\<close>

definition prune_deque :: "('s \<Rightarrow> u64) \<Rightarrow> u64 \<Rightarrow> u64 \<Rightarrow> 's list \<Rightarrow> 's list" where
  "prune_deque ts now window buf =
    (let cutoff = saturating_sub now window;
         recent = dropWhile (\<lambda>s. ts s < cutoff) buf
     in drop (length recent - MAX_SAMPLES_PER_METRIC) recent)"

definition push_pruned :: "('s \<Rightarrow> u64) \<Rightarrow> 's \<Rightarrow> u64 \<Rightarrow> u64 \<Rightarrow> 's list \<Rightarrow> 's list" where
  "push_pruned ts sample now window buf = prune_deque ts now window (buf @ [sample])"

definition push_latency :: "LatencySample \<Rightarrow> u64 \<Rightarrow> u64 \<Rightarrow> PeerObservations \<Rightarrow> PeerObservations" where
  "push_latency s now window o' = o'\<lparr> latency := push_pruned ls_ts_secs s now window (latency o') \<rparr>"

definition push_block_validation :: "ValidationSample \<Rightarrow> u64 \<Rightarrow> u64 \<Rightarrow> PeerObservations \<Rightarrow> PeerObservations" where
  "push_block_validation s now window o' =
     o'\<lparr> block_validations := push_pruned vs_ts_secs s now window (block_validations o') \<rparr>"

definition push_tx_validation :: "ValidationSample \<Rightarrow> u64 \<Rightarrow> u64 \<Rightarrow> PeerObservations \<Rightarrow> PeerObservations" where
  "push_tx_validation s now window o' =
     o'\<lparr> tx_validations := push_pruned vs_ts_secs s now window (tx_validations o') \<rparr>"

definition push_slash :: "SlashEvent \<Rightarrow> u64 \<Rightarrow> u64 \<Rightarrow> PeerObservations \<Rightarrow> PeerObservations" where
  "push_slash s now window o' = o'\<lparr> slash_events := push_pruned se_ts_secs s now window (slash_events o') \<rparr>"

definition push_fl_contribution :: "FlContributionSample \<Rightarrow> u64 \<Rightarrow> u64 \<Rightarrow> PeerObservations \<Rightarrow> PeerObservations" where
  "push_fl_contribution s now window o' =
     o'\<lparr> fl_contributions := push_pruned fl_ts_secs s now window (fl_contributions o') \<rparr>"

record ObservationStore =
  obs_inner :: "(string \<times> PeerObservations) list"
  window_secs :: u64

definition with_window :: "u64 \<Rightarrow> ObservationStore" where
  "with_window w = \<lparr> obs_inner = [], window_secs = w \<rparr>"

definition new_store :: ObservationStore where
  "new_store = with_window DEFAULT_WINDOW_SECS"

definition peer_entry :: "ObservationStore \<Rightarrow> string \<Rightarrow> PeerObservations" where
  "peer_entry st peer = (case map_of (obs_inner st) peer of None \<Rightarrow> default_observations | Some o' \<Rightarrow> o')"

text \<open>\<open>map.entry(peer_id).or_default()\<close> followed by an update of the entry.\<close>

definition update_entry :: "string \<Rightarrow> (PeerObservations \<Rightarrow> PeerObservations) \<Rightarrow> ObservationStore \<Rightarrow> ObservationStore" where
  "update_entry peer f st = st\<lparr> obs_inner := AList.update peer (f (peer_entry st peer)) (obs_inner st) \<rparr>"

definition record_latency :: "u64 \<Rightarrow> string \<Rightarrow> u64 \<Rightarrow> LatencyType \<Rightarrow> ObservationStore \<Rightarrow> ObservationStore" where
  "record_latency now peer rtt_ms kind st = update_entry peer
     (push_latency \<lparr> ls_ts_secs = now, ls_rtt_ms = rtt_ms, ls_kind = kind \<rparr> now (window_secs st)) st"

definition record_block_validation :: "u64 \<Rightarrow> string \<Rightarrow> bool \<Rightarrow> ObservationStore \<Rightarrow> ObservationStore" where
  "record_block_validation now peer valid st = update_entry peer
     (push_block_validation \<lparr> vs_ts_secs = now, vs_valid = valid \<rparr> now (window_secs st)) st"

definition record_tx_validation :: "u64 \<Rightarrow> string \<Rightarrow> bool \<Rightarrow> ObservationStore \<Rightarrow> ObservationStore" where
  "record_tx_validation now peer valid st = update_entry peer
     (push_tx_validation \<lparr> vs_ts_secs = now, vs_valid = valid \<rparr> now (window_secs st)) st"

definition record_slash :: "u64 \<Rightarrow> string \<Rightarrow> SlashReason \<Rightarrow> ObservationStore \<Rightarrow> ObservationStore" where
  "record_slash now peer reason st = update_entry peer
     (push_slash \<lparr> se_ts_secs = now, se_reason = reason \<rparr> now (window_secs st)) st"

definition record_fl_contribution :: "u64 \<Rightarrow> string \<Rightarrow> u64 \<Rightarrow> u16 \<Rightarrow> ObservationStore \<Rightarrow> ObservationStore" where
  "record_fl_contribution now peer round_id score_permille st = update_entry peer
     (push_fl_contribution \<lparr> fl_ts_secs = now, fl_round_id = round_id, fl_score_permille = min score_permille 1000 \<rparr>
        now (window_secs st)) st"

definition build_fl_integrity_score :: "u64 \<Rightarrow> ObservationStore \<Rightarrow> string \<Rightarrow> u16" where
  "build_fl_integrity_score now st peer =
    (case map_of (obs_inner st) peer of
       None \<Rightarrow> 1000
     | Some o' \<Rightarrow>
         let recent = map (\<lambda>s. ucast (fl_score_permille s) :: u64)
               (filter (\<lambda>s. saturating_sub now (window_secs st) \<le> fl_ts_secs s) (fl_contributions o'))
         in if recent = [] then 1000
            else ucast (min (sum_list recent div word_of_nat (length recent)) 1000))"

definition bad_fl_streak :: "ObservationStore \<Rightarrow> string \<Rightarrow> u16 \<Rightarrow> nat" where
  "bad_fl_streak st peer threshold =
    (case map_of (obs_inner st) peer of
       None \<Rightarrow> 0
     | Some o' \<Rightarrow> length (takeWhile (\<lambda>s. fl_score_permille s < threshold) (rev (fl_contributions o'))))"

definition fl_contribution_count :: "ObservationStore \<Rightarrow> string \<Rightarrow> nat" where
  "fl_contribution_count st peer =
    (case map_of (obs_inner st) peer of None \<Rightarrow> 0 | Some o' \<Rightarrow> length (fl_contributions o'))"

definition known_peers :: "ObservationStore \<Rightarrow> string list" where
  "known_peers st = map fst (obs_inner st)"

definition count_validations :: "ValidationSample list \<Rightarrow> u64 \<Rightarrow> u32 \<times> u32" where
  "count_validations buf cutoff =
     fold (\<lambda>s (valid, total'). (if vs_valid s then saturating_add valid 1 else valid, saturating_add total' 1))
       (filter (\<lambda>s. cutoff \<le> vs_ts_secs s) buf) (0, 0)"

definition empty_integrity :: "string \<Rightarrow> u64 \<Rightarrow> IntegrityMeasurement" where
  "empty_integrity peer epoch = \<lparr> im_node_id = peer, valid_blocks = 0, total_blocks = 0, valid_transactions = 0,
     total_transactions = 0, im_slash_events = 0, im_epoch = epoch \<rparr>"

definition build_integrity_measurement :: "u64 \<Rightarrow> ObservationStore \<Rightarrow> string \<Rightarrow> u64 \<Rightarrow> IntegrityMeasurement" where
  "build_integrity_measurement now st peer epoch =
    (let cutoff = saturating_sub now (window_secs st)
     in case map_of (obs_inner st) peer of
          None \<Rightarrow> empty_integrity peer epoch
        | Some o' \<Rightarrow>
            let (vb, tb) = count_validations (block_validations o') cutoff;
                (vt, tt) = count_validations (tx_validations o') cutoff
            in \<lparr> im_node_id = peer, valid_blocks = vb, total_blocks = tb, valid_transactions = vt,
                 total_transactions = tt,
                 im_slash_events = word_of_nat (length (filter (\<lambda>e. cutoff \<le> se_ts_secs e) (slash_events o'))),
                 im_epoch = epoch \<rparr>)"

definition latency_measurements :: "u64 \<Rightarrow> ObservationStore \<Rightarrow> string \<Rightarrow> LatencyMeasurement list" where
  "latency_measurements now st peer =
    (case map_of (obs_inner st) peer of
       None \<Rightarrow> []
     | Some o' \<Rightarrow> map (\<lambda>s. \<lparr> lm_peer_id = peer, lm_rtt_ms = ls_rtt_ms s, lm_timestamp = ls_ts_secs s,
           measurement_type = ls_kind s \<rparr>)
         (filter (\<lambda>s. saturating_sub now (window_secs st) \<le> ls_ts_secs s) (latency o')))"

text \<open>The four clock readings of \<open>derive_observation_score\<close> are taken to be one.\<close>

definition derive_observation_score :: "u64 \<Rightarrow> ObservationStore \<Rightarrow> string \<Rightarrow> u16" where
  "derive_observation_score now st peer =
    (let latency_samples = latency_measurements now st peer;
         lat = (if latency_samples = [] then 1000 else ucast (calculate_latency_score latency_samples) :: u64);
         integrity = ucast (calculate_integrity_score (build_integrity_measurement now st peer 0));
         fl = ucast (build_fl_integrity_score now st peer);
         weighted = 250 * lat + 150 * integrity + 200 * fl;
         permille = (weighted + 600 div 2) div 600
     in ucast (min permille 1000))"

definition forget_peer :: "string \<Rightarrow> ObservationStore \<Rightarrow> ObservationStore" where
  "forget_peer peer st = st\<lparr> obs_inner := AList.delete peer (obs_inner st) \<rparr>"

definition peer_count :: "ObservationStore \<Rightarrow> nat" where
  "peer_count st = length (obs_inner st)"

definition latency_sample_count :: "ObservationStore \<Rightarrow> string \<Rightarrow> nat" where
  "latency_sample_count st peer =
    (case map_of (obs_inner st) peer of None \<Rightarrow> 0 | Some o' \<Rightarrow> length (latency o'))"

text \<open>One row of \<open>build_canon_observations\<close>: the median round-trip time of a peer, if it has one.\<close>

definition canon_row :: "u64 \<Rightarrow> string \<Rightarrow> string \<times> PeerObservations \<Rightarrow> PeerLatencyObservation option" where
  "canon_row cutoff exclude_self entry = (case entry of (peer, o') \<Rightarrow>
     if peer = exclude_self then None
     else let rtts = sort (map ls_rtt_ms (filter (\<lambda>s. cutoff \<le> ls_ts_secs s) (latency o')))
          in if rtts = [] then None
             else Some \<lparr> peer_id = peer, rtt_ms_bucket = bucket_from_rtt_ms (rtts ! ((length rtts - 1) div 2)),
                         samples = (if 255 < length rtts then max_value else word_of_nat (length rtts)) \<rparr>)"

definition build_canon_observations :: "u64 \<Rightarrow> ObservationStore \<Rightarrow> string \<Rightarrow> PeerLatencyObservation list" where
  "build_canon_observations now st exclude_self =
     sort_key peer_id (List.map_filter (canon_row (saturating_sub now (window_secs st)) exclude_self) (obs_inner st))"

section \<open>The latency publisher\<close>

definition WALL_CLOCK_BUCKET_SECS :: u64 where
  "WALL_CLOCK_BUCKET_SECS = 10"

definition current_wall_clock_bucket :: "u64 \<Rightarrow> u64" where
  "current_wall_clock_bucket now_secs = now_secs div WALL_CLOCK_BUCKET_SECS"

definition topic_for_group :: "string \<Rightarrow> string" where
  "topic_for_group group_id = ''/savitri/group/'' @ group_id @ ''/latency_canon/1''"

text \<open>One tick: \<open>group_round\<close> is the answer of the provider, \<open>sign\<close> the key's signing function, and
  the result the topic and the report handed to the network.\<close>

definition latency_publisher_tick ::
  "u64 \<Rightarrow> u64 \<Rightarrow> (bytes \<Rightarrow> bytes) \<Rightarrow> bytes \<Rightarrow> string \<Rightarrow> (string \<times> u64) option \<Rightarrow> ObservationStore \<Rightarrow>
   (string \<times> LatencyReport) option" where
  "latency_publisher_tick now nonce_ms sign pubkey local_peer_id group_round st =
    (case group_round of
       None \<Rightarrow> None
     | Some (group_id, rnd) \<Rightarrow>
         let obs = build_canon_observations now st local_peer_id
         in if obs = [] then None
            else let report = \<lparr> report_round = rnd, report_group = group_id, reporter = local_peer_id,
                       observations = obs, nonce = nonce_ms, reporter_pubkey = pubkey,
                       report_signature = replicate 64 0 \<rparr>
                 in Some (topic_for_group group_id,
                      report\<lparr> report_signature := sign (report_signable_bytes report) \<rparr>))"

section \<open>Lemmas\<close>

subsection \<open>Range of the scores\<close>

lemma capped_le_max: "(ucast (min r 1000 :: u64) :: u16) \<le> 1000"
proof -
  have "unat (min r 1000 :: u64) \<le> 1000" by (simp add: unat_word_min)
  then show ?thesis by (simp add: word_le_nat_alt unat_ucast_mod)
qed

lemma clamp_le: "lo \<le> hi \<Longrightarrow> clamp x lo hi \<le> hi"
  by (simp add: clamp_def not_less)

lemmas score_consts = POU_SCORE_MAX_def POU_SCORE_MIN_def POU_SCORE_DEFAULT_def PERMILLE_def

lemma fl_score_le: "build_fl_integrity_score now st peer \<le> 1000"
  using capped_le_max by (simp add: build_fl_integrity_score_def Let_def split: option.split)

subsection \<open>The bounded window\<close>

text \<open>The last \<open>n\<close> entries of a history.\<close>

definition last_n :: "nat \<Rightarrow> 'a list \<Rightarrow> 'a list" where
  "last_n n xs = drop (length xs - n) xs"

text \<open>A pruned buffer is a suffix of the history; what it misses is older than every later cut-off
  or not among the last \<open>MAX_SAMPLES_PER_METRIC\<close> entries.\<close>

definition suffix_of_history :: "('s \<Rightarrow> u64) \<Rightarrow> u64 \<Rightarrow> 's list \<Rightarrow> 's list \<Rightarrow> bool" where
  "suffix_of_history ts cutoff history buf \<longleftrightarrow> length buf \<le> MAX_SAMPLES_PER_METRIC \<and>
     (\<exists>k \<le> length history. buf = drop k history \<and>
        (\<forall>i < k. ts (history ! i) < cutoff \<or> i < length history - MAX_SAMPLES_PER_METRIC))"

lemma suffix_of_history_weaken:
  "suffix_of_history ts c history buf \<Longrightarrow> c \<le> c' \<Longrightarrow> suffix_of_history ts c' history buf"
  by (fastforce simp: suffix_of_history_def)

lemma suffix_of_history_empty: "suffix_of_history ts c [] []"
  by (simp add: suffix_of_history_def)

lemma push_pruned_suffix:
  assumes "suffix_of_history ts (saturating_sub now window) history buf"
  shows "suffix_of_history ts (saturating_sub now window) (history @ [s]) (push_pruned ts s now window buf)"
proof -
  let ?c = "saturating_sub now window" and ?h = "history @ [s]" and ?N = MAX_SAMPLES_PER_METRIC
  let ?P = "\<lambda>s. ts s < ?c"
  from assms obtain k where k: "k \<le> length history" "buf = drop k history"
    and old: "\<And>i. i < k \<Longrightarrow> ts (history ! i) < ?c \<or> i < length history - ?N"
    by (auto simp: suffix_of_history_def)
  define j where "j = length (takeWhile ?P (drop k ?h))"
  define m where "m = length ?h - (k + j) - ?N"
  have buf: "buf @ [s] = drop k ?h" using k by simp
  have j: "k + j \<le> length ?h" using length_takeWhile_le [of ?P "drop k ?h"] k(1) by (simp add: j_def)
  have "dropWhile ?P (drop k ?h) = drop (k + j) ?h"
    by (simp only: dropWhile_eq_drop drop_drop j_def add.commute)
  then have eq: "push_pruned ts s now window buf = drop (k + j + m) ?h"
    unfolding push_pruned_def prune_deque_def Let_def buf by (simp only: drop_drop length_drop m_def add.commute)
  have "ts (?h ! i) < ?c \<or> i < length ?h - ?N" if i: "i < k + j + m" for i
  proof -
    consider "i < k" | "k \<le> i" "i < k + j" | "k + j \<le> i" by linarith
    then show ?thesis
    proof cases
      case 1
      then show ?thesis using old [OF 1] k(1) by (auto simp: nth_append)
    next
      case 2
      then have ij: "i - k < length (takeWhile ?P (drop k ?h))" unfolding j_def [symmetric] by linarith
      have "drop k ?h ! (i - k) = ?h ! i" using 2 k(1) by (subst nth_drop) simp_all
      then have "?h ! i \<in> set (takeWhile ?P (drop k ?h))" using nth_mem [OF ij] takeWhile_nth [OF ij] by simp
      then show ?thesis using set_takeWhileD by fastforce
    next
      case 3
      then show ?thesis using i unfolding m_def by linarith
    qed
  qed
  then show ?thesis using j eq unfolding suffix_of_history_def
    by (intro conjI exI [of _ "k + j + m"]) (simp_all add: m_def)
qed

lemma suffix_of_history_view:
  assumes "suffix_of_history ts c history buf"
  shows "filter (\<lambda>s. c \<le> ts s) buf = filter (\<lambda>s. c \<le> ts s) (last_n MAX_SAMPLES_PER_METRIC history)"
proof -
  let ?N = MAX_SAMPLES_PER_METRIC let ?n = "length history - ?N"
  from assms obtain k where k: "k \<le> length history" "buf = drop k history" "length history - k \<le> ?N"
    and old: "\<And>i. i < k \<Longrightarrow> ts (history ! i) < c \<or> i < ?n"
    by (auto simp: suffix_of_history_def)
  have "\<not> c \<le> ts x" if x: "x \<in> set (take (k - ?n) (drop ?n history))" for x
  proof -
    from x obtain i where "i < k - ?n" "x = history ! (?n + i)" using k(1) by (auto simp: in_set_conv_nth)
    moreover from this have "?n + i < k" by linarith
    ultimately have "ts x < c" using old [of "?n + i"] by simp
    then show ?thesis by (simp add: not_le)
  qed
  then have "filter (\<lambda>s. c \<le> ts s) (take (k - ?n) (drop ?n history)) = []" by (simp add: filter_empty_conv)
  moreover have "drop ?n history = take (k - ?n) (drop ?n history) @ drop k history"
  proof -
    have "?n \<le> k" using k(3) by linarith
    then have "drop k history = drop (k - ?n) (drop ?n history)" by simp
    then show ?thesis by (simp only: append_take_drop_id)
  qed
  ultimately show ?thesis unfolding last_n_def k(2) by (metis append_Nil filter_append)
qed

subsection \<open>The store after a history of events\<close>

datatype PeerEvent = EvLatency u64 LatencyType | EvBlock bool | EvTx bool | EvSlash SlashReason | EvFl u64 u16

fun record_event :: "u64 \<times> string \<times> PeerEvent \<Rightarrow> ObservationStore \<Rightarrow> ObservationStore" where
  "record_event (now, peer, EvLatency rtt kind) st = record_latency now peer rtt kind st"
| "record_event (now, peer, EvBlock valid) st = record_block_validation now peer valid st"
| "record_event (now, peer, EvTx valid) st = record_tx_validation now peer valid st"
| "record_event (now, peer, EvSlash reason) st = record_slash now peer reason st"
| "record_event (now, peer, EvFl rnd score) st = record_fl_contribution now peer rnd score st"

definition store_of :: "u64 \<Rightarrow> (u64 \<times> string \<times> PeerEvent) list \<Rightarrow> ObservationStore" where
  "store_of window h = fold record_event h (with_window window)"

fun block_sample :: "string \<Rightarrow> u64 \<times> string \<times> PeerEvent \<Rightarrow> ValidationSample option" where
  "block_sample p (t, q, EvBlock v) = (if q = p then Some \<lparr> vs_ts_secs = t, vs_valid = v \<rparr> else None)"
| "block_sample p _ = None"

fun tx_sample :: "string \<Rightarrow> u64 \<times> string \<times> PeerEvent \<Rightarrow> ValidationSample option" where
  "tx_sample p (t, q, EvTx v) = (if q = p then Some \<lparr> vs_ts_secs = t, vs_valid = v \<rparr> else None)"
| "tx_sample p _ = None"

fun slash_sample :: "string \<Rightarrow> u64 \<times> string \<times> PeerEvent \<Rightarrow> SlashEvent option" where
  "slash_sample p (t, q, EvSlash r) = (if q = p then Some \<lparr> se_ts_secs = t, se_reason = r \<rparr> else None)"
| "slash_sample p _ = None"

lemma peer_entry_update [simp]:
  "peer_entry (update_entry p f st) q = (if q = p then f (peer_entry st p) else peer_entry st q)"
  "window_secs (update_entry p f st) = window_secs st"
  by (simp_all add: peer_entry_def update_entry_def)

lemmas record_defs = record_latency_def record_block_validation_def record_tx_validation_def record_slash_def
  record_fl_contribution_def push_latency_def push_block_validation_def push_tx_validation_def push_slash_def
  push_fl_contribution_def

lemma window_secs_record [simp]: "window_secs (record_event ev st) = window_secs st"
  by (cases "(ev, st)" rule: record_event.cases) (simp_all add: record_defs)

text \<open>What one event does to each history and to each buffer of a peer.\<close>

lemma record_event_blocks:
  "block_validations (peer_entry (record_event ev st) p) = (case block_sample p ev of
      None \<Rightarrow> block_validations (peer_entry st p)
    | Some s \<Rightarrow> push_pruned vs_ts_secs s (fst ev) (window_secs st) (block_validations (peer_entry st p)))"
  by (cases "(ev, st)" rule: record_event.cases) (simp_all add: record_defs)

lemma record_event_txs:
  "tx_validations (peer_entry (record_event ev st) p) = (case tx_sample p ev of
      None \<Rightarrow> tx_validations (peer_entry st p)
    | Some s \<Rightarrow> push_pruned vs_ts_secs s (fst ev) (window_secs st) (tx_validations (peer_entry st p)))"
  by (cases "(ev, st)" rule: record_event.cases) (simp_all add: record_defs)

lemma record_event_slashes:
  "slash_events (peer_entry (record_event ev st) p) = (case slash_sample p ev of
      None \<Rightarrow> slash_events (peer_entry st p)
    | Some s \<Rightarrow> push_pruned se_ts_secs s (fst ev) (window_secs st) (slash_events (peer_entry st p)))"
  by (cases "(ev, st)" rule: record_event.cases) (simp_all add: record_defs)

lemma saturating_sub_mono: "a \<le> b \<Longrightarrow> saturating_sub a w \<le> saturating_sub b (w :: 'a::len word)"
  by (simp add: word_le_nat_alt unat_saturating_sub)

text \<open>One induction for all the metrics: \<open>sel\<close> reads a buffer, \<open>sample\<close> the history behind it.\<close>

lemma store_of_suffix:
  assumes step: "\<And>ev st. sel (peer_entry (record_event ev st) p) = (case sample ev of
        None \<Rightarrow> sel (peer_entry st p)
      | Some s \<Rightarrow> push_pruned ts s (fst ev) (window_secs st) (sel (peer_entry st p)))"
    and init: "sel default_observations = []"
    and "sorted (map fst h)" "\<forall>ev \<in> set h. fst ev \<le> now"
  shows "suffix_of_history ts (saturating_sub now w) (List.map_filter sample h) (sel (peer_entry (store_of w h) p))"
  using assms(3,4)
proof (induction h arbitrary: now rule: rev_induct)
  case Nil
  then show ?case
    by (simp add: store_of_def with_window_def peer_entry_def init map_filter_def suffix_of_history_empty)
next
  case (snoc ev h)
  have win: "window_secs (store_of w h') = w" for h'
    by (induction h' rule: rev_induct) (simp_all add: store_of_def with_window_def)
  let ?st = "store_of w h" and ?c = "saturating_sub (fst ev) w"
  have "suffix_of_history ts ?c (List.map_filter sample h) (sel (peer_entry ?st p))"
    using snoc.prems by (intro snoc.IH) (auto simp: sorted_append)
  then have "suffix_of_history ts ?c (List.map_filter sample (h @ [ev])) (sel (peer_entry (record_event ev ?st) p))"
    by (cases "sample ev") (simp_all add: step win push_pruned_suffix map_filter_def)
  moreover have "store_of w (h @ [ev]) = record_event ev ?st" by (simp add: store_of_def)
  ultimately show ?case
    using snoc.prems(2) by (auto intro: suffix_of_history_weaken saturating_sub_mono)
qed

lemma count_validations_length:
  assumes "length (filter (\<lambda>s. cutoff \<le> vs_ts_secs s) buf) < 2 ^ 32"
  shows "count_validations buf cutoff =
    (word_of_nat (length (filter vs_valid (filter (\<lambda>s. cutoff \<le> vs_ts_secs s) buf))),
     word_of_nat (length (filter (\<lambda>s. cutoff \<le> vs_ts_secs s) buf)))"
proof -
  have add: "saturating_add (word_of_nat n) 1 = (word_of_nat (Suc n) :: u32)" if "Suc n < 2 ^ 32" for n
  proof -
    have "unat (word_of_nat n :: u32) = n" "unat (word_of_nat (Suc n) :: u32) = Suc n"
      using that by (simp_all add: unat_of_nat del: of_nat_Suc)
    then show ?thesis using that by (simp add: word_unat_eq_iff unat_saturating_add del: of_nat_Suc)
  qed
  have "length xs < 2 ^ 32 \<Longrightarrow>
      fold (\<lambda>s (valid, total'). (if vs_valid s then saturating_add valid 1 else valid, saturating_add total' 1)) xs (0, 0) =
      (word_of_nat (length (filter vs_valid xs)) :: u32, word_of_nat (length xs) :: u32)" for xs
  proof (induction xs rule: rev_induct)
    case (snoc x xs)
    have "Suc (length (filter vs_valid xs)) < 2 ^ 32"
      by (rule le_less_trans [of _ "Suc (length xs)"]) (use snoc.prems in simp_all)
    with snoc add show ?case by simp
  qed simp
  from this [OF assms] show ?thesis by (simp add: count_validations_def)
qed

lemma build_integrity_measurement_entry:
  "build_integrity_measurement now st p e =
    (let cutoff = saturating_sub now (window_secs st); o' = peer_entry st p;
         b = count_validations (block_validations o') cutoff; t = count_validations (tx_validations o') cutoff
     in \<lparr> im_node_id = p, valid_blocks = fst b, total_blocks = snd b, valid_transactions = fst t,
          total_transactions = snd t,
          im_slash_events = word_of_nat (length (filter (\<lambda>s. cutoff \<le> se_ts_secs s) (slash_events o'))), im_epoch = e \<rparr>)"
  by (simp add: build_integrity_measurement_def peer_entry_def default_observations_def count_validations_def
      empty_integrity_def Let_def case_prod_unfold split: option.split)

subsection \<open>Published reports\<close>

lemma signable_bytes_signature: "report_signable_bytes (r\<lparr> report_signature := x \<rparr>) = report_signable_bytes r"
  by (simp add: report_signable_bytes_def)

lemma store_of_wf: "hm_wf (obs_inner (store_of w h))"
proof -
  have "hm_wf (obs_inner st) \<Longrightarrow> hm_wf (obs_inner (record_event ev st))" for ev st
    by (cases "(ev, st)" rule: record_event.cases) (simp_all add: record_defs update_entry_def distinct_update)
  then show ?thesis
    by (induction h rule: rev_induct) (simp_all add: store_of_def with_window_def)
qed

lemma canon_row_Some:
  assumes "canon_row c self (p, o') = Some r"
  shows "peer_id r = p \<and> p \<noteq> self \<and>
    (\<exists>s \<in> set (latency o'). c \<le> ls_ts_secs s \<and> rtt_ms_bucket r = bucket_from_rtt_ms (ls_rtt_ms s))"
proof -
  let ?rtts = "sort (map ls_rtt_ms (filter (\<lambda>s. c \<le> ls_ts_secs s) (latency o')))"
  from assms have r: "peer_id r = p" "p \<noteq> self" "?rtts \<noteq> []"
    "rtt_ms_bucket r = bucket_from_rtt_ms (?rtts ! ((length ?rtts - 1) div 2))"
    by (auto simp: canon_row_def Let_def split: if_splits)
  have "?rtts ! ((length ?rtts - 1) div 2) \<in> set ?rtts" using r(3) by (intro nth_mem) (cases ?rtts, auto)
  then show ?thesis using r by auto
qed

lemma canon_rows_distinct:
  "hm_wf m \<Longrightarrow> distinct (map peer_id (List.map_filter (canon_row c self) m)) \<and>
   set (map peer_id (List.map_filter (canon_row c self) m)) \<subseteq> fst ` set m - {self}"
proof (induction m)
  case (Cons e m)
  obtain p o' where e: "e = (p, o')" by (cases e)
  show ?case
  proof (cases "canon_row c self (p, o')")
    case None
    then show ?thesis using Cons by (auto simp: e map_filter_simps)
  next
    case (Some r)
    then show ?thesis using Cons canon_row_Some [OF Some] by (auto simp: e map_filter_simps)
  qed
qed (simp add: map_filter_simps)

section \<open>Properties\<close>

text \<open>Every score the calculators and the store produce lies in the range 0 to 1000, whatever the
  measurements, the weights and the history.\<close>

theorem scores_in_range:
  "calculate_score c cfg \<le> POU_SCORE_MAX \<and> calculate_latency_score ms \<le> POU_SCORE_MAX \<and>
   calculate_availability_score av \<le> POU_SCORE_MAX \<and> calculate_integrity_score im \<le> POU_SCORE_MAX \<and>
   calculate_geographic_score geo r \<le> POU_SCORE_MAX \<and> calculate_performance_score pm \<le> POU_SCORE_MAX \<and>
   calculate_reputation_score rep \<le> POU_SCORE_MAX \<and> build_fl_integrity_score now st p \<le> POU_SCORE_MAX \<and>
   derive_observation_score now st p \<le> POU_SCORE_MAX"
proof (intro conjI)
  show "calculate_latency_score ms \<le> POU_SCORE_MAX"
    unfolding calculate_latency_score_def Let_def
    by (rule if_split [THEN iffD2], intro conjI impI clamp_le) (simp_all add: score_consts)
qed (simp_all add: calculate_score_def calculate_integrity_score_def calculate_performance_score_def
    derive_observation_score_def calculate_geographic_score_def calculate_availability_score_def
    calculate_reputation_score_def Let_def clamp_le capped_le_max fl_score_le score_consts)

text \<open>The store is faithful to the events: with a clock that does not run backwards, the
  integrity measurement of a peer counts exactly the events of the window among the last 1024 of
  each kind, although buffers are pruned as events arrive.\<close>

theorem integrity_measurement_exact:
  fixes w :: u64 and p :: string
  assumes "sorted (map fst h)" "\<forall>ev \<in> set h. fst ev \<le> now"
  defines "cutoff \<equiv> saturating_sub now w"
  defines "blocks \<equiv> filter (\<lambda>s. cutoff \<le> vs_ts_secs s) (last_n MAX_SAMPLES_PER_METRIC (List.map_filter (block_sample p) h))"
    and "txs \<equiv> filter (\<lambda>s. cutoff \<le> vs_ts_secs s) (last_n MAX_SAMPLES_PER_METRIC (List.map_filter (tx_sample p) h))"
    and "slashes \<equiv> filter (\<lambda>s. cutoff \<le> se_ts_secs s) (last_n MAX_SAMPLES_PER_METRIC (List.map_filter (slash_sample p) h))"
  shows "build_integrity_measurement now (store_of w h) p e =
    \<lparr> im_node_id = p, valid_blocks = word_of_nat (length (filter vs_valid blocks)),
      total_blocks = word_of_nat (length blocks), valid_transactions = word_of_nat (length (filter vs_valid txs)),
      total_transactions = word_of_nat (length txs), im_slash_events = word_of_nat (length slashes), im_epoch = e \<rparr>"
proof -
  note hist = assms(1,2)
  have win: "window_secs (store_of w h') = w" for h'
    by (induction h' rule: rev_induct) (simp_all add: store_of_def with_window_def)
  have b: "filter (\<lambda>s. cutoff \<le> vs_ts_secs s) (block_validations (peer_entry (store_of w h) p)) = blocks"
    unfolding cutoff_def blocks_def
    by (intro suffix_of_history_view store_of_suffix record_event_blocks hist) (simp add: default_observations_def)
  have t: "filter (\<lambda>s. cutoff \<le> vs_ts_secs s) (tx_validations (peer_entry (store_of w h) p)) = txs"
    unfolding cutoff_def txs_def
    by (intro suffix_of_history_view store_of_suffix record_event_txs hist) (simp add: default_observations_def)
  have s: "filter (\<lambda>s. cutoff \<le> se_ts_secs s) (slash_events (peer_entry (store_of w h) p)) = slashes"
    unfolding cutoff_def slashes_def
    by (intro suffix_of_history_view store_of_suffix record_event_slashes hist) (simp add: default_observations_def)
  have len: "length (filter P (last_n MAX_SAMPLES_PER_METRIC xs)) < 2 ^ 32" for P and xs :: "ValidationSample list"
    by (rule le_less_trans [OF length_filter_le]) (simp add: last_n_def MAX_SAMPLES_PER_METRIC_def)
  have "count_validations (block_validations (peer_entry (store_of w h) p)) cutoff =
      (word_of_nat (length (filter vs_valid blocks)), word_of_nat (length blocks))"
    using len by (subst count_validations_length; simp add: b) (simp add: blocks_def)
  moreover have "count_validations (tx_validations (peer_entry (store_of w h) p)) cutoff =
      (word_of_nat (length (filter vs_valid txs)), word_of_nat (length txs))"
    using len by (subst count_validations_length; simp add: t) (simp add: txs_def)
  ultimately show ?thesis
    by (simp add: build_integrity_measurement_entry Let_def win cutoff_def [symmetric] s)
qed

theorem integrity_measurement_exact_witness:
  "build_integrity_measurement 5000 (store_of 3600 [(1000, ''p'', EvSlash DoubleVote), (2000, ''p'', EvBlock True),
      (3000, ''q'', EvBlock False), (4000, ''p'', EvSlash Other)]) ''p'' 1 =
    \<lparr> im_node_id = ''p'', valid_blocks = 1, total_blocks = 1, valid_transactions = 0, total_transactions = 0,
      im_slash_events = 1, im_epoch = 1 \<rparr>"
  by (subst integrity_measurement_exact)
    (simp_all add: saturating_sub_def checked_sub_def last_n_def map_filter_simps MAX_SAMPLES_PER_METRIC_def)

text \<open>What the publisher sends, the receiver of the same group accepts: the report verifies under
  the publisher's key, is ingested, names every peer at most once and never the publisher, and
  each bucket is that of a sample of the window.\<close>

theorem published_report_accepted:
  assumes "\<And>m. verify_with cr pubkey m (sign m)"
    and "latency_publisher_tick now nonce_ms sign pubkey self (Some (g, rnd)) (store_of w h) = Some (topic, r)"
  shows "process_latency_canon_message cr g r (Some s) = Some (ingest_report r s) \<and>
    reporter r = self \<and> report_round r = rnd \<and> topic = topic_for_group g \<and>
    distinct (map peer_id (observations r)) \<and> self \<notin> set (map peer_id (observations r)) \<and>
    (\<forall>obs \<in> set (observations r). \<exists>x \<in> set (latency (peer_entry (store_of w h) (peer_id obs))).
       rtt_ms_bucket obs = bucket_from_rtt_ms (ls_rtt_ms x))"
proof -
  let ?st = "store_of w h"
  let ?rows = "List.map_filter (canon_row (saturating_sub now (window_secs ?st)) self) (obs_inner ?st)"
  from assms(2) have r: "observations r = build_canon_observations now ?st self" "reporter r = self"
    "report_round r = rnd" "report_group r = g" "topic = topic_for_group g" "reporter_pubkey r = pubkey"
    by (auto simp: latency_publisher_tick_def Let_def split: if_splits)
  define q where "q = \<lparr> report_round = rnd, report_group = g, reporter = self,
      observations = build_canon_observations now ?st self, nonce = nonce_ms, reporter_pubkey = pubkey,
      report_signature = replicate 64 0 \<rparr>"
  have q: "r = q\<lparr> report_signature := sign (report_signable_bytes q) \<rparr>"
    using assms(2) by (auto simp: latency_publisher_tick_def Let_def q_def split: if_splits)
  have "verify_report cr r" using assms(1) r(6) by (auto simp: verify_report_def q signable_bytes_signature)
  moreover have d: "distinct (map peer_id (observations r)) \<and> self \<notin> set (map peer_id (observations r))"
    using canon_rows_distinct [OF store_of_wf [of w h], of "saturating_sub now (window_secs ?st)" self]
    by (auto simp: r(1) build_canon_observations_def distinct_map_sort_key)
  moreover have "\<exists>x \<in> set (latency (peer_entry ?st (peer_id obs))). rtt_ms_bucket obs = bucket_from_rtt_ms (ls_rtt_ms x)"
    if "obs \<in> set (observations r)" for obs
  proof -
    from that obtain p o' where e: "(p, o') \<in> set (obs_inner ?st)"
      "canon_row (saturating_sub now (window_secs ?st)) self (p, o') = Some obs"
      by (auto simp: r(1) build_canon_observations_def map_filter_def)
    then have "peer_entry ?st p = o'" using store_of_wf [of w h] by (simp add: peer_entry_def)
    with canon_row_Some [OF e(2)] show ?thesis by auto
  qed
  ultimately show ?thesis using r by (simp add: process_latency_canon_message_def)
qed

theorem published_report_accepted_witness:
  "\<exists>topic r. latency_publisher_tick 100 7 id [5] ''me'' (Some (''g'', 3)) (store_of 3600 [(90, ''p'', EvLatency 12 Ping)]) =
      Some (topic, r) \<and>
    process_latency_canon_message \<lparr> vkey_from_bytes = Some, sig_verify = \<lambda>k m s. s = m, blake3 = id \<rparr> ''g'' r
      (Some new_canon_state) = Some (ingest_report r new_canon_state)"
proof -
  let ?st = "store_of 3600 [(90, ''p'', EvLatency 12 Ping)]"
    and ?cr = "\<lparr> vkey_from_bytes = Some, sig_verify = \<lambda>k m s. s = m, blake3 = id \<rparr> :: crypto"
  have "build_canon_observations 100 ?st ''me'' \<noteq> []"
    by (simp add: store_of_def record_defs with_window_def update_entry_def peer_entry_def default_observations_def
        push_pruned_def prune_deque_def saturating_sub_def checked_sub_def MAX_SAMPLES_PER_METRIC_def
        build_canon_observations_def map_filter_simps canon_row_def Let_def)
  then obtain topic r where t: "latency_publisher_tick 100 7 id [5] ''me'' (Some (''g'', 3)) ?st = Some (topic, r)"
    by (auto simp: latency_publisher_tick_def Let_def)
  moreover have "process_latency_canon_message ?cr ''g'' r (Some new_canon_state) = Some (ingest_report r new_canon_state)"
    using published_report_accepted [OF _ t, of ?cr new_canon_state] by (simp add: verify_with_def)
  ultimately show ?thesis by blast
qed

end
