(* ===== verification/Slashing.thy ===== *)
theory Slashing
  imports Scoring
begin

text \<open>
  Enforcement against validators: the slashing manager of \<open>savitri-consensus/src/slashing.rs\<close> with
  its types (\<open>savitri-consensus/src/types/slashing.rs\<close>).  A report is one step: the manager holds
  its lock throughout.  \<open>hex\<close> stands for \<open>hex::encode\<close>; the clock is read once per report.  An error
  carries the values its message prints.  \<open>slash_step\<close> is one call, with the events mirrored into the
  observation store kept as a history.
\<close>

section \<open>Types\<close>

datatype MisbehaviorType = DoubleVote | Equivocation | Downtime | InvalidProposal | MaliciousGradient

record SlashingConfig =
  double_vote_slash_permille :: u32
  equivocation_slash_permille :: u32
  downtime_slash_permille :: u32
  invalid_proposal_slash_permille :: u32
  malicious_gradient_slash_permille :: u32
  jail_threshold_permille :: u32
  jail_duration_epochs :: u64
  cooldown_epochs :: u64
  max_cumulative_slashes :: u32

definition default_slashing_config :: SlashingConfig where
  "default_slashing_config = \<lparr> double_vote_slash_permille = 500, equivocation_slash_permille = 500,
     downtime_slash_permille = 100, invalid_proposal_slash_permille = 250,
     malicious_gradient_slash_permille = 300, jail_threshold_permille = 600, jail_duration_epochs = 10,
     cooldown_epochs = 5, max_cumulative_slashes = 5 \<rparr>"

fun slash_permille_for :: "SlashingConfig \<Rightarrow> MisbehaviorType \<Rightarrow> u32" where
  "slash_permille_for cfg DoubleVote = double_vote_slash_permille cfg"
| "slash_permille_for cfg Equivocation = equivocation_slash_permille cfg"
| "slash_permille_for cfg Downtime = downtime_slash_permille cfg"
| "slash_permille_for cfg InvalidProposal = invalid_proposal_slash_permille cfg"
| "slash_permille_for cfg MaliciousGradient = malicious_gradient_slash_permille cfg"

record SlashingRecord =
  validator_id :: bytes
  misbehavior_type :: MisbehaviorType
  rec_epoch :: u64
  rec_slot :: u64
  evidence_hash :: bytes
  slash_amount_permille :: u32
  rec_timestamp :: u64

record ValidatorSlashingState =
  cumulative_slashes :: u32
  last_slash_epoch :: u64
  jailed_until_epoch :: u64
  is_permanently_slashed :: bool
  records :: "SlashingRecord list"

definition default_slashing_state :: ValidatorSlashingState where
  "default_slashing_state = \<lparr> cumulative_slashes = 0, last_slash_epoch = 0, jailed_until_epoch = 0,
     is_permanently_slashed = False, records = [] \<rparr>"

definition is_jailed_at :: "ValidatorSlashingState \<Rightarrow> u64 \<Rightarrow> bool" where
  "is_jailed_at st current_epoch \<longleftrightarrow> current_epoch < jailed_until_epoch st"

definition is_active_at :: "ValidatorSlashingState \<Rightarrow> u64 \<Rightarrow> bool" where
  "is_active_at st current_epoch \<longleftrightarrow> \<not> is_permanently_slashed st \<and> \<not> is_jailed_at st current_epoch"

section \<open>The manager\<close>

fun map_misbehavior_to_slash_reason :: "MisbehaviorType \<Rightarrow> SlashReason" where
  "map_misbehavior_to_slash_reason DoubleVote = SlashReason.DoubleVote"
| "map_misbehavior_to_slash_reason Equivocation = SlashReason.Equivocation"
| "map_misbehavior_to_slash_reason InvalidProposal = SlashReason.InvalidBlock"
| "map_misbehavior_to_slash_reason MaliciousGradient = SlashReason.MaliciousGradient"
| "map_misbehavior_to_slash_reason Downtime = SlashReason.Other"

datatype ConsensusError = AlreadySlashed bytes | ValidatorJailed bytes u64 | SlashCooldown bytes u64 u64

record SlashingManager =
  sm_config :: SlashingConfig
  states :: "(bytes \<times> ValidatorSlashingState) list"
  sm_observations :: "ObservationStore option"

definition new_slashing_manager :: "SlashingConfig \<Rightarrow> SlashingManager" where
  "new_slashing_manager cfg = \<lparr> sm_config = cfg, states = [], sm_observations = None \<rparr>"

definition with_defaults :: SlashingManager where
  "with_defaults = new_slashing_manager default_slashing_config"

definition set_observations :: "ObservationStore \<Rightarrow> SlashingManager \<Rightarrow> SlashingManager" where
  "set_observations store m = m\<lparr> sm_observations := Some store \<rparr>"

definition slashing_state :: "SlashingManager \<Rightarrow> bytes \<Rightarrow> ValidatorSlashingState" where
  "slashing_state m v = (case map_of (states m) v of None \<Rightarrow> default_slashing_state | Some st \<Rightarrow> st)"

text \<open>The checks at the head of \<open>report_misbehavior\<close>, in their order.\<close>

definition report_error :: "SlashingConfig \<Rightarrow> bytes \<Rightarrow> u64 \<Rightarrow> ValidatorSlashingState \<Rightarrow> ConsensusError option" where
  "report_error cfg v current_epoch st =
    (if is_permanently_slashed st then Some (AlreadySlashed v)
     else if is_jailed_at st current_epoch then Some (ValidatorJailed v (jailed_until_epoch st))
     else if 0 < last_slash_epoch st \<and> saturating_sub current_epoch (last_slash_epoch st) < cooldown_epochs cfg
     then Some (SlashCooldown v (last_slash_epoch st + cooldown_epochs cfg) (last_slash_epoch st))
     else None)"

definition cumulative_ratio_permille :: "SlashingConfig \<Rightarrow> ValidatorSlashingState \<Rightarrow> u64" where
  "cumulative_ratio_permille cfg st =
    (if 0 < max_cumulative_slashes cfg
     then ucast (cumulative_slashes st) * 1000 div ucast (max_cumulative_slashes cfg) else 1000)"

text \<open>The state change of an accepted report.\<close>

definition apply_slash :: "SlashingConfig \<Rightarrow> SlashingRecord \<Rightarrow> u64 \<Rightarrow> ValidatorSlashingState \<Rightarrow> ValidatorSlashingState" where
  "apply_slash cfg record' current_epoch st =
    (let st = st\<lparr> records := records st @ [record'], cumulative_slashes := cumulative_slashes st + 1,
                  last_slash_epoch := current_epoch \<rparr>
     in if max_cumulative_slashes cfg \<le> cumulative_slashes st then st\<lparr> is_permanently_slashed := True \<rparr>
        else if ucast (jail_threshold_permille cfg) \<le> cumulative_ratio_permille cfg st
        then st\<lparr> jailed_until_epoch := current_epoch + jail_duration_epochs cfg \<rparr>
        else st)"

definition report_misbehavior ::
  "(bytes \<Rightarrow> string) \<Rightarrow> u64 \<Rightarrow> bytes \<Rightarrow> MisbehaviorType \<Rightarrow> u64 \<Rightarrow> u64 \<Rightarrow> bytes \<Rightarrow> SlashingManager \<Rightarrow>
   (ConsensusError + u32) \<times> SlashingManager" where
  "report_misbehavior hex now v misbehavior current_epoch current_slot evidence m =
    (let st = slashing_state m v
     in case report_error (sm_config m) v current_epoch st of
          Some e \<Rightarrow> (Inl e, m\<lparr> states := AList.update v st (states m) \<rparr>)
        | None \<Rightarrow>
            let slash_permille = slash_permille_for (sm_config m) misbehavior;
                record' = \<lparr> validator_id = v, misbehavior_type = misbehavior, rec_epoch = current_epoch,
                  rec_slot = current_slot, evidence_hash = evidence, slash_amount_permille = slash_permille,
                  rec_timestamp = now \<rparr>
            in (Inr slash_permille,
                m\<lparr> states := AList.update v (apply_slash (sm_config m) record' current_epoch st) (states m),
                   sm_observations := map_option (record_slash now (hex v) (map_misbehavior_to_slash_reason misbehavior))
                     (sm_observations m) \<rparr>))"

definition process_jail_expiry :: "SlashingManager \<Rightarrow> u64 \<Rightarrow> bytes list" where
  "process_jail_expiry m current_epoch =
     map fst (filter (\<lambda>(v, st). \<not> is_permanently_slashed st \<and> 0 < jailed_until_epoch st \<and>
       jailed_until_epoch st \<le> current_epoch) (states m))"

definition unjail_validator :: "bytes \<Rightarrow> u64 \<Rightarrow> SlashingManager \<Rightarrow> (ConsensusError + unit) \<times> SlashingManager" where
  "unjail_validator v current_epoch m =
    (case map_of (states m) v of
       Some st \<Rightarrow>
         if is_permanently_slashed st then (Inl (AlreadySlashed v), m)
         else if jailed_until_epoch st \<le> current_epoch
         then (Inr (), m\<lparr> states := AList.update v (st\<lparr> jailed_until_epoch := 0 \<rparr>) (states m) \<rparr>)
         else (Inl (ValidatorJailed v (jailed_until_epoch st)), m)
     | None \<Rightarrow> (Inr (), m))"

definition is_validator_active :: "SlashingManager \<Rightarrow> bytes \<Rightarrow> u64 \<Rightarrow> bool" where
  "is_validator_active m v current_epoch =
    (case map_of (states m) v of Some st \<Rightarrow> is_active_at st current_epoch | None \<Rightarrow> True)"

definition get_validator_state :: "SlashingManager \<Rightarrow> bytes \<Rightarrow> ValidatorSlashingState option" where
  "get_validator_state m v = map_of (states m) v"

definition get_validator_records :: "SlashingManager \<Rightarrow> bytes \<Rightarrow> SlashingRecord list" where
  "get_validator_records m v = (case map_of (states m) v of Some st \<Rightarrow> records st | None \<Rightarrow> [])"

definition apply_score_penalty :: "u32 \<Rightarrow> u32 \<Rightarrow> u32" where
  "apply_score_penalty current_score slash_permille =
    (let penalty = ucast current_score * ucast slash_permille div (1000 :: u64)
     in saturating_sub current_score (ucast penalty))"

section \<open>Steps and invariant\<close>

inductive slash_step :: "(bytes \<Rightarrow> string) \<Rightarrow> SlashingManager \<times> (u64 \<times> string \<times> PeerEvent) list \<Rightarrow>
    SlashingManager \<times> (u64 \<times> string \<times> PeerEvent) list \<Rightarrow> bool" for hex :: "bytes \<Rightarrow> string" where
  accepted: "report_misbehavior hex now v b epoch slot ev m = (Inr p, m') \<Longrightarrow> \<forall>e \<in> set h. fst e \<le> now \<Longrightarrow>
    slash_step hex (m, h) (m', h @ [(now, hex v, EvSlash (map_misbehavior_to_slash_reason b))])"
| refused: "report_misbehavior hex now v b epoch slot ev m = (Inl e, m') \<Longrightarrow> slash_step hex (m, h) (m', h)"
| unjail: "unjail_validator v epoch m = (r, m') \<Longrightarrow> slash_step hex (m, h) (m', h)"

definition slash_init :: "SlashingConfig \<Rightarrow> u64 \<Rightarrow> SlashingManager \<times> (u64 \<times> string \<times> PeerEvent) list \<Rightarrow> bool" where
  "slash_init cfg w s \<longleftrightarrow> s = (set_observations (with_window w) (new_slashing_manager cfg), [])"

text \<open>A validator's state: the counters agree with the audit trail, slashing is permanent exactly
  at the limit, and slashes keep the cool-down.\<close>

definition cooldown_kept :: "SlashingConfig \<Rightarrow> SlashingRecord list \<Rightarrow> bool" where
  "cooldown_kept cfg rs \<longleftrightarrow> (\<forall>i. Suc i < length rs \<longrightarrow> 0 < rec_epoch (rs ! i) \<longrightarrow> 0 < cooldown_epochs cfg \<longrightarrow>
     unat (rec_epoch (rs ! i)) + unat (cooldown_epochs cfg) \<le> unat (rec_epoch (rs ! Suc i)))"

definition vstate_ok :: "SlashingConfig \<Rightarrow> bytes \<Rightarrow> ValidatorSlashingState \<Rightarrow> bool" where
  "vstate_ok cfg v st \<longleftrightarrow>
     unat (cumulative_slashes st) = length (records st) \<and>
     length (records st) \<le> max 1 (unat (max_cumulative_slashes cfg)) \<and>
     (is_permanently_slashed st \<longleftrightarrow> records st \<noteq> [] \<and> unat (max_cumulative_slashes cfg) \<le> length (records st)) \<and>
     last_slash_epoch st = (if records st = [] then 0 else rec_epoch (last (records st))) \<and>
     cooldown_kept cfg (records st) \<and>
     (\<forall>r \<in> set (records st). validator_id r = v \<and> slash_amount_permille r = slash_permille_for cfg (misbehavior_type r))"

definition slash_of_record :: "SlashingRecord \<Rightarrow> SlashEvent" where
  "slash_of_record r = \<lparr> se_ts_secs = rec_timestamp r, se_reason = map_misbehavior_to_slash_reason (misbehavior_type r) \<rparr>"

definition slash_inv :: "(bytes \<Rightarrow> string) \<Rightarrow> SlashingConfig \<Rightarrow> u64 \<Rightarrow>
    SlashingManager \<times> (u64 \<times> string \<times> PeerEvent) list \<Rightarrow> bool" where
  "slash_inv hex cfg w s \<longleftrightarrow> (case s of (m, h) \<Rightarrow>
     sm_config m = cfg \<and> sm_observations m = Some (store_of w h) \<and> sorted (map fst h) \<and>
     (\<forall>v. vstate_ok cfg v (slashing_state m v)) \<and>
     (inj hex \<longrightarrow> (\<forall>v. List.map_filter (slash_sample (hex v)) h = map slash_of_record (records (slashing_state m v)))))"

section \<open>Lemmas\<close>

lemma slashing_state_update [simp]:
  "states m' = AList.update v st (states m) \<Longrightarrow> slashing_state m' u = (if u = v then st else slashing_state m u)"
  by (simp add: slashing_state_def)

lemma report_error_None:
  assumes "report_error cfg v epoch st = None"
  shows "\<not> is_permanently_slashed st" "\<not> is_jailed_at st epoch"
    "last_slash_epoch st = 0 \<or> cooldown_epochs cfg = 0 \<or>
     unat (last_slash_epoch st) + unat (cooldown_epochs cfg) \<le> unat epoch"
proof -
  show "\<not> is_permanently_slashed st" "\<not> is_jailed_at st epoch"
    using assms by (auto simp: report_error_def split: if_splits)
  have "last_slash_epoch st = 0 \<or> cooldown_epochs cfg \<le> saturating_sub epoch (last_slash_epoch st)"
    using assms by (auto simp: report_error_def word_neq_0_conv not_less split: if_splits)
  then show "last_slash_epoch st = 0 \<or> cooldown_epochs cfg = 0 \<or>
      unat (last_slash_epoch st) + unat (cooldown_epochs cfg) \<le> unat epoch"
    by (auto simp: word_le_nat_alt unat_saturating_sub unat_eq_0 [symmetric])
qed

lemma apply_slash_fields:
  "records (apply_slash cfg r epoch st) = records st @ [r]"
  "cumulative_slashes (apply_slash cfg r epoch st) = cumulative_slashes st + 1"
  "last_slash_epoch (apply_slash cfg r epoch st) = epoch"
  "is_permanently_slashed (apply_slash cfg r epoch st) \<longleftrightarrow>
     is_permanently_slashed st \<or> max_cumulative_slashes cfg \<le> cumulative_slashes st + 1"
  by (simp_all add: apply_slash_def Let_def)

lemma cooldown_kept_snoc:
  assumes "cooldown_kept cfg rs"
    and "rs \<noteq> [] \<Longrightarrow> rec_epoch (last rs) = 0 \<or> cooldown_epochs cfg = 0 \<or>
      unat (rec_epoch (last rs)) + unat (cooldown_epochs cfg) \<le> unat (rec_epoch r)"
  shows "cooldown_kept cfg (rs @ [r])"
  unfolding cooldown_kept_def
proof (intro allI impI)
  fix i
  assume i: "Suc i < length (rs @ [r])" "0 < rec_epoch ((rs @ [r]) ! i)" "0 < cooldown_epochs cfg"
  show "unat (rec_epoch ((rs @ [r]) ! i)) + unat (cooldown_epochs cfg) \<le> unat (rec_epoch ((rs @ [r]) ! Suc i))"
  proof (cases "Suc i < length rs")
    case True
    then show ?thesis using assms(1) i by (simp add: cooldown_kept_def nth_append)
  next
    case False
    then have "Suc i = length rs" using i(1) by simp
    moreover from this have "rs \<noteq> []" by auto
    moreover from calculation have "rs ! i = last rs" by (metis last_conv_nth diff_Suc_1)
    ultimately show ?thesis using assms(2) i(2,3) by (auto simp: nth_append)
  qed
qed

lemma apply_slash_ok:
  assumes "vstate_ok cfg v st" "report_error cfg v epoch st = None"
    and "validator_id r = v" "slash_amount_permille r = slash_permille_for cfg (misbehavior_type r)" "rec_epoch r = epoch"
  shows "vstate_ok cfg v (apply_slash cfg r epoch st)"
proof -
  note e = report_error_None [OF assms(2)]
  let ?n = "length (records st)" and ?m = "unat (max_cumulative_slashes cfg)"
  have n: "unat (cumulative_slashes st) = ?n" "records st = [] \<or> ?n < ?m" using assms(1) e(1) by (auto simp: vstate_ok_def)
  have "?n + 1 < 2 ^ 32" using n(2) unat_bound [of "max_cumulative_slashes cfg"] by auto
  then have cum: "unat (cumulative_slashes st + 1) = ?n + 1"
    using n(1) by (subst unat_add_lem [THEN iffD1]) simp_all
  have "cooldown_kept cfg (records st @ [r])"
    using assms(1,5) e(3) by (intro cooldown_kept_snoc) (auto simp: vstate_ok_def)
  then show ?thesis using assms(1,3-5) cum n e(1)
    by (auto simp: vstate_ok_def apply_slash_fields word_le_nat_alt)
qed

lemma report_Inr:
  assumes "report_misbehavior hex now v b epoch slot ev m = (Inr p, m')"
  obtains r where "report_error (sm_config m) v epoch (slashing_state m v) = None"
    and "states m' = AList.update v (apply_slash (sm_config m) r epoch (slashing_state m v)) (states m)"
    and "sm_config m' = sm_config m" "p = slash_permille_for (sm_config m) b"
    and "sm_observations m' = map_option (record_slash now (hex v) (map_misbehavior_to_slash_reason b)) (sm_observations m)"
    and "r = \<lparr> validator_id = v, misbehavior_type = b, rec_epoch = epoch, rec_slot = slot, evidence_hash = ev,
      slash_amount_permille = slash_permille_for (sm_config m) b, rec_timestamp = now \<rparr>"
proof -
  have none: "report_error (sm_config m) v epoch (slashing_state m v) = None"
    using assms by (cases "report_error (sm_config m) v epoch (slashing_state m v)")
      (simp_all add: report_misbehavior_def Let_def)
  note eff = assms [unfolded report_misbehavior_def Let_def none option.case prod.inject]
  from eff have "p = slash_permille_for (sm_config m) b" by simp
  then show thesis by (rule that [OF none _ _ _ _ refl, rotated 2]) (simp_all flip: eff [THEN conjunct2])
qed

lemma report_Inl:
  assumes "report_misbehavior hex now v b epoch slot ev m = (Inl e, m')"
  shows "sm_config m' = sm_config m" "sm_observations m' = sm_observations m" "slashing_state m' u = slashing_state m u"
proof -
  have m': "m' = m\<lparr> states := AList.update v (slashing_state m v) (states m) \<rparr>"
    using assms by (cases "report_error (sm_config m) v epoch (slashing_state m v)")
      (simp_all add: report_misbehavior_def Let_def)
  show "sm_config m' = sm_config m" "sm_observations m' = sm_observations m" by (simp_all add: m')
  show "slashing_state m' u = slashing_state m u"
    using slashing_state_update [of m' v "slashing_state m v" m u] by (simp add: m')
qed

lemma unjail_effect:
  assumes "unjail_validator v epoch m = (r, m')"
  shows "sm_config m' = sm_config m" "sm_observations m' = sm_observations m"
    "\<exists>j. slashing_state m' u = (slashing_state m u)\<lparr> jailed_until_epoch := j \<rparr>"
proof -
  show "sm_config m' = sm_config m" "sm_observations m' = sm_observations m"
    using assms by (auto simp: unjail_validator_def split: option.splits if_splits)
  have "m' = m \<or> (\<exists>st. map_of (states m) v = Some st \<and>
      m' = m\<lparr> states := AList.update v (st\<lparr> jailed_until_epoch := 0 \<rparr>) (states m) \<rparr>)"
    using assms by (auto simp: unjail_validator_def split: option.splits if_splits)
  then show "\<exists>j. slashing_state m' u = (slashing_state m u)\<lparr> jailed_until_epoch := j \<rparr>"
  proof
    assume "m' = m"
    then show ?thesis by (intro exI [of _ "jailed_until_epoch (slashing_state m u)"]) simp
  next
    assume "\<exists>st. map_of (states m) v = Some st \<and> m' = m\<lparr> states := AList.update v (st\<lparr> jailed_until_epoch := 0 \<rparr>) (states m) \<rparr>"
    then obtain st where st: "map_of (states m) v = Some st"
      "m' = m\<lparr> states := AList.update v (st\<lparr> jailed_until_epoch := 0 \<rparr>) (states m) \<rparr>" by blast
    show ?thesis
    proof (cases "u = v")
      case True
      then show ?thesis using st by (intro exI [of _ 0]) (simp add: slashing_state_def)
    next
      case False
      then show ?thesis using st by (intro exI [of _ "jailed_until_epoch (slashing_state m u)"]) (simp add: slashing_state_def)
    qed
  qed
qed

lemma vstate_ok_jail: "vstate_ok cfg v (st\<lparr> jailed_until_epoch := j \<rparr>) = vstate_ok cfg v st"
  by (simp add: vstate_ok_def)

lemma slash_inv_step:
  assumes "slash_inv hex cfg w s" "slash_step hex s t"
  shows "slash_inv hex cfg w t"
  using assms(2,1)
proof cases
  case (accepted now v b epoch slot ev m p m' h)
  note inv = assms(1) [unfolded accepted slash_inv_def prod.case]
  from accepted(3) obtain r where r: "report_error (sm_config m) v epoch (slashing_state m v) = None"
    "states m' = AList.update v (apply_slash (sm_config m) r epoch (slashing_state m v)) (states m)"
    "sm_config m' = sm_config m"
    "sm_observations m' = map_option (record_slash now (hex v) (map_misbehavior_to_slash_reason b)) (sm_observations m)"
    "r = \<lparr> validator_id = v, misbehavior_type = b, rec_epoch = epoch, rec_slot = slot, evidence_hash = ev,
      slash_amount_permille = slash_permille_for (sm_config m) b, rec_timestamp = now \<rparr>" by (rule report_Inr)
  let ?e = "(now, hex v, EvSlash (map_misbehavior_to_slash_reason b))"
  have "sm_observations m' = Some (store_of w (h @ [?e]))" using r(4) inv by (simp add: store_of_def)
  moreover have "sorted (map fst (h @ [?e]))" using inv accepted(4) by (auto simp: sorted_append)
  moreover have "vstate_ok cfg v (apply_slash cfg r epoch (slashing_state m v))"
    using inv r(1,5) by (intro apply_slash_ok) auto
  then have "vstate_ok cfg u (slashing_state m' u)" for u
    using inv slashing_state_update [OF r(2), of u] by simp
  moreover have "List.map_filter (slash_sample (hex u)) (h @ [?e]) = map slash_of_record (records (slashing_state m' u))"
    if "inj hex" for u
  proof (cases "u = v")
    case True
    then show ?thesis using that inv slashing_state_update [OF r(2), of u]
      by (simp add: apply_slash_fields map_filter_def slash_of_record_def r(5))
  next
    case False
    then have "hex v \<noteq> hex u" using that by (auto dest: injD)
    then show ?thesis using that inv False slashing_state_update [OF r(2), of u] by (simp add: map_filter_def)
  qed
  ultimately show ?thesis using inv r(3) by (simp add: accepted slash_inv_def)
next
  case (refused now v b epoch slot ev m e m' h)
  then show ?thesis using assms(1) report_Inl [OF refused(3)] by (simp add: slash_inv_def)
next
  case (unjail v epoch m r m' h)
  note eff = unjail_effect [OF unjail(3)]
  have "records (slashing_state m' u) = records (slashing_state m u) \<and>
      vstate_ok cfg u (slashing_state m' u) = vstate_ok cfg u (slashing_state m u)" for u
    using eff(3) [of u] vstate_ok_jail by auto
  then show ?thesis using assms(1) eff(1,2) unjail by (simp add: slash_inv_def)
qed

interpretation slash: inv_system "slash_init cfg w" "slash_step hex" "slash_inv hex cfg w"
proof
  show "slash_init cfg w s \<Longrightarrow> slash_inv hex cfg w s" for s
    by (simp add: slash_init_def slash_inv_def set_observations_def new_slashing_manager_def store_of_def
        slashing_state_def default_slashing_state_def vstate_ok_def cooldown_kept_def map_filter_simps)
qed (rule slash_inv_step)

text \<open>The audit trail alone, under any clock, any observation store and any sequence of calls.\<close>

inductive audit_step :: "(bytes \<Rightarrow> string) \<Rightarrow> SlashingManager \<Rightarrow> SlashingManager \<Rightarrow> bool" for hex :: "bytes \<Rightarrow> string" where
  report: "report_misbehavior hex now v b epoch slot ev m = (r, m') \<Longrightarrow> audit_step hex m m'"
| release: "unjail_validator v epoch m = (r, m') \<Longrightarrow> audit_step hex m m'"
| observe: "audit_step hex m (set_observations store m)"

definition audit_ok :: "SlashingConfig \<Rightarrow> SlashingManager \<Rightarrow> bool" where
  "audit_ok cfg m \<longleftrightarrow> sm_config m = cfg \<and> (\<forall>v. vstate_ok cfg v (slashing_state m v))"

lemma audit_ok_report:
  assumes "report_misbehavior hex now v b epoch slot ev m = (r, m')" "audit_ok cfg m"
  shows "audit_ok cfg m'"
proof (cases r)
  case (Inl e)
  then show ?thesis using report_Inl [of hex now v b epoch slot ev m e m'] assms by (simp add: audit_ok_def)
next
  case (Inr p)
  with assms(1) obtain q where q: "report_error (sm_config m) v epoch (slashing_state m v) = None"
    "states m' = AList.update v (apply_slash (sm_config m) q epoch (slashing_state m v)) (states m)"
    "sm_config m' = sm_config m"
    "q = \<lparr> validator_id = v, misbehavior_type = b, rec_epoch = epoch, rec_slot = slot, evidence_hash = ev,
      slash_amount_permille = slash_permille_for (sm_config m) b, rec_timestamp = now \<rparr>" by (auto elim: report_Inr)
  have "vstate_ok cfg v (apply_slash cfg q epoch (slashing_state m v))"
    using assms(2) q(1,4) by (intro apply_slash_ok) (auto simp: audit_ok_def)
  then show ?thesis using assms(2) q(3) slashing_state_update [OF q(2)] by (simp add: audit_ok_def)
qed

lemma audit_ok_step: "audit_step hex m m' \<Longrightarrow> audit_ok cfg m \<Longrightarrow> audit_ok cfg m'"
proof (induction rule: audit_step.induct)
  case (report now v b epoch slot ev m r m')
  then show ?case by (rule audit_ok_report)
next
  case (release v epoch m r m')
  note eff = unjail_effect [OF release(1)]
  have "vstate_ok cfg u (slashing_state m' u) = vstate_ok cfg u (slashing_state m u)" for u
    using eff(3) [of u] vstate_ok_jail by auto
  then show ?case using release(2) eff(1) by (simp add: audit_ok_def)
next
  case (observe m store)
  then show ?case by (simp add: audit_ok_def set_observations_def slashing_state_def)
qed

interpretation audit: inv_system "\<lambda>m. m = new_slashing_manager cfg" "audit_step hex" "audit_ok cfg" for cfg hex
  by unfold_locales
    (simp add: audit_ok_def new_slashing_manager_def slashing_state_def default_slashing_state_def vstate_ok_def cooldown_kept_def,
     rule audit_ok_step)

text \<open>A permanently slashed validator's record is frozen.\<close>

definition frozen :: "bytes \<Rightarrow> SlashingRecord list \<Rightarrow> SlashingManager \<times> (u64 \<times> string \<times> PeerEvent) list \<Rightarrow> bool" where
  "frozen v rs s \<longleftrightarrow> is_permanently_slashed (slashing_state (fst s) v) \<and> records (slashing_state (fst s) v) = rs"

lemma frozen_step:
  assumes "frozen v rs s" "slash_step hex s t"
  shows "frozen v rs t"
  using assms(2,1)
proof cases
  case (accepted now u b epoch slot ev m p m' h)
  from accepted(3) obtain r where r: "report_error (sm_config m) u epoch (slashing_state m u) = None"
    "states m' = AList.update u (apply_slash (sm_config m) r epoch (slashing_state m u)) (states m)" by (rule report_Inr)
  have "u \<noteq> v" using report_error_None(1) [OF r(1)] assms(1) accepted(1) by (auto simp: frozen_def)
  then show ?thesis using assms(1) accepted(1,2) slashing_state_update [OF r(2), of v] by (simp add: frozen_def)
next
  case (refused now u b epoch slot ev m e m' h)
  then show ?thesis using assms(1) report_Inl(3) [OF refused(3)] by (simp add: frozen_def)
next
  case (unjail u epoch m r m' h)
  then show ?thesis using assms(1) unjail_effect(3) [OF unjail(3), of v] by (auto simp: frozen_def)
qed

interpretation frozen_slash: inv_system "frozen v rs" "slash_step hex" "frozen v rs"
  by unfold_locales (auto intro: frozen_step)

lemma is_validator_active_state: "is_validator_active m v epoch = is_active_at (slashing_state m v) epoch"
  by (simp add: is_validator_active_def slashing_state_def default_slashing_state_def is_active_at_def is_jailed_at_def
      split: option.split)

text \<open>Up to 1000 permille the penalty is exact: the product does not wrap and the cast loses nothing.\<close>

lemma apply_score_penalty_exact:
  assumes "unat p \<le> 1000"
  shows "unat (apply_score_penalty s p) = unat s - unat s * unat p div 1000"
proof -
  have s: "unat s < 2 ^ 32" using unat_bound [of s] by simp
  have "unat s * unat p \<le> 2 ^ 32 * 1000" using s assms by (intro mult_mono) simp_all
  then have mult: "unat (ucast s * ucast p :: u64) = unat s * unat p"
    using s assms by (subst unat_mult_lem [THEN iffD1]) (simp_all add: unat_ucast_mod)
  have "unat s * unat p div 1000 \<le> unat s" using assms div_le_mono [of "unat s * unat p" "unat s * 1000" 1000] by simp
  then show ?thesis using s by (simp add: apply_score_penalty_def Let_def unat_saturating_sub unat_ucast_mod unat_div mult)
qed

text \<open>A concrete run for the instances below: one report against a fresh validator.\<close>

definition toy_hex :: "bytes \<Rightarrow> string" where
  "toy_hex v = map (\<lambda>b. char_of (unat b)) v"

lemma inj_toy_hex: "inj toy_hex"
proof (rule injI)
  fix v u assume "toy_hex v = toy_hex u"
  then have "map (of_char :: char \<Rightarrow> nat) (toy_hex v) = map of_char (toy_hex u)" by simp
  moreover have "unat x mod 256 = unat x" for x :: u8 using unat_bound [of x] by simp
  ultimately have "map unat v = map unat u" by (simp add: toy_hex_def comp_def)
  then show "v = u" by (rule map_injective) (simp add: inj_def flip: word_unat_eq_iff)
qed

definition toy_slashed :: "SlashingConfig \<Rightarrow> SlashingManager" where
  "toy_slashed cfg = snd (report_misbehavior toy_hex 50 [7] DoubleVote 3 30 []
     (set_observations (with_window 3600) (new_slashing_manager cfg)))"

lemmas toy_slash_defs = toy_slashed_def report_misbehavior_def slashing_state_def set_observations_def
  new_slashing_manager_def default_slashing_state_def report_error_def is_jailed_at_def Let_def

lemma toy_slashed_accepted:
  "report_misbehavior toy_hex 50 [7] DoubleVote 3 30 [] (set_observations (with_window 3600) (new_slashing_manager cfg)) =
    (Inr (double_vote_slash_permille cfg), toy_slashed cfg)"
  by (simp add: toy_slash_defs)

lemma toy_slashed_reachable:
  "reachable (slash_init cfg 3600) (slash_step toy_hex) (toy_slashed cfg, [(50, toy_hex [7], EvSlash SlashReason.DoubleVote)])"
proof -
  let ?m = "set_observations (with_window 3600) (new_slashing_manager cfg)"
  have "reachable (slash_init cfg 3600) (slash_step toy_hex) (?m, [])"
    by (rule reachable.start) (simp add: slash_init_def)
  moreover have "slash_step toy_hex (?m, []) (toy_slashed cfg, [] @ [(50, toy_hex [7], EvSlash (map_misbehavior_to_slash_reason DoubleVote))])"
    by (rule slash_step.accepted [OF toy_slashed_accepted]) simp
  ultimately show ?thesis using reachable.move by fastforce
qed

section \<open>Properties\<close>

text \<open>C13. Audit trail: in every state a slashing manager reaches by reports, releases and changes of its
  observation store, whatever the clock, the number of slashes of a validator is the length of its
  record list and at most the configured limit (one if the limit is zero); the slash is permanent
  exactly when there is a record and the limit is reached; consecutive slashes are at least the
  cool-down apart unless the earlier one was in epoch 0, from which the code does not count; and
  every record names the validator and the configured penalty.\<close>

theorem slashing_audit:
  assumes "reachable (\<lambda>m. m = new_slashing_manager cfg) (audit_step hex) m"
  shows "vstate_ok cfg v (slashing_state m v)"
  using audit.inv_reachable [OF assms] by (simp add: audit_ok_def)

theorem slashing_audit_witness:
  "vstate_ok default_slashing_config [7] (slashing_state (toy_slashed default_slashing_config) [7])"
proof -
  have "reachable (\<lambda>m. m = new_slashing_manager default_slashing_config) (audit_step toy_hex)
      (set_observations (with_window 3600) (new_slashing_manager default_slashing_config))"
    by (rule reachable.move [where s = "new_slashing_manager default_slashing_config"], rule reachable.start) (auto intro: audit_step.observe)
  from reachable.move [OF this audit_step.report [OF toy_slashed_accepted]] show ?thesis by (rule slashing_audit)
qed

text \<open>Every accepted slash reaches the integrity score: the measurement of a validator counts
  exactly its slashes of the window, whatever the order of reports and releases.\<close>

theorem slashes_reach_integrity:
  assumes "reachable (slash_init cfg w) (slash_step hex) (m, h)" "sm_observations m = Some store"
    and "inj hex" "unat (max_cumulative_slashes cfg) \<le> MAX_SAMPLES_PER_METRIC" "\<forall>ev \<in> set h. fst ev \<le> now"
  shows "unat (im_slash_events (build_integrity_measurement now store (hex v) epoch)) =
    length (filter (\<lambda>r. saturating_sub now w \<le> rec_timestamp r) (get_validator_records m v))"
proof -
  have inv: "slash_inv hex cfg w (m, h)" by (rule slash.inv_reachable [OF assms(1)])
  let ?rs = "records (slashing_state m v)" and ?c = "saturating_sub now w"
  have hist: "List.map_filter (slash_sample (hex v)) h = map slash_of_record ?rs" "sorted (map fst h)" "store = store_of w h"
    and ok: "vstate_ok cfg v (slashing_state m v)" using inv assms(2,3) by (simp_all add: slash_inv_def)
  have len: "length ?rs \<le> MAX_SAMPLES_PER_METRIC" using ok assms(4) by (auto simp: vstate_ok_def MAX_SAMPLES_PER_METRIC_def)
  have win: "window_secs (store_of w h') = w" for h'
    by (induction h' rule: rev_induct) (simp_all add: store_of_def with_window_def)
  have "filter (\<lambda>s. ?c \<le> se_ts_secs s) (slash_events (peer_entry store (hex v))) =
      filter (\<lambda>s. ?c \<le> se_ts_secs s) (last_n MAX_SAMPLES_PER_METRIC (map slash_of_record ?rs))"
    unfolding hist(3) hist(1) [symmetric]
    by (intro suffix_of_history_view store_of_suffix record_event_slashes hist(2) assms(5))
      (simp add: default_observations_def)
  also have "\<dots> = map slash_of_record (filter (\<lambda>r. ?c \<le> rec_timestamp r) ?rs)"
    using len by (simp add: last_n_def filter_map comp_def slash_of_record_def)
  finally have eq: "length (filter (\<lambda>s. ?c \<le> se_ts_secs s) (slash_events (peer_entry store (hex v)))) =
      length (filter (\<lambda>r. ?c \<le> rec_timestamp r) ?rs)" by simp
  have "length (filter (\<lambda>r. ?c \<le> rec_timestamp r) ?rs) < 2 ^ 32"
    by (rule le_less_trans [OF length_filter_le]) (use len in \<open>simp add: MAX_SAMPLES_PER_METRIC_def\<close>)
  moreover have "get_validator_records m v = ?rs"
    by (simp add: get_validator_records_def slashing_state_def default_slashing_state_def split: option.split)
  ultimately show ?thesis
    using win [of h] by (simp add: build_integrity_measurement_entry Let_def hist(3) eq [unfolded hist(3)] unat_of_nat)
qed

theorem slashes_reach_integrity_witness:
  "\<exists>store. sm_observations (toy_slashed default_slashing_config) = Some store \<and>
    unat (im_slash_events (build_integrity_measurement 60 store (toy_hex [7]) 3)) = 1"
proof -
  obtain store where st: "sm_observations (toy_slashed default_slashing_config) = Some store"
    by (simp add: toy_slash_defs)
  have "get_validator_records (toy_slashed default_slashing_config) [7] =
      [\<lparr> validator_id = [7], misbehavior_type = DoubleVote, rec_epoch = 3, rec_slot = 30, evidence_hash = [],
         slash_amount_permille = 500, rec_timestamp = 50 \<rparr>]"
    by (simp add: toy_slash_defs get_validator_records_def apply_slash_fields default_slashing_config_def)
  with slashes_reach_integrity [OF toy_slashed_reachable st inj_toy_hex, of 60 "[7]" 3] st show ?thesis
    by (simp add: default_slashing_config_def MAX_SAMPLES_PER_METRIC_def saturating_sub_def checked_sub_def)
qed

text \<open>Permanent means permanent: from a state in which a validator is permanently slashed, no
  sequence of reports and releases makes it active again or changes its record.\<close>

theorem permanently_slashed_stays:
  assumes "(slash_step hex)\<^sup>*\<^sup>* (m, h) (m', h')" "is_permanently_slashed (slashing_state m v)"
  shows "\<not> is_validator_active m' v epoch \<and> get_validator_records m' v = records (slashing_state m v) \<and>
    fst (report_misbehavior hex now v b epoch slot ev m') = Inl (AlreadySlashed v)"
proof -
  have "frozen v (records (slashing_state m v)) (m', h')"
    by (rule frozen_slash.inv_rtranclp [OF assms(1)]) (simp add: frozen_def assms(2))
  then show ?thesis
    by (auto simp: frozen_def is_validator_active_state is_active_at_def report_misbehavior_def report_error_def Let_def
        get_validator_records_def slashing_state_def default_slashing_state_def split: option.splits)
qed

theorem permanently_slashed_stays_witness:
  "\<not> is_validator_active (toy_slashed (default_slashing_config\<lparr> max_cumulative_slashes := 1 \<rparr>)) [7] 100"
  using permanently_slashed_stays [OF rtranclp.rtrancl_refl, of "toy_slashed (default_slashing_config\<lparr> max_cumulative_slashes := 1 \<rparr>)" "[7]"]
  by (simp add: toy_slash_defs apply_slash_fields default_slashing_config_def)

text \<open>Outcome of a report under the default configuration, on every branch: refused for a
  permanently slashed, a jailed or a recently slashed validator without any change, and otherwise
  recorded; the third and fourth slash jail for ten epochs and the fifth is permanent.\<close>

theorem report_outcome:
  assumes "sm_config m = default_slashing_config" "vstate_ok default_slashing_config v st" "slashing_state m v = st"
    and "report_misbehavior hex now v b epoch slot ev m = (res, m')"
  defines "n \<equiv> length (records st)"
  shows "(if n = 5 then res = Inl (AlreadySlashed v)
      else if epoch < jailed_until_epoch st then res = Inl (ValidatorJailed v (jailed_until_epoch st))
      else if 0 < last_slash_epoch st \<and> unat epoch < unat (last_slash_epoch st) + 5
      then res = Inl (SlashCooldown v (last_slash_epoch st + 5) (last_slash_epoch st))
      else res = Inr (slash_permille_for default_slashing_config b)) \<and>
    (case res of
       Inl _ \<Rightarrow> slashing_state m' v = st
     | Inr _ \<Rightarrow> length (records (slashing_state m' v)) = n + 1 \<and>
         is_permanently_slashed (slashing_state m' v) = (n = 4) \<and>
         jailed_until_epoch (slashing_state m' v) = (if n = 2 \<or> n = 3 then epoch + 10 else jailed_until_epoch st))"
proof -
  have n: "unat (cumulative_slashes st) = n" "n \<le> 5" "is_permanently_slashed st \<longleftrightarrow> n = 5"
    using assms(2) by (auto simp: vstate_ok_def n_def default_slashing_config_def)
  have err: "report_error default_slashing_config v epoch st =
      (if n = 5 then Some (AlreadySlashed v)
       else if epoch < jailed_until_epoch st then Some (ValidatorJailed v (jailed_until_epoch st))
       else if 0 < last_slash_epoch st \<and> unat epoch < unat (last_slash_epoch st) + 5
       then Some (SlashCooldown v (last_slash_epoch st + 5) (last_slash_epoch st)) else None)"
    by (auto simp: report_error_def n(3) is_jailed_at_def default_slashing_config_def word_less_nat_alt
        unat_saturating_sub)
  show ?thesis
  proof (cases res)
    case (Inl e)
    then have "slashing_state m' v = st" using assms(3,4) report_Inl(3) by metis
    moreover have "report_error default_slashing_config v epoch st = Some e"
      using assms(1,3,4) Inl by (auto simp: report_misbehavior_def Let_def split: option.splits)
    ultimately show ?thesis using Inl by (simp add: err split: if_splits)
  next
    case (Inr p)
    then obtain r where r: "report_error default_slashing_config v epoch st = None"
      "states m' = AList.update v (apply_slash default_slashing_config r epoch st) (states m)"
      "p = slash_permille_for default_slashing_config b"
      using assms(1,3,4) report_Inr [of hex now v b epoch slot ev m p m'] by metis
    have st': "slashing_state m' v = apply_slash default_slashing_config r epoch st"
      using slashing_state_update [OF r(2), of v] by simp
    have cum: "cumulative_slashes st = word_of_nat n" by (simp flip: n(1))
    have five: "\<not> (5 :: u32) \<le> 1" by (simp add: word_le_nat_alt)
    have "n \<noteq> 5" using r(1) err by (simp split: if_splits)
    then consider "n = 0" | "n = 1" | "n = 2" | "n = 3" | "n = 4" using n(2) by linarith
    then have "is_permanently_slashed (slashing_state m' v) = (n = 4) \<and>
        jailed_until_epoch (slashing_state m' v) = (if n = 2 \<or> n = 3 then epoch + 10 else jailed_until_epoch st)"
      using n(3) \<open>n \<noteq> 5\<close>
      by cases (simp_all add: st' apply_slash_def Let_def cum cumulative_ratio_permille_def default_slashing_config_def five)
    moreover have "length (records (slashing_state m' v)) = n + 1" by (simp add: st' apply_slash_fields n_def)
    ultimately show ?thesis using Inr r(1,3) err by (simp split: if_splits)
  qed
qed

theorem report_outcome_witness:
  "slashing_state (toy_slashed default_slashing_config) [7] = \<lparr> cumulative_slashes = 1, last_slash_epoch = 3,
     jailed_until_epoch = 0, is_permanently_slashed = False, records = [\<lparr> validator_id = [7],
       misbehavior_type = DoubleVote, rec_epoch = 3, rec_slot = 30, evidence_hash = [],
       slash_amount_permille = 500, rec_timestamp = 50 \<rparr>] \<rparr> \<and>
   fst (report_misbehavior toy_hex 50 [7] Downtime 7 70 [] (toy_slashed default_slashing_config)) =
     Inl (SlashCooldown [7] 8 3)"
proof -
  let ?m = "toy_slashed default_slashing_config"
  have five: "\<not> (5 :: u32) \<le> 1" by (simp add: word_le_nat_alt)
  have st: "slashing_state ?m [7] = \<lparr> cumulative_slashes = 1, last_slash_epoch = 3,
     jailed_until_epoch = 0, is_permanently_slashed = False, records = [\<lparr> validator_id = [7],
       misbehavior_type = DoubleVote, rec_epoch = 3, rec_slot = 30, evidence_hash = [],
       slash_amount_permille = 500, rec_timestamp = 50 \<rparr>] \<rparr>"
    by (simp add: toy_slash_defs apply_slash_def default_slashing_config_def cumulative_ratio_permille_def five)
  have ok: "vstate_ok default_slashing_config [7] (slashing_state ?m [7])"
    using slash.inv_reachable [OF toy_slashed_reachable] by (simp add: slash_inv_def)
  have cfg: "sm_config ?m = default_slashing_config" by (simp add: toy_slash_defs)
  obtain res m' where r: "report_misbehavior toy_hex 50 [7] Downtime 7 70 [] ?m = (res, m')" by fastforce
  show ?thesis using report_outcome [OF cfg ok refl r] r by (simp add: st)
qed

end
