(* ===== verification/Bonds.thy ===== *)
theory Bonds
  imports Rust_Prelude
begin

text \<open>
  Validator bonds: the bond manager of \<open>savitri-storage/src/storage/bonds.rs\<close>.  Each operation is one
  call; an error leaves the manager unchanged and is a value.  The clock is an argument of \<open>slash\<close>.
  \<open>bond_step\<close> is one call, with the amounts of overwritten bonds and the number of bonds created
  kept as a history.
\<close>

section \<open>Types\<close>

definition MIN_BOND_AMOUNT :: u128 where "MIN_BOND_AMOUNT = 100000000000000"
definition MAX_BOND_AMOUNT :: u128 where "MAX_BOND_AMOUNT = 10000000000000000"
definition MIN_SLASH_PCT :: u16 where "MIN_SLASH_PCT = 100"
definition MAX_SLASH_PCT :: u16 where "MAX_SLASH_PCT = 10000"
definition UNBONDING_PERIOD_BLOCKS :: u64 where "UNBONDING_PERIOD_BLOCKS = 21600"

datatype BondStatus = Active | Unbonding | Slashed

datatype SlashingReason = Equivocation | DoubleVote | InvalidAttestation

record BondInfo =
  bond_validator :: bytes
  amount :: u128
  bonded_at :: u64
  status :: BondStatus
  unbonding_start :: "u64 option"

definition new_bond :: "bytes \<Rightarrow> u128 \<Rightarrow> u64 \<Rightarrow> BondInfo" where
  "new_bond v a b = \<lparr> bond_validator = v, amount = a, bonded_at = b, status = Active, unbonding_start = None \<rparr>"

definition is_active :: "BondInfo \<Rightarrow> bool" where
  "is_active b \<longleftrightarrow> status b = Active"

definition bond_start_unbonding :: "u64 \<Rightarrow> BondInfo \<Rightarrow> BondInfo" where
  "bond_start_unbonding current_block b = b\<lparr> status := Unbonding, unbonding_start := Some current_block \<rparr>"

definition is_unbonding_complete :: "BondInfo \<Rightarrow> u64 \<Rightarrow> bool" where
  "is_unbonding_complete b current_block = (case unbonding_start b of
      Some start \<Rightarrow> start + UNBONDING_PERIOD_BLOCKS \<le> current_block
    | None \<Rightarrow> False)"

record SlashingParams =
  equivocation_pct :: u16
  double_vote_pct :: u16
  invalid_attestation_pct :: u16
  min_bond_amount :: u128
  slash_pct_equivocation :: u16
  slash_pct_double_vote :: u16
  slash_pct_invalid_attestation :: u16
  updated_at :: u64

definition default_slashing_params :: SlashingParams where
  "default_slashing_params = \<lparr> equivocation_pct = 5000, double_vote_pct = 2500, invalid_attestation_pct = 1000,
     min_bond_amount = MIN_BOND_AMOUNT, slash_pct_equivocation = 5000, slash_pct_double_vote = 2500,
     slash_pct_invalid_attestation = 1000, updated_at = 0 \<rparr>"

fun get_slash_pct :: "SlashingParams \<Rightarrow> SlashingReason \<Rightarrow> u16" where
  "get_slash_pct p Equivocation = slash_pct_equivocation p"
| "get_slash_pct p DoubleVote = slash_pct_double_vote p"
| "get_slash_pct p InvalidAttestation = slash_pct_invalid_attestation p"

definition calculate_slash_amount :: "SlashingParams \<Rightarrow> u128 \<Rightarrow> SlashingReason \<Rightarrow> u128" where
  "calculate_slash_amount p bond_amount reason = saturating_mul bond_amount (ucast (get_slash_pct p reason)) div 10000"

record SlashingEvent =
  ev_validator :: bytes
  ev_reason :: SlashingReason
  amount_slashed :: u128
  block_height :: u64
  ev_timestamp :: u64

section \<open>The manager\<close>

record BondManager =
  bonds :: "(bytes \<times> BondInfo) list"
  slashing_params :: SlashingParams
  slashing_history :: "SlashingEvent list"
  total_bonded :: u128

datatype BondError = BelowMinimum u128 u128 | AboveMaximum u128 | AlreadyActive | NoBond | NotActive | NotUnbonding
  | PeriodNotComplete | PctOutOfRange SlashingReason | MinimumTooLow

definition new_bond_manager :: BondManager where
  "new_bond_manager = \<lparr> bonds = [], slashing_params = default_slashing_params, slashing_history = [], total_bonded = 0 \<rparr>"

definition has_active_bond :: "BondManager \<Rightarrow> bytes \<Rightarrow> bool" where
  "has_active_bond m v = (case map_of (bonds m) v of Some b \<Rightarrow> is_active b | None \<Rightarrow> False)"

definition get_bond :: "BondManager \<Rightarrow> bytes \<Rightarrow> BondInfo option" where
  "get_bond m v = map_of (bonds m) v"

definition create_bond :: "bytes \<Rightarrow> u128 \<Rightarrow> u64 \<Rightarrow> BondManager \<Rightarrow> (BondError + unit) \<times> BondManager" where
  "create_bond v a current_block m =
    (if a < min_bond_amount (slashing_params m) then (Inl (BelowMinimum a (min_bond_amount (slashing_params m))), m)
     else if MAX_BOND_AMOUNT < a then (Inl (AboveMaximum a), m)
     else if has_active_bond m v then (Inl AlreadyActive, m)
     else (Inr (), m\<lparr> bonds := AList.update v (new_bond v a current_block) (bonds m),
                      total_bonded := saturating_add (total_bonded m) a \<rparr>))"

definition start_unbonding :: "bytes \<Rightarrow> u64 \<Rightarrow> BondManager \<Rightarrow> (BondError + unit) \<times> BondManager" where
  "start_unbonding v current_block m = (case map_of (bonds m) v of
      None \<Rightarrow> (Inl NoBond, m)
    | Some b \<Rightarrow>
        if \<not> is_active b then (Inl NotActive, m)
        else (Inr (), m\<lparr> bonds := AList.update v (bond_start_unbonding current_block b) (bonds m) \<rparr>))"

definition complete_unbonding :: "bytes \<Rightarrow> u64 \<Rightarrow> BondManager \<Rightarrow> (BondError + u128) \<times> BondManager" where
  "complete_unbonding v current_block m = (case map_of (bonds m) v of
      None \<Rightarrow> (Inl NoBond, m)
    | Some b \<Rightarrow>
        if status b \<noteq> Unbonding then (Inl NotUnbonding, m)
        else if \<not> is_unbonding_complete b current_block then (Inl PeriodNotComplete, m)
        else (Inr (amount b), m\<lparr> bonds := AList.delete v (bonds m),
                                 total_bonded := saturating_sub (total_bonded m) (amount b) \<rparr>))"

definition slash_bond :: "u64 \<Rightarrow> bytes \<Rightarrow> SlashingReason \<Rightarrow> u64 \<Rightarrow> BondManager \<Rightarrow> (BondError + u128) \<times> BondManager" where
  "slash_bond now v reason height m = (case map_of (bonds m) v of
      None \<Rightarrow> (Inl NoBond, m)
    | Some b \<Rightarrow>
        let slash_amount = calculate_slash_amount (slashing_params m) (amount b) reason;
            event = \<lparr> ev_validator = v, ev_reason = reason, amount_slashed = slash_amount, block_height = height,
                      ev_timestamp = now \<rparr>
        in (Inr slash_amount,
            m\<lparr> bonds := AList.update v (b\<lparr> amount := saturating_sub (amount b) slash_amount, status := Slashed \<rparr>) (bonds m),
               slashing_history := slashing_history m @ [event],
               total_bonded := saturating_sub (total_bonded m) slash_amount \<rparr>))"

definition pct_out_of_range :: "u16 \<Rightarrow> bool" where
  "pct_out_of_range p \<longleftrightarrow> p < MIN_SLASH_PCT \<or> MAX_SLASH_PCT < p"

definition update_slashing_params :: "SlashingParams \<Rightarrow> BondManager \<Rightarrow> (BondError + unit) \<times> BondManager" where
  "update_slashing_params p m =
    (if pct_out_of_range (slash_pct_equivocation p) then (Inl (PctOutOfRange Equivocation), m)
     else if pct_out_of_range (slash_pct_double_vote p) then (Inl (PctOutOfRange DoubleVote), m)
     else if pct_out_of_range (slash_pct_invalid_attestation p) then (Inl (PctOutOfRange InvalidAttestation), m)
     else if min_bond_amount p < MIN_BOND_AMOUNT then (Inl MinimumTooLow, m)
     else (Inr (), m\<lparr> slashing_params := p \<rparr>))"

definition get_active_validators :: "BondManager \<Rightarrow> bytes list" where
  "get_active_validators m = map fst (filter (\<lambda>(_, b). is_active b) (bonds m))"

definition get_slashing_history :: "BondManager \<Rightarrow> bytes \<Rightarrow> SlashingEvent list" where
  "get_slashing_history m v = filter (\<lambda>e. ev_validator e = v) (slashing_history m)"

text \<open>\<open>enc\<close> and \<open>dec\<close> stand for the serialisation crate.\<close>

definition bond_serialize :: "((bytes \<times> BondInfo) list \<times> SlashingParams \<times> u128 \<Rightarrow> bytes) \<Rightarrow> BondManager \<Rightarrow> bytes" where
  "bond_serialize enc m = enc (bonds m, slashing_params m, total_bonded m)"

definition bond_deserialize ::
  "(bytes \<Rightarrow> ((bytes \<times> BondInfo) list \<times> SlashingParams \<times> u128) option) \<Rightarrow> bytes \<Rightarrow> BondManager option" where
  "bond_deserialize dec data = map_option (\<lambda>(bs, ps, t). \<lparr> bonds = bs, slashing_params = ps, slashing_history = [],
     total_bonded = t \<rparr>) (dec data)"

section \<open>Calls\<close>

datatype BondOp = Create bytes u128 u64 | Start bytes u64 | Complete bytes u64 | Slash u64 bytes SlashingReason u64
  | Params SlashingParams

fun run_op :: "BondOp \<Rightarrow> BondManager \<Rightarrow> BondManager" where
  "run_op (Create v a b) m = snd (create_bond v a b m)"
| "run_op (Start v b) m = snd (start_unbonding v b m)"
| "run_op (Complete v b) m = snd (complete_unbonding v b m)"
| "run_op (Slash now v r h) m = snd (slash_bond now v r h m)"
| "run_op (Params p) m = snd (update_slashing_params p m)"

text \<open>The amount of a bond that a successful creation overwrites, and whether a call creates one.\<close>

fun overwritten :: "BondOp \<Rightarrow> BondManager \<Rightarrow> nat" where
  "overwritten (Create v a b) m = (case (fst (create_bond v a b m), map_of (bonds m) v) of
      (Inr _, Some old) \<Rightarrow> unat (amount old)
    | _ \<Rightarrow> 0)"
| "overwritten _ m = 0"

fun created :: "BondOp \<Rightarrow> BondManager \<Rightarrow> nat" where
  "created (Create v a b) m = (case fst (create_bond v a b m) of Inr _ \<Rightarrow> 1 | Inl _ \<Rightarrow> 0)"
| "created _ m = 0"

inductive bond_step :: "BondManager \<times> nat \<times> nat \<Rightarrow> BondManager \<times> nat \<times> nat \<Rightarrow> bool" where
  "bond_step (m, lost, n) (run_op call m, lost + overwritten call m, n + created call m)"

definition bond_init :: "BondManager \<times> nat \<times> nat \<Rightarrow> bool" where
  "bond_init s \<longleftrightarrow> s = (new_bond_manager, 0, 0)"

definition params_ok :: "SlashingParams \<Rightarrow> bool" where
  "params_ok p \<longleftrightarrow> (\<forall>r. get_slash_pct p r \<le> MAX_SLASH_PCT)"

definition bond_ok :: "bytes \<Rightarrow> BondInfo \<Rightarrow> bool" where
  "bond_ok v b \<longleftrightarrow> bond_validator b = v \<and> amount b \<le> MAX_BOND_AMOUNT \<and>
     (status b = Active \<longrightarrow> unbonding_start b = None) \<and> (status b = Unbonding \<longrightarrow> unbonding_start b \<noteq> None)"

definition bond_inv :: "BondManager \<times> nat \<times> nat \<Rightarrow> bool" where
  "bond_inv s \<longleftrightarrow> (case s of (m, lost, n) \<Rightarrow>
     hm_wf (bonds m) \<and> (\<forall>v b. map_of (bonds m) v = Some b \<longrightarrow> bond_ok v b) \<and> params_ok (slashing_params m) \<and>
     unat (total_bonded m) \<le> n * unat MAX_BOND_AMOUNT \<and>
     (n * unat MAX_BOND_AMOUNT < 2 ^ 128 \<longrightarrow>
        unat (total_bonded m) = hm_total (unat \<circ> amount) (bonds m) + lost))"

section \<open>Lemmas\<close>

lemma max_bond [simp]: "unat MAX_BOND_AMOUNT = 10000000000000000"
  by (simp add: MAX_BOND_AMOUNT_def)

lemma slash_amount_exact:
  assumes "params_ok p" "a \<le> MAX_BOND_AMOUNT"
  shows "unat (calculate_slash_amount p a r) = unat a * unat (get_slash_pct p r) div 10000"
    and "unat (calculate_slash_amount p a r) \<le> unat a"
proof -
  have pct: "unat (get_slash_pct p r) \<le> 10000" and a: "unat a \<le> 10000000000000000"
    using assms by (simp_all add: params_ok_def MAX_SLASH_PCT_def word_le_nat_alt)
  have uc: "unat (ucast (get_slash_pct p r) :: u128) = unat (get_slash_pct p r)"
    using pct by (simp add: unsigned_ucast_eq take_bit_nat_eq_self)
  have "unat a * unat (get_slash_pct p r) \<le> 10000000000000000 * 10000" using pct a by (intro mult_mono) simp_all
  then show eq: "unat (calculate_slash_amount p a r) = unat a * unat (get_slash_pct p r) div 10000"
    by (simp add: calculate_slash_amount_def unat_div unat_saturating_mul uc)
  show "unat (calculate_slash_amount p a r) \<le> unat a"
    unfolding eq using pct div_le_mono [of "unat a * unat (get_slash_pct p r)" "unat a * 10000" 10000] by simp
qed

lemma has_active_bond_iff: "has_active_bond m v \<longleftrightarrow> (\<exists>b. map_of (bonds m) v = Some b \<and> status b = Active)"
  by (simp add: has_active_bond_def is_active_def split: option.split)

lemma params_ok_update: "fst (update_slashing_params p m) = Inr () \<Longrightarrow> params_ok p"
  unfolding params_ok_def
proof
  fix r assume "fst (update_slashing_params p m) = Inr ()"
  then show "get_slash_pct p r \<le> MAX_SLASH_PCT"
    by (cases r) (auto simp: update_slashing_params_def pct_out_of_range_def not_less split: if_splits)
qed

lemma params_ok_default: "params_ok default_slashing_params"
  unfolding params_ok_def
proof
  fix r show "get_slash_pct default_slashing_params r \<le> MAX_SLASH_PCT"
    by (cases r) (simp_all add: default_slashing_params_def MAX_SLASH_PCT_def)
qed

subsection \<open>Every call keeps the invariant\<close>

lemma create_inv:
  assumes "bond_inv (m, lost, n)"
  shows "bond_inv (run_op (Create v a b) m, lost + overwritten (Create v a b) m, n + created (Create v a b) m)"
proof (cases "fst (create_bond v a b m)")
  case (Inl e)
  then have "snd (create_bond v a b m) = m" by (auto simp: create_bond_def split: if_splits)
  with Inl assms show ?thesis by simp
next
  case (Inr u)
  have c: "\<not> a < min_bond_amount (slashing_params m)" "\<not> MAX_BOND_AMOUNT < a" "\<not> has_active_bond m v"
    using Inr by (auto simp: create_bond_def split: if_splits)
  have a: "unat a \<le> 10000000000000000" using c(2) by (simp add: word_less_nat_alt)
  have m': "snd (create_bond v a b m) = m\<lparr> bonds := AList.update v (new_bond v a b) (bonds m),
      total_bonded := saturating_add (total_bonded m) a \<rparr>" by (simp add: create_bond_def c)
  note inv = assms [unfolded bond_inv_def prod.case]
  have ok: "bond_ok v (new_bond v a b)" using a by (simp add: bond_ok_def new_bond_def word_le_nat_alt)
  have tot: "hm_total (unat \<circ> amount) (AList.update v (new_bond v a b) (bonds m)) + overwritten (Create v a b) m =
      hm_total (unat \<circ> amount) (bonds m) + unat a"
    using Inr hm_total_update_new [of "bonds m" v "unat \<circ> amount" "new_bond v a b"]
      hm_total_update_old [of "bonds m" v _ "unat \<circ> amount" "new_bond v a b"]
    by (cases "map_of (bonds m) v") (simp_all add: new_bond_def)
  have sum: "unat (total_bonded m) + unat a \<le> (n + 1) * 10000000000000000" using inv a by simp
  then have "unat (saturating_add (total_bonded m) a) \<le> (n + 1) * 10000000000000000"
    by (simp only: unat_saturating_add min.coboundedI1)
  moreover have "unat (saturating_add (total_bonded m) a) =
      hm_total (unat \<circ> amount) (AList.update v (new_bond v a b) (bonds m)) + (lost + overwritten (Create v a b) m)"
    if "(n + 1) * 10000000000000000 < 2 ^ 128"
  proof -
    have "unat (saturating_add (total_bonded m) a) = unat (total_bonded m) + unat a"
      using sum that by (simp add: unat_saturating_add)
    moreover have "unat (total_bonded m) = hm_total (unat \<circ> amount) (bonds m) + lost" using inv that by simp
    ultimately show ?thesis using tot by linarith
  qed
  ultimately show ?thesis
    using inv ok Inr unfolding bond_inv_def prod.case run_op.simps m'
    by (auto simp: distinct_update split: if_splits)
qed

lemma start_inv:
  assumes "bond_inv (m, lost, n)"
  shows "bond_inv (run_op (Start v b) m, lost, n)"
proof (cases "\<exists>x. map_of (bonds m) v = Some x \<and> status x = Active")
  case True
  then obtain x where x: "map_of (bonds m) v = Some x" "status x = Active" by blast
  note inv = assms [unfolded bond_inv_def prod.case]
  have m': "run_op (Start v b) m = m\<lparr> bonds := AList.update v (bond_start_unbonding b x) (bonds m) \<rparr>"
    using x by (simp add: start_unbonding_def is_active_def)
  have ok: "bond_ok v (bond_start_unbonding b x)" using inv x by (simp add: bond_ok_def bond_start_unbonding_def)
  have "hm_total (unat \<circ> amount) (AList.update v (bond_start_unbonding b x) (bonds m)) = hm_total (unat \<circ> amount) (bonds m)"
    using hm_total_update_old [OF x(1), of "unat \<circ> amount" "bond_start_unbonding b x"]
    by (simp add: bond_start_unbonding_def)
  then show ?thesis using inv ok unfolding bond_inv_def prod.case m' by (auto simp: distinct_update split: if_splits)
next
  case False
  then have "run_op (Start v b) m = m"
    by (auto simp: start_unbonding_def is_active_def split: option.split)
  with assms show ?thesis by simp
qed

lemma complete_inv:
  assumes "bond_inv (m, lost, n)"
  shows "bond_inv (run_op (Complete v b) m, lost, n)"
proof (cases "\<exists>x. map_of (bonds m) v = Some x \<and> status x = Unbonding \<and> is_unbonding_complete x b")
  case True
  then obtain x where x: "map_of (bonds m) v = Some x" "status x = Unbonding" "is_unbonding_complete x b" by blast
  note inv = assms [unfolded bond_inv_def prod.case]
  have m': "run_op (Complete v b) m = m\<lparr> bonds := AList.delete v (bonds m),
      total_bonded := saturating_sub (total_bonded m) (amount x) \<rparr>"
    using x by (simp add: complete_unbonding_def)
  have "hm_total (unat \<circ> amount) (AList.delete v (bonds m)) + unat (amount x) = hm_total (unat \<circ> amount) (bonds m)"
    using hm_total_delete [OF _ x(1), of "unat \<circ> amount"] inv by simp
  then have "n * 10000000000000000 < 2 ^ 128 \<longrightarrow> unat (saturating_sub (total_bonded m) (amount x)) =
      hm_total (unat \<circ> amount) (AList.delete v (bonds m)) + lost"
    using inv by (auto simp: unat_saturating_sub)
  then show ?thesis using inv unfolding bond_inv_def prod.case m'
    by (auto simp: hm.wf_remove hm.get_remove unat_saturating_sub intro: le_trans [OF diff_le_self] split: if_splits)
next
  case False
  then have "run_op (Complete v b) m = m" by (auto simp: complete_unbonding_def split: option.split)
  with assms show ?thesis by simp
qed

lemma slash_bond_inv:
  assumes "bond_inv (m, lost, n)"
  shows "bond_inv (run_op (Slash now v r h) m, lost, n)"
proof (cases "map_of (bonds m) v")
  case None
  then show ?thesis using assms by (simp add: slash_bond_def)
next
  case (Some x)
  note inv = assms [unfolded bond_inv_def prod.case]
  let ?s = "calculate_slash_amount (slashing_params m) (amount x) r"
  let ?x = "x\<lparr> amount := saturating_sub (amount x) ?s, status := Slashed \<rparr>"
  have okx: "bond_ok v x" using inv Some by blast
  then have s: "unat ?s \<le> unat (amount x)" using inv by (intro slash_amount_exact) (auto simp: bond_ok_def)
  have ok: "bond_ok v ?x" using okx by (auto simp: bond_ok_def word_le_nat_alt unat_saturating_sub)
  have "hm_total (unat \<circ> amount) (AList.update v ?x (bonds m)) + unat ?s = hm_total (unat \<circ> amount) (bonds m)"
    using hm_total_update_old [OF Some, of "unat \<circ> amount" ?x] hm_total_member [OF Some, of "unat \<circ> amount"] s
    by (simp add: unat_saturating_sub)
  then have "n * 10000000000000000 < 2 ^ 128 \<longrightarrow> unat (saturating_sub (total_bonded m) ?s) =
      hm_total (unat \<circ> amount) (AList.update v ?x (bonds m)) + lost"
    using inv by (auto simp: unat_saturating_sub)
  moreover have "unat (saturating_sub (total_bonded m) ?s) \<le> n * 10000000000000000"
    using inv by (auto simp: unat_saturating_sub intro: le_trans [OF diff_le_self])
  ultimately show ?thesis using inv ok Some unfolding bond_inv_def prod.case run_op.simps slash_bond_def
    by (auto simp: Let_def distinct_update split: if_splits)
qed

lemma bond_inv_step:
  assumes "bond_inv s" "bond_step s t"
  shows "bond_inv t"
  using assms(2,1)
proof cases
  case (1 m lost n call)
  show ?thesis
  proof (cases call)
    case (Params p)
    have "bond_inv (run_op (Params p) m, lost, n)"
    proof (cases "fst (update_slashing_params p m)")
      case (Inl e)
      then have "run_op (Params p) m = m" by (auto simp: update_slashing_params_def split: if_splits)
      then show ?thesis using assms(1) 1 by simp
    next
      case (Inr u)
      then have "run_op (Params p) m = m\<lparr> slashing_params := p \<rparr>"
        by (auto simp: update_slashing_params_def split: if_splits)
      moreover have "params_ok p" using Inr params_ok_update by simp
      ultimately show ?thesis using assms(1) 1 by (simp add: bond_inv_def)
    qed
    then show ?thesis using 1 Params by simp
  qed (use assms(1) 1 create_inv start_inv complete_inv slash_bond_inv in simp_all)
qed

interpretation bond: inv_system bond_init bond_step bond_inv
proof
  show "bond_init s \<Longrightarrow> bond_inv s" for s
    using params_ok_default by (simp add: bond_init_def bond_inv_def new_bond_manager_def)
qed (rule bond_inv_step)

text \<open>A slashed bond stays slashed until its validator creates a new one.\<close>

definition slashed :: "BondManager \<Rightarrow> bytes \<Rightarrow> bool" where
  "slashed m v \<longleftrightarrow> (\<exists>b. map_of (bonds m) v = Some b \<and> status b = Slashed)"

lemma slashed_run_op:
  assumes "slashed m v" "\<forall>a b. call \<noteq> Create v a b"
  shows "slashed (run_op call m) v"
proof (cases call)
  case (Create u a b)
  then have "u \<noteq> v" using assms(2) by auto
  then show ?thesis using assms(1) Create by (simp add: create_bond_def slashed_def)
next
  case (Start u b)
  then show ?thesis using assms(1)
    by (auto simp: start_unbonding_def slashed_def is_active_def split: option.split)
next
  case (Complete u b)
  then show ?thesis using assms(1)
    by (auto simp: complete_unbonding_def slashed_def delete_conv' split: option.split)
next
  case (Slash now u r h)
  then show ?thesis using assms(1) by (auto simp: slash_bond_def slashed_def Let_def split: option.split)
next
  case (Params p)
  then show ?thesis using assms(1) by (auto simp: update_slashing_params_def slashed_def)
qed

lemma slashed_run_ops:
  "slashed m v \<Longrightarrow> \<forall>call \<in> set calls. \<forall>a b. call \<noteq> Create v a b \<Longrightarrow> slashed (fold run_op calls m) v"
  by (induction calls arbitrary: m) (auto intro: slashed_run_op)

text \<open>A concrete run for the instances below: a bond is created, slashed and replaced.\<close>

definition toy_bond :: BondInfo where
  "toy_bond = new_bond [1] 1000000000000000 5"

definition toy_bonded :: BondManager where
  "toy_bonded = \<lparr> bonds = [([1], toy_bond)], slashing_params = default_slashing_params, slashing_history = [],
     total_bonded = 1000000000000000 \<rparr>"

lemma toy_create: "create_bond [1] 1000000000000000 5 new_bond_manager = (Inr (), toy_bonded)"
  by (simp add: create_bond_def new_bond_manager_def default_slashing_params_def MIN_BOND_AMOUNT_def
      MAX_BOND_AMOUNT_def has_active_bond_def toy_bonded_def toy_bond_def saturating_add_def checked_add_def)

lemma toy_bonded_reachable: "reachable bond_init bond_step (toy_bonded, 0, 1)"
proof -
  have "reachable bond_init bond_step (new_bond_manager, 0, 0)" by (rule reachable.start) (simp add: bond_init_def)
  note r = reachable.move [OF this bond_step.intros [of new_bond_manager 0 0 "Create [1] 1000000000000000 5"]]
  have "bonds new_bond_manager = []" by (simp add: new_bond_manager_def)
  with r show ?thesis by (simp add: toy_create)
qed

definition toy_slashed_bond :: BondManager where
  "toy_slashed_bond = \<lparr> bonds = [([1], toy_bond\<lparr> amount := 500000000000000, status := Slashed \<rparr>)],
     slashing_params = default_slashing_params, slashing_history = [\<lparr> ev_validator = [1], ev_reason = Equivocation,
       amount_slashed = 500000000000000, block_height = 9, ev_timestamp = 0 \<rparr>], total_bonded = 500000000000000 \<rparr>"

lemma toy_slash: "slash_bond 0 [1] Equivocation 9 toy_bonded = (Inr 500000000000000, toy_slashed_bond)"
  by (simp add: slash_bond_def toy_bonded_def toy_slashed_bond_def toy_bond_def new_bond_def calculate_slash_amount_def
      default_slashing_params_def saturating_mul_def checked_mul_def saturating_sub_def checked_sub_def Let_def)

section \<open>Properties\<close>

text \<open>C14. Accounting: after any sequence of calls the total is the sum of the bonds held plus the
  amounts of slashed or unbonding bonds that a new bond of the same validator has overwritten,
  as long as fewer than about 3.4 * 10^22 bonds have been created.\<close>

theorem bond_accounting:
  assumes "reachable bond_init bond_step (m, lost, n)" "n * 10 ^ 16 < 2 ^ 128"
  shows "unat (total_bonded m) = hm_total (unat \<circ> amount) (bonds m) + lost"
  using bond.inv_reachable [OF assms(1)] assms(2) by (simp add: bond_inv_def)

theorem bond_accounting_witness:
  "unat (total_bonded (run_op (Create [1] 200000000000000 20) toy_slashed_bond)) = 200000000000000 + 500000000000000"
proof -
  let ?m = "run_op (Create [1] 200000000000000 20) toy_slashed_bond"
  have m: "create_bond [1] 200000000000000 20 toy_slashed_bond = (Inr (), toy_slashed_bond\<lparr> bonds :=
      [([1], new_bond [1] 200000000000000 20)], total_bonded := 700000000000000 \<rparr>)"
    by (simp add: create_bond_def toy_slashed_bond_def toy_bond_def default_slashing_params_def MIN_BOND_AMOUNT_def
        MAX_BOND_AMOUNT_def has_active_bond_def is_active_def saturating_add_def checked_add_def)
  have "reachable bond_init bond_step (toy_slashed_bond, 0, 1)"
    using reachable.move [OF toy_bonded_reachable bond_step.intros [of toy_bonded 0 1 "Slash 0 [1] Equivocation 9"]]
    by (simp add: toy_slash)
  from reachable.move [OF this bond_step.intros [of toy_slashed_bond 0 1 "Create [1] 200000000000000 20"]]
  moreover have "map_of (bonds toy_slashed_bond) [1] = Some (toy_bond\<lparr> amount := 500000000000000, status := Slashed \<rparr>)"
    by (simp add: toy_slashed_bond_def)
  ultimately have "reachable bond_init bond_step (?m, 500000000000000, Suc (Suc 0))" by (simp add: m)
  from bond_accounting [OF this] show ?thesis by (simp add: m new_bond_def)
qed

text \<open>C37. A slash takes the configured share of the bond rounded down, never more than the bond, and
  takes exactly that much from the bond and from the total; no other bond changes.  This is in every
  state reached with fewer than about 3.4 * 10^22 bonds created.\<close>

theorem slash_exact:
  assumes "reachable bond_init bond_step (m, lost, n)" "n * 10 ^ 16 < 2 ^ 128" "get_bond m v = Some b"
    and "slash_bond now v r h m = (res, m')"
  shows "\<exists>s b'. res = Inr s \<and> get_bond m' v = Some b' \<and> status b' = Slashed \<and>
    unat s = unat (amount b) * unat (get_slash_pct (slashing_params m) r) div 10000 \<and>
    unat (amount b') + unat s = unat (amount b) \<and> unat (total_bonded m') + unat s = unat (total_bonded m) \<and>
    (\<forall>u. u \<noteq> v \<longrightarrow> get_bond m' u = get_bond m u)"
proof -
  have inv: "bond_inv (m, lost, n)" by (rule bond.inv_reachable [OF assms(1)])
  have b: "map_of (bonds m) v = Some b" using assms(3) by (simp add: get_bond_def)
  let ?s = "calculate_slash_amount (slashing_params m) (amount b) r"
  have "params_ok (slashing_params m)" "amount b \<le> MAX_BOND_AMOUNT" using inv b by (auto simp: bond_inv_def bond_ok_def)
  note s = slash_amount_exact [OF this, of r]
  have "unat (amount b) \<le> unat (total_bonded m)"
    using inv assms(2) hm_total_member [OF b, of "unat \<circ> amount"] by (simp add: bond_inv_def)
  then show ?thesis using assms(4) b s
    by (auto simp: slash_bond_def Let_def get_bond_def unat_saturating_sub)
qed

theorem slash_exact_witness:
  "\<exists>s b'. fst (slash_bond 0 [1] Equivocation 9 toy_bonded) = Inr s \<and> get_bond toy_slashed_bond [1] = Some b' \<and>
    unat s = 500000000000000 \<and> unat (amount b') + unat s = 1000000000000000"
proof -
  have g: "get_bond toy_bonded [1] = Some toy_bond" by (simp add: get_bond_def toy_bonded_def)
  have c: "unat (amount toy_bond) = 1000000000000000" "get_slash_pct (slashing_params toy_bonded) Equivocation = 5000"
    by (simp_all add: toy_bond_def new_bond_def toy_bonded_def default_slashing_params_def)
  show ?thesis using slash_exact [OF toy_bonded_reachable _ g toy_slash] by (auto simp: toy_slash c)
qed

text \<open>Release of a bond: once unbonding starts at block \<open>b\<close>, the bond is paid out in full and
  removed at every block from \<open>b\<close> plus the unbonding period on, and before that refused without any
  change.\<close>

theorem release_after_period:
  assumes "get_bond m v = Some x" "status x = Active" "unat b + 21600 < 2 ^ 64"
    and "start_unbonding v b m = (r, m')" "complete_unbonding v c m' = (res, m'')"
  shows "if unat b + 21600 \<le> unat c then res = Inr (amount x) \<and> get_bond m'' v = None
    else res = Inl PeriodNotComplete \<and> m'' = m'"
proof -
  have "unat (b + UNBONDING_PERIOD_BLOCKS) = unat b + 21600"
    using assms(3) by (subst unat_add_lem [THEN iffD1]) (simp_all add: UNBONDING_PERIOD_BLOCKS_def)
  then have iff: "b + UNBONDING_PERIOD_BLOCKS \<le> c \<longleftrightarrow> unat b + 21600 \<le> unat c" by (simp add: word_le_nat_alt)
  have "m' = m\<lparr> bonds := AList.update v (bond_start_unbonding b x) (bonds m) \<rparr>"
    using assms(1,2,4) by (simp add: start_unbonding_def get_bond_def is_active_def)
  then show ?thesis using assms(5)
    by (auto simp: complete_unbonding_def is_unbonding_complete_def bond_start_unbonding_def iff get_bond_def
        delete_conv' split: if_splits)
qed

theorem release_after_period_witness:
  "fst (complete_unbonding [1] 21610 (snd (start_unbonding [1] 10 toy_bonded))) = Inr 1000000000000000 \<and>
   fst (complete_unbonding [1] 21609 (snd (start_unbonding [1] 10 toy_bonded))) = Inl PeriodNotComplete"
proof -
  obtain r m' where s: "start_unbonding [1] 10 toy_bonded = (r, m')" by fastforce
  obtain r1 m1 r2 m2 where c: "complete_unbonding [1] 21610 m' = (r1, m1)" "complete_unbonding [1] 21609 m' = (r2, m2)"
    by fastforce
  have g: "get_bond toy_bonded [1] = Some toy_bond" "status toy_bond = Active"
    by (simp_all add: get_bond_def toy_bonded_def toy_bond_def new_bond_def)
  show ?thesis using release_after_period [OF g _ s c(1)] release_after_period [OF g _ s c(2)] s c
    by (simp add: toy_bond_def new_bond_def)
qed

text \<open>What remains of a slashed bond is never paid out: no sequence of calls other than the
  creation of a new bond by the same validator leads to a successful release.\<close>

theorem slashed_never_released:
  assumes "slashed m v" "\<forall>call \<in> set calls. \<forall>a b. call \<noteq> Create v a b"
  shows "fst (complete_unbonding v c (fold run_op calls m)) = Inl NotUnbonding \<and>
    fst (start_unbonding v c (fold run_op calls m)) = Inl NotActive"
  using slashed_run_ops [OF assms] by (auto simp: slashed_def complete_unbonding_def start_unbonding_def is_active_def)

theorem slashed_never_released_witness:
  "fst (complete_unbonding [1] 99999 (fold run_op [Start [1] 10, Slash 0 [1] DoubleVote 11, Create [2] 200000000000000 1]
      toy_slashed_bond)) = Inl NotUnbonding"
proof -
  have "slashed toy_slashed_bond [1]" by (simp add: slashed_def toy_slashed_bond_def)
  from slashed_never_released [OF this, of "[Start [1] 10, Slash 0 [1] DoubleVote 11, Create [2] 200000000000000 1]" 99999]
  show ?thesis by simp
qed

end
