(* ===== verification/Core_Types.thy ===== *)
theory Core_Types
  imports Rust_Prelude
begin

text \<open>
  The ledger's basic types (\<open>savitri-core/src/core/types.rs\<close>): transactions with their hash, fee
  limits, and accounts with their stored encoding and guarded updates.  The hash function is a
  parameter, the clock an argument.
\<close>

section \<open>Transactions\<close>

record Transaction =
  tx_from :: string
  tx_to :: string
  tx_amount :: u64
  tx_nonce :: u64
  tx_fee :: u64
  tx_signature :: bytes
  tx_data :: bytes
  tx_timestamp :: u64
  tx_pubkey :: bytes
  tx_sig :: bytes
  pre_verified :: bool

definition tx_hash :: "crypto \<Rightarrow> Transaction \<Rightarrow> bytes" where
  "tx_hash cr t = blake3 cr (str_bytes (tx_from t) @ str_bytes (tx_to t) @ le_bytes 8 (tx_amount t) @
     le_bytes 8 (tx_nonce t) @ le_bytes 8 (tx_fee t) @ tx_data t @ le_bytes 8 (tx_timestamp t))"

definition new_transaction :: "u64 \<Rightarrow> string \<Rightarrow> string \<Rightarrow> u64 \<Rightarrow> u64 \<Rightarrow> u64 \<Rightarrow> Transaction" where
  "new_transaction now from_addr to_addr amount nonce fee = \<lparr> tx_from = from_addr, tx_to = to_addr,
     tx_amount = amount, tx_nonce = nonce, tx_fee = fee, tx_signature = replicate 64 0, tx_data = [],
     tx_timestamp = now, tx_pubkey = [], tx_sig = [], pre_verified = False \<rparr>"

section \<open>Fee limits\<close>

record FeeLimits =
  min_fee :: u128
  max_fee_limit :: u128

definition validate_fee :: "FeeLimits \<Rightarrow> u128 \<Rightarrow> bool" where
  "validate_fee l fee \<longleftrightarrow> min_fee l \<le> fee \<and> fee \<le> max_fee_limit l"

definition default_fee_limits :: FeeLimits where
  "default_fee_limits = \<lparr> min_fee = 100000000000000, max_fee_limit = 1000000000000000000 \<rparr>"

section \<open>Accounts\<close>

record Account =
  balance :: u128
  acc_nonce :: u64

datatype AccountError = InvalidLength nat | BalanceOverflow | BalanceUnderflow | NonceOverflow

definition encode_account :: "Account \<Rightarrow> bytes" where
  "encode_account a = le_bytes 16 (balance a) @ le_bytes 8 (acc_nonce a)"

definition decode_account :: "bytes \<Rightarrow> AccountError + Account" where
  "decode_account bs =
    (if length bs = 24 then Inr \<lparr> balance = from_le_bytes (take 16 bs), acc_nonce = from_le_bytes (drop 16 bs) \<rparr>
     else if length bs = 16 then Inr \<lparr> balance = from_le_bytes bs, acc_nonce = 0 \<rparr>
     else Inl (InvalidLength (length bs)))"

definition credit :: "u128 \<Rightarrow> Account \<Rightarrow> AccountError + Account" where
  "credit amt a = (case checked_add (balance a) amt of
      None \<Rightarrow> Inl BalanceOverflow | Some b \<Rightarrow> Inr (a\<lparr> balance := b \<rparr>))"

definition debit :: "u128 \<Rightarrow> Account \<Rightarrow> AccountError + Account" where
  "debit amt a = (case checked_sub (balance a) amt of
      None \<Rightarrow> Inl BalanceUnderflow | Some b \<Rightarrow> Inr (a\<lparr> balance := b \<rparr>))"

definition increment_nonce :: "Account \<Rightarrow> AccountError + Account" where
  "increment_nonce a = (case checked_add (acc_nonce a) 1 of
      None \<Rightarrow> Inl NonceOverflow | Some n \<Rightarrow> Inr (a\<lparr> acc_nonce := n \<rparr>))"

definition set_nonce :: "u64 \<Rightarrow> Account \<Rightarrow> Account" where
  "set_nonce n a = a\<lparr> acc_nonce := n \<rparr>"

section \<open>Lemmas\<close>

text \<open>A transfer that succeeds on both sides conserves the sum of the balances.\<close>

lemma debit_credit_conserve:
  assumes "debit amt a = Inr a'" "credit amt b = Inr b'"
  shows "unat (balance a') + unat (balance b') = unat (balance a) + unat (balance b)"
    and "unat amt \<le> unat (balance a)"
proof -
  from assms(1) have "checked_sub (balance a) amt = Some (balance a')" by (auto simp: debit_def split: option.splits)
  moreover from assms(2) have "checked_add (balance b) amt = Some (balance b')" by (auto simp: credit_def split: option.splits)
  ultimately show "unat (balance a') + unat (balance b') = unat (balance a) + unat (balance b)"
    "unat amt \<le> unat (balance a)" by (auto simp: rust_int)
qed

section \<open>Properties\<close>

text \<open>The stored form of accounts: decoding inverts encoding, every 24 bytes are the encoding of
  the account they decode to, 16 bytes are a balance with nonce 0, and any other length is an
  error.\<close>

theorem account_codec:
  "decode_account (encode_account a) = Inr a \<and>
   (case decode_account bs of
      Inr b \<Rightarrow> (length bs = 24 \<and> encode_account b = bs) \<or> (length bs = 16 \<and> encode_account b = bs @ replicate 8 0)
    | Inl e \<Rightarrow> e = InvalidLength (length bs) \<and> length bs \<noteq> 16 \<and> length bs \<noteq> 24)"
proof
  show "decode_account (encode_account a) = Inr a"
    by (simp add: decode_account_def encode_account_def from_le_bytes_le_bytes take_bit_word_eq_self)
  show "case decode_account bs of
      Inr b \<Rightarrow> (length bs = 24 \<and> encode_account b = bs) \<or> (length bs = 16 \<and> encode_account b = bs @ replicate 8 0)
    | Inl e \<Rightarrow> e = InvalidLength (length bs) \<and> length bs \<noteq> 16 \<and> length bs \<noteq> 24"
    using le_bytes_from_le_bytes [of "take 16 bs", where 'a = 128] le_bytes_from_le_bytes [of "drop 16 bs", where 'a = 64]
      le_bytes_from_le_bytes [of bs, where 'a = 128]
    by (auto simp: decode_account_def encode_account_def le_bytes_zero)
qed

text \<open>The hash of a transaction does not separate its variable-length fields: moving characters
  from the sender to the receiver leaves the hash unchanged.\<close>

theorem tx_hash_ambiguous:
  "tx_hash cr (t\<lparr> tx_from := a @ b, tx_to := c \<rparr>) = tx_hash cr (t\<lparr> tx_from := a, tx_to := b @ c \<rparr>)"
  by (simp add: tx_hash_def str_bytes_def)

end
