(* ===== verification/Mempool_Types.thy ===== *)
theory Mempool_Types
  imports Core_Types
begin

text \<open>
  Shared types of the mempool: \<open>savitri-mempool/src/mempool/types.rs\<close> and \<open>nonce_limits.rs\<close>.
  Instants and durations are natural numbers of nanoseconds, with the saturating difference of
  \<open>Instant::duration_since\<close>.  SHA-256 is a function argument, the signature scheme the record
  \<open>crypto\<close>; the order in which a \<open>HashMap\<close> is iterated is an argument where the result can
  depend on it.
\<close>

definition secs :: "nat \<Rightarrow> nat" where
  "secs n = n * 1000000000"

section \<open>Transaction classes\<close>

datatype TxClass = Financial | IoTData | FederatedUpdate | System

definition slice :: "nat \<Rightarrow> nat \<Rightarrow> bytes \<Rightarrow> bytes" where
  "slice a b bs = take (b - a) (drop a bs)"

text \<open>The scores entered for a transaction, in the order of the \<open>insert\<close> calls; a later one for the
  same class overwrites.\<close>

definition class_scores :: "bytes \<Rightarrow> (TxClass \<times> nat) list" where
  "class_scores bs =
    (let n = length bs;
         m = [];
         m = (if 40 \<le> n \<and> (from_le_bytes (slice 32 40 bs) :: u64) < 1000 \<and> 64 < n then AList.update IoTData 3 m else m);
         m = (if 1024 < n then AList.update FederatedUpdate 2 m else m);
         m = (if 64 \<le> n \<and> list_all (\<lambda>b. b = 0) (slice 16 48 bs) then AList.update System 5 m else m);
         m = (if 64 \<le> n \<and> 68 \<le> n \<and> slice 64 68 bs = [0xFF, 0xFF, 0xFF, 0xFF] then AList.update System 4 m else m);
         m = (if 100 < n \<and> slice 96 100 bs \<in> set [[0x12, 0x34, 0x56, 0x78], [0x87, 0x65, 0x43, 0x21], [0xAB, 0xCD, 0xEF, 0x01]]
              then AList.update FederatedUpdate 4 m else m)
     in m)"

text \<open>\<open>Iterator::max_by_key\<close>: the last element with the largest key.\<close>

fun max_by_score :: "(TxClass \<times> nat) list \<Rightarrow> (TxClass \<times> nat) option" where
  "max_by_score [] = None"
| "max_by_score (x # xs) = (case max_by_score xs of
     None \<Rightarrow> Some x | Some y \<Rightarrow> Some (if snd y < snd x then x else y))"

definition from_tx_bytes :: "((TxClass \<times> nat) list \<Rightarrow> (TxClass \<times> nat) list) \<Rightarrow> bytes \<Rightarrow> TxClass" where
  "from_tx_bytes iter bs =
    (if length bs < 32 then Financial
     else case max_by_score (iter (class_scores bs)) of
            Some (c, score) \<Rightarrow> if 2 \<le> score then c else Financial
          | None \<Rightarrow> Financial)"

fun priority_score :: "TxClass \<Rightarrow> u8" where
  "priority_score System = 4"
| "priority_score FederatedUpdate = 3"
| "priority_score IoTData = 2"
| "priority_score Financial = 1"

section \<open>Transactions in the pool\<close>

type_synonym SenderId = u32
type_synonym TxHandle = u64

record PrevalidatedTx =
  sender_id :: SenderId
  sender_address :: bytes
  nonce :: u64
  max_fee :: u64
  pv_amount :: u64
  tx_handle :: TxHandle
  tx_class :: TxClass
  stream_nonce :: "u64 option"

record MempoolTx =
  m_sender_id :: SenderId
  m_nonce :: u64
  m_fee :: u64
  m_tx_handle :: TxHandle
  m_class :: TxClass
  m_stream_nonce :: "u64 option"
  m_inserted :: nat
  m_tx_hash :: "bytes option"
  m_sender_address :: bytes
  m_signature_hash :: bytes
  m_gas_limit :: u64
  m_max_fee :: u64
  m_received_at :: nat
  m_rpc_accepted :: bool

definition mempool_tx_from :: "nat \<Rightarrow> PrevalidatedTx \<Rightarrow> MempoolTx" where
  "mempool_tx_from now p = \<lparr> m_sender_id = sender_id p, m_nonce = nonce p, m_fee = max_fee p, m_tx_handle = tx_handle p,
     m_class = tx_class p, m_stream_nonce = stream_nonce p, m_inserted = now, m_tx_hash = None,
     m_sender_address = sender_address p, m_signature_hash = replicate 32 0, m_gas_limit = 0,
     m_max_fee = max_fee p, m_received_at = now, m_rpc_accepted = False \<rparr>"

definition new_with_security_fields ::
  "nat \<Rightarrow> SenderId \<Rightarrow> bytes \<Rightarrow> u64 \<Rightarrow> u64 \<Rightarrow> u64 \<Rightarrow> u64 \<Rightarrow> TxHandle \<Rightarrow> TxClass \<Rightarrow> bytes \<Rightarrow> u64 option \<Rightarrow> MempoolTx" where
  "new_with_security_fields now s addr n fee mfee gas h c sighash sn =
    \<lparr> m_sender_id = s, m_nonce = n, m_fee = fee, m_tx_handle = h, m_class = c, m_stream_nonce = sn,
      m_inserted = now, m_tx_hash = None, m_sender_address = addr, m_signature_hash = sighash,
      m_gas_limit = gas, m_max_fee = mfee, m_received_at = now, m_rpc_accepted = False \<rparr>"

definition conflicts_with :: "MempoolTx \<Rightarrow> MempoolTx \<Rightarrow> bool" where
  "conflicts_with a b \<longleftrightarrow> m_sender_address a = m_sender_address b \<and> m_nonce a = m_nonce b"

definition has_higher_priority_than :: "MempoolTx \<Rightarrow> MempoolTx \<Rightarrow> bool" where
  "has_higher_priority_than a b =
    (if m_fee a \<noteq> m_fee b then m_fee b < m_fee a else m_received_at a < m_received_at b)"

section \<open>Contract calls\<close>

record CallTransaction =
  c_caller :: bytes
  c_pubkey :: bytes
  c_calldata :: bytes
  c_nonce :: u64
  c_fee :: u64
  c_sig :: bytes
  c_pre_verified :: bool
  c_function_selector :: bytes
  c_contract_address :: bytes
  c_call_data :: bytes
  c_value :: u128
  c_gas_limit :: u64
  c_timestamp :: u64

datatype CallError =
  ZeroContract | BadContractLength | BadSelector | CallDataTooLarge | ValueTooLarge
  | ZeroGas | GasTooHigh | FutureTimestamp | OldTimestamp

definition verify_call :: "u64 \<Rightarrow> CallTransaction \<Rightarrow> CallError + unit" where
  "verify_call now c =
    (if list_all (\<lambda>b. b = 0) (c_contract_address c) then Inl ZeroContract
     else if length (c_contract_address c) \<noteq> 20 \<and> length (c_contract_address c) \<noteq> 32 then Inl BadContractLength
     else if length (c_function_selector c) \<noteq> 4 then Inl BadSelector
     else if 100000 < length (c_call_data c) then Inl CallDataTooLarge
     else if max_value div 2 < c_value c then Inl ValueTooLarge
     else if c_gas_limit c = 0 then Inl ZeroGas
     else if 10000000 < c_gas_limit c then Inl GasTooHigh
     else if now + 300 < c_timestamp c then Inl FutureTimestamp
     else if c_timestamp c < saturating_sub now 3600 then Inl OldTimestamp
     else Inr ())"

definition estimate_gas_cost :: "CallTransaction \<Rightarrow> u64" where
  "estimate_gas_cost c = 21000 + word_of_nat (length (c_call_data c)) * 16
     + (if length (c_contract_address c) = 20 then 6000 else 0)"

definition call_total_cost :: "u64 \<Rightarrow> CallTransaction \<Rightarrow> u128" where
  "call_total_cost gas_price c = ucast (c_gas_limit c) * ucast gas_price + c_value c"

section \<open>Signed transfers\<close>

record SignedTx =
  s_from :: bytes
  s_to :: bytes
  s_amount :: u64
  s_nonce :: u64
  s_fee :: u64
  s_pubkey :: bytes
  s_sig :: bytes
  s_pre_verified :: bool

datatype SignedTxError =
  ZeroFrom | ZeroTo | BadFromLength | BadToLength | BadKeyLength | BadSigLength | ZeroAmount | AmountTooLarge
  | ZeroFee | FeeTooHigh | NonceTooLarge | BadSignature

definition signed_message :: "SignedTx \<Rightarrow> bytes" where
  "signed_message tx = s_from tx @ s_to tx @ le_bytes 8 (s_amount tx) @ le_bytes 8 (s_nonce tx) @ le_bytes 8 (s_fee tx)"

definition verify_signed_tx :: "crypto \<Rightarrow> (bytes \<Rightarrow> bytes) \<Rightarrow> SignedTx \<Rightarrow> SignedTxError + unit" where
  "verify_signed_tx cr sha256 tx =
    (if list_all (\<lambda>b. b = 0) (s_from tx) then Inl ZeroFrom
     else if list_all (\<lambda>b. b = 0) (s_to tx) then Inl ZeroTo
     else if length (s_from tx) \<noteq> 32 then Inl BadFromLength
     else if length (s_to tx) \<noteq> 32 then Inl BadToLength
     else if length (s_pubkey tx) \<noteq> 32 then Inl BadKeyLength
     else if length (s_sig tx) \<noteq> 64 then Inl BadSigLength
     else if s_amount tx = 0 then Inl ZeroAmount
     else if max_value div 2 < s_amount tx then Inl AmountTooLarge
     else if s_fee tx = 0 then Inl ZeroFee
     else if 1000000000 < s_fee tx then Inl FeeTooHigh
     else if max_value div 2 < s_nonce tx then Inl NonceTooLarge
     else if verify_with cr (s_pubkey tx) (sha256 (signed_message tx)) (s_sig tx) then Inr () else Inl BadSignature)"

definition signed_tx_hash :: "(bytes \<Rightarrow> bytes) \<Rightarrow> SignedTx \<Rightarrow> bytes" where
  "signed_tx_hash sha256 tx = sha256 (signed_message tx @ s_pubkey tx @ s_sig tx)"

definition signed_total_cost :: "SignedTx \<Rightarrow> u128" where
  "signed_total_cost tx = ucast (s_amount tx) + ucast (s_fee tx)"

section \<open>Nonce limits\<close>

definition PREVALIDATION_NONCE_WINDOW :: u64 where "PREVALIDATION_NONCE_WINDOW = 3500"
definition QUEUED_POOL_MAX_NONCE_GAP :: u64 where "QUEUED_POOL_MAX_NONCE_GAP = 3000"
definition ADMISSION_MAX_MAIN_POOL_NONCE_GAP :: u64 where "ADMISSION_MAX_MAIN_POOL_NONCE_GAP = 3000"
definition ADMISSION_MAX_MAIN_POOL_NONCE_GAP_RPC :: u64 where "ADMISSION_MAX_MAIN_POOL_NONCE_GAP_RPC = 100000"

section \<open>Facts\<close>

lemma max_by_score_None [simp]: "max_by_score xs = None \<longleftrightarrow> xs = []"
  by (cases xs) (auto split: option.splits)

lemma max_by_score_max: "max_by_score xs = Some y \<Longrightarrow> y \<in> set xs \<and> (\<forall>x \<in> set xs. snd x \<le> snd y)"
  by (induction xs arbitrary: y) (fastforce split: option.splits if_splits)+

text \<open>The class is well determined when one score is strictly the largest, whatever the iteration
  order, and is decided by the order when two classes tie.\<close>

lemma from_tx_bytes_unique:
  assumes "mset (iter (class_scores bs)) = mset (class_scores bs)" "32 \<le> length bs"
    and "(c, k) \<in> set (class_scores bs)" "2 \<le> k" "\<forall>(d, j) \<in> set (class_scores bs). d \<noteq> c \<longrightarrow> j < k"
  shows "from_tx_bytes iter bs = c"
proof -
  have s: "set (iter (class_scores bs)) = set (class_scores bs)" using assms(1) by (metis set_mset_mset)
  then have "iter (class_scores bs) \<noteq> []" using assms(3) by auto
  then obtain d j where dj: "max_by_score (iter (class_scores bs)) = Some (d, j)" by (metis max_by_score_None option.exhaust surj_pair)
  have "(d, j) \<in> set (class_scores bs)" "k \<le> j" using max_by_score_max [OF dj] s assms(3) by auto
  moreover from this have "d = c" using assms(5) by fastforce
  ultimately show ?thesis using dj assms(2,4) by (simp add: from_tx_bytes_def)
qed

lemma from_tx_bytes_tie:
  fixes bs :: bytes
  defines "bs \<equiv> replicate 64 1 @ replicate 4 0xFF @ replicate 28 0 @ [0x12, 0x34, 0x56, 0x78] @ [0]"
  shows "from_tx_bytes id bs = FederatedUpdate" "from_tx_bytes rev bs = System"
  unfolding bs_def by code_simp+

text \<open>Of two conflicting transactions with different fees or arrival times exactly one has priority.\<close>

lemma priority_total:
  "has_higher_priority_than a b \<Longrightarrow> \<not> has_higher_priority_than b a"
  "\<not> has_higher_priority_than a b \<Longrightarrow> \<not> has_higher_priority_than b a \<Longrightarrow> m_fee a = m_fee b \<and> m_received_at a = m_received_at b"
  by (auto simp: has_higher_priority_than_def split: if_splits)

lemma signed_total_cost_exact: "unat (signed_total_cost tx) = unat (s_amount tx) + unat (s_fee tx)"
proof -
  have "unat (s_amount tx) < 2 ^ 64" "unat (s_fee tx) < 2 ^ 64" using unat_bound [of "s_amount tx"] unat_bound [of "s_fee tx"] by simp_all
  then show ?thesis
    unfolding signed_total_cost_def by (subst unat_add_lem [THEN iffD1]) (simp_all add: unat_ucast_mod)
qed

text \<open>The sender of a verified transfer is not tied to the key that signed it: the address only
  enters the message.\<close>

lemma signed_tx_any_key:
  assumes "verify_signed_tx cr sha256 tx = Inr ()" "length pk = 32" "length sg = 64"
    and "verify_with cr pk (sha256 (signed_message tx)) sg"
  shows "verify_signed_tx cr sha256 (tx\<lparr> s_pubkey := pk, s_sig := sg \<rparr>) = Inr ()"
  using assms by (simp add: verify_signed_tx_def signed_message_def split: if_splits)

end
