(* ===== verification/Queued_Pool.thy ===== *)
theory Queued_Pool
  imports Mempool_Types
begin

text \<open>
  Transactions waiting for a nonce gap to close: the queued pool of
  \<open>savitri-mempool/src/mempool/queued_pool.rs\<close>.  The current instant is an
  argument.  The pool is used under its owner's
  lock, so a call is one step.
\<close>

section \<open>State\<close>

record QueuedPoolConfig =
  max_per_account :: nat
  max_total :: nat
  max_nonce_gap :: u64
  ttl :: nat
  cleanup_interval :: nat

definition default_queued_pool_config :: QueuedPoolConfig where
  "default_queued_pool_config = \<lparr> max_per_account = 3000, max_total = 30000,
     max_nonce_gap = QUEUED_POOL_MAX_NONCE_GAP, ttl = secs 300, cleanup_interval = secs 30 \<rparr>"

record QueuedTx =
  pv :: PrevalidatedTx
  q_tx_hash :: "bytes option"
  queued_at :: nat
  account_nonce_at_queue :: u64

record AccountQueue =
  txs :: "(u64 \<times> QueuedTx) list"
  q_sender_address :: bytes

definition new_account_queue :: "bytes \<Rightarrow> AccountQueue" where
  "new_account_queue addr = \<lparr> txs = [], q_sender_address = addr \<rparr>"

record QueuedPoolStats =
  total_queued :: nat
  accounts_with_queued :: nat
  total_promoted :: u64
  total_expired :: u64
  total_rejected_full :: u64
  total_rejected_gap_too_large :: u64

record QueuedPool =
  qp_config :: QueuedPoolConfig
  accounts :: "(SenderId \<times> AccountQueue) list"
  pool_total :: nat
  last_cleanup :: nat
  stats :: QueuedPoolStats

datatype QueuedPoolError =
  NonceGapTooLarge u64 u64 u64
  | PoolFull nat nat
  | AccountQueueFull SenderId nat nat
  | DuplicateNonce u64 SenderId

definition new_queued_pool :: "nat \<Rightarrow> QueuedPoolConfig \<Rightarrow> QueuedPool" where
  "new_queued_pool now cfg = \<lparr> qp_config = cfg, accounts = [], pool_total = 0, last_cleanup = now,
     stats = \<lparr> total_queued = 0, accounts_with_queued = 0, total_promoted = 0, total_expired = 0,
       total_rejected_full = 0, total_rejected_gap_too_large = 0 \<rparr> \<rparr>"

section \<open>Operations\<close>

definition set_counts :: "QueuedPool \<Rightarrow> QueuedPool" where
  "set_counts p = p\<lparr> stats := (stats p)\<lparr> total_queued := pool_total p, accounts_with_queued := length (accounts p) \<rparr> \<rparr>"

definition count_full :: "QueuedPool \<Rightarrow> QueuedPool" where
  "count_full p = p\<lparr> stats := (stats p)\<lparr> total_rejected_full := total_rejected_full (stats p) + 1 \<rparr> \<rparr>"

text \<open>The queue of a sender after \<open>entry(...).or_insert_with(...)\<close>.\<close>

definition account_queue :: "QueuedPool \<Rightarrow> PrevalidatedTx \<Rightarrow> AccountQueue" where
  "account_queue p tx = (case map_of (accounts p) (sender_id tx) of
      None \<Rightarrow> new_account_queue (sender_address tx) | Some q \<Rightarrow> q)"

definition put_queue :: "SenderId \<Rightarrow> AccountQueue \<Rightarrow> QueuedPool \<Rightarrow> QueuedPool" where
  "put_queue s q p = p\<lparr> accounts := AList.update s q (accounts p) \<rparr>"

definition try_queue ::
  "nat \<Rightarrow> PrevalidatedTx \<Rightarrow> bytes option \<Rightarrow> u64 \<Rightarrow> QueuedPool \<Rightarrow> (QueuedPoolError + unit) \<times> QueuedPool" where
  "try_queue now tx hash account_nonce p =
    (let gap = saturating_sub (nonce tx) account_nonce;
         q = account_queue p tx;
         p1 = put_queue (sender_id tx) q p;
         item = \<lparr> pv = tx, q_tx_hash = hash, queued_at = now, account_nonce_at_queue = account_nonce \<rparr>;
         p2 = put_queue (sender_id tx) (q\<lparr> txs := bt_insert (nonce tx) item (txs q) \<rparr>) p
     in if max_nonce_gap (qp_config p) < gap
        then (Inl (NonceGapTooLarge (nonce tx) account_nonce (max_nonce_gap (qp_config p))),
              p\<lparr> stats := (stats p)\<lparr> total_rejected_gap_too_large := total_rejected_gap_too_large (stats p) + 1 \<rparr> \<rparr>)
        else if max_total (qp_config p) \<le> pool_total p
        then (Inl (PoolFull (pool_total p) (max_total (qp_config p))), count_full p)
        else if max_per_account (qp_config p) \<le> length (txs q)
        then (Inl (AccountQueueFull (sender_id tx) (length (txs q)) (max_per_account (qp_config p))), count_full p1)
        else case map_of (txs q) (nonce tx) of
               Some existing \<Rightarrow>
                 if max_fee (pv existing) < max_fee tx then (Inr (), p2)
                 else (Inl (DuplicateNonce (nonce tx) (sender_id tx)), p1)
             | None \<Rightarrow> (Inr (), set_counts (p2\<lparr> pool_total := pool_total p + 1 \<rparr>)))"

text \<open>The loop of \<open>promote\<close> over a queue in nonce order: the nonces to remove and the entries promoted.\<close>

fun promote_scan :: "u64 \<Rightarrow> u64 \<Rightarrow> (u64 \<times> QueuedTx) list \<Rightarrow> u64 list \<times> (PrevalidatedTx \<times> bytes option) list" where
  "promote_scan new_nonce next_expected [] = ([], [])"
| "promote_scan new_nonce next_expected ((n, q) # xs) =
    (if n < new_nonce then
       let (rm, pr) = promote_scan new_nonce next_expected xs in (n # rm, pr)
     else if n = next_expected then
       let (rm, pr) = promote_scan new_nonce (next_expected + 1) xs in (n # rm, (pv q, q_tx_hash q) # pr)
     else ([], []))"

definition promote :: "SenderId \<Rightarrow> u64 \<Rightarrow> QueuedPool \<Rightarrow> (PrevalidatedTx \<times> bytes option) list \<times> QueuedPool" where
  "promote s new_account_nonce p = (case map_of (accounts p) s of
      None \<Rightarrow> ([], p)
    | Some q \<Rightarrow>
        let (to_remove, promoted) = promote_scan new_account_nonce new_account_nonce (txs q);
            q' = q\<lparr> txs := fold AList.delete to_remove (txs q) \<rparr>;
            p' = p\<lparr> accounts := (if txs q' = [] then AList.delete s (accounts p) else AList.update s q' (accounts p)),
                    pool_total := pool_total p - length to_remove,
                    stats := (stats p)\<lparr> total_promoted := total_promoted (stats p) + word_of_nat (length promoted) \<rparr> \<rparr>
        in (sort_key (\<lambda>(tx, _). nonce tx) promoted, set_counts p'))"

fun promote_batch :: "(SenderId \<times> u64) list \<Rightarrow> QueuedPool \<Rightarrow> (PrevalidatedTx \<times> bytes option) list \<times> QueuedPool" where
  "promote_batch [] p = ([], p)"
| "promote_batch ((s, n) # us) p =
    (let (xs, p) = promote s n p; (ys, p) = promote_batch us p in (xs @ ys, p))"

definition retain_fresh :: "nat \<Rightarrow> nat \<Rightarrow> AccountQueue \<Rightarrow> AccountQueue" where
  "retain_fresh now ttl' q = q\<lparr> txs := filter (\<lambda>(_, x). now - queued_at x < ttl') (txs q) \<rparr>"

definition cleanup_expired :: "nat \<Rightarrow> QueuedPool \<Rightarrow> QueuedPool" where
  "cleanup_expired now p =
    (if now - last_cleanup p < cleanup_interval (qp_config p) then p
     else let kept = map (\<lambda>(s, q). (s, retain_fresh now (ttl (qp_config p)) q)) (accounts p);
              removed = sum_list (map (\<lambda>(s, q). length (txs q) - length (txs (retain_fresh now (ttl (qp_config p)) q)))
                (accounts p))
          in set_counts (p\<lparr> last_cleanup := now, accounts := filter (\<lambda>(s, q). txs q \<noteq> []) kept,
               pool_total := pool_total p - removed,
               stats := (stats p)\<lparr> total_expired := total_expired (stats p) + word_of_nat removed \<rparr> \<rparr>))"

section \<open>Invariant\<close>

definition queue_wf :: "SenderId \<Rightarrow> AccountQueue \<Rightarrow> bool" where
  "queue_wf s q \<longleftrightarrow> bt_wf (txs q) \<and> (\<forall>(n, x) \<in> set (txs q). nonce (pv x) = n \<and> sender_id (pv x) = s)"

text \<open>Every counter of the pool is exact and every limit is kept.\<close>

definition pool_wf :: "QueuedPool \<Rightarrow> bool" where
  "pool_wf p \<longleftrightarrow> hm_wf (accounts p)
    \<and> (\<forall>(s, q) \<in> set (accounts p). queue_wf s q \<and> length (txs q) \<le> max_per_account (qp_config p))
    \<and> pool_total p = hm_total (\<lambda>q. length (txs q)) (accounts p)
    \<and> pool_total p \<le> max_total (qp_config p)"

definition queued :: "QueuedPool \<Rightarrow> SenderId \<Rightarrow> u64 \<Rightarrow> QueuedTx option" where
  "queued p s n = (case map_of (accounts p) s of None \<Rightarrow> None | Some q \<Rightarrow> map_of (txs q) n)"

inductive qp_step :: "QueuedPool \<Rightarrow> QueuedPool \<Rightarrow> bool" where
  queue: "qp_step p (snd (try_queue now tx h account_nonce p))"
| promote: "qp_step p (snd (promote s n p))"
| cleanup: "qp_step p (cleanup_expired now p)"

lemma pool_config_simps [simp]:
  "qp_config (set_counts p) = qp_config p" "accounts (set_counts p) = accounts p" "pool_total (set_counts p) = pool_total p"
  "qp_config (count_full p) = qp_config p" "accounts (count_full p) = accounts p" "pool_total (count_full p) = pool_total p"
  "qp_config (put_queue s q p) = qp_config p" "accounts (put_queue s q p) = AList.update s q (accounts p)"
  "pool_total (put_queue s q p) = pool_total p"
  by (simp_all add: set_counts_def count_full_def put_queue_def)

lemma pool_wf_cong:
  "qp_config p = qp_config r \<Longrightarrow> accounts p = accounts r \<Longrightarrow> pool_total p = pool_total r \<Longrightarrow> pool_wf p \<longleftrightarrow> pool_wf r"
  by (simp add: pool_wf_def)

lemma pool_wf_queue:
  assumes "pool_wf p" "map_of (accounts p) s = Some q"
  shows "queue_wf s q" "length (txs q) \<le> max_per_account (qp_config p)"
proof -
  have "\<forall>(t, u) \<in> set (accounts p). queue_wf t u \<and> length (txs u) \<le> max_per_account (qp_config p)"
    using assms(1) unfolding pool_wf_def by blast
  then have "queue_wf s q \<and> length (txs q) \<le> max_per_account (qp_config p)"
    using map_of_SomeD [OF assms(2)] by blast
  then show "queue_wf s q" "length (txs q) \<le> max_per_account (qp_config p)" by blast+
qed

lemma queue_wf_new: "queue_wf s (new_account_queue a)" "txs (new_account_queue a) = []"
  by (simp_all add: queue_wf_def new_account_queue_def)

lemma queue_wf_filter: "queue_wf s q \<Longrightarrow> queue_wf s (q\<lparr> txs := filter P (txs q) \<rparr>)"
  by (auto simp: queue_wf_def strict_sorted_filter)

lemma queue_wf_insert:
  "queue_wf s q \<Longrightarrow> nonce (pv x) = n \<Longrightarrow> sender_id (pv x) = s \<Longrightarrow> queue_wf s (q\<lparr> txs := bt_insert n x (txs q) \<rparr>)"
  using set_bt_insert_sub [of n x "txs q"] by (fastforce simp: queue_wf_def bt_wf_insert)

text \<open>Replacing one sender's queue, with the total adjusted by the change of its length.\<close>

lemma pool_wf_put:
  assumes p: "pool_wf p" and q: "queue_wf s q" "length (txs q) \<le> max_per_account (qp_config p)"
    and old: "old = (case map_of (accounts p) s of None \<Rightarrow> 0 | Some q0 \<Rightarrow> length (txs q0))"
    and r: "qp_config r = qp_config p" "accounts r = AList.update s q (accounts p)"
      "pool_total r + old = pool_total p + length (txs q)" "pool_total r \<le> max_total (qp_config p)"
  shows "pool_wf r"
proof -
  have "hm_total (\<lambda>q. length (txs q)) (AList.update s q (accounts p)) + old
      = hm_total (\<lambda>q. length (txs q)) (accounts p) + length (txs q)"
  proof (cases "map_of (accounts p) s")
    case None
    then show ?thesis using old by (simp add: hm_total_update_new)
  next
    case (Some u)
    then show ?thesis
      using old hm_total_update_old [of "accounts p" s u "\<lambda>q. length (txs q)" q] by simp
  qed
  moreover have "\<forall>(t, u) \<in> set (AList.update s q (accounts p)). queue_wf t u \<and> length (txs u) \<le> max_per_account (qp_config p)"
    using p q set_update_sub [of s q "accounts p"] by (fastforce simp: pool_wf_def)
  ultimately show ?thesis
    using p r by (auto simp: pool_wf_def distinct_update)
qed

lemma account_queue_wf:
  assumes "pool_wf p"
  shows "queue_wf (sender_id tx) (account_queue p tx)"
    "length (txs (account_queue p tx)) = (case map_of (accounts p) (sender_id tx) of None \<Rightarrow> 0 | Some q \<Rightarrow> length (txs q))"
    "length (txs (account_queue p tx)) \<le> max_per_account (qp_config p)"
  using pool_wf_queue [OF assms] by (auto simp: account_queue_def queue_wf_new split: option.splits)

lemma pool_wf_try_queue:
  assumes p: "pool_wf p" shows "pool_wf (snd (try_queue now tx h an p))"
proof -
  let ?q = "account_queue p tx" and ?s = "sender_id tx"
  let ?x = "\<lparr> pv = tx, q_tx_hash = h, queued_at = now, account_nonce_at_queue = an \<rparr>"
  let ?q' = "?q\<lparr> txs := bt_insert (nonce tx) ?x (txs ?q) \<rparr>"
  note wf = account_queue_wf [OF p, of tx]
  have le: "pool_total p \<le> max_total (qp_config p)" using p by (simp add: pool_wf_def)
  have bt: "bt_wf (txs ?q)" using wf(1) by (simp add: queue_wf_def)
  have q': "queue_wf ?s ?q'" using wf(1) by (simp add: queue_wf_insert)
  have same: "pool_wf r" if "qp_config r = qp_config p" "accounts r = AList.update ?s ?q (accounts p)" "pool_total r = pool_total p" for r
    using pool_wf_put [OF p wf(1) wf(3) wf(2), of r] that le by simp
  have full: "pool_wf (count_full p)" "pool_wf (p\<lparr> stats := st \<rparr>)" for st
    using p by (simp_all add: pool_wf_def)
  have rep: "pool_wf (put_queue ?s ?q' p)" if "map_of (txs ?q) (nonce tx) = Some e" for e
    using pool_wf_put [OF p q' _ wf(2), of "put_queue ?s ?q' p"] that le wf(3) by (simp add: length_bt_insert [OF bt])
  have new: "pool_wf (set_counts (put_queue ?s ?q' p\<lparr> pool_total := Suc (pool_total p) \<rparr>))"
    if "map_of (txs ?q) (nonce tx) = None" "\<not> max_total (qp_config p) \<le> pool_total p"
      "\<not> max_per_account (qp_config p) \<le> length (txs ?q)"
    by (rule pool_wf_put [OF p q' _ wf(2)]) (use that in \<open>simp_all add: length_bt_insert [OF bt]\<close>)
  show ?thesis
    unfolding try_queue_def Let_def
    by (auto simp: full new rep same split: option.splits)
qed

section \<open>Promotion\<close>

definition ready :: "u64 \<Rightarrow> nat \<Rightarrow> (u64 \<times> QueuedTx) list \<Rightarrow> (u64 \<times> QueuedTx) list" where
  "ready n k xs = filter (\<lambda>(m, _). n \<le> m \<and> unat m < unat n + k) xs"

text \<open>
  The scan over a sorted queue: it promotes the run of consecutive nonces that starts at the expected
  one, removes exactly the nonces below the end of that run, and stops at the first missing nonce.
\<close>

lemma promote_scan_spec:
  assumes "bt_wf xs" "new \<le> nxt" "\<forall>m \<in> fst ` set xs. m < new \<or> nxt \<le> m"
    and "promote_scan new nxt xs = (rm, pr)"
  shows "pr = map (\<lambda>(_, x). (pv x, q_tx_hash x)) (ready nxt (length pr) xs)
    \<and> map (unat \<circ> fst) (ready nxt (length pr) xs) = [unat nxt ..< unat nxt + length pr]
    \<and> rm = map fst (filter (\<lambda>(m, _). unat m < unat nxt + length pr) xs)
    \<and> (\<forall>m \<in> fst ` set xs. unat m \<noteq> unat nxt + length pr)"
  using assms
proof (induction new nxt xs arbitrary: rm pr rule: promote_scan.induct)
  case (1 new nxt)
  then show ?case by (simp add: ready_def)
next
  case (2 new nxt n q xs)
  have wf: "bt_wf xs" and gt: "\<forall>m \<in> fst ` set xs. n < m" using "2.prems"(1) by auto
  consider (stale) "n < new" | (hit) "\<not> n < new" "n = nxt" | (gap) "\<not> n < new" "n \<noteq> nxt" by blast
  then show ?case
  proof cases
    case stale
    then obtain rm' where r: "promote_scan new nxt xs = (rm', pr)" "rm = n # rm'"
      using "2.prems"(4) by (auto split: prod.splits)
    have lt: "n < nxt" using stale "2.prems"(2) by simp
    then have "unat n < unat nxt + length pr" by (simp add: word_less_nat_alt)
    moreover have "ready nxt (length pr) ((n, q) # xs) = ready nxt (length pr) xs" using lt by (auto simp: ready_def)
    moreover have "\<forall>m \<in> fst ` set xs. m < new \<or> nxt \<le> m" using "2.prems"(3) by simp
    ultimately show ?thesis
      using "2.IH"(1) [OF stale wf "2.prems"(2) _ r(1)] r(2) by auto
  next
    case hit
    then obtain pr' rm' where r: "promote_scan new (nxt + 1) xs = (rm', pr')" "rm = n # rm'" "pr = (pv q, q_tx_hash q) # pr'"
      using "2.prems"(4) by (auto split: prod.splits)
    show ?thesis
    proof (cases "xs = []")
      case True
      then show ?thesis using r hit by (auto simp: ready_def)
    next
      case False
      then obtain m where "m \<in> fst ` set xs" by (cases xs) auto
      then have "nxt < m" using gt hit by blast
      then have "unat nxt < unat m" by (simp add: word_less_nat_alt)
      then have u: "unat (nxt + 1) = unat nxt + 1"
        using unat_bound [of m] by (subst unat_add_lem [THEN iffD1]) simp_all
      have pre: "new \<le> nxt + 1" "\<forall>m \<in> fst ` set xs. m < new \<or> nxt + 1 \<le> m"
        using "2.prems"(2) gt hit u by (auto simp: word_le_nat_alt word_less_nat_alt)
      have eq: "ready (nxt + 1) (length pr') xs = ready nxt (Suc (length pr')) xs"
        unfolding ready_def using gt hit by (intro filter_cong) (force simp: u word_le_nat_alt word_less_nat_alt)+
      have head: "ready nxt (Suc (length pr')) ((nxt, q) # xs) = (nxt, q) # ready nxt (Suc (length pr')) xs"
        by (simp add: ready_def)
      have up: "[unat nxt ..< Suc (unat nxt + length pr')] = unat nxt # [Suc (unat nxt) ..< Suc (unat nxt + length pr')]"
        by (subst upt_conv_Cons) auto
      show ?thesis
        using "2.IH"(2) [OF hit wf pre r(1)] r(2,3) hit
        by (auto simp del: upt_Suc simp add: head up eq u)
    qed
  next
    case gap
    then have "nxt < n" using "2.prems"(3) by auto
    moreover have "\<forall>m \<in> fst ` set xs. nxt < m" using gt \<open>nxt < n\<close> by auto
    ultimately show ?thesis
      using gap "2.prems"(4) by (auto simp: ready_def word_less_nat_alt filter_empty_conv)
  qed
qed

definition promote_queue :: "u64 \<Rightarrow> AccountQueue \<Rightarrow> AccountQueue" where
  "promote_queue n q = q\<lparr> txs := fold AList.delete (fst (promote_scan n n (txs q))) (txs q) \<rparr>"

lemma promote_queue_filter:
  fixes n :: u64 and q :: AccountQueue
  assumes "queue_wf s q"
  defines "k \<equiv> length (snd (promote_scan n n (txs q)))"
  shows "txs (promote_queue n q) = filter (\<lambda>(m, _). \<not> unat m < unat n + k) (txs q)"
    and "length (fst (promote_scan n n (txs q))) + length (txs (promote_queue n q)) = length (txs q)"
proof -
  obtain rm pr where r: "promote_scan n n (txs q) = (rm, pr)" by fastforce
  have "bt_wf (txs q)" using assms by (simp add: queue_wf_def)
  from promote_scan_spec [OF this order_refl _ r]
  have rm: "rm = map fst (filter (\<lambda>(m, _). unat m < unat n + k) (txs q))" by (force simp: k_def r)
  then have "\<And>m x. (m, x) \<in> set (txs q) \<Longrightarrow> m \<in> set rm \<longleftrightarrow> unat m < unat n + k" by force
  then show 1: "txs (promote_queue n q) = filter (\<lambda>(m, _). \<not> unat m < unat n + k) (txs q)"
    by (auto simp: promote_queue_def fold_delete_filter r intro!: filter_cong)
  show "length (fst (promote_scan n n (txs q))) + length (txs (promote_queue n q)) = length (txs q)"
    unfolding 1 using sum_length_filter_compl [of "\<lambda>(m, _). unat m < unat n + k" "txs q"]
    by (simp add: r rm case_prod_unfold)
qed

lemma promote_some:
  assumes "map_of (accounts p) s = Some q"
  shows "accounts (snd (promote s n p)) = (if txs (promote_queue n q) = [] then AList.delete s (accounts p)
            else AList.update s (promote_queue n q) (accounts p))"
    "qp_config (snd (promote s n p)) = qp_config p"
    "pool_total (snd (promote s n p)) = pool_total p - length (fst (promote_scan n n (txs q)))"
  using assms by (simp_all add: promote_def promote_queue_def Let_def split_beta)

lemma pool_wf_delete:
  assumes p: "pool_wf p" and q: "map_of (accounts p) s = Some q"
    and r: "qp_config r = qp_config p" "accounts r = AList.delete s (accounts p)"
      "pool_total r + length (txs q) = pool_total p"
  shows "pool_wf r"
proof -
  have h: "hm_wf (accounts p)" using p by (simp add: pool_wf_def)
  have "hm_total (\<lambda>q. length (txs q)) (AList.delete s (accounts p)) + length (txs q)
      = hm_total (\<lambda>q. length (txs q)) (accounts p)"
    by (rule hm_total_delete [OF h q])
  moreover have "\<forall>(t, u) \<in> set (AList.delete s (accounts p)). queue_wf t u \<and> length (txs u) \<le> max_per_account (qp_config p)"
    using p set_delete_sub [of s "accounts p"] unfolding pool_wf_def by blast
  ultimately show ?thesis
    using p r h by (auto simp: pool_wf_def distinct_delete)
qed

lemma pool_wf_promote: "pool_wf p \<Longrightarrow> pool_wf (snd (promote s n p))"
proof (cases "map_of (accounts p) s")
  case None
  then show "pool_wf p \<Longrightarrow> ?thesis" by (simp add: promote_def)
next
  case (Some q)
  assume p: "pool_wf p"
  note q = pool_wf_queue [OF p Some]
  note f = promote_queue_filter [OF q(1), of n]
  have tot: "length (txs q) \<le> pool_total p" "pool_total p \<le> max_total (qp_config p)"
    using hm_total_member [OF Some, of "\<lambda>q. length (txs q)"] p by (simp_all add: pool_wf_def)
  show ?thesis
  proof (cases "txs (promote_queue n q) = []")
    case True
    show ?thesis
      by (rule pool_wf_delete [OF p Some]) (use True f(2) tot in \<open>simp_all add: promote_some [OF Some]\<close>)
  next
    case False
    have wf: "queue_wf s (promote_queue n q)"
      using queue_wf_filter [OF q(1)] f(1) unfolding promote_queue_def by simp
    show ?thesis
      by (rule pool_wf_put [OF p wf _ refl]) (use False f(2) tot q(2) Some in \<open>simp_all add: promote_some [OF Some]\<close>)
  qed
qed

lemma hm_total_retain:
  "hm_total (\<lambda>q. length (txs q)) (filter (\<lambda>(s, q). txs q \<noteq> []) (map (\<lambda>(s, q). (s, retain_fresh now t q)) as))
    + sum_list (map (\<lambda>(s, q). length (txs q) - length (txs (retain_fresh now t q))) as)
    = hm_total (\<lambda>q. length (txs q)) as"
proof (induction as)
  case (Cons a as)
  have "length (txs (retain_fresh now t (snd a))) \<le> length (txs (snd a))" by (simp add: retain_fresh_def)
  then show ?case using Cons.IH by (cases a) auto
qed simp

lemma pool_wf_cleanup: assumes p: "pool_wf p" shows "pool_wf (cleanup_expired now p)"
proof -
  let ?r = "retain_fresh now (ttl (qp_config p))"
  let ?as = "filter (\<lambda>(s, q). txs q \<noteq> []) (map (\<lambda>(s, q). (s, ?r q)) (accounts p))"
  have k: "map fst (map (\<lambda>(s, q). (s, ?r q)) (accounts p)) = map fst (accounts p)" by auto
  have "hm_wf ?as"
    using p distinct_map_filter [of fst "map (\<lambda>(s, q). (s, ?r q)) (accounts p)"] unfolding k by (simp add: pool_wf_def)
  moreover have "queue_wf s (?r q) \<and> length (txs (?r q)) \<le> max_per_account (qp_config p)" if "(s, q) \<in> set (accounts p)" for s q
  proof -
    have "queue_wf s q \<and> length (txs q) \<le> max_per_account (qp_config p)" using p that unfolding pool_wf_def by blast
    then show ?thesis
      unfolding retain_fresh_def
      by (auto simp: queue_wf_filter intro: le_trans [OF length_filter_le])
  qed
  then have "\<forall>(s, q) \<in> set ?as. queue_wf s q \<and> length (txs q) \<le> max_per_account (qp_config p)" by auto
  moreover note tot = hm_total_retain [of now "ttl (qp_config p)" "accounts p"]
  ultimately have "pool_wf r" if "qp_config r = qp_config p" "accounts r = ?as" "pool_total r = hm_total (\<lambda>q. length (txs q)) ?as" for r
    unfolding pool_wf_def that using p that tot by (auto simp only: pool_wf_def)
  note kept = this
  have pt: "pool_total p = hm_total (\<lambda>q. length (txs q)) (accounts p)" using p unfolding pool_wf_def by blast
  show ?thesis
  proof (cases "now - last_cleanup p < cleanup_interval (qp_config p)")
    case False
    show ?thesis
      by (rule kept) (use False tot pt in \<open>simp_all add: cleanup_expired_def Let_def\<close>)
  qed (use p in \<open>simp add: cleanup_expired_def\<close>)
qed

lemma pool_wf_step: "pool_wf p \<Longrightarrow> qp_step p r \<Longrightarrow> pool_wf r"
  by (auto elim!: qp_step.cases intro: pool_wf_try_queue pool_wf_promote pool_wf_cleanup)

lemma pool_wf_new: "pool_wf (new_queued_pool now cfg)"
  by (simp add: new_queued_pool_def pool_wf_def)

interpretation qpool: inv_system "\<lambda>p. p = new_queued_pool now0 cfg" qp_step pool_wf for now0 cfg
  by unfold_locales (auto simp: pool_wf_new intro: pool_wf_step)

lemma qp_config_step: "qp_step p r \<Longrightarrow> qp_config r = qp_config p"
  by (auto elim!: qp_step.cases simp: try_queue_def promote_def cleanup_expired_def Let_def split_beta split: option.splits)

lemma reachable_pool_wf: "reachable (\<lambda>p. p = new_queued_pool now0 cfg) qp_step p \<Longrightarrow> pool_wf p \<and> qp_config p = cfg"
proof (rule conjI, erule qpool.inv_reachable)
  show "reachable (\<lambda>p. p = new_queued_pool now0 cfg) qp_step p \<Longrightarrow> qp_config p = cfg"
    by (induction rule: reachable.induct) (auto simp: new_queued_pool_def qp_config_step)
qed

section \<open>A concrete pool\<close>

text \<open>A pool of three in which one sender queued the nonces 5, 4 and 7.\<close>

definition toy_cfg :: QueuedPoolConfig where
  "toy_cfg = \<lparr> max_per_account = 3, max_total = 3, max_nonce_gap = 10, ttl = 100, cleanup_interval = 10 \<rparr>"

definition toy_tx :: "u64 \<Rightarrow> PrevalidatedTx" where
  "toy_tx n = \<lparr> sender_id = 1, sender_address = [1], nonce = n, max_fee = 10, pv_amount = 0, tx_handle = 0,
     tx_class = Financial, stream_nonce = None \<rparr>"

definition toy_pool :: QueuedPool where
  "toy_pool = fold (\<lambda>n p. snd (try_queue 0 (toy_tx n) None 4 p)) [5, 4, 7] (new_queued_pool 0 toy_cfg)"

lemma toy_pool_reachable: "reachable (\<lambda>p. p = new_queued_pool 0 toy_cfg) qp_step toy_pool"
  unfolding toy_pool_def
  by simp (rule reachable.move, rule reachable.move, rule reachable.move, rule reachable.start, simp, (rule qp_step.queue)+)

section \<open>Properties\<close>

text \<open>C33. Whatever calls are made in whatever order, the pool's total is the number of transactions
  in its queues and never exceeds the configured total, no account holds more than its share, and
  each entry sits under its own sender and nonce.\<close>

theorem queued_pool_bounded:
  assumes "reachable (\<lambda>p. p = new_queued_pool now0 cfg) qp_step p"
  shows "pool_total p = hm_total (\<lambda>q. length (txs q)) (accounts p) \<and> pool_total p \<le> max_total cfg
    \<and> (\<forall>s q. map_of (accounts p) s = Some q \<longrightarrow> length (txs q) \<le> max_per_account cfg)
    \<and> (\<forall>s n x. queued p s n = Some x \<longrightarrow> sender_id (pv x) = s \<and> nonce (pv x) = n)"
proof (intro conjI allI impI)
  have wf: "pool_wf p" and c: "qp_config p = cfg" using reachable_pool_wf [OF assms] by simp_all
  show "pool_total p = hm_total (\<lambda>q. length (txs q)) (accounts p)" "pool_total p \<le> max_total cfg"
    using wf c by (simp_all add: pool_wf_def)
  show "length (txs q) \<le> max_per_account cfg" if "map_of (accounts p) s = Some q" for s q
    using pool_wf_queue(2) [OF wf that] c by simp
  fix s n x assume "queued p s n = Some x"
  then obtain q where q: "map_of (accounts p) s = Some q" "map_of (txs q) n = Some x"
    by (auto simp: queued_def split: option.splits)
  then show "sender_id (pv x) = s" "nonce (pv x) = n"
    using pool_wf_queue(1) [OF wf q(1)] map_of_SomeD [OF q(2)] unfolding queue_wf_def by blast+
qed

lemma queued_promote:
  assumes wf: "pool_wf p" and q: "map_of (accounts p) s = Some q"
  shows "queued (snd (promote s n p)) t m = (if t = s then map_of (txs (promote_queue n q)) m else queued p t m)"
  using wf q by (auto simp: queued_def promote_some [OF q] map_of_delete_iff)

lemma promote_fst:
  assumes wf: "pool_wf p" and q: "map_of (accounts p) s = Some q"
  shows "fst (promote s n p) = snd (promote_scan n n (txs q))"
proof -
  obtain rm pr where r: "promote_scan n n (txs q) = (rm, pr)" by fastforce
  note qw = pool_wf_queue(1) [OF wf q]
  have b: "bt_wf (txs q)" using qw by (simp add: queue_wf_def)
  let ?r = "ready n (length pr) (txs q)"
  note sp = promote_scan_spec [OF b order_refl _ r]
  have pr: "pr = map (\<lambda>(_, x). (pv x, q_tx_hash x)) ?r" using sp by force
  have key: "nonce (pv x) = m" if "(m, x) \<in> set ?r" for m x
    using qw that unfolding queue_wf_def ready_def by auto
  have "map (\<lambda>(tx, _). nonce tx) pr = map fst ?r"
    by (subst pr) (use key in \<open>auto simp: comp_def\<close>)
  moreover have "sorted (map fst ?r)"
    using strict_sorted_imp_sorted [OF strict_sorted_filter [OF b]] unfolding ready_def by blast
  ultimately have "sort_key (\<lambda>(tx, _). nonce tx) pr = pr" by (intro sort_key_id_if_sorted) simp
  then show ?thesis using q r by (simp add: promote_def)
qed

lemma ready_nth:
  assumes b: "bt_wf xs" and k: "map (unat \<circ> fst) (ready n k xs) = [unat n ..< unat n + k]" and i: "i < k"
  shows "map_of xs (n + word_of_nat i) = Some (snd (ready n k xs ! i))"
proof -
  have len: "length (ready n k xs) = k" using arg_cong [OF k, of length] by simp
  obtain m x where mx: "ready n k xs ! i = (m, x)" by fastforce
  have "map (unat \<circ> fst) (ready n k xs) ! i = unat n + i" unfolding k using i by simp
  then have u: "unat m = unat n + i" using i len mx by simp
  then have "word_of_nat (unat m) = (word_of_nat (unat n + i) :: u64)" by simp
  then have m: "m = n + word_of_nat i" by simp
  have "(m, x) \<in> set xs" using nth_mem [of i "ready n k xs"] i len mx by (simp add: ready_def)
  then show ?thesis using bt_wf_distinct [OF b] mx m by simp
qed

theorem queued_pool_bounded_witness:
  "hm_total (\<lambda>q. length (txs q)) (accounts toy_pool) = 3 \<and> (\<exists>q. map_of (accounts toy_pool) 1 = Some q \<and> length (txs q) \<le> 3)"
proof -
  have "pool_total toy_pool = 3" "map_of (accounts toy_pool) 1 \<noteq> None" by code_simp+
  then show ?thesis using queued_pool_bounded [OF toy_pool_reachable] by (auto simp: toy_cfg_def)
qed

text \<open>What a promotion hands over, in terms of one well-formed queue.\<close>

lemma promote_run:
  assumes qw: "queue_wf s q" and r: "promote_scan n n (txs q) = (rm, out)"
  shows "map (unat \<circ> nonce \<circ> fst) out = [unat n ..< unat n + length out]"
    and "i < length out \<Longrightarrow> \<exists>x. map_of (txs q) (n + word_of_nat i) = Some x \<and> out ! i = (pv x, q_tx_hash x)"
    and "unat m = unat n + length out \<Longrightarrow> map_of (txs q) m = None"
proof -
  let ?k = "length out" let ?r = "ready n ?k (txs q)"
  have b: "bt_wf (txs q)" and key: "\<And>m x. (m, x) \<in> set (txs q) \<Longrightarrow> nonce (pv x) = m"
    using qw unfolding queue_wf_def by blast+
  have "\<forall>m \<in> fst ` set (txs q). m < n \<or> n \<le> m" by auto
  note sp = promote_scan_spec [OF b order_refl this r]
  have o: "out = map (\<lambda>(_, x). (pv x, q_tx_hash x)) ?r" and up: "map (unat \<circ> fst) ?r = [unat n ..< unat n + ?k]"
    and miss: "\<forall>m \<in> fst ` set (txs q). unat m \<noteq> unat n + ?k" using sp by blast+
  have len: "length ?r = ?k" using arg_cong [OF up, of length] by simp
  have "map (unat \<circ> nonce \<circ> fst) (map (\<lambda>(_, x). (pv x, q_tx_hash x)) ?r) = map (unat \<circ> fst) ?r"
    using key by (auto simp: ready_def)
  then show "map (unat \<circ> nonce \<circ> fst) out = [unat n ..< unat n + ?k]" using o up by (metis (no_types, lifting))
  show "\<exists>x. map_of (txs q) (n + word_of_nat i) = Some x \<and> out ! i = (pv x, q_tx_hash x)" if "i < ?k"
  proof -
    have "out ! i = (\<lambda>(_, x). (pv x, q_tx_hash x)) (?r ! i)" by (subst o) (use that len in simp)
    then show ?thesis using ready_nth [OF b up that] by (simp add: split_beta)
  qed
  assume "unat m = unat n + length out"
  then have "m \<notin> fst ` set (txs q)" using miss by blast
  then show "map_of (txs q) m = None" by (simp add: map_of_eq_None_iff)
qed

text \<open>C34. Promotion after an account's nonce advanced to \<open>n\<close> hands over exactly the longest run of
  queued transactions with consecutive nonces \<open>n, n+1, ...\<close>, in nonce order; it takes these and the
  stale ones out of the pool and leaves every other queued transaction, of this and of every other
  sender, where it was.\<close>

theorem promote_exact:
  assumes "reachable (\<lambda>p. p = new_queued_pool now0 cfg) qp_step p" and "promote s n p = (out, p')"
  shows "map (unat \<circ> nonce \<circ> fst) out = [unat n ..< unat n + length out]
    \<and> (\<forall>i < length out. \<exists>x. queued p s (n + word_of_nat i) = Some x \<and> out ! i = (pv x, q_tx_hash x))
    \<and> (\<forall>m. unat m = unat n + length out \<longrightarrow> queued p s m = None)
    \<and> (\<forall>t m. queued p' t m = (if t = s \<and> unat m < unat n + length out then None else queued p t m))"
proof (cases "map_of (accounts p) s")
  case None
  then have e: "out = []" "p' = p" using assms(2) by (simp_all add: promote_def)
  have q: "queued p s m = None" for m by (simp add: queued_def None)
  show ?thesis by (simp add: e q)
next
  case (Some q)
  have wf: "pool_wf p" using reachable_pool_wf [OF assms(1)] by simp
  note qw = pool_wf_queue(1) [OF wf Some]
  have out: "out = snd (promote_scan n n (txs q))" using promote_fst [OF wf Some, of n] assms(2) by simp
  obtain rm where r: "promote_scan n n (txs q) = (rm, out)" using out by (cases "promote_scan n n (txs q)") simp
  have q: "queued p s m = map_of (txs q) m" for m by (simp add: queued_def Some)
  have p': "p' = snd (promote s n p)" using assms(2) by simp
  have "map_of (txs (promote_queue n q)) m = (if unat m < unat n + length out then None else map_of (txs q) m)" for m
    using promote_queue_filter(1) [OF qw, of n] map_of_filter_key [of "\<lambda>m. \<not> unat m < unat n + length out" "txs q" m]
    by (simp add: out case_prod_unfold)
  then have "queued p' t m = (if t = s \<and> unat m < unat n + length out then None else queued p t m)" for t m
    using queued_promote [OF wf Some, of n t m] by (simp add: p' q)
  then show ?thesis using promote_run [OF qw r] unfolding q by blast
qed

theorem promote_exact_witness:
  "map (unat \<circ> nonce \<circ> fst) (fst (promote 1 4 toy_pool)) = [4, 5] \<and>
   queued (snd (promote 1 4 toy_pool)) 1 5 = None \<and> queued (snd (promote 1 4 toy_pool)) 1 7 = queued toy_pool 1 7"
proof -
  have "length (fst (promote 1 4 toy_pool)) = 2" by code_simp
  then show ?thesis
    using promote_exact [OF toy_pool_reachable prod.collapse [symmetric], of 1 4] by (auto simp: upt_rec)
qed

end
