(* ===== verification/Replay_Prevention.thy ===== *)
theory Replay_Prevention
  imports Mempool_Types
begin

text \<open>
  The replay filter of the mempool, \<open>savitri-mempool/src/mempool/replay_prevention.rs\<close>.  The LRU
  cache of executed hashes is the \<open>lru\<close> crate: its operations are the fields of \<open>lru_ops\<close>, an argument of
  every operation that touches the cache.  Storage is the function \<open>get_account\<close>, \<open>Inl\<close> being a
  storage error.  The expiry loop runs until the cache says it is done, so an operation that
  contains it returns \<open>None\<close> when it does not end.
\<close>

section \<open>State\<close>

record ReplayPreventionConfig =
  max_hash_cache_size :: nat
  max_nonce_cache_size :: nat
  cache_ttl_blocks :: u64
  cleanup_interval_blocks :: u64

definition default_replay_config :: ReplayPreventionConfig where
  "default_replay_config = \<lparr> max_hash_cache_size = 100000, max_nonce_cache_size = 50000,
     cache_ttl_blocks = 1000, cleanup_interval_blocks = 100 \<rparr>"

record ReplayEntry =
  re_block_height :: u64
  re_created_at :: nat
  re_sender_address :: bytes
  re_nonce :: u64

record NonceEntry =
  current_nonce :: u64
  last_updated :: u64
  ne_created_at :: nat

record 'c lru_ops =
  lru_new :: "nat \<Rightarrow> 'c"
  lru_contains :: "'c \<Rightarrow> bytes \<Rightarrow> bool"
  lru_put :: "bytes \<Rightarrow> ReplayEntry \<Rightarrow> 'c \<Rightarrow> 'c"
  lru_peek :: "'c \<Rightarrow> (bytes \<times> ReplayEntry) option"
  lru_pop :: "'c \<Rightarrow> 'c"
  lru_len :: "'c \<Rightarrow> nat"
  lru_clear :: "'c \<Rightarrow> 'c"

record 'c ReplayPrevention =
  rp_config :: ReplayPreventionConfig
  hash_cache :: 'c
  nonce_cache :: "(bytes \<times> NonceEntry) list"
  current_block_height :: u64
  last_cleanup_height :: u64

datatype ReplayPreventionError =
  TransactionReplay bytes u64
  | NonceTooOld u64 u64
  | NonceTooFar u64 u64
  | StorageError
  | CacheError

type_synonym account_store = "bytes \<Rightarrow> unit + bytes option"

section \<open>Operations\<close>

text \<open>\<open>NonZeroUsize::new(..).unwrap()\<close> panics for a cache of size zero.\<close>

definition new_replay_prevention :: "'c lru_ops \<Rightarrow> ReplayPreventionConfig \<Rightarrow> 'c ReplayPrevention option" where
  "new_replay_prevention L cfg =
    (if max_hash_cache_size cfg = 0 then None
     else Some \<lparr> rp_config = cfg, hash_cache = lru_new L (max_hash_cache_size cfg), nonce_cache = [],
                 current_block_height = 0, last_cleanup_height = 0 \<rparr>)"

partial_function (option) trim_expired :: "'c lru_ops \<Rightarrow> u64 \<Rightarrow> 'c \<Rightarrow> 'c option" where
  "trim_expired L cutoff c = (case lru_peek L c of
      None \<Rightarrow> Some c
    | Some (_, e) \<Rightarrow> if re_block_height e < cutoff then trim_expired L cutoff (lru_pop L c) else Some c)"

definition cutoff_height :: "ReplayPreventionConfig \<Rightarrow> u64 \<Rightarrow> u64" where
  "cutoff_height cfg h = (if cache_ttl_blocks cfg < h then h - cache_ttl_blocks cfg else 0)"

definition cleanup_expired_entries :: "'c lru_ops \<Rightarrow> u64 \<Rightarrow> 'c ReplayPrevention \<Rightarrow> 'c ReplayPrevention option" where
  "cleanup_expired_entries L h r =
    (let cutoff = cutoff_height (rp_config r) h in
     case trim_expired L cutoff (hash_cache r) of
       None \<Rightarrow> None
     | Some c \<Rightarrow> Some (r\<lparr> hash_cache := c,
         nonce_cache := fold AList.delete (map fst (filter (\<lambda>(_, e). last_updated e < cutoff) (nonce_cache r))) (nonce_cache r) \<rparr>))"

definition update_block_height :: "'c lru_ops \<Rightarrow> u64 \<Rightarrow> 'c ReplayPrevention \<Rightarrow> 'c ReplayPrevention option" where
  "update_block_height L h r =
    (let r = r\<lparr> current_block_height := h \<rparr> in
     if last_cleanup_height r + cleanup_interval_blocks (rp_config r) \<le> h
     then cleanup_expired_entries L h (r\<lparr> last_cleanup_height := h \<rparr>)
     else Some r)"

definition is_replay_transaction :: "'c lru_ops \<Rightarrow> 'c ReplayPrevention \<Rightarrow> bytes \<Rightarrow> bytes \<Rightarrow> u64 \<Rightarrow> bool" where
  "is_replay_transaction L r h addr n =
    (if lru_contains L (hash_cache r) h then True
     else case map_of (nonce_cache r) addr of Some e \<Rightarrow> n < current_nonce e | None \<Rightarrow> False)"

definition record_transaction_execution ::
  "'c lru_ops \<Rightarrow> nat \<Rightarrow> bytes \<Rightarrow> bytes \<Rightarrow> u64 \<Rightarrow> u64 \<Rightarrow> 'c ReplayPrevention \<Rightarrow> 'c ReplayPrevention" where
  "record_transaction_execution L now h addr n bh r =
    (let height = (if current_block_height r < bh then bh else current_block_height r);
         entry = \<lparr> re_block_height = bh, re_created_at = now, re_sender_address = addr, re_nonce = n \<rparr>;
         ne = (case map_of (nonce_cache r) addr of
                 Some e \<Rightarrow> e
               | None \<Rightarrow> \<lparr> current_nonce = 0, last_updated = height, ne_created_at = now \<rparr>);
         ne = (if current_nonce ne < n then ne\<lparr> current_nonce := n, last_updated := height \<rparr> else ne)
     in r\<lparr> current_block_height := height, hash_cache := lru_put L h entry (hash_cache r),
           nonce_cache := AList.update addr ne (nonce_cache r) \<rparr>)"

definition validate_transaction_nonce :: "account_store \<Rightarrow> bytes \<Rightarrow> u64 \<Rightarrow> ReplayPreventionError + unit" where
  "validate_transaction_nonce get_account addr n = (case get_account addr of
      Inl _ \<Rightarrow> Inl StorageError
    | Inr None \<Rightarrow> if n \<noteq> 0 then Inl (NonceTooFar 0 n) else Inr ()
    | Inr (Some bs) \<Rightarrow> (case decode_account bs of
        Inl _ \<Rightarrow> Inl StorageError
      | Inr a \<Rightarrow>
          if n < acc_nonce a then Inl (NonceTooOld (acc_nonce a) n)
          else if acc_nonce a + 4000 < n then Inl (NonceTooFar (acc_nonce a) n)
          else Inr ()))"

definition get_account_nonce :: "account_store \<Rightarrow> 'c ReplayPrevention \<Rightarrow> bytes \<Rightarrow> ReplayPreventionError + u64" where
  "get_account_nonce get_account r addr = (case map_of (nonce_cache r) addr of
      Some e \<Rightarrow> Inr (current_nonce e)
    | None \<Rightarrow> (case get_account addr of
        Inl _ \<Rightarrow> Inl StorageError
      | Inr None \<Rightarrow> Inr 0
      | Inr (Some bs) \<Rightarrow> (case decode_account bs of Inl _ \<Rightarrow> Inl StorageError | Inr a \<Rightarrow> Inr (acc_nonce a))))"

definition clear_caches :: "'c lru_ops \<Rightarrow> 'c ReplayPrevention \<Rightarrow> 'c ReplayPrevention" where
  "clear_caches L r = r\<lparr> hash_cache := lru_clear L (hash_cache r), nonce_cache := [] \<rparr>"

section \<open>The expiry loop\<close>

text \<open>
  Documented behaviour of the cache that the code relies on: the length is zero exactly when nothing
  can be peeked, and popping a non-empty cache makes it one shorter.
\<close>

definition lru_pops :: "'c lru_ops \<Rightarrow> bool" where
  "lru_pops L \<longleftrightarrow> (\<forall>c. (lru_peek L c = None \<longleftrightarrow> lru_len L c = 0) \<and>
     (lru_len L c \<noteq> 0 \<longrightarrow> lru_len L (lru_pop L c) = lru_len L c - 1))"

lemma trim_ends:
  assumes "lru_pops L"
  shows "\<exists>k \<le> lru_len L c. trim_expired L cutoff c = Some ((lru_pop L ^^ k) c)
    \<and> (\<forall>h e. lru_peek L ((lru_pop L ^^ k) c) = Some (h, e) \<longrightarrow> cutoff \<le> re_block_height e)
    \<and> (\<forall>j < k. \<exists>h e. lru_peek L ((lru_pop L ^^ j) c) = Some (h, e) \<and> re_block_height e < cutoff)"
proof (induction "lru_len L c" arbitrary: c rule: less_induct)
  case less
  show ?case
  proof (cases "\<exists>h e. lru_peek L c = Some (h, e) \<and> re_block_height e < cutoff")
    case True
    then obtain h e where p: "lru_peek L c = Some (h, e)" "re_block_height e < cutoff" by blast
    then have n: "lru_len L c \<noteq> 0" "lru_len L (lru_pop L c) = lru_len L c - 1"
      using assms unfolding lru_pops_def by (metis option.distinct(1))+
    then have "lru_len L (lru_pop L c) < lru_len L c" by simp
    from less [OF this] obtain k where k: "k \<le> lru_len L (lru_pop L c)"
      "trim_expired L cutoff (lru_pop L c) = Some ((lru_pop L ^^ k) (lru_pop L c))"
      "\<forall>h e. lru_peek L ((lru_pop L ^^ k) (lru_pop L c)) = Some (h, e) \<longrightarrow> cutoff \<le> re_block_height e"
      "\<forall>j < k. \<exists>h e. lru_peek L ((lru_pop L ^^ j) (lru_pop L c)) = Some (h, e) \<and> re_block_height e < cutoff"
      by blast
    have s: "(lru_pop L ^^ j) (lru_pop L c) = (lru_pop L ^^ Suc j) c" for j by (simp add: funpow_swap1)
    have "trim_expired L cutoff c = Some ((lru_pop L ^^ Suc k) c)"
      using p k(2) s by (subst trim_expired.simps) simp
    moreover have "\<forall>j < Suc k. \<exists>h e. lru_peek L ((lru_pop L ^^ j) c) = Some (h, e) \<and> re_block_height e < cutoff"
      using k(4) p unfolding s by (metis funpow_0 less_Suc_eq_0_disj)
    moreover have "Suc k \<le> lru_len L c" using k(1) n by simp
    ultimately show ?thesis using k(3) unfolding s by blast
  next
    case False
    then have "trim_expired L cutoff c = Some c"
      by (subst trim_expired.simps) (auto split: option.splits)
    then show ?thesis using False by (intro exI [of _ 0]) (auto simp: not_less)
  qed
qed

lemma map_of_drop_stale:
  assumes "hm_wf m"
  shows "map_of (fold AList.delete (map fst (filter (\<lambda>(_, e). P e) m)) m) k = Some e \<longleftrightarrow> map_of m k = Some e \<and> \<not> P e"
proof -
  have "k \<in> set (map fst (filter (\<lambda>(_, e). P e) m)) \<longleftrightarrow> (\<exists>e. map_of m k = Some e \<and> P e)"
    using assms by (force simp: map_of_eq_Some_iff)
  then show ?thesis unfolding map_of_fold_delete by auto
qed

section \<open>The filter after a sequence of executions\<close>

type_synonym execution = "nat \<times> bytes \<times> bytes \<times> u64 \<times> u64"

definition run_executions :: "'c lru_ops \<Rightarrow> execution list \<Rightarrow> 'c ReplayPrevention \<Rightarrow> 'c ReplayPrevention" where
  "run_executions L xs r = fold (\<lambda>(now, h, addr, n, bh). record_transaction_execution L now h addr n bh) xs r"

definition cached_nonce :: "'c ReplayPrevention \<Rightarrow> bytes \<Rightarrow> u64" where
  "cached_nonce r addr = (case map_of (nonce_cache r) addr of Some e \<Rightarrow> current_nonce e | None \<Rightarrow> 0)"

lemma is_replay_cached:
  "is_replay_transaction L r h addr n \<longleftrightarrow> lru_contains L (hash_cache r) h \<or> n < cached_nonce r addr"
  by (auto simp: is_replay_transaction_def cached_nonce_def split: option.splits)

lemma cached_nonce_record:
  "cached_nonce (record_transaction_execution L now h addr n bh r) a = (if a = addr then max n (cached_nonce r a) else cached_nonce r a)"
  by (auto simp: record_transaction_execution_def cached_nonce_def Let_def max_def word_gt_0 split: option.splits)

lemma cached_nonce_run:
  "n < cached_nonce (run_executions L xs r) a \<longleftrightarrow> n < cached_nonce r a \<or> (\<exists>(now, h, addr, m, bh) \<in> set xs. addr = a \<and> n < m)"
proof (induction xs arbitrary: r)
  case (Cons x xs)
  obtain now h addr m bh where x: "x = (now, h, addr, m, bh)" by (cases x) auto
  have "run_executions L (x # xs) r = run_executions L xs (record_transaction_execution L now h addr m bh r)"
    by (simp add: run_executions_def x)
  then show ?case by (auto simp: Cons.IH cached_nonce_record x less_max_iff_disj)
qed (simp add: run_executions_def)

section \<open>A concrete cache\<close>

text \<open>A cache as a list, oldest entry first.\<close>

definition toy_lru :: "(nat \<times> (bytes \<times> ReplayEntry) list) lru_ops" where
  "toy_lru = \<lparr> lru_new = (\<lambda>n. (n, [])), lru_contains = (\<lambda>(_, xs) h. h \<in> fst ` set xs),
     lru_put = (\<lambda>h e (n, xs). let ys = AList.delete h xs @ [(h, e)] in (n, drop (length ys - n) ys)),
     lru_peek = (\<lambda>(_, xs). case xs of [] \<Rightarrow> None | x # _ \<Rightarrow> Some x),
     lru_pop = (\<lambda>(n, xs). (n, tl xs)), lru_len = length \<circ> snd, lru_clear = (\<lambda>(n, _). (n, [])) \<rparr>"

lemma toy_lru_pops: "lru_pops toy_lru"
  by (auto simp: lru_pops_def toy_lru_def split: list.splits)

section \<open>Properties\<close>

text \<open>The periodic cleanup ends for every cache whose \<open>pop_lru\<close> removes an entry: a new block
  height is always recorded, and when the cleanup was due the nonces kept are exactly those updated
  since the cutoff and the oldest hash kept is not older than the cutoff.\<close>

theorem replay_cleanup_ends:
  assumes "lru_pops L" "hm_wf (nonce_cache r)"
  shows "\<exists>r'. update_block_height L h r = Some r' \<and> current_block_height r' = h \<and>
    (last_cleanup_height r + cleanup_interval_blocks (rp_config r) \<le> h \<longrightarrow>
      (\<forall>a e. map_of (nonce_cache r') a = Some e \<longleftrightarrow>
        map_of (nonce_cache r) a = Some e \<and> cutoff_height (rp_config r) h \<le> last_updated e) \<and>
      (\<forall>x e. lru_peek L (hash_cache r') = Some (x, e) \<longrightarrow> cutoff_height (rp_config r) h \<le> re_block_height e))"
proof -
  obtain c where c: "trim_expired L (cutoff_height (rp_config r) h) (hash_cache r) = Some c"
    "\<forall>x e. lru_peek L c = Some (x, e) \<longrightarrow> cutoff_height (rp_config r) h \<le> re_block_height e"
    using trim_ends [OF assms(1)] by blast
  show ?thesis
    using c map_of_drop_stale [OF assms(2), of "\<lambda>e. last_updated e < cutoff_height (rp_config r) h"]
    by (simp add: update_block_height_def cleanup_expired_entries_def Let_def not_less)
qed

theorem replay_cleanup_ends_witness:
  "\<exists>r'. update_block_height toy_lru 1200 \<lparr> rp_config = default_replay_config,
      hash_cache = (10, [([1], \<lparr> re_block_height = 100, re_created_at = 0, re_sender_address = [7], re_nonce = 4 \<rparr>)]),
      nonce_cache = [([7], \<lparr> current_nonce = 4, last_updated = 100, ne_created_at = 0 \<rparr>)],
      current_block_height = 100, last_cleanup_height = 0 \<rparr> = Some r' \<and> map_of (nonce_cache r') [7] = None"
proof -
  let ?r = "\<lparr> rp_config = default_replay_config,
      hash_cache = (10, [([1], \<lparr> re_block_height = 100, re_created_at = 0, re_sender_address = [7], re_nonce = 4 \<rparr>)]),
      nonce_cache = [([7], \<lparr> current_nonce = 4, last_updated = 100, ne_created_at = 0 \<rparr>)],
      current_block_height = 100, last_cleanup_height = 0 \<rparr> :: (nat \<times> (bytes \<times> ReplayEntry) list) ReplayPrevention"
  have due: "last_cleanup_height ?r + cleanup_interval_blocks (rp_config ?r) \<le> 1200"
    "cutoff_height (rp_config ?r) 1200 = 200"
    by (simp_all add: default_replay_config_def cutoff_height_def)
  have "hm_wf (nonce_cache ?r)" by simp
  from replay_cleanup_ends [OF toy_lru_pops this, of 1200] due
  obtain r' where r': "update_block_height toy_lru 1200 ?r = Some r'"
    "\<And>a e. map_of (nonce_cache r') a = Some e \<longleftrightarrow> map_of (nonce_cache ?r) a = Some e \<and> 200 \<le> last_updated e" by auto
  have "map_of (nonce_cache r') [7] = None"
    by (rule ccontr) (use r'(2) in auto)
  then show ?thesis using r'(1) by blast
qed

text \<open>C39. From a new filter, after any sequence of recorded executions, a transaction counts as a
  replay exactly when its hash is cached or its nonce is strictly below some executed nonce of its
  sender.  A different transaction that reuses the sender's highest executed nonce passes.\<close>

theorem replay_filter_exact:
  assumes "new_replay_prevention L cfg = Some r0" "r = run_executions L xs r0"
  shows "is_replay_transaction L r h a n \<longleftrightarrow>
    lru_contains L (hash_cache r) h \<or> (\<exists>(now, h', addr, m, bh) \<in> set xs. addr = a \<and> n < m)"
proof -
  have "cached_nonce r0 a = 0" using assms(1) by (auto simp: new_replay_prevention_def cached_nonce_def split: if_splits)
  then show ?thesis by (simp add: is_replay_cached assms(2) cached_nonce_run)
qed

theorem replay_filter_exact_witness:
  "\<exists>r0. new_replay_prevention toy_lru default_replay_config = Some r0 \<and>
    is_replay_transaction toy_lru (run_executions toy_lru [(0, [1], [7], 4, 10), (0, [2], [7], 5, 11)] r0) [3] [7] 4 \<and>
    \<not> is_replay_transaction toy_lru (run_executions toy_lru [(0, [1], [7], 4, 10), (0, [2], [7], 5, 11)] r0) [3] [7] 5"
proof -
  let ?xs = "[(0, [1], [7], 4, 10), (0, [2], [7], 5, 11)] :: execution list"
  obtain r0 where r0: "new_replay_prevention toy_lru default_replay_config = Some r0"
    by (simp add: new_replay_prevention_def default_replay_config_def)
  have "\<not> lru_contains toy_lru (hash_cache (run_executions toy_lru ?xs r0)) [3]"
    using r0 by (auto simp: run_executions_def record_transaction_execution_def Let_def toy_lru_def
        new_replay_prevention_def default_replay_config_def)
  then show ?thesis
    using r0 replay_filter_exact [OF r0 refl, of ?xs "[3]" "[7]" 4] replay_filter_exact [OF r0 refl, of ?xs "[3]" "[7]" 5]
    by simp
qed

end
