(* ===== verification/Admission.thy ===== *)
theory Admission
  imports Queued_Pool Replay_Prevention "HOL-Library.Multiset"
begin

text \<open>
  Admission control of the mempool, \<open>savitri-mempool/src/mempool/admission.rs\<close>.  The two shared handles
  of the structure are arguments: the account storage (\<open>None\<close> when not configured) and the replay
  filter with its own storage.  \<open>bincode\<close> is a function argument.  A \<open>HashMap\<close> iterates in the
  order of its association list.
\<close>

section \<open>State\<close>

record AdmissionConfig =
  ad_max_per_sender :: nat
  max_per_device :: nat
  global_cap :: nat
  fee_floor :: u64
  fee_floor_per_class :: "(TxClass \<times> u64) list option"
  quota_per_class :: "(TxClass \<times> nat) list"
  rate_limit_window :: nat
  rate_limit_per_sender :: nat

definition default_admission_config :: AdmissionConfig where
  "default_admission_config = \<lparr> ad_max_per_sender = 2000, max_per_device = 512, global_cap = 1000000, fee_floor = 1000,
     fee_floor_per_class = None,
     quota_per_class = [(Financial, 500000), (IoTData, 200000), (FederatedUpdate, 50000), (System, 20000)],
     rate_limit_window = secs 60, rate_limit_per_sender = 5000 \<rparr>"

definition testnet_fees :: AdmissionConfig where
  "testnet_fees = default_admission_config\<lparr>
     fee_floor_per_class := Some [(Financial, 1000), (IoTData, 100), (FederatedUpdate, 10000), (System, 0)],
     fee_floor := 1000 \<rparr>"

record RateLimiter =
  recent_txs :: "nat list"
  window :: nat
  limit :: nat

record RoundContribution =
  round_id :: u64
  contributions :: "(SenderId \<times> nat) list"
  rc_max_per_sender :: nat

record AdmissionControl =
  ad_config :: AdmissionConfig
  sender_counts :: "(SenderId \<times> nat) list"
  device_counts :: "(u64 \<times> nat) list"
  class_counts :: "(TxClass \<times> nat) list"
  global_count :: nat
  rate_limiters :: "(SenderId \<times> RateLimiter) list"
  round_contribution :: RoundContribution
  seen_transactions :: "(bytes \<times> SenderId \<times> u64 \<times> nat) list"
  max_seen_transactions :: nat
  admitted_nonces :: "(SenderId \<times> (u64 \<times> nat) list) list"
  admitted_ttl :: nat
  admit_calls_since_evict :: u32
  queued_pool :: QueuedPool

datatype RejectReason =
  DuplicateSenderNonce
  | ReplayAttack
  | ReplayRejected ReplayPreventionError
  | AccountDecodeFailed
  | NonceTooLow
  | QueueRefused QueuedPoolError
  | InsufficientFunds
  | StorageFailed
  | DuplicateTransaction
  | HashCollision
  | FeeTooLow
  | SenderCapExceeded
  | GlobalCapExceeded
  | ClassQuotaExceeded
  | DeviceCapExceeded
  | RateLimitExceeded
  | RoundLimitExceeded

datatype AdmissionResult = Admitted | Queued | Rejected RejectReason

definition new_admission :: "nat \<Rightarrow> AdmissionConfig \<Rightarrow> AdmissionControl" where
  "new_admission now cfg = \<lparr> ad_config = cfg, sender_counts = [], device_counts = [], class_counts = [], global_count = 0,
     rate_limiters = [], round_contribution = \<lparr> round_id = 0, contributions = [], rc_max_per_sender = 100 \<rparr>,
     seen_transactions = [], max_seen_transactions = 100000, admitted_nonces = [], admitted_ttl = secs 300,
     admit_calls_since_evict = 0, queued_pool = new_queued_pool now default_queued_pool_config \<rparr>"

definition with_queued_pool_config :: "nat \<Rightarrow> AdmissionConfig \<Rightarrow> QueuedPoolConfig \<Rightarrow> AdmissionControl" where
  "with_queued_pool_config now cfg qcfg = (new_admission now cfg)\<lparr> queued_pool := new_queued_pool now qcfg \<rparr>"

section \<open>Counters, rate limits and rounds\<close>

definition cnt :: "('k \<times> nat) list \<Rightarrow> 'k \<Rightarrow> nat" where
  "cnt m k = (case map_of m k of Some c \<Rightarrow> c | None \<Rightarrow> 0)"

definition incr :: "'k \<Rightarrow> ('k \<times> nat) list \<Rightarrow> ('k \<times> nat) list" where
  "incr k m = AList.update k (cnt m k + 1) m"

definition decr_drop :: "'k \<Rightarrow> ('k \<times> nat) list \<Rightarrow> ('k \<times> nat) list" where
  "decr_drop k m = (case map_of m k of
      Some c \<Rightarrow> if c - 1 = 0 then AList.delete k m else AList.update k (c - 1) m | None \<Rightarrow> m)"

definition decr_keep :: "'k \<Rightarrow> ('k \<times> nat) list \<Rightarrow> ('k \<times> nat) list" where
  "decr_keep k m = (case map_of m k of Some c \<Rightarrow> AList.update k (c - 1) m | None \<Rightarrow> m)"

definition check_rate :: "nat \<Rightarrow> RateLimiter \<Rightarrow> bool \<times> RateLimiter" where
  "check_rate now l =
    (let kept = filter (\<lambda>ts. now - ts < window l) (recent_txs l) in
     if limit l \<le> length kept then (False, l\<lparr> recent_txs := kept \<rparr>)
     else (True, l\<lparr> recent_txs := kept @ [now] \<rparr>))"

definition can_contribute :: "RoundContribution \<Rightarrow> SenderId \<Rightarrow> bool" where
  "can_contribute r s \<longleftrightarrow> cnt (contributions r) s < rc_max_per_sender r"

definition record_contribution :: "SenderId \<Rightarrow> RoundContribution \<Rightarrow> RoundContribution" where
  "record_contribution s r = r\<lparr> contributions := incr s (contributions r) \<rparr>"

definition rc_new_round :: "RoundContribution \<Rightarrow> RoundContribution" where
  "rc_new_round r = r\<lparr> round_id := round_id r + 1, contributions := [] \<rparr>"

definition extract_device_id :: "PrevalidatedTx \<Rightarrow> u64 option" where
  "extract_device_id tx = (if tx_class tx = IoTData then Some (ucast (sender_id tx)) else None)"

section \<open>Aging\<close>

definition evict_aged_entries :: "nat \<Rightarrow> AdmissionControl \<Rightarrow> AdmissionControl" where
  "evict_aged_entries now a =
    (let stale = map fst (filter (\<lambda>(_, _, _, ts). admitted_ttl a < now - ts) (seen_transactions a));
         aged = map (\<lambda>(s, m). (s, fold AList.delete (map fst (filter (\<lambda>(_, ts). admitted_ttl a < now - ts) m)) m)) (admitted_nonces a)
     in a\<lparr> seen_transactions := fold AList.delete stale (seen_transactions a),
           admitted_nonces := fold AList.delete (map fst (filter (\<lambda>(_, m). m = []) aged)) aged \<rparr>)"

definition tick_evict :: "nat \<Rightarrow> AdmissionControl \<Rightarrow> AdmissionControl" where
  "tick_evict now a =
    (let a = a\<lparr> admit_calls_since_evict := saturating_add (admit_calls_since_evict a) 1 \<rparr> in
     if 1024 \<le> admit_calls_since_evict a then evict_aged_entries now (a\<lparr> admit_calls_since_evict := 0 \<rparr>) else a)"

section \<open>The gates of an admission check\<close>

definition is_admitted :: "AdmissionControl \<Rightarrow> SenderId \<Rightarrow> u64 \<Rightarrow> bool" where
  "is_admitted a s n = (case map_of (admitted_nonces a) s of Some m \<Rightarrow> map_of m n \<noteq> None | None \<Rightarrow> False)"

type_synonym 'c replay_handle = "'c lru_ops \<times> 'c ReplayPrevention \<times> account_store"

definition replay_gate :: "'c replay_handle option \<Rightarrow> PrevalidatedTx \<Rightarrow> bytes option \<Rightarrow> RejectReason option" where
  "replay_gate rp tx hash = (case (rp, hash) of
      (Some (L, r, st), Some h) \<Rightarrow>
        if is_replay_transaction L r h (sender_address tx) (nonce tx) then Some ReplayAttack
        else (case validate_transaction_nonce st (sender_address tx) (nonce tx) of
                Inr _ \<Rightarrow> None
              | Inl (NonceTooFar _ _) \<Rightarrow> None
              | Inl e \<Rightarrow> Some (ReplayRejected e))
    | _ \<Rightarrow> None)"

definition queue_tx :: "nat \<Rightarrow> PrevalidatedTx \<Rightarrow> bytes option \<Rightarrow> u64 \<Rightarrow> QueuedPool \<Rightarrow> AdmissionResult option \<times> QueuedPool" where
  "queue_tx now tx hash an q = (case try_queue now tx hash an q of
      (Inr _, q') \<Rightarrow> (Some Queued, q') | (Inl e, q') \<Rightarrow> (Some (Rejected (QueueRefused e)), q'))"

definition load_account :: "(bytes \<Rightarrow> Account option) \<Rightarrow> bytes \<Rightarrow> Account option" where
  "load_account bincode bs = (case bincode bs of
      Some acc \<Rightarrow> Some acc
    | None \<Rightarrow> (case decode_account bs of Inr acc \<Rightarrow> Some acc | Inl _ \<Rightarrow> None))"

text \<open>The storage gate: \<open>None\<close> lets the transaction go on to the policy checks.\<close>

definition storage_gate ::
  "(bytes \<Rightarrow> Account option) \<Rightarrow> account_store option \<Rightarrow> nat \<Rightarrow> PrevalidatedTx \<Rightarrow> bytes option \<Rightarrow> bool \<Rightarrow> QueuedPool
    \<Rightarrow> AdmissionResult option \<times> QueuedPool" where
  "storage_gate bincode st now tx hash from_rpc q = (case st of
      None \<Rightarrow> (None, q)
    | Some get_account \<Rightarrow> (case get_account (sender_address tx) of
        Inl _ \<Rightarrow> (Some (Rejected StorageFailed), q)
      | Inr (Some bs) \<Rightarrow> (case load_account bincode bs of
          None \<Rightarrow> (Some (Rejected AccountDecodeFailed), q)
        | Some acc \<Rightarrow>
            let gap_ceiling = (if from_rpc then ADMISSION_MAX_MAIN_POOL_NONCE_GAP_RPC else ADMISSION_MAX_MAIN_POOL_NONCE_GAP) in
            if nonce tx < acc_nonce acc then (Some (Rejected NonceTooLow), q)
            else if acc_nonce acc + gap_ceiling < nonce tx then queue_tx now tx hash (acc_nonce acc) q
            else if balance acc < saturating_add (ucast (max_fee tx)) (ucast (pv_amount tx)) then (Some (Rejected InsufficientFunds), q)
            else (None, q))
      | Inr None \<Rightarrow>
          if from_rpc
          then if ADMISSION_MAX_MAIN_POOL_NONCE_GAP_RPC < nonce tx then queue_tx now tx hash 0 q else (None, q)
          else queue_tx now tx hash 0 q))"

definition class_fee_floor :: "AdmissionConfig \<Rightarrow> TxClass \<Rightarrow> u64" where
  "class_fee_floor cfg c = (case Option.bind (fee_floor_per_class cfg) (\<lambda>m. map_of m c) of Some f \<Rightarrow> f | None \<Rightarrow> fee_floor cfg)"

text \<open>Steps 2 to 7: duplicates, fee floor, caps and quotas.\<close>

definition policy_gate :: "AdmissionControl \<Rightarrow> PrevalidatedTx \<Rightarrow> bytes option \<Rightarrow> RejectReason option" where
  "policy_gate a tx hash =
    (case Option.bind hash (map_of (seen_transactions a)) of
       Some (s, n, _) \<Rightarrow> Some (if s = sender_id tx \<and> n = nonce tx then DuplicateTransaction else HashCollision)
     | None \<Rightarrow>
         if tx_class tx \<noteq> System \<and> max_fee tx < class_fee_floor (ad_config a) (tx_class tx) then Some FeeTooLow
         else if ad_max_per_sender (ad_config a) \<le> cnt (sender_counts a) (sender_id tx) then Some SenderCapExceeded
         else if global_cap (ad_config a) \<le> global_count a then Some GlobalCapExceeded
         else if (case map_of (quota_per_class (ad_config a)) (tx_class tx) of
                    Some quota \<Rightarrow> quota \<le> cnt (class_counts a) (tx_class tx) | None \<Rightarrow> False) then Some ClassQuotaExceeded
         else if (case extract_device_id tx of
                    Some d \<Rightarrow> max_per_device (ad_config a) \<le> cnt (device_counts a) d | None \<Rightarrow> False) then Some DeviceCapExceeded
         else None)"

text \<open>Steps 8 and 9, for the two data classes.\<close>

definition rate_gate :: "nat \<Rightarrow> PrevalidatedTx \<Rightarrow> AdmissionControl \<Rightarrow> AdmissionResult \<times> AdmissionControl" where
  "rate_gate now tx a =
    (if tx_class tx \<in> {IoTData, FederatedUpdate} then
       let l = (case map_of (rate_limiters a) (sender_id tx) of
                  Some l \<Rightarrow> l
                | None \<Rightarrow> \<lparr> recent_txs = [], window = rate_limit_window (ad_config a), limit = rate_limit_per_sender (ad_config a) \<rparr>);
           (ok, l) = check_rate now l;
           a = a\<lparr> rate_limiters := AList.update (sender_id tx) l (rate_limiters a) \<rparr>
       in if \<not> ok then (Rejected RateLimitExceeded, a)
          else if \<not> can_contribute (round_contribution a) (sender_id tx) then (Rejected RoundLimitExceeded, a)
          else (Admitted, a)
     else (Admitted, a))"

definition check_admission_ext_with_source ::
  "(bytes \<Rightarrow> Account option) \<Rightarrow> account_store option \<Rightarrow> 'c replay_handle option \<Rightarrow> nat \<Rightarrow> PrevalidatedTx \<Rightarrow> bytes option \<Rightarrow> bool
    \<Rightarrow> AdmissionControl \<Rightarrow> AdmissionResult \<times> AdmissionControl" where
  "check_admission_ext_with_source bincode st rp now tx hash from_rpc a =
    (let a = tick_evict now a in
     if is_admitted a (sender_id tx) (nonce tx) then (Rejected DuplicateSenderNonce, a)
     else case replay_gate rp tx hash of
       Some e \<Rightarrow> (Rejected e, a)
     | None \<Rightarrow>
         let (r, q) = storage_gate bincode st now tx hash from_rpc (queued_pool a);
             a = a\<lparr> queued_pool := q \<rparr>
         in case r of
              Some res \<Rightarrow> (res, a)
            | None \<Rightarrow> (case policy_gate a tx hash of Some e \<Rightarrow> (Rejected e, a) | None \<Rightarrow> rate_gate now tx a))"

definition check_admission ::
  "(bytes \<Rightarrow> Account option) \<Rightarrow> account_store option \<Rightarrow> 'c replay_handle option \<Rightarrow> nat \<Rightarrow> PrevalidatedTx \<Rightarrow> bytes option
    \<Rightarrow> AdmissionControl \<Rightarrow> bool \<times> AdmissionControl" where
  "check_admission bincode st rp now tx hash a =
    (let (r, a) = check_admission_ext_with_source bincode st rp now tx hash False a in (r = Admitted, a))"

section \<open>Bookkeeping\<close>

definition make_room :: "AdmissionControl \<Rightarrow> (bytes \<times> SenderId \<times> u64 \<times> nat) list" where
  "make_room a =
    (if max_seen_transactions a \<le> length (seen_transactions a)
     then fold AList.delete (map fst (take 1000 (sort_key snd (map (\<lambda>(k, _, _, ts). (k, ts)) (seen_transactions a))))) (seen_transactions a)
     else seen_transactions a)"

definition record_admission :: "nat \<Rightarrow> PrevalidatedTx \<Rightarrow> bytes option \<Rightarrow> AdmissionControl \<Rightarrow> AdmissionControl" where
  "record_admission now tx hash a =
    (let seen = (case hash of
           Some h \<Rightarrow> AList.update h (sender_id tx, nonce tx, now) (make_room a) | None \<Rightarrow> seen_transactions a);
         m = (case map_of (admitted_nonces a) (sender_id tx) of Some m \<Rightarrow> m | None \<Rightarrow> [])
     in a\<lparr> seen_transactions := seen,
           admitted_nonces := AList.update (sender_id tx) (AList.update (nonce tx) now m) (admitted_nonces a),
           sender_counts := incr (sender_id tx) (sender_counts a),
           class_counts := incr (tx_class tx) (class_counts a),
           global_count := global_count a + 1,
           device_counts := (case extract_device_id tx of Some d \<Rightarrow> incr d (device_counts a) | None \<Rightarrow> device_counts a),
           round_contribution := (if tx_class tx \<in> {IoTData, FederatedUpdate}
             then record_contribution (sender_id tx) (round_contribution a) else round_contribution a) \<rparr>)"

definition forget_hash :: "bytes option \<Rightarrow> AdmissionControl \<Rightarrow> AdmissionControl" where
  "forget_hash hash a = (case hash of None \<Rightarrow> a | Some h \<Rightarrow>
     (case map_of (seen_transactions a) h of
        None \<Rightarrow> a
      | Some (s, n, _) \<Rightarrow>
          a\<lparr> seen_transactions := AList.delete h (seen_transactions a),
             admitted_nonces := (case map_of (admitted_nonces a) s of
               None \<Rightarrow> admitted_nonces a
             | Some m \<Rightarrow> let m = AList.delete n m in
                 if m = [] then AList.delete s (admitted_nonces a) else AList.update s m (admitted_nonces a)) \<rparr>))"

definition record_removal :: "SenderId \<Rightarrow> TxClass \<Rightarrow> bytes option \<Rightarrow> AdmissionControl \<Rightarrow> AdmissionControl" where
  "record_removal s c hash a =
    (let a = forget_hash hash a
     in a\<lparr> sender_counts := decr_drop s (sender_counts a), class_counts := decr_keep c (class_counts a),
           global_count := global_count a - 1,
           device_counts := (if c = IoTData then decr_drop (ucast s) (device_counts a) else device_counts a) \<rparr>)"

definition record_restoration :: "SenderId \<Rightarrow> TxClass \<Rightarrow> AdmissionControl \<Rightarrow> AdmissionControl" where
  "record_restoration s c a = a\<lparr> sender_counts := incr s (sender_counts a), class_counts := incr c (class_counts a),
     global_count := global_count a + 1,
     device_counts := (if c = IoTData then incr (ucast s) (device_counts a) else device_counts a) \<rparr>"

definition new_round :: "AdmissionControl \<Rightarrow> AdmissionControl" where
  "new_round a = a\<lparr> round_contribution := rc_new_round (round_contribution a) \<rparr>"

definition promote_queued :: "SenderId \<Rightarrow> u64 \<Rightarrow> AdmissionControl \<Rightarrow> (PrevalidatedTx \<times> bytes option) list \<times> AdmissionControl" where
  "promote_queued s n a = (let (out, q) = promote s n (queued_pool a) in (out, a\<lparr> queued_pool := q \<rparr>))"

definition promote_queued_batch :: "(SenderId \<times> u64) list \<Rightarrow> AdmissionControl \<Rightarrow> (PrevalidatedTx \<times> bytes option) list \<times> AdmissionControl" where
  "promote_queued_batch us a = (let (out, q) = promote_batch us (queued_pool a) in (out, a\<lparr> queued_pool := q \<rparr>))"

definition cleanup_queued_pool :: "nat \<Rightarrow> AdmissionControl \<Rightarrow> AdmissionControl" where
  "cleanup_queued_pool now a = a\<lparr> queued_pool := cleanup_expired now (queued_pool a) \<rparr>"

section \<open>Counters as a view of the resident transactions\<close>

lemma cnt_incr [simp]: "cnt (incr k m) j = (if j = k then Suc (cnt m j) else cnt m j)"
  by (simp add: cnt_def incr_def)

lemma cnt_decr [simp]:
  "cnt (decr_drop k m) j = (if j = k then cnt m j - 1 else cnt m j)"
  "cnt (decr_keep k m) j = (if j = k then cnt m j - 1 else cnt m j)"
  by (auto simp: cnt_def decr_drop_def decr_keep_def map_of_delete_iff split: option.splits)

lemma ucast_u32_inj [simp]: "(ucast (s :: u32) :: u64) = ucast t \<longleftrightarrow> s = t"
proof
  assume "(ucast s :: u64) = ucast t"
  then have "unat (ucast s :: u64) = unat (ucast t :: u64)" by simp
  moreover have "unat s < 2 ^ 64" "unat t < 2 ^ 64" using unat_bound [of s] unat_bound [of t] by simp_all
  ultimately show "s = t" by (simp add: unat_ucast_mod word_unat_eq_iff)
qed simp

text \<open>Resident transactions are pairs of sender and class; every counter is a size of a part of them.\<close>

definition adm_counts :: "AdmissionControl \<Rightarrow> (SenderId \<times> TxClass) multiset \<Rightarrow> bool" where
  "adm_counts a R \<longleftrightarrow> global_count a = size R
    \<and> (\<forall>s. cnt (sender_counts a) s = size (filter_mset (\<lambda>x. fst x = s) R))
    \<and> (\<forall>c. cnt (class_counts a) c = size (filter_mset (\<lambda>x. snd x = c) R))
    \<and> (\<forall>s. cnt (device_counts a) (ucast s) = count R (s, IoTData))"

lemma adm_counts_new: "adm_counts (new_admission now cfg) {#}"
  by (simp add: adm_counts_def new_admission_def cnt_def)

lemma adm_counts_admission:
  "adm_counts a R \<Longrightarrow> adm_counts (record_admission now tx hash a) (add_mset (sender_id tx, tx_class tx) R)"
  by (auto simp: adm_counts_def record_admission_def Let_def extract_device_id_def)

lemma adm_counts_restoration: "adm_counts a R \<Longrightarrow> adm_counts (record_restoration s c a) (add_mset (s, c) R)"
  by (auto simp: adm_counts_def record_restoration_def)

lemma forget_hash_counts [simp]:
  "sender_counts (forget_hash h a) = sender_counts a" "class_counts (forget_hash h a) = class_counts a"
  "device_counts (forget_hash h a) = device_counts a" "global_count (forget_hash h a) = global_count a"
  "ad_config (forget_hash h a) = ad_config a" "queued_pool (forget_hash h a) = queued_pool a"
  "round_contribution (forget_hash h a) = round_contribution a"
  by (auto simp: forget_hash_def split: option.splits)

lemma adm_counts_removal: "adm_counts a (add_mset (s, c) R) \<Longrightarrow> adm_counts (record_removal s c hash a) R"
  by (auto simp: adm_counts_def record_removal_def Let_def)

lemma adm_counts_cong:
  "sender_counts a = sender_counts b \<Longrightarrow> class_counts a = class_counts b \<Longrightarrow> device_counts a = device_counts b
    \<Longrightarrow> global_count a = global_count b \<Longrightarrow> adm_counts a R \<longleftrightarrow> adm_counts b R"
  by (simp add: adm_counts_def)

lemma tick_evict_keeps [simp]:
  "sender_counts (tick_evict now a) = sender_counts a" "class_counts (tick_evict now a) = class_counts a"
  "device_counts (tick_evict now a) = device_counts a" "global_count (tick_evict now a) = global_count a"
  "ad_config (tick_evict now a) = ad_config a" "queued_pool (tick_evict now a) = queued_pool a"
  "round_contribution (tick_evict now a) = round_contribution a" "rate_limiters (tick_evict now a) = rate_limiters a"
  "admitted_ttl (tick_evict now a) = admitted_ttl a"
  by (simp_all add: tick_evict_def evict_aged_entries_def Let_def)

text \<open>What an admission check leaves alone.\<close>

lemma check_keeps:
  assumes "check_admission_ext_with_source bincode st rp now tx hash from_rpc a = (r, a')"
  shows "sender_counts a' = sender_counts a \<and> class_counts a' = class_counts a \<and> device_counts a' = device_counts a
    \<and> global_count a' = global_count a \<and> ad_config a' = ad_config a \<and> admitted_ttl a' = admitted_ttl a
    \<and> admitted_nonces a' = admitted_nonces (tick_evict now a) \<and> round_contribution a' = round_contribution a"
  using assms unfolding check_admission_ext_with_source_def rate_gate_def Let_def
  by (auto split: if_splits option.splits prod.splits)

lemma storage_gate_admitted: "storage_gate bincode st now tx hash from_rpc q \<noteq> (Some Admitted, q')"
  by (auto simp: storage_gate_def queue_tx_def Let_def split: option.splits sum.splits prod.splits if_splits)

lemma check_admitted:
  assumes "check_admission_ext_with_source bincode st rp now tx hash from_rpc a = (Admitted, a')"
  shows "\<not> is_admitted (tick_evict now a) (sender_id tx) (nonce tx)" "replay_gate rp tx hash = None"
    "\<exists>q. storage_gate bincode st now tx hash from_rpc (queued_pool a) = (None, q) \<and>
       policy_gate ((tick_evict now a)\<lparr> queued_pool := q \<rparr>) tx hash = None"
  using assms storage_gate_admitted [of bincode st now tx hash from_rpc "queued_pool a"]
  unfolding check_admission_ext_with_source_def Let_def
  by (auto split: if_splits option.splits prod.splits)

section \<open>Steps\<close>

text \<open>One call on the admission layer, labelled with its instant; a submission that passes the check
  is recorded at once, under the same lock.\<close>

datatype adm_label = At nat | Removal

inductive adm_step :: "(bytes \<Rightarrow> Account option) \<Rightarrow> 'c lru_ops \<Rightarrow> adm_label \<Rightarrow> AdmissionControl \<Rightarrow> AdmissionControl \<Rightarrow> bool"
  for bincode L where
  submit: "check_admission_ext_with_source bincode st (map_option (\<lambda>(r, g). (L, r, g)) rp) now tx hash from_rpc a = (res, a1) \<Longrightarrow>
     adm_step bincode L (At now) a (if res = Admitted then record_admission now tx hash a1 else a1)"
| remove: "adm_step bincode L Removal a (record_removal s c hash a)"
| restore: "adm_step bincode L (At now) a (record_restoration s c a)"
| round: "adm_step bincode L (At now) a (new_round a)"
| promote: "adm_step bincode L (At now) a (snd (promote_queued_batch us a))"
| cleanup: "adm_step bincode L (At now) a (cleanup_queued_pool now a)"

definition adm_any :: "(bytes \<Rightarrow> Account option) \<Rightarrow> 'c lru_ops \<Rightarrow> AdmissionControl \<Rightarrow> AdmissionControl \<Rightarrow> bool" where
  "adm_any bincode L a b \<longleftrightarrow> (\<exists>l. adm_step bincode L l a b)"

definition adm_before :: "(bytes \<Rightarrow> Account option) \<Rightarrow> 'c lru_ops \<Rightarrow> nat \<Rightarrow> AdmissionControl \<Rightarrow> AdmissionControl \<Rightarrow> bool" where
  "adm_before bincode L T a b \<longleftrightarrow> (\<exists>now \<le> T. adm_step bincode L (At now) a b)"

section \<open>The record of admitted nonces\<close>

definition adm_wf :: "AdmissionControl \<Rightarrow> bool" where
  "adm_wf a \<longleftrightarrow> hm_wf (admitted_nonces a) \<and> (\<forall>(s, m) \<in> set (admitted_nonces a). hm_wf m)"

definition admitted_at :: "AdmissionControl \<Rightarrow> SenderId \<Rightarrow> u64 \<Rightarrow> nat option" where
  "admitted_at a s n = Option.bind (map_of (admitted_nonces a) s) (\<lambda>m. map_of m n)"

lemma is_admitted_at: "is_admitted a s n \<longleftrightarrow> admitted_at a s n \<noteq> None"
  by (simp add: is_admitted_def admitted_at_def split: option.splits)

lemma adm_wf_inner: "adm_wf a \<Longrightarrow> map_of (admitted_nonces a) s = Some m \<Longrightarrow> hm_wf m"
  unfolding adm_wf_def using map_of_SomeD by fast

abbreviation aged :: "nat \<Rightarrow> nat \<Rightarrow> (u64 \<times> nat) list \<Rightarrow> (u64 \<times> nat) list" where
  "aged t now m \<equiv> fold AList.delete (map fst (filter (\<lambda>(_, ts). t < now - ts) m)) m"

abbreviation aged_all :: "nat \<Rightarrow> nat \<Rightarrow> (SenderId \<times> (u64 \<times> nat) list) list \<Rightarrow> (SenderId \<times> (u64 \<times> nat) list) list" where
  "aged_all t now ms \<equiv> map (\<lambda>(s, m). (s, aged t now m)) ms"

lemma admitted_nonces_evict:
  "admitted_nonces (evict_aged_entries now a) =
    (let ms = aged_all (admitted_ttl a) now (admitted_nonces a) in fold AList.delete (map fst (filter (\<lambda>(_, m). m = []) ms)) ms)"
  by (simp add: evict_aged_entries_def Let_def)

lemma adm_wf_evict: "adm_wf a \<Longrightarrow> adm_wf (evict_aged_entries now a)"
proof -
  assume a: "adm_wf a"
  let ?ms = "aged_all (admitted_ttl a) now (admitted_nonces a)"
  have "map fst ?ms = map fst (admitted_nonces a)" by auto
  then have "hm_wf ?ms" using a by (simp only: adm_wf_def)
  moreover have "\<forall>(s, m) \<in> set ?ms. hm_wf m" using a by (auto simp: adm_wf_def intro!: hm_wf_fold_delete)
  ultimately show ?thesis
    unfolding adm_wf_def admitted_nonces_evict Let_def
    using hm_wf_fold_delete set_fold_delete by fast
qed

lemma admitted_at_evict:
  assumes a: "adm_wf a" and e: "admitted_at a s n = Some ts" "now - ts \<le> admitted_ttl a"
  shows "admitted_at (evict_aged_entries now a) s n = Some ts"
proof -
  let ?ms = "aged_all (admitted_ttl a) now (admitted_nonces a)"
  obtain m where m: "map_of (admitted_nonces a) s = Some m" "map_of m n = Some ts"
    using e(1) by (auto simp: admitted_at_def bind_eq_Some_conv)
  let ?m = "aged (admitted_ttl a) now m"
  have n: "map_of ?m n = Some ts"
    using map_of_drop_stale [OF adm_wf_inner [OF a m(1)], of "\<lambda>ts. admitted_ttl a < now - ts" n ts] m(2) e(2) by simp
  have s: "map_of ?ms s = Some ?m" using m(1) by (simp add: map_of_map_values)
  have "map fst ?ms = map fst (admitted_nonces a)" by auto
  then have "hm_wf ?ms" using a by (simp only: adm_wf_def)
  moreover have "?m \<noteq> []" using n by force
  ultimately have "map_of (fold AList.delete (map fst (filter (\<lambda>(_, m). m = []) ?ms)) ?ms) s = Some ?m"
    using map_of_drop_stale [of ?ms "\<lambda>m. m = []" s ?m] s by simp
  then show ?thesis using n by (simp add: admitted_at_def admitted_nonces_evict Let_def)
qed

lemma tick_evict_cases:
  obtains "admitted_nonces (tick_evict now a) = admitted_nonces a"
  | "admitted_nonces (tick_evict now a) = admitted_nonces (evict_aged_entries now a)"
  by (cases "1024 \<le> saturating_add (admit_calls_since_evict a) 1") (simp_all add: tick_evict_def Let_def evict_aged_entries_def)

lemma adm_wf_tick: "adm_wf a \<Longrightarrow> adm_wf (tick_evict now a)"
  using adm_wf_evict [of a now] by (cases rule: tick_evict_cases [of now a]) (simp_all add: adm_wf_def)

lemma admitted_at_tick:
  "adm_wf a \<Longrightarrow> admitted_at a s n = Some ts \<Longrightarrow> now - ts \<le> admitted_ttl a \<Longrightarrow> admitted_at (tick_evict now a) s n = Some ts"
  using admitted_at_evict [of a s n ts now] by (cases rule: tick_evict_cases [of now a]) (simp_all add: admitted_at_def)

lemma adm_wf_admission: assumes "adm_wf a" shows "adm_wf (record_admission now tx hash a)"
proof -
  let ?m = "case map_of (admitted_nonces a) (sender_id tx) of Some m \<Rightarrow> m | None \<Rightarrow> []"
  have "hm_wf ?m" using adm_wf_inner [OF assms] by (simp split: option.splits)
  then have "hm_wf (AList.update (nonce tx) now ?m)" by (simp add: distinct_update)
  then show ?thesis
    using assms set_update_sub [of "sender_id tx" "AList.update (nonce tx) now ?m" "admitted_nonces a"]
    unfolding adm_wf_def record_admission_def Let_def by (fastforce simp: distinct_update)
qed

lemma admitted_at_admission:
  "admitted_at (record_admission now tx hash a) s n =
    (if s = sender_id tx \<and> n = nonce tx then Some now else admitted_at a s n)"
  by (auto simp: admitted_at_def record_admission_def Let_def split: option.splits)

lemma adm_wf_forget: assumes "adm_wf a" shows "adm_wf (forget_hash h a)"
proof -
  have "adm_wf (b\<lparr> admitted_nonces := AList.delete s (admitted_nonces a) \<rparr>)" for b s
    using assms set_delete_sub [of s "admitted_nonces a"] unfolding adm_wf_def by (auto simp: distinct_delete)
  moreover have "adm_wf (b\<lparr> admitted_nonces := AList.update s (AList.delete n m) (admitted_nonces a) \<rparr>)"
    if "map_of (admitted_nonces a) s = Some m" for b s n m
    using assms set_update_sub [of s "AList.delete n m" "admitted_nonces a"] adm_wf_inner [OF assms that]
    unfolding adm_wf_def by (fastforce simp: distinct_update distinct_delete)
  ultimately show ?thesis
    using assms unfolding forget_hash_def by (auto simp: adm_wf_def Let_def split: option.splits)
qed

lemma promote_batch_admission: "admitted_nonces (snd (promote_queued_batch us a)) = admitted_nonces a"
  "admitted_ttl (snd (promote_queued_batch us a)) = admitted_ttl a"
  by (simp_all add: promote_queued_batch_def split_beta)

lemma adm_wf_cong: "admitted_nonces a = admitted_nonces b \<Longrightarrow> adm_wf a \<longleftrightarrow> adm_wf b"
  by (simp add: adm_wf_def)

lemma adm_wf_step: assumes "adm_wf a" "adm_step bincode L l a b" shows "adm_wf b"
  using assms(2)
proof cases
  case (submit st rp now tx hash from_rpc res a1)
  have "adm_wf a1" using check_keeps [OF submit(3)] adm_wf_tick [OF assms(1), of now] by (simp add: adm_wf_def)
  then show ?thesis using submit adm_wf_admission by simp
next
  case (remove s c hash)
  then show ?thesis using adm_wf_forget [OF assms(1), of hash] by (simp add: adm_wf_def record_removal_def Let_def)
qed (use assms(1) in \<open>simp_all add: adm_wf_def record_restoration_def new_round_def promote_batch_admission cleanup_queued_pool_def\<close>)

lemma adm_wf_new: "adm_wf (new_admission now cfg)"
  by (simp add: new_admission_def adm_wf_def)

interpretation adm: inv_system "\<lambda>a. a = new_admission now0 cfg" "adm_any bincode L" adm_wf for now0 cfg bincode L
  by unfold_locales (auto simp: adm_wf_new adm_any_def intro: adm_wf_step)

text \<open>An entry younger than the time to live survives every call but a removal, and blocks its pair.\<close>

lemma dedup_step:
  assumes "adm_wf a" "admitted_at a s n = Some ts" "T \<le> ts + admitted_ttl a" "adm_before bincode L T a b"
  shows "admitted_at b s n = Some ts \<and> admitted_ttl b = admitted_ttl a"
proof -
  obtain now where now: "now \<le> T" "adm_step bincode L (At now) a b" using assms(4) by (auto simp: adm_before_def)
  from now(2) show ?thesis
  proof cases
    case (submit st rp tx hash from_rpc res a1)
    have t: "admitted_at (tick_evict now a) s n = Some ts" by (rule admitted_at_tick) (use assms now in auto)
    then have "\<not> (s = sender_id tx \<and> n = nonce tx)" if r: "res = Admitted"
      using check_admitted(1) [OF submit(2) [unfolded r]] by (auto simp: is_admitted_at)
    moreover have "admitted_at a1 s n = Some ts" "admitted_ttl a1 = admitted_ttl a"
      using t check_keeps [OF submit(2)] by (simp_all add: admitted_at_def)
    ultimately show ?thesis using submit(1)
      by (auto simp: admitted_at_admission) (simp_all add: record_admission_def Let_def)
  qed (use assms(2) in \<open>simp_all add: admitted_at_def record_restoration_def new_round_def promote_batch_admission cleanup_queued_pool_def\<close>)
qed

lemma dedup_run:
  assumes "(adm_before bincode L T)\<^sup>*\<^sup>* a b" "adm_wf a" "admitted_at a s n = Some ts" "T \<le> ts + admitted_ttl a"
  shows "adm_wf b \<and> admitted_at b s n = Some ts \<and> admitted_ttl b = admitted_ttl a"
  using assms
proof (induction rule: rtranclp_induct)
  case (step b c)
  then have b: "adm_wf b" "admitted_at b s n = Some ts" "admitted_ttl b = admitted_ttl a" by simp_all
  have "adm_wf c" using step(2) adm_wf_step [OF b(1)] by (auto simp: adm_before_def)
  then show ?case using dedup_step [OF b(1,2) _ step(2)] b(3) step.prems(3) by simp
qed simp

section \<open>A concrete layer\<close>

text \<open>A node that knows one funded account, without a replay filter.\<close>

definition toy_adm :: AdmissionControl where
  "toy_adm = new_admission 0 default_admission_config"

definition toy_store :: account_store where
  "toy_store addr = Inr (if addr = [1] then Some (encode_account \<lparr> balance = 50000, acc_nonce = 4 \<rparr>) else None)"

definition toy_pv :: "u64 \<Rightarrow> PrevalidatedTx" where
  "toy_pv n = \<lparr> sender_id = 1, sender_address = [1], nonce = n, max_fee = 2000, pv_amount = 100, tx_handle = 9,
     tx_class = Financial, stream_nonce = None \<rparr>"

definition no_replay :: "unit replay_handle option" where
  "no_replay = None"

definition toy_check :: "nat \<Rightarrow> PrevalidatedTx \<Rightarrow> AdmissionControl \<Rightarrow> AdmissionResult \<times> AdmissionControl" where
  "toy_check now tx a = check_admission_ext_with_source (\<lambda>_. None) (Some toy_store) no_replay now tx None False a"

lemma toy_load: "toy_store [1] = Inr (Some (encode_account \<lparr> balance = 50000, acc_nonce = 4 \<rparr>))"
  "load_account (\<lambda>_. None) (encode_account \<lparr> balance = 50000, acc_nonce = 4 \<rparr>) = Some \<lparr> balance = 50000, acc_nonce = 4 \<rparr>"
  by (simp_all add: toy_store_def load_account_def, code_simp)

lemmas admission_eval = check_admission_ext_with_source_def tick_evict_def Let_def is_admitted_def replay_gate_def
  storage_gate_def policy_gate_def rate_gate_def class_fee_floor_def cnt_def extract_device_id_def saturating_add_def
  checked_add_def ADMISSION_MAX_MAIN_POOL_NONCE_GAP_def new_admission_def default_admission_config_def
  word_le_nat_alt word_less_nat_alt

lemma toy_admitted: "fst (toy_check 5 (toy_pv 4) toy_adm) = Admitted"
  by (simp add: toy_check_def toy_adm_def no_replay_def toy_pv_def toy_load admission_eval)

section \<open>Properties\<close>

text \<open>C9. A transaction of a stored account is admitted only if its nonce is neither used nor further
  ahead than the gap of its source, the account holds the fee and the amount together, the fee
  reaches the floor of its class, and every cap still has room for it.\<close>

theorem admitted_is_payable:
  assumes "check_admission_ext_with_source bincode (Some get_account) rp now tx hash from_rpc a = (Admitted, a')"
    and "get_account (sender_address tx) = Inr (Some bs)" "load_account bincode bs = Some acc"
  shows "unat (acc_nonce acc) \<le> unat (nonce tx)
    \<and> unat (nonce tx) \<le> unat (acc_nonce acc) + (if from_rpc then 100000 else 3000)
    \<and> unat (max_fee tx) + unat (pv_amount tx) \<le> unat (balance acc)
    \<and> (tx_class tx \<noteq> System \<longrightarrow> class_fee_floor (ad_config a) (tx_class tx) \<le> max_fee tx)
    \<and> cnt (sender_counts a) (sender_id tx) < ad_max_per_sender (ad_config a)
    \<and> global_count a < global_cap (ad_config a)
    \<and> (\<forall>q. map_of (quota_per_class (ad_config a)) (tx_class tx) = Some q \<longrightarrow> cnt (class_counts a) (tx_class tx) < q)
    \<and> (tx_class tx = IoTData \<longrightarrow> cnt (device_counts a) (ucast (sender_id tx)) < max_per_device (ad_config a))"
proof -
  obtain q where sg: "storage_gate bincode (Some get_account) now tx hash from_rpc (queued_pool a) = (None, q)"
    and pg: "policy_gate ((tick_evict now a)\<lparr> queued_pool := q \<rparr>) tx hash = None"
    using check_admitted(3) [OF assms(1)] by blast
  let ?g = "if from_rpc then 100000 else 3000 :: u64"
  have f: "\<not> nonce tx < acc_nonce acc" "\<not> acc_nonce acc + ?g < nonce tx"
    "\<not> balance acc < saturating_add (ucast (max_fee tx)) (ucast (pv_amount tx))"
    using sg assms(2,3)
    by (auto simp: storage_gate_def Let_def queue_tx_def ADMISSION_MAX_MAIN_POOL_NONCE_GAP_RPC_def
        ADMISSION_MAX_MAIN_POOL_NONCE_GAP_def split: if_splits prod.splits sum.splits)
  have "unat (acc_nonce acc + ?g) \<le> unat (acc_nonce acc) + unat ?g" by (simp add: unat_word_ariths)
  then have 1: "unat (nonce tx) \<le> unat (acc_nonce acc) + (if from_rpc then 100000 else 3000)"
    using f(2) by (simp add: word_less_nat_alt not_less split: if_splits)
  have small: "unat (max_fee tx) < 2 ^ 64" "unat (pv_amount tx) < 2 ^ 64"
    using unat_bound [of "max_fee tx"] unat_bound [of "pv_amount tx"] by simp_all
  then have "unat (saturating_add (ucast (max_fee tx)) (ucast (pv_amount tx)) :: u128) = unat (max_fee tx) + unat (pv_amount tx)"
    by (simp add: unat_saturating_add unat_ucast_mod)
  then have 2: "unat (max_fee tx) + unat (pv_amount tx) \<le> unat (balance acc)" using f(3) by (simp add: word_less_nat_alt)
  show ?thesis using 1 2 f(1) pg
    by (auto simp: policy_gate_def word_less_nat_alt word_le_nat_alt extract_device_id_def split: if_splits option.splits prod.splits)
qed

theorem admitted_is_payable_witness:
  "unat (max_fee (toy_pv 4)) + unat (pv_amount (toy_pv 4)) \<le> unat (50000 :: u128) \<and> global_count toy_adm < 1000000"
proof -
  obtain a' where "toy_check 5 (toy_pv 4) toy_adm = (Admitted, a')" using toy_admitted by (metis prod.collapse)
  then have c: "check_admission_ext_with_source (\<lambda>_. None) (Some toy_store) no_replay 5 (toy_pv 4) None False toy_adm = (Admitted, a')"
    by (simp add: toy_check_def)
  have g: "toy_store (sender_address (toy_pv 4)) = Inr (Some (encode_account \<lparr> balance = 50000, acc_nonce = 4 \<rparr>))"
    by (simp add: toy_pv_def toy_load)
  have "global_cap (ad_config toy_adm) = 1000000" by (simp add: toy_adm_def new_admission_def default_admission_config_def)
  then show ?thesis using admitted_is_payable [OF c g toy_load(2)] by simp
qed

text \<open>A transaction of a stored account is never parked in the queued pool: admission sends to the
  pool only nonces further ahead than the pool's own gap, which the pool refuses.\<close>

theorem funded_never_queued:
  assumes "check_admission_ext_with_source bincode (Some get_account) rp now tx hash from_rpc a = (r, a')"
    and "get_account (sender_address tx) = Inr (Some bs)" "load_account bincode bs = Some acc"
    and "max_nonce_gap (qp_config (queued_pool a)) = QUEUED_POOL_MAX_NONCE_GAP" "unat (acc_nonce acc) + 100000 < 2 ^ 64"
  shows "r \<noteq> Queued"
proof
  assume r: "r = Queued"
  let ?g = "if from_rpc then 100000 else 3000 :: u64"
  obtain q where "storage_gate bincode (Some get_account) now tx hash from_rpc (queued_pool a) = (Some Queued, q)"
    using assms(1) r unfolding check_admission_ext_with_source_def rate_gate_def Let_def
    by (auto split: if_splits option.splits prod.splits)
  then have far: "acc_nonce acc + ?g < nonce tx" and ok: "fst (try_queue now tx hash (acc_nonce acc) (queued_pool a)) = Inr ()"
    using assms(2,3) by (auto simp: storage_gate_def Let_def queue_tx_def ADMISSION_MAX_MAIN_POOL_NONCE_GAP_RPC_def
        ADMISSION_MAX_MAIN_POOL_NONCE_GAP_def split: if_splits prod.splits sum.splits)
  have "unat (acc_nonce acc + ?g) = unat (acc_nonce acc) + unat ?g"
    using assms(5) by (subst unat_add_lem [THEN iffD1]) (simp_all split: if_splits)
  then have "3000 < unat (nonce tx) - unat (acc_nonce acc)" using far by (simp add: word_less_nat_alt split: if_splits)
  then have "QUEUED_POOL_MAX_NONCE_GAP < saturating_sub (nonce tx) (acc_nonce acc)"
    by (simp add: word_less_nat_alt unat_saturating_sub QUEUED_POOL_MAX_NONCE_GAP_def)
  then show False using ok assms(4) by (simp add: try_queue_def Let_def)
qed

theorem funded_never_queued_witness: "fst (toy_check 5 (toy_pv 9000) toy_adm) \<noteq> Queued"
proof -
  obtain r a' where c: "check_admission_ext_with_source (\<lambda>_. None) (Some toy_store) no_replay 5 (toy_pv 9000) None False toy_adm = (r, a')"
    by fastforce
  have g: "toy_store (sender_address (toy_pv 9000)) = Inr (Some (encode_account \<lparr> balance = 50000, acc_nonce = 4 \<rparr>))"
    by (simp add: toy_pv_def toy_load)
  have "max_nonce_gap (qp_config (queued_pool toy_adm)) = QUEUED_POOL_MAX_NONCE_GAP"
    by (simp add: toy_adm_def new_admission_def new_queued_pool_def default_queued_pool_config_def)
  then show ?thesis using funded_never_queued [OF c g toy_load(2)] c by (simp add: toy_check_def)
qed

text \<open>C10. After a transaction is admitted, no transaction with the same sender and nonce passes the
  check again within the time to live, whatever else is submitted, restored or promoted meanwhile,
  as long as nothing is removed.\<close>

theorem no_double_admission:
  assumes "reachable (\<lambda>a. a = new_admission now0 cfg) (adm_any bincode L) a"
    and "(adm_before bincode L T)\<^sup>*\<^sup>* (record_admission ts tx hash a) b" "T \<le> ts + admitted_ttl a" "now \<le> T"
    and "sender_id tx' = sender_id tx" "nonce tx' = nonce tx"
  shows "fst (check_admission_ext_with_source bincode st rp now tx' hash' from_rpc b) = Rejected DuplicateSenderNonce"
proof -
  have wf: "adm_wf (record_admission ts tx hash a)" by (intro adm_wf_admission adm.inv_reachable [OF assms(1)])
  have ttl: "admitted_ttl (record_admission ts tx hash a) = admitted_ttl a" by (simp add: record_admission_def Let_def)
  have at: "admitted_at (record_admission ts tx hash a) (sender_id tx') (nonce tx') = Some ts"
    by (simp add: admitted_at_admission assms(5,6))
  note b = dedup_run [OF assms(2) wf at]
  have "admitted_at (tick_evict now b) (sender_id tx') (nonce tx') = Some ts"
    by (rule admitted_at_tick) (use b ttl assms(3,4) in auto)
  then show ?thesis by (simp add: check_admission_ext_with_source_def Let_def is_admitted_at)
qed

theorem no_double_admission_witness:
  "fst (toy_check 9 (toy_pv 4) (record_admission 5 (toy_pv 4) None toy_adm)) = Rejected DuplicateSenderNonce"
  unfolding toy_check_def
  by (rule no_double_admission [of 0 default_admission_config "\<lambda>_. None" toy_lru toy_adm 9 5 "toy_pv 4" None])
    (auto simp: toy_adm_def new_admission_def secs_def intro: reachable.start)

end
