(* ===== verification/Mempool_Core.thy ===== *)
theory Mempool_Core
  imports Admission
begin

text \<open>
  The scheduling core of the mempool, \<open>savitri-mempool/src/mempool/core.rs\<close>: per-sender ready queues in a
  vector, the index from sender to position, the round-robin vectors per class, and the counters,
  with the admission layer it drives.  An index out of range panics: the operations return
  \<open>None\<close> there.  The admission layer sits behind a mutex and is part of the state; the durations
  in the purge metrics are not modelled.
\<close>

section \<open>State\<close>

record MempoolConfig =
  mc_global_cap :: nat
  per_sender_cap :: nat
  mc_ttl :: nat

definition default_mempool_config :: MempoolConfig where
  "default_mempool_config = \<lparr> mc_global_cap = 20000, per_sender_cap = 256, mc_ttl = secs 120 \<rparr>"

record ReadyQueue =
  rq_sender :: SenderId
  rq_queue :: "MempoolTx list"

record PurgeMetrics =
  purge_count :: u64
  lazy_skip_count :: u64
  purged_tx_count :: u64

record Mempool =
  mp_cfg :: MempoolConfig
  ready_vec :: "ReadyQueue list"
  ready_index :: "nat option list"
  rr_vec_by_class :: "nat list list"
  rr_pos_by_class :: "nat list"
  counts :: "nat list"
  mp_total :: nat
  last_purge :: nat
  purge_interval :: nat
  purge_metrics :: PurgeMetrics
  resize_count :: u64
  max_index_capacity :: nat
  admission :: AdmissionControl

definition new_mempool :: "nat \<Rightarrow> MempoolConfig \<Rightarrow> AdmissionControl \<Rightarrow> Mempool" where
  "new_mempool now cfg adm = \<lparr> mp_cfg = cfg, ready_vec = [], ready_index = [], rr_vec_by_class = [[], [], [], []],
     rr_pos_by_class = [0, 0, 0, 0], counts = [], mp_total = 0, last_purge = now, purge_interval = secs 1,
     purge_metrics = \<lparr> purge_count = 0, lazy_skip_count = 0, purged_tx_count = 0 \<rparr>,
     resize_count = 0, max_index_capacity = 1024, admission = adm \<rparr>"

fun class_idx :: "TxClass \<Rightarrow> nat" where
  "class_idx Financial = 0"
| "class_idx IoTData = 1"
| "class_idx FederatedUpdate = 2"
| "class_idx System = 3"

section \<open>The sender index\<close>

definition resize :: "nat \<Rightarrow> 'a \<Rightarrow> 'a list \<Rightarrow> 'a list" where
  "resize n x xs = take n xs @ replicate (n - length xs) x"

definition ensure_index_capacity :: "SenderId \<Rightarrow> Mempool \<Rightarrow> Mempool" where
  "ensure_index_capacity s p =
    (if length (ready_index p) \<le> unat s \<or> length (counts p) \<le> unat s then
       let current = max (length (ready_index p)) (length (counts p));
           cap = max (max (current * 2) (unat s + 1)) 2
       in p\<lparr> ready_index := resize cap None (ready_index p), counts := resize cap 0 (counts p),
             resize_count := resize_count p + 1, max_index_capacity := max (max_index_capacity p) cap \<rparr>
     else p)"

definition swap_remove :: "nat \<Rightarrow> 'a list \<Rightarrow> 'a list" where
  "swap_remove i xs = butlast (xs[i := last xs])"

definition remove_ready_queue :: "nat \<Rightarrow> Mempool \<Rightarrow> Mempool" where
  "remove_ready_queue idx p =
    (if length (ready_vec p) \<le> idx then p
     else let last_idx = length (ready_vec p) - 1;
              removed = ready_vec p ! idx;
              rv = swap_remove idx (ready_vec p);
              ri = (if unat (rq_sender removed) < length (ready_index p)
                    then (ready_index p)[unat (rq_sender removed) := None] else ready_index p);
              (ri, rr) = (if idx \<noteq> last_idx
                 then let s = unat (rq_sender (rv ! idx)) in
                      (if s < length ri then ri[s := Some idx] else ri,
                       map (map (\<lambda>i. if i = last_idx then idx else i)) (rr_vec_by_class p))
                 else (ri, rr_vec_by_class p));
              rr = map (filter (\<lambda>i. i < length rv)) rr;
              pos = map2 (\<lambda>pos v. if length v \<le> pos then 0 else pos) (rr_pos_by_class p) rr
          in p\<lparr> ready_vec := rv, ready_index := ri, rr_vec_by_class := rr, rr_pos_by_class := pos \<rparr>)"

section \<open>Adding\<close>

text \<open>The enqueueing part, after the admission check has passed and has been recorded.\<close>

definition enqueue :: "nat \<Rightarrow> PrevalidatedTx \<Rightarrow> bytes option \<Rightarrow> bool \<Rightarrow> Mempool \<Rightarrow> Mempool option" where
  "enqueue now tx hash from_rpc p =
    (let p = ensure_index_capacity (sender_id tx) p;
         s = unat (sender_id tx);
         (idx, p) = (case ready_index p ! s of
            Some i \<Rightarrow> (i, p)
          | None \<Rightarrow> (length (ready_vec p),
              p\<lparr> ready_vec := ready_vec p @ [\<lparr> rq_sender = sender_id tx, rq_queue = [] \<rparr>],
                 ready_index := (ready_index p)[s := Some (length (ready_vec p))] \<rparr>))
     in if length (ready_vec p) \<le> idx then None
        else let rq = ready_vec p ! idx;
                 mtx = (mempool_tx_from now tx)\<lparr> m_tx_hash := hash, m_rpc_accepted := from_rpc \<rparr>;
                 c = class_idx (m_class mtx)
             in Some (p\<lparr> ready_vec := (ready_vec p)[idx := rq\<lparr> rq_queue := rq_queue rq @ [mtx] \<rparr>],
                         mp_total := mp_total p + 1,
                         counts := (counts p)[s := counts p ! s + 1],
                         rr_vec_by_class := (if rq_queue rq = []
                           then (rr_vec_by_class p)[c := rr_vec_by_class p ! c @ [idx]] else rr_vec_by_class p) \<rparr>))"

definition add_prevalidated_with_source ::
  "(bytes \<Rightarrow> Account option) \<Rightarrow> account_store option \<Rightarrow> 'c replay_handle option \<Rightarrow> nat \<Rightarrow> PrevalidatedTx \<Rightarrow> bytes option \<Rightarrow> bool
    \<Rightarrow> Mempool \<Rightarrow> (AdmissionResult \<times> Mempool) option" where
  "add_prevalidated_with_source bincode st rp now tx hash from_rpc p =
    (let (res, adm) = check_admission_ext_with_source bincode st rp now tx hash from_rpc (admission p) in
     case res of
       Admitted \<Rightarrow>
         map_option (\<lambda>p. (Admitted, p)) (enqueue now tx hash from_rpc (p\<lparr> admission := record_admission now tx hash adm \<rparr>))
     | _ \<Rightarrow> Some (res, p\<lparr> admission := adm \<rparr>))"

section \<open>Removing from the queues\<close>

definition saturating_dec :: "nat \<Rightarrow> nat list \<Rightarrow> nat list option" where
  "saturating_dec i xs = (if i < length xs then Some (xs[i := xs ! i - 1]) else None)"

text \<open>The transactions of one queue that satisfy the test leave the counters and the admission layer.\<close>

fun drop_txs :: "SenderId \<Rightarrow> MempoolTx list \<Rightarrow> Mempool \<Rightarrow> Mempool option" where
  "drop_txs s [] p = Some p"
| "drop_txs s (tx # xs) p = (case saturating_dec (unat s) (counts p) of
     None \<Rightarrow> None
   | Some cs \<Rightarrow> drop_txs s xs (p\<lparr> mp_total := mp_total p - 1, counts := cs,
       admission := record_removal s (m_class tx) (m_tx_hash tx) (admission p) \<rparr>))"

text \<open>
  The loop over the ready queues that purging, removal by handle and the eviction after a commit
  share: in every queue that is visited the transactions satisfying the test are dropped, and a queue
  left empty is removed, the one swapped into its place being looked at next.  The flag says whether
  a queue that was empty before is removed as well.
\<close>

function sweep :: "(ReadyQueue \<Rightarrow> bool) \<Rightarrow> (SenderId \<Rightarrow> MempoolTx \<Rightarrow> bool) \<Rightarrow> bool \<Rightarrow> nat \<Rightarrow> Mempool \<Rightarrow> Mempool option" where
  "sweep visit test also_empty idx p =
    (if length (ready_vec p) \<le> idx then Some p
     else let rq = ready_vec p ! idx; s = rq_sender rq in
       if \<not> visit rq then sweep visit test also_empty (idx + 1) p
       else let kept = filter (\<lambda>tx. \<not> test s tx) (rq_queue rq) in
         case drop_txs s (filter (test s) (rq_queue rq)) p of
           None \<Rightarrow> None
         | Some p' \<Rightarrow>
             let p'' = p'\<lparr> ready_vec := (ready_vec p)[idx := rq\<lparr> rq_queue := kept \<rparr>] \<rparr> in
             if kept = [] \<and> (also_empty \<or> rq_queue rq \<noteq> [])
             then sweep visit test also_empty idx (remove_ready_queue idx p'')
             else sweep visit test also_empty (idx + 1) p'')"
  by pat_completeness auto

lemma length_remove_ready_queue: "idx < length (ready_vec p) \<Longrightarrow> length (ready_vec (remove_ready_queue idx p)) = length (ready_vec p) - 1"
  by (simp add: remove_ready_queue_def Let_def swap_remove_def split_beta)

termination sweep
  by (relation "measure (\<lambda>(_, _, _, idx, p). length (ready_vec p) - idx)") (auto simp: length_remove_ready_queue)

definition purge_expired_internal :: "nat \<Rightarrow> Mempool \<Rightarrow> Mempool option" where
  "purge_expired_internal now p =
    map_option (\<lambda>p'. p'\<lparr> purge_metrics := (purge_metrics p')\<lparr> purge_count := purge_count (purge_metrics p') + 1,
        purged_tx_count := purged_tx_count (purge_metrics p') + word_of_nat (mp_total p - mp_total p') \<rparr> \<rparr>)
      (sweep (\<lambda>_. True) (\<lambda>_ tx. mc_ttl (mp_cfg p) < now - m_inserted tx) True 0 (p\<lparr> last_purge := now \<rparr>))"

definition purge_expired_internal_if_needed :: "nat \<Rightarrow> Mempool \<Rightarrow> Mempool option" where
  "purge_expired_internal_if_needed now p =
    (if now - last_purge p < purge_interval p div 2
     then Some (p\<lparr> purge_metrics := (purge_metrics p)\<lparr> lazy_skip_count := lazy_skip_count (purge_metrics p) + 1 \<rparr> \<rparr>)
     else purge_expired_internal now p)"

definition remove_by_handles :: "TxHandle list \<Rightarrow> Mempool \<Rightarrow> Mempool option" where
  "remove_by_handles handles p =
    (if handles = [] then Some p else sweep (\<lambda>_. True) (\<lambda>_ tx. m_tx_handle tx \<in> set handles) True 0 p)"

definition evict_stale :: "(SenderId \<times> u64) list \<Rightarrow> Mempool \<Rightarrow> Mempool option" where
  "evict_stale nonce_updates p =
    (if nonce_updates = [] then Some p
     else sweep (\<lambda>rq. map_of nonce_updates (rq_sender rq) \<noteq> None)
            (\<lambda>s tx. m_nonce tx < the (map_of nonce_updates s)) False 0 p)"

fun add_prevalidated_all ::
  "(bytes \<Rightarrow> Account option) \<Rightarrow> account_store option \<Rightarrow> 'c replay_handle option \<Rightarrow> nat \<Rightarrow> bool
    \<Rightarrow> (PrevalidatedTx \<times> bytes option) list \<Rightarrow> Mempool \<Rightarrow> (AdmissionResult list \<times> Mempool) option" where
  "add_prevalidated_all bincode st rp now from_rpc [] p = Some ([], p)"
| "add_prevalidated_all bincode st rp now from_rpc ((tx, hash) # xs) p =
    (case add_prevalidated_with_source bincode st rp now tx hash from_rpc p of
       None \<Rightarrow> None
     | Some (r, p) \<Rightarrow> map_option (\<lambda>(rs, p). (r # rs, p)) (add_prevalidated_all bincode st rp now from_rpc xs p))"

definition add_prevalidated_batch_with_source ::
  "(bytes \<Rightarrow> Account option) \<Rightarrow> account_store option \<Rightarrow> 'c replay_handle option \<Rightarrow> nat \<Rightarrow> PrevalidatedTx list \<Rightarrow> bool
    \<Rightarrow> Mempool \<Rightarrow> (AdmissionResult list \<times> Mempool) option" where
  "add_prevalidated_batch_with_source bincode st rp now pvs from_rpc p =
    (case purge_expired_internal_if_needed now p of
       None \<Rightarrow> None
     | Some p \<Rightarrow> add_prevalidated_all bincode st rp now from_rpc (map (\<lambda>tx. (tx, None)) pvs) p)"

definition on_block_committed ::
  "(bytes \<Rightarrow> Account option) \<Rightarrow> account_store option \<Rightarrow> 'c replay_handle option \<Rightarrow> nat \<Rightarrow> TxHandle list \<Rightarrow> (SenderId \<times> u64) list
    \<Rightarrow> Mempool \<Rightarrow> Mempool option" where
  "on_block_committed bincode st rp now committed nonce_updates p =
    (case Option.bind (remove_by_handles committed p) (evict_stale nonce_updates) of
       None \<Rightarrow> None
     | Some p \<Rightarrow>
         let (promoted, adm) = promote_queued_batch nonce_updates (cleanup_queued_pool now (admission p));
             p = p\<lparr> admission := new_round adm \<rparr>
         in map_option snd (add_prevalidated_all bincode st rp now False promoted p))"

section \<open>Draining\<close>

definition sort_queue :: "ReadyQueue \<Rightarrow> ReadyQueue" where
  "sort_queue rq = (if 1 < length (rq_queue rq) then rq\<lparr> rq_queue := sort_key m_nonce (rq_queue rq) \<rparr> else rq)"

type_synonym drain_state = "Mempool \<times> MempoolTx list \<times> bool"

fun drain_burst :: "nat \<Rightarrow> nat \<Rightarrow> nat \<Rightarrow> drain_state \<Rightarrow> drain_state option" where
  "drain_burst 0 max' idx (p, out, progress) = Some (p, out, progress)"
| "drain_burst (Suc b) max' idx (p, out, progress) =
    (if length out < max' then
       (case rq_queue (ready_vec p ! idx) of
          [] \<Rightarrow> Some (p, out, progress)
        | tx # q \<Rightarrow> (case drop_txs (rq_sender (ready_vec p ! idx)) [tx] p of
             None \<Rightarrow> None
           | Some p' \<Rightarrow> drain_burst b max' idx
               (p'\<lparr> ready_vec := (ready_vec p)[idx := (ready_vec p ! idx)\<lparr> rq_queue := q \<rparr>] \<rparr>, out @ [tx], True)))
     else Some (p, out, progress))"

definition drain_class :: "nat \<Rightarrow> nat \<Rightarrow> drain_state \<Rightarrow> drain_state option" where
  "drain_class max' c st = (case st of (p, out, progress) \<Rightarrow>
    let rr = rr_vec_by_class p ! c; pos = rr_pos_by_class p ! c in
    if max' \<le> length out \<or> rr = [] then Some st
    else let pos = (if length rr \<le> pos then 0 else pos);
             idx = rr ! pos;
             pos = (pos + 1) mod max (length rr) 1;
             p = p\<lparr> rr_pos_by_class := (rr_pos_by_class p)[c := pos] \<rparr>
         in if length (ready_vec p) \<le> idx then Some (p, out, progress)
            else (case drain_burst 8 max' idx (p, out, progress) of
              None \<Rightarrow> None
            | Some (p, out, progress) \<Rightarrow>
                if rq_queue (ready_vec p ! idx) = [] then
                  let rr = filter (\<lambda>i. i \<noteq> idx) rr
                  in Some (p\<lparr> rr_vec_by_class := (rr_vec_by_class p)[c := rr],
                              rr_pos_by_class := (if length rr \<le> pos then (rr_pos_by_class p)[c := 0] else rr_pos_by_class p) \<rparr>,
                           out, progress)
                else Some (p, out, progress)))"

fun drain_classes :: "nat \<Rightarrow> nat list \<Rightarrow> drain_state \<Rightarrow> drain_state option" where
  "drain_classes max' [] st = Some st"
| "drain_classes max' (c # cs) st = (case drain_class max' c st of None \<Rightarrow> None | Some st \<Rightarrow> drain_classes max' cs st)"

lemma drain_burst_grows:
  "drain_burst b max' idx (p, out, pr) = Some (p', out', pr') \<Longrightarrow>
    length out \<le> length out' \<and> (pr' \<longleftrightarrow> pr \<or> length out < length out') \<and> (length out \<le> max' \<longrightarrow> length out' \<le> max')"
  by (induction b max' idx "(p, out, pr)" arbitrary: p out pr rule: drain_burst.induct)
    (fastforce split: if_splits list.splits option.splits)+

lemma drain_class_grows:
  "drain_class max' c (p, out, pr) = Some (p', out', pr') \<Longrightarrow>
    length out \<le> length out' \<and> (pr' \<longleftrightarrow> pr \<or> length out < length out') \<and> (length out \<le> max' \<longrightarrow> length out' \<le> max')"
  unfolding drain_class_def Let_def
  by (auto split: if_splits option.splits dest: drain_burst_grows)

lemma drain_classes_grows:
  "drain_classes max' cs (p, out, pr) = Some (p', out', pr') \<Longrightarrow>
    length out \<le> length out' \<and> (pr' \<longleftrightarrow> pr \<or> length out < length out') \<and> (length out \<le> max' \<longrightarrow> length out' \<le> max')"
  by (induction max' cs "(p, out, pr)" arbitrary: p out pr rule: drain_classes.induct)
    (fastforce split: option.splits dest: drain_class_grows)+

function drain_loop :: "nat \<Rightarrow> Mempool \<Rightarrow> MempoolTx list \<Rightarrow> (Mempool \<times> MempoolTx list) option" where
  "drain_loop max' p out =
    (if length out < max' then
       (case drain_classes max' [0, 1, 2, 3] (p, out, False) of
          None \<Rightarrow> None
        | Some (p', out', progress) \<Rightarrow> if progress then drain_loop max' p' out' else Some (p', out'))
     else Some (p, out))"
  by pat_completeness auto

termination drain_loop
  by (relation "measure (\<lambda>(max', _, out). max' - length out)") (auto simp del: drain_classes.simps dest: drain_classes_grows)

declare drain_loop.simps [simp del] sweep.simps [simp del]

definition drain_fair_batch :: "nat \<Rightarrow> nat \<Rightarrow> Mempool \<Rightarrow> (MempoolTx list \<times> Mempool) option" where
  "drain_fair_batch now max' p = (case purge_expired_internal_if_needed now p of
      None \<Rightarrow> None
    | Some p \<Rightarrow>
        if max' = 0 then Some ([], p)
        else map_option (\<lambda>(p, out). (out, p)) (drain_loop max' (p\<lparr> ready_vec := map sort_queue (ready_vec p) \<rparr>) []))"

section \<open>Restoring and peeking\<close>

definition restore_tx :: "MempoolTx \<Rightarrow> Mempool \<Rightarrow> Mempool" where
  "restore_tx tx p =
    (let s = unat (m_sender_id tx);
         c = class_idx (m_class tx);
         p = ensure_index_capacity (m_sender_id tx) p;
         p = (case ready_index p ! s of
            Some idx \<Rightarrow>
              if idx < length (ready_vec p)
              then p\<lparr> ready_vec := (ready_vec p)[idx := (ready_vec p ! idx)\<lparr> rq_queue := tx # rq_queue (ready_vec p ! idx) \<rparr>],
                      counts := (counts p)[s := counts p ! s + 1], mp_total := mp_total p + 1 \<rparr>
              else p
          | None \<Rightarrow>
              p\<lparr> ready_vec := ready_vec p @ [\<lparr> rq_sender = m_sender_id tx, rq_queue = [tx] \<rparr>],
                 ready_index := (ready_index p)[s := Some (length (ready_vec p))],
                 counts := (counts p)[s := 1], mp_total := mp_total p + 1,
                 rr_vec_by_class := (rr_vec_by_class p)[c := rr_vec_by_class p ! c @ [length (ready_vec p)]] \<rparr>)
     in p\<lparr> admission := record_restoration (m_sender_id tx) (m_class tx) (admission p) \<rparr>)"

definition restore_drained_txs :: "MempoolTx list \<Rightarrow> Mempool \<Rightarrow> Mempool" where
  "restore_drained_txs xs p = fold restore_tx xs p"

definition peek_class :: "nat \<Rightarrow> Mempool \<Rightarrow> nat \<Rightarrow> MempoolTx list \<Rightarrow> MempoolTx list" where
  "peek_class max' p c out =
    (let rr = rr_vec_by_class p ! c; pos = rr_pos_by_class p ! c in
     if max' \<le> length out \<or> rr = [] then out
     else let idx = rr ! (if length rr \<le> pos then 0 else pos) in
       if length (ready_vec p) \<le> idx then out
       else case rq_queue (ready_vec p ! idx) of [] \<Rightarrow> out | tx # _ \<Rightarrow> out @ [tx])"

function peek_loop :: "nat \<Rightarrow> Mempool \<Rightarrow> MempoolTx list \<Rightarrow> MempoolTx list" where
  "peek_loop max' p out =
    (if length out < max' then
       let out' = fold (peek_class max' p) [0, 1, 2, 3] out
       in if length out < length out' then peek_loop max' p out' else out'
     else out)"
  by pat_completeness auto

termination peek_loop
  by (relation "measure (\<lambda>(max', _, out). max' - length out)") auto

declare peek_loop.simps [simp del]

definition peek_fair_batch :: "nat \<Rightarrow> nat \<Rightarrow> Mempool \<Rightarrow> (MempoolTx list \<times> Mempool) option" where
  "peek_fair_batch now max' p = (case purge_expired_internal_if_needed now p of
      None \<Rightarrow> None | Some p \<Rightarrow> Some (if max' = 0 then [] else peek_loop max' p [], p))"

definition all_handles :: "Mempool \<Rightarrow> TxHandle list" where
  "all_handles p = concat (map (map m_tx_handle \<circ> rq_queue) (ready_vec p))"

definition iter_handles_with_nonce :: "Mempool \<Rightarrow> (SenderId \<times> u64 \<times> TxHandle) list" where
  "iter_handles_with_nonce p =
     concat (map (map (\<lambda>tx. (m_sender_id tx, m_nonce tx, m_tx_handle tx)) \<circ> rq_queue) (ready_vec p))"

definition pool_len :: "nat \<Rightarrow> Mempool \<Rightarrow> (nat \<times> Mempool) option" where
  "pool_len now p = map_option (\<lambda>p. (mp_total p, p)) (purge_expired_internal_if_needed now p)"

definition diag_state :: "Mempool \<Rightarrow> nat \<times> nat \<times> nat \<times> nat" where
  "diag_state p = (mp_total p, length (ready_vec p), sum_list (map (length \<circ> rq_queue) (ready_vec p)),
     length (filter (\<lambda>rq. rq_queue rq \<noteq> []) (ready_vec p)))"

section \<open>Invariant\<close>

text \<open>The index maps a sender to the position of its queue and nothing else.\<close>

definition index_ok :: "ReadyQueue list \<Rightarrow> nat option list \<Rightarrow> bool" where
  "index_ok rv ri \<longleftrightarrow>
    (\<forall>i < length rv. unat (rq_sender (rv ! i)) < length ri \<and> ri ! unat (rq_sender (rv ! i)) = Some i) \<and>
    (\<forall>s < length ri. \<forall>i. ri ! s = Some i \<longrightarrow> i < length rv \<and> unat (rq_sender (rv ! i)) = s)"

definition counts_ok :: "ReadyQueue list \<Rightarrow> nat option list \<Rightarrow> nat list \<Rightarrow> bool" where
  "counts_ok rv ri cs \<longleftrightarrow> length cs = length ri
    \<and> (\<forall>i < length rv. cs ! unat (rq_sender (rv ! i)) = length (rq_queue (rv ! i)))
    \<and> (\<forall>s < length ri. ri ! s = None \<longrightarrow> cs ! s = 0)"

definition queues_ok :: "ReadyQueue list \<Rightarrow> bool" where
  "queues_ok rv \<longleftrightarrow> (\<forall>rq \<in> set rv. \<forall>tx \<in> set (rq_queue rq). m_sender_id tx = rq_sender rq)"

definition rr_ok :: "ReadyQueue list \<Rightarrow> nat list list \<Rightarrow> nat list \<Rightarrow> bool" where
  "rr_ok rv rr pos \<longleftrightarrow> length rr = 4 \<and> length pos = 4 \<and> (\<forall>v \<in> set rr. \<forall>i \<in> set v. i < length rv)"

definition pool_txs :: "ReadyQueue list \<Rightarrow> MempoolTx list" where
  "pool_txs rv = concat (map rq_queue rv)"

definition resident :: "MempoolTx \<Rightarrow> SenderId \<times> TxClass" where
  "resident tx = (m_sender_id tx, m_class tx)"

definition mp_inv :: "Mempool \<Rightarrow> bool" where
  "mp_inv p \<longleftrightarrow> index_ok (ready_vec p) (ready_index p) \<and> counts_ok (ready_vec p) (ready_index p) (counts p)
    \<and> queues_ok (ready_vec p) \<and> rr_ok (ready_vec p) (rr_vec_by_class p) (rr_pos_by_class p)
    \<and> mp_total p = length (pool_txs (ready_vec p))
    \<and> adm_counts (admission p) (image_mset resident (mset (pool_txs (ready_vec p))))"

lemma mp_invI:
  assumes "index_ok (ready_vec p) (ready_index p)" "counts_ok (ready_vec p) (ready_index p) (counts p)"
    "queues_ok (ready_vec p)" "rr_ok (ready_vec p) (rr_vec_by_class p) (rr_pos_by_class p)"
    "mp_total p = length (pool_txs (ready_vec p))"
    "adm_counts (admission p) (image_mset resident (mset (pool_txs (ready_vec p))))"
  shows "mp_inv p"
  using assms by (simp add: mp_inv_def)

lemma mp_invD:
  assumes "mp_inv p"
  shows "index_ok (ready_vec p) (ready_index p)" "counts_ok (ready_vec p) (ready_index p) (counts p)"
    "queues_ok (ready_vec p)" "rr_ok (ready_vec p) (rr_vec_by_class p) (rr_pos_by_class p)"
    "mp_total p = length (pool_txs (ready_vec p))"
    "adm_counts (admission p) (image_mset resident (mset (pool_txs (ready_vec p))))"
  using assms by (simp_all add: mp_inv_def)

lemma mp_inv_cong:
  assumes "mp_inv p" "ready_vec r = ready_vec p" "ready_index r = ready_index p" "counts r = counts p" "mp_total r = mp_total p"
    "rr_ok (ready_vec p) (rr_vec_by_class r) (rr_pos_by_class r)"
    "\<And>R. adm_counts (admission p) R \<Longrightarrow> adm_counts (admission r) R"
  shows "mp_inv r"
  using assms by (simp add: mp_inv_def)

lemma index_okI:
  assumes "\<And>i. i < length rv \<Longrightarrow> unat (rq_sender (rv ! i)) < length ri \<and> ri ! unat (rq_sender (rv ! i)) = Some i"
    and "\<And>s i. s < length ri \<Longrightarrow> ri ! s = Some i \<Longrightarrow> i < length rv \<and> unat (rq_sender (rv ! i)) = s"
  shows "index_ok rv ri"
  unfolding index_ok_def using assms by blast

lemma index_ok_at:
  assumes "index_ok rv ri" "i < length rv"
  shows "unat (rq_sender (rv ! i)) < length ri" "ri ! unat (rq_sender (rv ! i)) = Some i"
  using assms unfolding index_ok_def by blast+

lemma index_ok_back:
  assumes "index_ok rv ri" "s < length ri" "ri ! s = Some i"
  shows "i < length rv" "unat (rq_sender (rv ! i)) = s"
  using assms unfolding index_ok_def by blast+

lemma counts_okD:
  assumes "counts_ok rv ri cs"
  shows "length cs = length ri" "\<And>i. i < length rv \<Longrightarrow> cs ! unat (rq_sender (rv ! i)) = length (rq_queue (rv ! i))"
    "\<And>s. s < length ri \<Longrightarrow> ri ! s = None \<Longrightarrow> cs ! s = 0"
  using assms unfolding counts_ok_def by blast+

lemma counts_okI:
  assumes "length cs = length ri" "\<And>i. i < length rv \<Longrightarrow> cs ! unat (rq_sender (rv ! i)) = length (rq_queue (rv ! i))"
    "\<And>s. s < length ri \<Longrightarrow> ri ! s = None \<Longrightarrow> cs ! s = 0"
  shows "counts_ok rv ri cs"
  unfolding counts_ok_def using assms by blast

subsection \<open>Changing one queue\<close>

lemma pool_txs_split:
  "i < length rv \<Longrightarrow> pool_txs rv = pool_txs (take i rv) @ rq_queue (rv ! i) @ pool_txs (drop (Suc i) rv)"
  "i < length rv \<Longrightarrow> pool_txs (rv[i := rq]) = pool_txs (take i rv) @ rq_queue rq @ pool_txs (drop (Suc i) rv)"
  by (subst id_take_nth_drop, assumption, simp add: pool_txs_def)
    (simp add: upd_conv_take_nth_drop pool_txs_def)

lemma pool_txs_append: "pool_txs (rv @ [rq]) = pool_txs rv @ rq_queue rq"
  by (simp add: pool_txs_def)

lemma index_ok_update: "rq_sender rq = rq_sender (rv ! i) \<Longrightarrow> index_ok (rv[i := rq]) ri \<longleftrightarrow> index_ok rv ri"
proof -
  assume "rq_sender rq = rq_sender (rv ! i)"
  then have "rq_sender (rv[i := rq] ! j) = rq_sender (rv ! j)" for j
    by (cases "i < length rv"; cases "i = j") (simp_all add: list_update_beyond)
  then show ?thesis by (simp add: index_ok_def)
qed

lemma index_ok_inj:
  "index_ok rv ri \<Longrightarrow> i < length rv \<Longrightarrow> j < length rv \<Longrightarrow> unat (rq_sender (rv ! i)) = unat (rq_sender (rv ! j)) \<Longrightarrow> i = j"
  unfolding index_ok_def by (metis option.inject)

lemma counts_ok_update:
  assumes ix: "index_ok rv ri" and c: "counts_ok rv ri cs" and i: "i < length rv"
    and rq: "rq_sender rq = rq_sender (rv ! i)"
  shows "counts_ok (rv[i := rq]) ri (cs[unat (rq_sender rq) := length (rq_queue rq)])"
proof -
  let ?s = "unat (rq_sender rq)" and ?cs = "cs[unat (rq_sender rq) := length (rq_queue rq)]"
  have s: "?s < length ri" "ri ! ?s = Some i" using ix i rq by (simp_all add: index_ok_def)
  have cs: "length cs = length ri" "\<And>j. j < length rv \<Longrightarrow> cs ! unat (rq_sender (rv ! j)) = length (rq_queue (rv ! j))"
    "\<And>t. t < length ri \<Longrightarrow> ri ! t = None \<Longrightarrow> cs ! t = 0" using c by (simp_all add: counts_ok_def)
  have "?cs ! unat (rq_sender (rv[i := rq] ! j)) = length (rq_queue (rv[i := rq] ! j))" if j: "j < length rv" for j
  proof (cases "j = i")
    case True
    then show ?thesis using s cs(1) i by simp
  next
    case False
    then have "unat (rq_sender (rv ! j)) \<noteq> ?s" using index_ok_inj [OF ix j i] rq by metis
    then show ?thesis using False cs(2) [OF j] by simp
  qed
  moreover have "?cs ! t = 0" if "t < length ri" "ri ! t = None" for t
    using that s cs(3) by (metis nth_list_update_neq option.distinct(1))
  ultimately show ?thesis using cs(1) by (simp add: counts_ok_def)
qed

lemma queues_ok_update:
  "queues_ok rv \<Longrightarrow> i < length rv \<Longrightarrow> rq_sender rq = rq_sender (rv ! i) \<Longrightarrow> \<forall>tx \<in> set (rq_queue rq). m_sender_id tx = rq_sender rq
    \<Longrightarrow> queues_ok (rv[i := rq])"
  using set_update_subset_insert [of rv i rq] unfolding queues_ok_def by blast

lemma mp_inv_queue:
  assumes p: "mp_inv p" and i: "i < length (ready_vec p)" and q: "\<forall>tx \<in> set q. m_sender_id tx = rq_sender (ready_vec p ! i)"
    and R: "\<And>M. adm_counts (admission p) (M + image_mset resident (mset (rq_queue (ready_vec p ! i)))) \<Longrightarrow>
      adm_counts (admission r) (M + image_mset resident (mset q))"
    and r: "ready_vec r = (ready_vec p)[i := (ready_vec p ! i)\<lparr> rq_queue := q \<rparr>]" "ready_index r = ready_index p"
      "counts r = (counts p)[unat (rq_sender (ready_vec p ! i)) := length q]"
      "mp_total r = mp_total p - length (rq_queue (ready_vec p ! i)) + length q"
      "rr_ok (ready_vec p) (rr_vec_by_class r) (rr_pos_by_class r)"
  shows "mp_inv r"
proof (rule mp_invI)
  note d = mp_invD [OF p]
  let ?rq = "(ready_vec p ! i)\<lparr> rq_queue := q \<rparr>"
  show "index_ok (ready_vec r) (ready_index r)" using d(1) by (simp add: r index_ok_update)
  show "counts_ok (ready_vec r) (ready_index r) (counts r)"
    using counts_ok_update [OF d(1,2) i, of ?rq] by (simp add: r)
  show "queues_ok (ready_vec r)" unfolding r by (rule queues_ok_update) (use d(3) i q in simp_all)
  show "rr_ok (ready_vec r) (rr_vec_by_class r) (rr_pos_by_class r)" using r(1,5) by (simp add: rr_ok_def)
  show "mp_total r = length (pool_txs (ready_vec r))" using d(5) by (simp add: r pool_txs_split [OF i])
  show "adm_counts (admission r) (image_mset resident (mset (pool_txs (ready_vec r))))"
    using R [of "image_mset resident (mset (pool_txs (take i (ready_vec p)) @ pool_txs (drop (Suc i) (ready_vec p))))"] d(6)
    by (simp add: r pool_txs_split [OF i] ac_simps)
qed

subsection \<open>Dropping transactions\<close>

definition removals :: "SenderId \<Rightarrow> MempoolTx list \<Rightarrow> AdmissionControl \<Rightarrow> AdmissionControl" where
  "removals s xs a = fold (\<lambda>tx. record_removal s (m_class tx) (m_tx_hash tx)) xs a"

lemma adm_counts_removals:
  "adm_counts a (R + image_mset (\<lambda>tx. (s, m_class tx)) (mset xs)) \<Longrightarrow> adm_counts (removals s xs a) R"
proof (induction xs arbitrary: a)
  case (Cons tx xs)
  then have "adm_counts (record_removal s (m_class tx) (m_tx_hash tx) a) (R + image_mset (\<lambda>tx. (s, m_class tx)) (mset xs))"
    by (intro adm_counts_removal) simp
  then show ?case using Cons.IH by (simp add: removals_def)
qed (simp add: removals_def)

lemma drop_txs_eq:
  "unat s < length (counts p) \<Longrightarrow> drop_txs s xs p = Some (p\<lparr> mp_total := mp_total p - length xs,
     counts := (counts p)[unat s := counts p ! unat s - length xs], admission := removals s xs (admission p) \<rparr>)"
  by (induction s xs p rule: drop_txs.induct) (simp_all add: saturating_dec_def removals_def)

subsection \<open>Growing the index\<close>

lemma resize_grow: "length xs \<le> n \<Longrightarrow> resize n x xs = xs @ replicate (n - length xs) x"
  by (simp add: resize_def)

lemma index_ok_grow: assumes "index_ok rv ri" shows "index_ok rv (ri @ replicate k None)"
proof (rule index_okI)
  show "unat (rq_sender (rv ! i)) < length (ri @ replicate k None) \<and> (ri @ replicate k None) ! unat (rq_sender (rv ! i)) = Some i"
    if "i < length rv" for i
    using index_ok_at [OF assms that] by (simp add: nth_append)
  show "i < length rv \<and> unat (rq_sender (rv ! i)) = t" if "t < length (ri @ replicate k None)" "(ri @ replicate k None) ! t = Some i" for t i
  proof -
    have "t < length ri" "ri ! t = Some i" using that by (simp_all add: nth_append split: if_splits)
    then show ?thesis using index_ok_back [OF assms] by blast
  qed
qed

lemma counts_ok_grow:
  assumes ix: "index_ok rv ri" and c: "counts_ok rv ri cs" shows "counts_ok rv (ri @ replicate k None) (cs @ replicate k 0)"
proof (rule counts_okI)
  note d = counts_okD [OF c]
  show "length (cs @ replicate k 0) = length (ri @ replicate k None)" using d(1) by simp
  show "(cs @ replicate k 0) ! unat (rq_sender (rv ! i)) = length (rq_queue (rv ! i))" if "i < length rv" for i
    using index_ok_at [OF ix that] d(1) d(2) [OF that] by (simp add: nth_append)
  show "(cs @ replicate k 0) ! t = 0" if "t < length (ri @ replicate k None)" "(ri @ replicate k None) ! t = None" for t
    using that d(1) d(3) [of t] by (simp add: nth_append split: if_splits)
qed

lemma mp_inv_ensure:
  assumes p: "mp_inv p"
  shows "mp_inv (ensure_index_capacity s p)" "unat s < length (ready_index (ensure_index_capacity s p))"
proof -
  have l: "length (counts p) = length (ready_index p)" using mp_invD(2) [OF p] by (simp add: counts_ok_def)
  show "unat s < length (ready_index (ensure_index_capacity s p))"
    using l by (auto simp: ensure_index_capacity_def Let_def resize_grow)
  have "mp_inv r" if "r = p\<lparr> ready_index := ready_index p @ replicate k None, counts := counts p @ replicate k 0,
      resize_count := x, max_index_capacity := y \<rparr>" for r k x y
    using mp_invD [OF p] index_ok_grow counts_ok_grow unfolding that by (intro mp_invI) simp_all
  then show "mp_inv (ensure_index_capacity s p)"
    using p l by (simp add: ensure_index_capacity_def Let_def resize_grow)
qed

lemma ensure_keeps [simp]:
  "ready_vec (ensure_index_capacity s p) = ready_vec p" "rr_vec_by_class (ensure_index_capacity s p) = rr_vec_by_class p"
  "rr_pos_by_class (ensure_index_capacity s p) = rr_pos_by_class p" "mp_total (ensure_index_capacity s p) = mp_total p"
  "admission (ensure_index_capacity s p) = admission p" "last_purge (ensure_index_capacity s p) = last_purge p"
  "purge_interval (ensure_index_capacity s p) = purge_interval p"
  by (simp_all add: ensure_index_capacity_def Let_def)

lemma index_ok_new:
  assumes ix: "index_ok rv ri" and s: "unat (rq_sender rq) < length ri" "ri ! unat (rq_sender rq) = None"
  shows "index_ok (rv @ [rq]) (ri[unat (rq_sender rq) := Some (length rv)])"
proof -
  have ne: "unat (rq_sender (rv ! i)) \<noteq> unat (rq_sender rq)" if "i < length rv" for i
    using index_ok_at [OF ix that] s by force
  have "unat (rq_sender ((rv @ [rq]) ! i)) < length ri \<and>
      ri[unat (rq_sender rq) := Some (length rv)] ! unat (rq_sender ((rv @ [rq]) ! i)) = Some i" if "i < Suc (length rv)" for i
  proof (cases "i < length rv")
    case True
    then show ?thesis using index_ok_at [OF ix True] ne [OF True] by (simp add: nth_append)
  next
    case False
    then show ?thesis using that s by (simp add: less_Suc_eq)
  qed
  moreover have "i < Suc (length rv) \<and> unat (rq_sender ((rv @ [rq]) ! i)) = t"
    if "t < length ri" "ri[unat (rq_sender rq) := Some (length rv)] ! t = Some i" for t i
  proof (cases "t = unat (rq_sender rq)")
    case True
    then show ?thesis using that by (auto simp: nth_append)
  next
    case False
    then show ?thesis using index_ok_back [OF ix that(1)] that(2) by (simp add: nth_append)
  qed
  ultimately show ?thesis by (intro index_okI) simp_all
qed

lemma counts_ok_new:
  assumes ix: "index_ok rv ri" and c: "counts_ok rv ri cs" and s: "unat (rq_sender rq) < length ri" "ri ! unat (rq_sender rq) = None"
  shows "counts_ok (rv @ [rq]) (ri[unat (rq_sender rq) := Some (length rv)]) (cs[unat (rq_sender rq) := length (rq_queue rq)])"
proof -
  let ?s = "unat (rq_sender rq)"
  note cs = counts_okD [OF c]
  have ne: "unat (rq_sender (rv ! i)) \<noteq> ?s" if "i < length rv" for i
    using index_ok_at [OF ix that] s by force
  have "cs[?s := length (rq_queue rq)] ! unat (rq_sender ((rv @ [rq]) ! i)) = length (rq_queue ((rv @ [rq]) ! i))"
    if "i < Suc (length rv)" for i
    using that ne [of i] cs(1) cs(2) [of i] s by (cases "i < length rv") (auto simp: nth_append less_Suc_eq)
  moreover have "cs[?s := length (rq_queue rq)] ! t = 0" if "t < length ri" "ri[?s := Some (length rv)] ! t = None" for t
    using that cs(1) cs(3) [of t] s by (cases "t = ?s") simp_all
  ultimately show ?thesis using cs(1) by (intro counts_okI) simp_all
qed

lemma rr_ok_more: "rr_ok rv rr pos \<Longrightarrow> length rv \<le> length rv' \<Longrightarrow> rr_ok rv' rr pos"
  by (fastforce simp: rr_ok_def)

lemma rr_ok_push:
  assumes "rr_ok rv rr pos" "i < length rv" "c < 4"
  shows "rr_ok rv (rr[c := rr ! c @ [i]]) pos"
proof -
  have "\<forall>j \<in> set (rr ! c). j < length rv" using assms nth_mem [of c rr] unfolding rr_ok_def by auto
  then show ?thesis
    using assms set_update_subset_insert [of rr c "rr ! c @ [i]"] unfolding rr_ok_def by fastforce
qed

lemma class_idx_less [simp]: "class_idx c < 4"
  by (cases c) simp_all

subsection \<open>Removing a queue\<close>

lemma length_swap_remove [simp]: "length (swap_remove i xs) = length xs - 1"
  by (simp add: swap_remove_def)

lemma nth_swap_remove: "i < length xs \<Longrightarrow> j < length xs - 1 \<Longrightarrow> swap_remove i xs ! j = (if j = i then last xs else xs ! j)"
  by (auto simp: swap_remove_def nth_butlast nth_list_update)

lemma index_ok_swap_remove:
  assumes ix: "index_ok rv ri" and i: "idx < length rv"
  defines "l \<equiv> length rv - 1"
  defines "ri1 \<equiv> ri[unat (rq_sender (rv ! idx)) := None]"
  shows "index_ok (swap_remove idx rv) (if idx \<noteq> l then ri1[unat (rq_sender (rv ! l)) := Some idx] else ri1)"
proof -
  let ?ri = "if idx \<noteq> l then ri1[unat (rq_sender (rv ! l)) := Some idx] else ri1"
  let ?s = "\<lambda>i. unat (rq_sender (rv ! i))"
  have l: "l < length rv" "last rv = rv ! l" using i last_conv_nth [of rv] by (force simp: l_def)+
  note inj = index_ok_inj [OF ix] and bk = index_ok_back [OF ix]
  have at: "\<And>i. i < length rv \<Longrightarrow> ?s i < length ri \<and> ri ! ?s i = Some i" using index_ok_at [OF ix] by blast
  have nth: "?ri ! t = (if idx \<noteq> l \<and> t = ?s l then Some idx else if t = ?s idx then None else ri ! t)" if "t < length ri" for t
    using that at [OF i] at [OF l(1)] by (auto simp: ri1_def nth_list_update)
  have len: "length ?ri = length ri" by (simp add: ri1_def)
  have sr: "rq_sender (swap_remove idx rv ! j) = rq_sender (rv ! (if j = idx then l else j))" if "j < length rv - 1" for j
    using nth_swap_remove [OF i that] l(2) by simp
  have "unat (rq_sender (swap_remove idx rv ! j)) < length ri \<and> ?ri ! unat (rq_sender (swap_remove idx rv ! j)) = Some j"
    if j: "j < length rv - 1" for j
  proof (cases "j = idx")
    case True
    then have "idx \<noteq> l" using j by (auto simp: l_def)
    then show ?thesis using True sr [OF j] at [OF l(1)] nth by simp
  next
    case False
    have "j < length rv" "j \<noteq> l" using j by (auto simp: l_def)
    moreover from this have "?s j \<noteq> ?s idx" "?s j \<noteq> ?s l" using False inj i l(1) by blast+
    ultimately show ?thesis using False sr [OF j] at [of j] nth [of "?s j"] by simp
  qed
  moreover have "j < length rv - 1 \<and> unat (rq_sender (swap_remove idx rv ! j)) = t" if t: "t < length ri" "?ri ! t = Some j" for t j
  proof (cases "idx \<noteq> l \<and> t = ?s l")
    case True
    then have "j = idx" using t(2) nth [OF t(1)] by simp
    moreover have "idx < length rv - 1" using True i by (auto simp: l_def)
    ultimately show ?thesis using True sr by simp
  next
    case False
    then have "t \<noteq> ?s idx" "ri ! t = Some j" using t(2) nth [OF t(1)] by (auto split: if_splits)
    then have j: "j < length rv" "?s j = t" "j \<noteq> idx" using bk [OF t(1)] by blast+
    then have "j \<noteq> l" using False by auto
    then have "j < length rv - 1" using j(1) by (simp add: l_def)
    then show ?thesis using sr j by simp
  qed
  ultimately show ?thesis by (intro index_okI) (simp_all only: len length_swap_remove)
qed

lemma mset_swap_remove: "i < length xs \<Longrightarrow> add_mset (xs ! i) (mset (swap_remove i xs)) = mset xs"
proof -
  assume i: "i < length xs"
  then have xs: "mset xs = add_mset (last xs) (mset (butlast xs))"
    by (metis append_butlast_last_id length_0_conv less_nat_zero_code mset.simps mset_append union_mset_add_mset_right add.right_neutral)
  show ?thesis
  proof (cases "i = length xs - 1")
    case True
    then have "xs ! i = last xs" using i last_conv_nth [of xs] by force
    moreover from this have "xs[i := last xs] = xs" by (metis list_update_id)
    ultimately show ?thesis using xs by (simp add: swap_remove_def)
  next
    case False
    then have i': "i < length (butlast xs)" "xs ! i = butlast xs ! i" using i by (simp_all add: nth_butlast)
    moreover have "swap_remove i xs = (butlast xs)[i := last xs]" using False by (simp add: swap_remove_def butlast_list_update)
    moreover have "butlast xs ! i \<in># mset (butlast xs)" using i' by simp
    ultimately show ?thesis using xs by (simp add: mset_update insert_DiffM)
  qed
qed

lemma mset_pool_txs: "mset (pool_txs rv) = \<Sum>\<^sub># (image_mset (mset \<circ> rq_queue) (mset rv))"
  by (induction rv) (simp_all add: pool_txs_def)

lemma pool_txs_swap_remove:
  "i < length rv \<Longrightarrow> rq_queue (rv ! i) = [] \<Longrightarrow> mset (pool_txs (swap_remove i rv)) = mset (pool_txs rv)"
  unfolding mset_pool_txs using mset_swap_remove [of i rv, symmetric] by simp

lemma counts_ok_swap_remove:
  assumes ix: "index_ok rv ri" and c: "counts_ok rv ri cs" and i: "idx < length rv" and e: "rq_queue (rv ! idx) = []"
    and ri': "length ri' = length ri" "\<And>t. t < length ri \<Longrightarrow> ri' ! t = None \<Longrightarrow> ri ! t = None \<or> t = unat (rq_sender (rv ! idx))"
  shows "counts_ok (swap_remove idx rv) ri' cs"
proof (rule counts_okI)
  note d = counts_okD [OF c]
  show "length cs = length ri'" using d(1) ri'(1) by simp
  show "cs ! unat (rq_sender (swap_remove idx rv ! j)) = length (rq_queue (swap_remove idx rv ! j))" if j: "j < length (swap_remove idx rv)" for j
  proof -
    have "swap_remove idx rv ! j \<in> set rv"
      using nth_swap_remove [OF i] j i by (auto intro!: last_in_set nth_mem split: if_splits)
    then show ?thesis using d(2) by (metis in_set_conv_nth)
  qed
  show "cs ! t = 0" if "t < length ri'" "ri' ! t = None" for t
    using ri' that d(2) [OF i] d(3) e by auto
qed

lemma queues_ok_subset: "queues_ok rv \<Longrightarrow> set rv' \<subseteq> set rv \<Longrightarrow> queues_ok rv'"
  by (auto simp: queues_ok_def)

lemma set_swap_remove: "i < length xs \<Longrightarrow> set (swap_remove i xs) \<subseteq> set xs"
  using mset_swap_remove [of i xs] by (metis set_mset_mset set_mset_add_mset_insert subset_insertI)

lemma rr_ok_swap_remove:
  assumes "rr_ok rv rr pos" "length rv' = length rv - 1"
  shows "rr_ok rv' (map (filter (\<lambda>i. i < length rv')) (map (map f) rr)) (map2 g pos (map (filter (\<lambda>i. i < length rv')) (map (map f) rr)))"
    and "rr_ok rv' (map (filter (\<lambda>i. i < length rv')) rr) (map2 g pos (map (filter (\<lambda>i. i < length rv')) rr))"
  using assms by (auto simp: rr_ok_def)

lemma mp_inv_remove:
  assumes p: "mp_inv p" and i: "idx < length (ready_vec p)" and e: "rq_queue (ready_vec p ! idx) = []"
  shows "mp_inv (remove_ready_queue idx p)"
    "mset (pool_txs (ready_vec (remove_ready_queue idx p))) = mset (pool_txs (ready_vec p))"
proof -
  note d = mp_invD [OF p]
  let ?rv = "swap_remove idx (ready_vec p)" and ?l = "length (ready_vec p) - 1"
  let ?s = "\<lambda>i. unat (rq_sender (ready_vec p ! i))"
  let ?ri1 = "(ready_index p)[?s idx := None]"
  let ?ri = "if idx \<noteq> ?l then ?ri1[?s ?l := Some idx] else ?ri1"
  have l: "?l < length (ready_vec p)" using i by simp
  have s: "?s idx < length (ready_index p)" "?s ?l < length (ready_index p)"
    using index_ok_at(1) [OF d(1)] i l by blast+
  have sw: "rq_sender (?rv ! idx) = rq_sender (ready_vec p ! ?l)" if "idx \<noteq> ?l"
    using nth_swap_remove [OF i, of idx] that i last_conv_nth [of "ready_vec p"] by fastforce
  have rv: "ready_vec (remove_ready_queue idx p) = ?rv"
    using i by (simp add: remove_ready_queue_def Let_def split_beta)
  have ri: "ready_index (remove_ready_queue idx p) = ?ri"
    using i s sw by (simp add: remove_ready_queue_def Let_def split_beta)
  have same: "counts (remove_ready_queue idx p) = counts p" "mp_total (remove_ready_queue idx p) = mp_total p"
    "admission (remove_ready_queue idx p) = admission p"
    by (simp_all add: remove_ready_queue_def Let_def split_beta)
  show m: "mset (pool_txs (ready_vec (remove_ready_queue idx p))) = mset (pool_txs (ready_vec p))"
    unfolding rv by (rule pool_txs_swap_remove [OF i e])
  show "mp_inv (remove_ready_queue idx p)"
  proof (rule mp_invI)
    show "index_ok (ready_vec (remove_ready_queue idx p)) (ready_index (remove_ready_queue idx p))"
      unfolding rv ri by (rule index_ok_swap_remove [OF d(1) i])
    show "counts_ok (ready_vec (remove_ready_queue idx p)) (ready_index (remove_ready_queue idx p)) (counts (remove_ready_queue idx p))"
      unfolding rv ri same
      by (rule counts_ok_swap_remove [OF d(1,2) i e]) (use s in \<open>auto simp: nth_list_update split: if_splits\<close>)
    show "queues_ok (ready_vec (remove_ready_queue idx p))"
      unfolding rv by (rule queues_ok_subset [OF d(3) set_swap_remove [OF i]])
    show "rr_ok (ready_vec (remove_ready_queue idx p)) (rr_vec_by_class (remove_ready_queue idx p)) (rr_pos_by_class (remove_ready_queue idx p))"
      unfolding rv using i rr_ok_swap_remove [OF d(4), of ?rv]
      by (cases "idx = ?l") (simp_all add: remove_ready_queue_def Let_def split_beta)
    show "mp_total (remove_ready_queue idx p) = length (pool_txs (ready_vec (remove_ready_queue idx p)))"
      using d(5) m by (simp add: same mset_eq_length [OF m])
    show "adm_counts (admission (remove_ready_queue idx p)) (image_mset resident (mset (pool_txs (ready_vec (remove_ready_queue idx p)))))"
      using d(6) by (simp add: same m)
  qed
qed

subsection \<open>Taking transactions out\<close>

lemma mp_inv_drop:
  assumes p: "mp_inv p" and i: "idx < length (ready_vec p)"
    and m: "mset (rq_queue (ready_vec p ! idx)) = mset dropped + mset kept"
  defines "s \<equiv> rq_sender (ready_vec p ! idx)"
  shows "\<exists>cs a. drop_txs s dropped p = Some (p\<lparr> mp_total := mp_total p - length dropped, counts := cs, admission := a \<rparr>) \<and>
    (\<forall>r. ready_vec r = (ready_vec p)[idx := (ready_vec p ! idx)\<lparr> rq_queue := kept \<rparr>] \<and> ready_index r = ready_index p \<and>
      counts r = cs \<and> mp_total r = mp_total p - length dropped \<and> admission r = a \<and>
      rr_ok (ready_vec p) (rr_vec_by_class r) (rr_pos_by_class r) \<longrightarrow> mp_inv r)"
proof -
  note d = mp_invD [OF p] and cs = counts_okD [OF mp_invD(2) [OF p]]
  have s: "unat s < length (counts p)" using index_ok_at(1) [OF d(1) i] cs(1) by (simp add: s_def)
  have len: "length (rq_queue (ready_vec p ! idx)) = length dropped + length kept" using arg_cong [OF m, of size] by simp
  have snd: "m_sender_id tx = s" if "tx \<in> set (rq_queue (ready_vec p ! idx))" for tx
    using d(3) that nth_mem [OF i] unfolding queues_ok_def s_def by blast
  have sub: "tx \<in> set (rq_queue (ready_vec p ! idx))" if "tx \<in> set kept \<or> tx \<in> set dropped" for tx
    using that arg_cong [OF m, of set_mset] by auto
  have im: "image_mset resident (mset dropped) = image_mset (\<lambda>tx. (s, m_class tx)) (mset dropped)"
    using snd sub by (intro image_mset_cong) (simp add: resident_def)
  have c: "counts p ! unat s - length dropped = length kept" using cs(2) [OF i] len by (simp add: s_def)
  have tot: "mp_total p - length dropped = mp_total p - length (rq_queue (ready_vec p ! idx)) + length kept"
    using d(5) len by (simp add: pool_txs_split(1) [OF i])
  have "mp_inv r" if r: "ready_vec r = (ready_vec p)[idx := (ready_vec p ! idx)\<lparr> rq_queue := kept \<rparr>] \<and> ready_index r = ready_index p \<and>
      counts r = (counts p)[unat s := length kept] \<and> mp_total r = mp_total p - length dropped \<and>
      admission r = removals s dropped (admission p) \<and> rr_ok (ready_vec p) (rr_vec_by_class r) (rr_pos_by_class r)" for r
  proof (rule mp_inv_queue [OF p i, of kept])
    show "\<forall>tx \<in> set kept. m_sender_id tx = rq_sender (ready_vec p ! idx)" using snd sub s_def by blast
    show "adm_counts (admission r) (M + image_mset resident (mset kept))"
      if "adm_counts (admission p) (M + image_mset resident (mset (rq_queue (ready_vec p ! idx))))" for M
      using that adm_counts_removals [of "admission p" "M + image_mset resident (mset kept)" s dropped]
      by (simp add: r m im ac_simps)
  qed (use r tot s_def in simp_all)
  then show ?thesis
    using drop_txs_eq [OF s, of dropped] c by auto
qed

end
