(* ===== verification/Mempool_Props.thy ===== *)
theory Mempool_Props
  imports Mempool_Core
begin

text \<open>
  What the scheduling core guarantees: the counters, the index and the admission layer agree with the
  queued transactions in every reachable state and no operation panics; what a drain returns; and
  where restoring and peeking fall short.
\<close>

section \<open>The operations keep the invariant\<close>

text \<open>One visited queue: the transactions that fail the test leave, the others stay in order.\<close>

lemma sweep_queue:
  fixes test :: "SenderId \<Rightarrow> MempoolTx \<Rightarrow> bool"
  assumes p: "mp_inv p" and i: "idx < length (ready_vec p)" and V: "V (rq_sender (ready_vec p ! idx))"
  defines "rq \<equiv> ready_vec p ! idx"
  defines "kept \<equiv> filter (\<lambda>tx. \<not> test (rq_sender rq) tx) (rq_queue rq)"
  obtains p1 p2 where "drop_txs (rq_sender rq) (filter (test (rq_sender rq)) (rq_queue rq)) p = Some p1"
    and "p2 = p1\<lparr> ready_vec := (ready_vec p)[idx := rq\<lparr> rq_queue := kept \<rparr>] \<rparr>" "mp_inv p2"
    and "filter_mset (\<lambda>tx. \<not> (V (m_sender_id tx) \<and> test (m_sender_id tx) tx)) (mset (pool_txs (ready_vec p2)))
      = filter_mset (\<lambda>tx. \<not> (V (m_sender_id tx) \<and> test (m_sender_id tx) tx)) (mset (pool_txs (ready_vec p)))"
    and "\<forall>tx \<in> set kept. \<not> test (m_sender_id tx) tx"
proof -
  let ?out = "\<lambda>tx. V (m_sender_id tx) \<and> test (m_sender_id tx) tx" and ?drop = "filter (test (rq_sender rq)) (rq_queue rq)"
  have snd: "m_sender_id tx = rq_sender rq" if "tx \<in> set (rq_queue rq)" for tx
    using mp_invD(3) [OF p] nth_mem [OF i] that unfolding queues_ok_def rq_def by blast
  have m: "mset (rq_queue (ready_vec p ! idx)) = mset ?drop + mset kept" by (simp add: kept_def rq_def)
  obtain cs a where dr: "drop_txs (rq_sender rq) ?drop p = Some (p\<lparr> mp_total := mp_total p - length ?drop, counts := cs, admission := a \<rparr>)"
    and inv: "\<And>r. ready_vec r = (ready_vec p)[idx := (ready_vec p ! idx)\<lparr> rq_queue := kept \<rparr>] \<and> ready_index r = ready_index p \<and>
      counts r = cs \<and> mp_total r = mp_total p - length ?drop \<and> admission r = a \<and>
      rr_ok (ready_vec p) (rr_vec_by_class r) (rr_pos_by_class r) \<Longrightarrow> mp_inv r"
    using mp_inv_drop [OF p i m] unfolding rq_def by blast
  define p1 where "p1 = p\<lparr> mp_total := mp_total p - length ?drop, counts := cs, admission := a \<rparr>"
  define p2 where "p2 = p1\<lparr> ready_vec := (ready_vec p)[idx := rq\<lparr> rq_queue := kept \<rparr>] \<rparr>"
  have "mp_inv p2" using mp_invD(4) [OF p] by (intro inv) (simp add: p2_def p1_def rq_def)
  moreover have "filter_mset (\<lambda>tx. \<not> ?out tx) (mset kept) = filter_mset (\<lambda>tx. \<not> ?out tx) (mset (rq_queue rq))"
    unfolding kept_def mset_filter filter_filter_mset using snd V by (intro filter_mset_cong) (auto simp: rq_def)
  then have "filter_mset (\<lambda>tx. \<not> ?out tx) (mset (pool_txs (ready_vec p2))) = filter_mset (\<lambda>tx. \<not> ?out tx) (mset (pool_txs (ready_vec p)))"
    by (simp add: p2_def pool_txs_split [OF i] rq_def)
  moreover have "\<forall>tx \<in> set kept. \<not> test (m_sender_id tx) tx" using snd by (simp add: kept_def)
  ultimately show ?thesis using that [OF dr [folded p1_def] p2_def] by blast
qed

lemma sweep_ok:
  assumes "mp_inv p" "\<And>rq. visit rq \<longleftrightarrow> V (rq_sender rq)"
    and "\<forall>j < min idx (length (ready_vec p)). \<forall>tx \<in> set (rq_queue (ready_vec p ! j)). \<not> (V (m_sender_id tx) \<and> test (m_sender_id tx) tx)"
  shows "\<exists>p'. sweep visit test also_empty idx p = Some p' \<and> mp_inv p' \<and>
    mset (pool_txs (ready_vec p')) = filter_mset (\<lambda>tx. \<not> (V (m_sender_id tx) \<and> test (m_sender_id tx) tx)) (mset (pool_txs (ready_vec p)))"
  using assms
proof (induction visit test also_empty idx p rule: sweep.induct)
  case (1 visit test also_empty idx p)
  let ?out = "\<lambda>tx. V (m_sender_id tx) \<and> test (m_sender_id tx) tx"
  define rq where "rq = ready_vec p ! idx"
  show ?case
  proof (cases "length (ready_vec p) \<le> idx \<or> \<not> visit rq")
    case True
    show ?thesis
    proof (cases "length (ready_vec p) \<le> idx")
      case fin: True
      then have "\<forall>tx \<in> set (pool_txs (ready_vec p)). \<not> ?out tx"
        using 1(6) by (fastforce simp: pool_txs_def in_set_conv_nth)
      then have "filter_mset (\<lambda>tx. \<not> ?out tx) (mset (pool_txs (ready_vec p))) = mset (pool_txs (ready_vec p))"
        by (simp add: filter_mset_eq_conv)
      then show ?thesis using fin 1(4) by (subst sweep.simps) simp
    next
      case False
      then have i: "idx < length (ready_vec p)" and vis: "\<not> visit rq" using True by simp_all
      have "m_sender_id tx = rq_sender rq" if "tx \<in> set (rq_queue rq)" for tx
        using mp_invD(3) [OF 1(4)] nth_mem [OF i] that unfolding queues_ok_def rq_def by blast
      then have "\<forall>j < min (idx + 1) (length (ready_vec p)). \<forall>tx \<in> set (rq_queue (ready_vec p ! j)). \<not> ?out tx"
        using 1(6) vis i 1(5) by (metis less_Suc_eq min_less_iff_conj rq_def Suc_eq_plus1)
      then show ?thesis
        using 1(1) [OF False rq_def refl vis 1(4,5)] vis False by (subst sweep.simps) (simp add: rq_def [symmetric])
    qed
  next
    case False
    then have i: "idx < length (ready_vec p)" and F: "\<not> length (ready_vec p) \<le> idx" and vis: "visit rq" and nv: "\<not> \<not> visit rq" by simp_all
    define kept where "kept = filter (\<lambda>tx. \<not> test (rq_sender rq) tx) (rq_queue rq)"
    obtain p1 p2 where dr: "drop_txs (rq_sender rq) (filter (test (rq_sender rq)) (rq_queue rq)) p = Some p1"
      and p2_def: "p2 = p1\<lparr> ready_vec := (ready_vec p)[idx := rq\<lparr> rq_queue := kept \<rparr>] \<rparr>" and p2: "mp_inv p2"
      and m2: "filter_mset (\<lambda>tx. \<not> ?out tx) (mset (pool_txs (ready_vec p2))) = filter_mset (\<lambda>tx. \<not> ?out tx) (mset (pool_txs (ready_vec p)))"
      and k: "\<forall>tx \<in> set kept. \<not> test (m_sender_id tx) tx"
      using sweep_queue [OF 1(4) i, of V test] vis 1(5) unfolding rq_def kept_def by blast
    have i2: "idx < length (ready_vec p2)" using i by (simp add: p2_def)
    have pre2: "\<forall>tx \<in> set (rq_queue (ready_vec p2 ! j)). \<not> ?out tx" if "j \<le> idx" for j
    proof (cases "j = idx")
      case False
      then have "j < min idx (length (ready_vec p))" using that i by simp
      then show ?thesis using 1(6) False by (simp add: p2_def)
    qed (use i k in \<open>simp add: p2_def\<close>)
    note hyp = F rq_def refl nv kept_def dr p2_def
    have step: "sweep visit test also_empty idx p = (if kept = [] \<and> (also_empty \<or> rq_queue rq \<noteq> [])
      then sweep visit test also_empty idx (remove_ready_queue idx p2) else sweep visit test also_empty (idx + 1) p2)"
      using F vis by (subst sweep.simps) (auto simp: rq_def [symmetric] kept_def [symmetric] dr p2_def Let_def)
    show ?thesis
    proof (cases "kept = [] \<and> (also_empty \<or> rq_queue rq \<noteq> [])")
      case rem: True
      have e: "rq_queue (ready_vec p2 ! idx) = []" using rem i by (simp add: p2_def)
      note r = mp_inv_remove [OF p2 i2 e]
      have "ready_vec (remove_ready_queue idx p2) = swap_remove idx (ready_vec p2)"
        using i2 by (simp add: remove_ready_queue_def Let_def split_beta)
      then have "\<forall>j < min idx (length (ready_vec (remove_ready_queue idx p2))). \<forall>tx \<in> set (rq_queue (ready_vec (remove_ready_queue idx p2) ! j)). \<not> ?out tx"
        using pre2 [OF less_imp_le] nth_swap_remove [OF i2] by (auto simp: less_imp_neq)
      from 1(2) [OF hyp rem r(1) 1(5) this] show ?thesis using r(2) m2 rem step by simp
    next
      case keep: False
      have "\<forall>j < min (idx + 1) (length (ready_vec p2)). \<forall>tx \<in> set (rq_queue (ready_vec p2 ! j)). \<not> ?out tx"
        using pre2 by (auto simp: less_Suc_eq_le)
      from 1(3) [OF hyp keep p2 1(5) this] show ?thesis unfolding step using m2 keep by auto
    qed
  qed
qed

lemma sweep_all_ok:
  assumes "mp_inv p" "\<And>rq. visit rq \<longleftrightarrow> V (rq_sender rq)"
  obtains p' where "sweep visit test also_empty 0 p = Some p'" "mp_inv p'"
    "mset (pool_txs (ready_vec p')) = filter_mset (\<lambda>tx. \<not> (V (m_sender_id tx) \<and> test (m_sender_id tx) tx)) (mset (pool_txs (ready_vec p)))"
  using sweep_ok [OF assms(1), of visit V 0 test also_empty] assms(2) by auto

lemma mp_inv_frame: "mp_inv p \<Longrightarrow> mp_inv (p\<lparr> last_purge := t \<rparr>)" "mp_inv p \<Longrightarrow> mp_inv (p\<lparr> purge_metrics := m \<rparr>)"
  by (simp_all add: mp_inv_def)

lemma purge_ok:
  assumes "mp_inv p"
  obtains p' where "purge_expired_internal now p = Some p'" "mp_inv p'"
    "mset (pool_txs (ready_vec p')) = filter_mset (\<lambda>tx. now - m_inserted tx \<le> mc_ttl (mp_cfg p)) (mset (pool_txs (ready_vec p)))"
proof -
  obtain p' where p': "sweep (\<lambda>_. True) (\<lambda>_ tx. mc_ttl (mp_cfg p) < now - m_inserted tx) True 0 (p\<lparr> last_purge := now \<rparr>) = Some p'" "mp_inv p'"
    "mset (pool_txs (ready_vec p')) = filter_mset (\<lambda>tx. \<not> (True \<and> mc_ttl (mp_cfg p) < now - m_inserted tx)) (mset (pool_txs (ready_vec p)))"
    by (rule sweep_all_ok [OF mp_inv_frame(1) [OF assms, of now], of _ "\<lambda>_. True"]) auto
  then obtain m where "purge_expired_internal now p = Some (p'\<lparr> purge_metrics := m \<rparr>)"
    by (auto simp: purge_expired_internal_def)
  then show ?thesis using p'(3) by (intro that [OF _ mp_inv_frame(2) [OF p'(2), of m]]) (simp_all add: not_less)
qed

lemma purge_if_needed_ok:
  assumes "mp_inv p"
  obtains p' where "purge_expired_internal_if_needed now p = Some p'" "mp_inv p'"
    "set (pool_txs (ready_vec p')) \<subseteq> set (pool_txs (ready_vec p))"
proof (cases "now - last_purge p < purge_interval p div 2")
  case True
  then obtain m where "purge_expired_internal_if_needed now p = Some (p\<lparr> purge_metrics := m \<rparr>)"
    by (auto simp: purge_expired_internal_if_needed_def)
  then show ?thesis by (intro that [OF _ mp_inv_frame(2) [OF assms, of m]]) simp_all
next
  case False
  obtain p' where p': "purge_expired_internal now p = Some p'" "mp_inv p'"
    "mset (pool_txs (ready_vec p')) = filter_mset (\<lambda>tx. now - m_inserted tx \<le> mc_ttl (mp_cfg p)) (mset (pool_txs (ready_vec p)))"
    by (rule purge_ok [OF assms])
  have "set (pool_txs (ready_vec p')) \<subseteq> set (pool_txs (ready_vec p))" using arg_cong [OF p'(3), of set_mset] by auto
  then show ?thesis using that p' False by (simp add: purge_expired_internal_if_needed_def)
qed

lemma remove_by_handles_ok:
  assumes "mp_inv p"
  obtains p' where "remove_by_handles hs p = Some p'" "mp_inv p'"
    "mset (pool_txs (ready_vec p')) = filter_mset (\<lambda>tx. m_tx_handle tx \<notin> set hs) (mset (pool_txs (ready_vec p)))"
proof (cases "hs = []")
  case True
  then show ?thesis using that assms by (simp add: remove_by_handles_def)
next
  case False
  show ?thesis
    by (rule sweep_all_ok [OF assms, of _ "\<lambda>_. True" "\<lambda>_ tx. m_tx_handle tx \<in> set hs" True])
      (use False that in \<open>auto simp: remove_by_handles_def\<close>)
qed

lemma evict_stale_ok:
  assumes "mp_inv p"
  obtains p' where "evict_stale us p = Some p'" "mp_inv p'"
    "mset (pool_txs (ready_vec p')) = filter_mset (\<lambda>tx. \<not> (\<exists>n. map_of us (m_sender_id tx) = Some n \<and> m_nonce tx < n)) (mset (pool_txs (ready_vec p)))"
proof (cases "us = []")
  case True
  then show ?thesis using that assms by (simp add: evict_stale_def)
next
  case False
  have eq: "(map_of us s \<noteq> None \<and> m_nonce tx < the (map_of us s)) = (\<exists>n. map_of us s = Some n \<and> m_nonce tx < n)" for s tx
    by auto
  show ?thesis
    by (rule sweep_all_ok [OF assms, of _ "\<lambda>s. map_of us s \<noteq> None" "\<lambda>s tx. m_nonce tx < the (map_of us s)" False])
      (use False that in \<open>auto simp: evict_stale_def eq simp del: not_ex not_None_eq\<close>)
qed

section \<open>Adding and restoring\<close>

lemma mp_inv_new_queue:
  assumes p: "mp_inv p" and s: "unat (rq_sender rq) < length (ready_index p)" "ready_index p ! unat (rq_sender rq) = None"
    and q: "\<forall>tx \<in> set (rq_queue rq). m_sender_id tx = rq_sender rq"
    and r: "ready_vec r = ready_vec p @ [rq]" "ready_index r = (ready_index p)[unat (rq_sender rq) := Some (length (ready_vec p))]"
      "counts r = (counts p)[unat (rq_sender rq) := length (rq_queue rq)]" "mp_total r = mp_total p + length (rq_queue rq)"
      "rr_ok (ready_vec r) (rr_vec_by_class r) (rr_pos_by_class r)"
    and R: "\<And>M. adm_counts (admission p) M \<Longrightarrow> adm_counts (admission r) (image_mset resident (mset (rq_queue rq)) + M)"
  shows "mp_inv r"
proof (rule mp_invI)
  note d = mp_invD [OF p]
  show "index_ok (ready_vec r) (ready_index r)" unfolding r by (rule index_ok_new [OF d(1) s])
  show "counts_ok (ready_vec r) (ready_index r) (counts r)" unfolding r by (rule counts_ok_new [OF d(1,2) s])
  show "queues_ok (ready_vec r)" using d(3) q by (auto simp: r queues_ok_def)
  show "rr_ok (ready_vec r) (rr_vec_by_class r) (rr_pos_by_class r)" by (rule r(5))
  show "mp_total r = length (pool_txs (ready_vec r))" using d(5) by (simp add: r pool_txs_append)
  show "adm_counts (admission r) (image_mset resident (mset (pool_txs (ready_vec r))))"
    using R [OF d(6)] by (simp add: r pool_txs_append ac_simps)
qed

lemma mp_inv_add_tx:
  assumes p: "mp_inv p" and i: "i < length (ready_vec p)" and s: "m_sender_id tx = rq_sender (ready_vec p ! i)"
    and q: "q = rq_queue (ready_vec p ! i) @ [tx] \<or> q = tx # rq_queue (ready_vec p ! i)"
    and r: "ready_vec r = (ready_vec p)[i := (ready_vec p ! i)\<lparr> rq_queue := q \<rparr>]" "ready_index r = ready_index p"
      "counts r = (counts p)[unat (m_sender_id tx) := counts p ! unat (m_sender_id tx) + 1]" "mp_total r = mp_total p + 1"
      "rr_ok (ready_vec p) (rr_vec_by_class r) (rr_pos_by_class r)"
    and R: "\<And>M. adm_counts (admission p) M \<Longrightarrow> adm_counts (admission r) (add_mset (resident tx) M)"
  shows "mp_inv r"
proof (rule mp_inv_queue [OF p i, of q])
  have "\<forall>tx \<in> set (rq_queue (ready_vec p ! i)). m_sender_id tx = rq_sender (ready_vec p ! i)"
    using mp_invD(3) [OF p] nth_mem [OF i] unfolding queues_ok_def by blast
  then show "\<forall>tx \<in> set q. m_sender_id tx = rq_sender (ready_vec p ! i)" using q s by auto
  show "adm_counts (admission r) (M + image_mset resident (mset q))"
    if "adm_counts (admission p) (M + image_mset resident (mset (rq_queue (ready_vec p ! i))))" for M
    using R [OF that] q by auto
  show "counts r = (counts p)[unat (rq_sender (ready_vec p ! i)) := length q]"
    using counts_okD(2) [OF mp_invD(2) [OF p] i] r(3) q s by auto
  have "length (rq_queue (ready_vec p ! i)) \<le> mp_total p" using mp_invD(5) [OF p] by (simp add: pool_txs_split(1) [OF i])
  then show "mp_total r = mp_total p - length (rq_queue (ready_vec p ! i)) + length q" using r(4) q by auto
qed (use r in simp_all)

definition admitted_tx :: "nat \<Rightarrow> PrevalidatedTx \<Rightarrow> bytes option \<Rightarrow> bool \<Rightarrow> MempoolTx" where
  "admitted_tx now tx hash from_rpc = (mempool_tx_from now tx)\<lparr> m_tx_hash := hash, m_rpc_accepted := from_rpc \<rparr>"

lemma admitted_tx_simps [simp]:
  "m_sender_id (admitted_tx now tx hash from_rpc) = sender_id tx" "m_class (admitted_tx now tx hash from_rpc) = tx_class tx"
  "m_nonce (admitted_tx now tx hash from_rpc) = nonce tx" "m_inserted (admitted_tx now tx hash from_rpc) = now"
  "resident (admitted_tx now tx hash from_rpc) = (sender_id tx, tx_class tx)"
  by (simp_all add: admitted_tx_def mempool_tx_from_def resident_def)

lemma enqueue_known:
  assumes "ready_index (ensure_index_capacity (sender_id tx) p) ! unat (sender_id tx) = Some i" "i < length (ready_vec p)"
  shows "enqueue now tx hash from_rpc p = (let p = ensure_index_capacity (sender_id tx) p; rq = ready_vec p ! i; c = class_idx (tx_class tx) in
    Some (p\<lparr> ready_vec := (ready_vec p)[i := rq\<lparr> rq_queue := rq_queue rq @ [admitted_tx now tx hash from_rpc] \<rparr>],
       mp_total := mp_total p + 1, counts := (counts p)[unat (sender_id tx) := counts p ! unat (sender_id tx) + 1],
       rr_vec_by_class := (if rq_queue rq = [] then (rr_vec_by_class p)[c := rr_vec_by_class p ! c @ [i]] else rr_vec_by_class p) \<rparr>))"
  using assms by (simp add: enqueue_def Let_def admitted_tx_def mempool_tx_from_def)

lemma enqueue_fresh:
  assumes "ready_index (ensure_index_capacity (sender_id tx) p) ! unat (sender_id tx) = None"
  shows "enqueue now tx hash from_rpc p = (let p = ensure_index_capacity (sender_id tx) p; n = length (ready_vec p); c = class_idx (tx_class tx) in
    Some (p\<lparr> ready_vec := ready_vec p @ [\<lparr> rq_sender = sender_id tx, rq_queue = [admitted_tx now tx hash from_rpc] \<rparr>],
       ready_index := (ready_index p)[unat (sender_id tx) := Some n],
       mp_total := mp_total p + 1, counts := (counts p)[unat (sender_id tx) := counts p ! unat (sender_id tx) + 1],
       rr_vec_by_class := (rr_vec_by_class p)[c := rr_vec_by_class p ! c @ [n]] \<rparr>))"
  using assms by (simp add: enqueue_def Let_def admitted_tx_def mempool_tx_from_def)

lemma ensure_admission: "ensure_index_capacity s (p\<lparr> admission := a \<rparr>) = (ensure_index_capacity s p)\<lparr> admission := a \<rparr>"
  by (simp add: ensure_index_capacity_def Let_def)

lemma enqueue_ok:
  assumes p: "mp_inv p" and R: "\<And>M. adm_counts (admission p) M \<Longrightarrow> adm_counts a (add_mset (sender_id tx, tx_class tx) M)"
  obtains p' where "enqueue now tx hash from_rpc (p\<lparr> admission := a \<rparr>) = Some p'" "mp_inv p'"
    "mset (pool_txs (ready_vec p')) = add_mset (admitted_tx now tx hash from_rpc) (mset (pool_txs (ready_vec p)))"
proof -
  let ?s = "unat (sender_id tx)" and ?p = "ensure_index_capacity (sender_id tx) p" and ?tx = "admitted_tx now tx hash from_rpc"
  note e = mp_inv_ensure [OF p, of "sender_id tx"] and d = mp_invD [OF mp_inv_ensure(1) [OF p, of "sender_id tx"]]
  show ?thesis
  proof (cases "ready_index ?p ! ?s")
    case None
    have c: "counts ?p ! ?s = 0" using counts_okD(3) [OF d(2) e(2) None] .
    obtain p' where p': "enqueue now tx hash from_rpc (p\<lparr> admission := a \<rparr>) = Some p'" by (simp add: enqueue_fresh ensure_admission None Let_def)
    have "rr_ok (ready_vec ?p @ [x]) ((rr_vec_by_class ?p)[class_idx (tx_class tx) := rr_vec_by_class ?p ! class_idx (tx_class tx) @ [length (ready_vec ?p)]])
        (rr_pos_by_class ?p)" for x
      by (rule rr_ok_push [OF rr_ok_more [OF d(4)]]) simp_all
    then have "mp_inv p'" using p' R c
      by (intro mp_inv_new_queue [OF e(1), of "\<lparr> rq_sender = sender_id tx, rq_queue = [?tx] \<rparr>"])
        (auto simp: enqueue_fresh ensure_admission None e(2) Let_def)
    then show ?thesis using p' by (intro that) (auto simp: enqueue_fresh ensure_admission None Let_def pool_txs_append)
  next
    case (Some i)
    note i = index_ok_back [OF d(1) e(2) Some]
    obtain p' where p': "enqueue now tx hash from_rpc (p\<lparr> admission := a \<rparr>) = Some p'"
      using i by (simp add: enqueue_known ensure_admission Some Let_def)
    have "rr_ok (ready_vec ?p) ((rr_vec_by_class ?p)[class_idx (tx_class tx) := rr_vec_by_class ?p ! class_idx (tx_class tx) @ [i]]) (rr_pos_by_class ?p)"
      by (rule rr_ok_push [OF d(4) i(1)]) simp
    then have "mp_inv p'" using p' R i d(4)
      by (intro mp_inv_add_tx [OF e(1) i(1), of ?tx "rq_queue (ready_vec p ! i) @ [?tx]"])
        (auto simp: enqueue_known ensure_admission Some Let_def word_unat_eq_iff)
    then show ?thesis using p' i
      by (intro that) (auto simp: enqueue_known ensure_admission Some Let_def pool_txs_split)
  qed
qed

lemma add_ok:
  assumes p: "mp_inv p"
  obtains r p' where "add_prevalidated_with_source bincode st rp now tx hash from_rpc p = Some (r, p')" "mp_inv p'"
    "mset (pool_txs (ready_vec p')) = (if r = Admitted then add_mset (admitted_tx now tx hash from_rpc) (mset (pool_txs (ready_vec p)))
      else mset (pool_txs (ready_vec p)))"
proof -
  obtain r a where c: "check_admission_ext_with_source bincode st rp now tx hash from_rpc (admission p) = (r, a)" by fastforce
  have k: "adm_counts a M \<longleftrightarrow> adm_counts (admission p) M" for M using check_keeps [OF c] by (intro adm_counts_cong) simp_all
  show ?thesis
  proof (cases "r = Admitted")
    case True
    obtain p' where "enqueue now tx hash from_rpc (p\<lparr> admission := record_admission now tx hash a \<rparr>) = Some p'" "mp_inv p'"
      "mset (pool_txs (ready_vec p')) = add_mset (admitted_tx now tx hash from_rpc) (mset (pool_txs (ready_vec p)))"
      by (rule enqueue_ok [OF p]) (auto simp: k adm_counts_admission)
    then show ?thesis using that True by (simp add: add_prevalidated_with_source_def c)
  next
    case False
    have "mp_inv (p\<lparr> admission := a \<rparr>)" using p k by (simp add: mp_inv_def)
    then show ?thesis using that [of r "p\<lparr> admission := a \<rparr>"] False
      by (auto simp: add_prevalidated_with_source_def c split: AdmissionResult.splits)
  qed
qed

lemma add_all_ok:
  assumes "mp_inv p"
  obtains rs p' where "add_prevalidated_all bincode st rp now from_rpc xs p = Some (rs, p')" "mp_inv p'"
proof -
  have "\<exists>rs p'. add_prevalidated_all bincode st rp now from_rpc xs p = Some (rs, p') \<and> mp_inv p'"
    using assms
  proof (induction xs arbitrary: p)
    case (Cons x xs)
    obtain tx h where x: "x = (tx, h)" by fastforce
    obtain r p1 where 1: "add_prevalidated_with_source bincode st rp now tx h from_rpc p = Some (r, p1)" "mp_inv p1"
      by (rule add_ok [OF Cons.prems])
    obtain rs p' where 2: "add_prevalidated_all bincode st rp now from_rpc xs p1 = Some (rs, p')" "mp_inv p'"
      using Cons.IH [OF 1(2)] by blast
    then show ?case using 1(1) x by simp
  qed simp
  then show ?thesis using that by blast
qed

lemma restore_ok: assumes p: "mp_inv p" shows "mp_inv (restore_tx tx p)"
proof -
  let ?s = "unat (m_sender_id tx)" and ?p = "ensure_index_capacity (m_sender_id tx) p"
  note e = mp_inv_ensure [OF p, of "m_sender_id tx"] and d = mp_invD [OF mp_inv_ensure(1) [OF p, of "m_sender_id tx"]]
  have R: "\<And>M. adm_counts (admission p) M \<Longrightarrow> adm_counts (record_restoration (m_sender_id tx) (m_class tx) (admission p)) (add_mset (resident tx) M)"
    by (simp add: adm_counts_restoration resident_def)
  show ?thesis
  proof (cases "ready_index ?p ! ?s")
    case None
    have "rr_ok (ready_vec ?p @ [x]) ((rr_vec_by_class ?p)[class_idx (m_class tx) := rr_vec_by_class ?p ! class_idx (m_class tx) @ [length (ready_vec ?p)]])
        (rr_pos_by_class ?p)" for x
      by (rule rr_ok_push [OF rr_ok_more [OF d(4)]]) simp_all
    then show ?thesis using R
      by (intro mp_inv_new_queue [OF e(1), of "\<lparr> rq_sender = m_sender_id tx, rq_queue = [tx] \<rparr>"])
        (auto simp: restore_tx_def None e(2) Let_def)
  next
    case (Some i)
    note i = index_ok_back [OF d(1) e(2) Some]
    show ?thesis using R i d(4)
      by (intro mp_inv_add_tx [OF e(1) i(1), of tx "tx # rq_queue (ready_vec p ! i)"])
        (auto simp: restore_tx_def Some Let_def word_unat_eq_iff)
  qed
qed

section \<open>Draining\<close>

text \<open>
  The state of a drain that started from the queues \<open>rv\<close>: every sender's transactions that were handed
  out, followed by those still queued, are its queue at the start.
\<close>

definition drain_inv :: "ReadyQueue list \<Rightarrow> Mempool \<Rightarrow> MempoolTx list \<Rightarrow> bool" where
  "drain_inv rv p out \<longleftrightarrow> mp_inv p \<and> length (ready_vec p) = length rv
    \<and> (\<forall>i < length rv. rq_sender (ready_vec p ! i) = rq_sender (rv ! i)
        \<and> filter (\<lambda>tx. m_sender_id tx = rq_sender (rv ! i)) out @ rq_queue (ready_vec p ! i) = rq_queue (rv ! i))
    \<and> mset out + mset (pool_txs (ready_vec p)) = mset (pool_txs rv)"

lemma drain_inv_frame:
  assumes "drain_inv rv p out" "ready_vec r = ready_vec p" "ready_index r = ready_index p" "counts r = counts p" "mp_total r = mp_total p"
    "rr_ok (ready_vec p) (rr_vec_by_class r) (rr_pos_by_class r)" "admission r = admission p"
  shows "drain_inv rv r out"
  using assms mp_inv_cong [of p r] by (simp add: drain_inv_def)

lemma drain_step_ok:
  assumes d: "drain_inv rv p out" and i: "idx < length rv" and q: "rq_queue (ready_vec p ! idx) = tx # q"
  obtains p' where "drop_txs (rq_sender (ready_vec p ! idx)) [tx] p = Some p'"
    "drain_inv rv (p'\<lparr> ready_vec := (ready_vec p)[idx := (ready_vec p ! idx)\<lparr> rq_queue := q \<rparr>] \<rparr>) (out @ [tx])"
    "rr_vec_by_class p' = rr_vec_by_class p" "rr_pos_by_class p' = rr_pos_by_class p"
proof -
  have p: "mp_inv p" and len: "length (ready_vec p) = length rv" using d by (simp_all add: drain_inv_def)
  have at: "rq_sender (ready_vec p ! i) = rq_sender (rv ! i)"
    "filter (\<lambda>tx. m_sender_id tx = rq_sender (rv ! i)) out @ rq_queue (ready_vec p ! i) = rq_queue (rv ! i)" if "i < length rv" for i
    using d that unfolding drain_inv_def by blast+
  have ip: "idx < length (ready_vec p)" using i len by simp
  have s: "m_sender_id tx = rq_sender (ready_vec p ! idx)"
    using mp_invD(3) [OF p] nth_mem [OF ip] q unfolding queues_ok_def by (metis list.set_intros(1))
  have "mset (rq_queue (ready_vec p ! idx)) = mset [tx] + mset q" using q by simp
  from mp_inv_drop [OF p ip this] obtain cs a where
    dr: "drop_txs (rq_sender (ready_vec p ! idx)) [tx] p = Some (p\<lparr> mp_total := mp_total p - length [tx], counts := cs, admission := a \<rparr>)"
    and inv: "\<And>r. ready_vec r = (ready_vec p)[idx := (ready_vec p ! idx)\<lparr> rq_queue := q \<rparr>] \<and> ready_index r = ready_index p \<and>
      counts r = cs \<and> mp_total r = mp_total p - length [tx] \<and> admission r = a \<and>
      rr_ok (ready_vec p) (rr_vec_by_class r) (rr_pos_by_class r) \<Longrightarrow> mp_inv r"
    by blast
  let ?p = "p\<lparr> mp_total := mp_total p - length [tx], counts := cs, admission := a \<rparr>"
  let ?r = "?p\<lparr> ready_vec := (ready_vec p)[idx := (ready_vec p ! idx)\<lparr> rq_queue := q \<rparr>] \<rparr>"
  have "mp_inv ?r" using mp_invD(4) [OF p] by (intro inv) simp
  moreover have "rq_sender (ready_vec ?r ! i) = rq_sender (rv ! i)
      \<and> filter (\<lambda>tx. m_sender_id tx = rq_sender (rv ! i)) (out @ [tx]) @ rq_queue (ready_vec ?r ! i) = rq_queue (rv ! i)"
    if "i < length rv" for i
  proof (cases "i = idx")
    case True
    then show ?thesis using at [OF i] q s ip by simp
  next
    case False
    then have "m_sender_id tx \<noteq> rq_sender (rv ! i)"
      using index_ok_inj [OF mp_invD(1) [OF p], of i idx] that ip len s at(1) [OF that] by auto
    then show ?thesis using False at [OF that] by simp
  qed
  moreover have "mset (out @ [tx]) + mset (pool_txs (ready_vec ?r)) = mset (pool_txs rv)"
    using d q ip by (simp add: drain_inv_def pool_txs_split)
  ultimately have "drain_inv rv ?r (out @ [tx])" using len unfolding drain_inv_def by simp
  then show ?thesis using that dr by simp
qed

lemma drain_burst_ok:
  assumes "drain_inv rv p out" "idx < length rv"
  shows "\<exists>p' out' pr'. drain_burst b max' idx (p, out, pr) = Some (p', out', pr') \<and> drain_inv rv p' out' \<and>
    rr_vec_by_class p' = rr_vec_by_class p \<and> rr_pos_by_class p' = rr_pos_by_class p \<and>
    (\<forall>j. j \<noteq> idx \<longrightarrow> ready_vec p' ! j = ready_vec p ! j) \<and>
    (0 < b \<longrightarrow> length out < max' \<longrightarrow> rq_queue (ready_vec p ! idx) \<noteq> [] \<longrightarrow> length out < length out')"
  using assms
proof (induction b arbitrary: p out pr)
  case (Suc b)
  show ?case
  proof (cases "length out < max' \<and> rq_queue (ready_vec p ! idx) \<noteq> []")
    case True
    then obtain tx q where q: "rq_queue (ready_vec p ! idx) = tx # q" by (cases "rq_queue (ready_vec p ! idx)") auto
    obtain p1 where p1: "drop_txs (rq_sender (ready_vec p ! idx)) [tx] p = Some p1"
      "drain_inv rv (p1\<lparr> ready_vec := (ready_vec p)[idx := (ready_vec p ! idx)\<lparr> rq_queue := q \<rparr>] \<rparr>) (out @ [tx])"
      "rr_vec_by_class p1 = rr_vec_by_class p" "rr_pos_by_class p1 = rr_pos_by_class p"
      by (rule drain_step_ok [OF Suc.prems q])
    let ?p = "p1\<lparr> ready_vec := (ready_vec p)[idx := (ready_vec p ! idx)\<lparr> rq_queue := q \<rparr>] \<rparr>"
    obtain p' out' pr' where r: "drain_burst b max' idx (?p, out @ [tx], True) = Some (p', out', pr')" "drain_inv rv p' out'"
      "rr_vec_by_class p' = rr_vec_by_class p" "rr_pos_by_class p' = rr_pos_by_class p"
      "\<forall>j. j \<noteq> idx \<longrightarrow> ready_vec p' ! j = ready_vec p ! j"
      using Suc.IH [OF p1(2) Suc.prems(2), of True] p1(3,4) by auto
    moreover have "length out < length out'" using drain_burst_grows [OF r(1)] by simp
    ultimately show ?thesis using True q p1(1) by simp
  next
    case False
    then have "drain_burst (Suc b) max' idx (p, out, pr) = Some (p, out, pr)" by (auto split: list.splits)
    then show ?thesis using False Suc.prems(1) by auto
  qed
qed simp

lemma rr_ok_filter: "rr_ok rv rr pos \<Longrightarrow> rr_ok rv (rr[c := filter P (rr ! c)]) (pos[d := x])"
proof -
  assume r: "rr_ok rv rr pos"
  show ?thesis
  proof (cases "c < length rr")
    case True
    then have "\<forall>i \<in> set (rr ! c). i < length rv" using r nth_mem [of c rr] unfolding rr_ok_def by blast
    then show ?thesis using r set_update_subset_insert [of rr c "filter P (rr ! c)"] unfolding rr_ok_def by fastforce
  qed (use r in \<open>simp add: rr_ok_def list_update_beyond\<close>)
qed

lemma rr_ok_pos: "rr_ok rv rr pos \<Longrightarrow> rr_ok rv rr (pos[d := x])"
  by (simp add: rr_ok_def)

lemma drain_class_turn:
  assumes "length out < max'" "rr = rr_vec_by_class p ! c" "rr \<noteq> []"
    and "k = (if length rr \<le> rr_pos_by_class p ! c then 0 else rr_pos_by_class p ! c)"
    and "idx = rr ! k" "pos = (k + 1) mod max (length rr) 1" "idx < length (ready_vec p)"
    and "p1 = p\<lparr> rr_pos_by_class := (rr_pos_by_class p)[c := pos] \<rparr>"
  shows "drain_class max' c (p, out, pr) = (case drain_burst 8 max' idx (p1, out, pr) of
      None \<Rightarrow> None
    | Some (p, out, progress) \<Rightarrow>
        if rq_queue (ready_vec p ! idx) = [] then
          let rr = filter (\<lambda>i. i \<noteq> idx) rr
          in Some (p\<lparr> rr_vec_by_class := (rr_vec_by_class p)[c := rr],
                      rr_pos_by_class := (if length rr \<le> pos then (rr_pos_by_class p)[c := 0] else rr_pos_by_class p) \<rparr>, out, progress)
        else Some (p, out, progress))"
proof -
  have 1: "(max' \<le> length out \<or> rr = []) = False" and 2: "(length (ready_vec p1) \<le> idx) = False" using assms(1,3,7,8) by simp_all
  show ?thesis
    unfolding drain_class_def Let_def prod.case assms(2) [symmetric] assms(4) [symmetric] assms(5) [symmetric] assms(6) [symmetric]
      assms(8) [symmetric] 1 2 if_False ..
qed

text \<open>What one class turn does: nothing, or a burst from the queue at the cursor, which leaves the
  round-robin vector when it is empty.\<close>

lemma drain_class_ok:
  assumes d: "drain_inv rv p out" and c: "c < 4"
  shows "\<exists>p' out' pr'. drain_class max' c (p, out, pr) = Some (p', out', pr') \<and> drain_inv rv p' out' \<and>
    ((max' \<le> length out \<or> rr_vec_by_class p ! c = []) \<and> p' = p \<and> out' = out \<or>
     length out < max' \<and> (\<exists>idx. idx \<in> set (rr_vec_by_class p ! c) \<and>
      (rq_queue (ready_vec p ! idx) \<noteq> [] \<longrightarrow> length out < length out') \<and> (\<forall>j. j \<noteq> idx \<longrightarrow> ready_vec p' ! j = ready_vec p ! j) \<and>
      rr_vec_by_class p' = (if rq_queue (ready_vec p' ! idx) = []
        then (rr_vec_by_class p)[c := filter (\<lambda>i. i \<noteq> idx) (rr_vec_by_class p ! c)] else rr_vec_by_class p)))"
proof (cases "max' \<le> length out \<or> rr_vec_by_class p ! c = []")
  case True
  then show ?thesis using d by (simp add: drain_class_def Let_def)
next
  case False
  let ?rr = "rr_vec_by_class p ! c"
  define k where "k = (if length ?rr \<le> rr_pos_by_class p ! c then 0 else rr_pos_by_class p ! c)"
  define pos where "pos = (k + 1) mod max (length ?rr) 1"
  define idx where "idx = ?rr ! k"
  define p1 where "p1 = p\<lparr> rr_pos_by_class := (rr_pos_by_class p)[c := pos] \<rparr>"
  have rr: "rr_ok (ready_vec p) (rr_vec_by_class p) (rr_pos_by_class p)" and len: "length (ready_vec p) = length rv"
    using d mp_invD(4) by (simp_all add: drain_inv_def)
  have k: "k < length ?rr" using False by (auto simp: k_def)
  then have mem: "idx \<in> set ?rr" by (simp add: idx_def)
  moreover have "?rr \<in> set (rr_vec_by_class p)" using rr c by (simp add: rr_ok_def)
  ultimately have i: "idx < length rv" using rr len unfolding rr_ok_def by auto
  have d1: "drain_inv rv p1 out" by (rule drain_inv_frame [OF d]) (simp_all add: p1_def rr_ok_pos [OF rr])
  obtain p2 out2 pr2 where b: "drain_burst 8 max' idx (p1, out, pr) = Some (p2, out2, pr2)" "drain_inv rv p2 out2"
    "rr_vec_by_class p2 = rr_vec_by_class p" "rr_pos_by_class p2 = (rr_pos_by_class p)[c := pos]"
    "\<forall>j. j \<noteq> idx \<longrightarrow> ready_vec p2 ! j = ready_vec p ! j" "rq_queue (ready_vec p ! idx) \<noteq> [] \<longrightarrow> length out < length out2"
    using drain_burst_ok [OF d1 i, of 8 max' pr] False by (auto simp: p1_def)
  have rr2: "rr_ok (ready_vec p2) (rr_vec_by_class p2) (rr_pos_by_class p2)" using b(2) mp_invD(4) by (simp add: drain_inv_def)
  let ?rr' = "filter (\<lambda>i. i \<noteq> idx) ?rr"
  define p3 where "p3 = (if rq_queue (ready_vec p2 ! idx) = [] then p2\<lparr> rr_vec_by_class := (rr_vec_by_class p2)[c := ?rr'],
      rr_pos_by_class := (if length ?rr' \<le> pos then (rr_pos_by_class p2)[c := 0] else rr_pos_by_class p2) \<rparr> else p2)"
  have "drain_inv rv p3 out2"
    using drain_inv_frame [OF b(2), of p3] rr_ok_filter [OF rr2, of c _ c 0] rr_ok_filter [OF rr2, of c "\<lambda>i. i \<noteq> idx" 4 0] b(2,3) rr2
    by (auto simp: p3_def rr_ok_def)
  moreover have "drain_class max' c (p, out, pr) = Some (p3, out2, pr2)"
    by (subst drain_class_turn [OF _ refl _ k_def idx_def pos_def _ p1_def])
      (use False i len b(1) in \<open>simp_all add: p3_def Let_def\<close>)
  moreover have "ready_vec p3 = ready_vec p2" by (simp add: p3_def)
  ultimately show ?thesis using False mem b(3,5,6) by (auto simp: p3_def)
qed

end
