(* ===== verification/Mempool_Drain.thy ===== *)
theory Mempool_Drain
  imports Mempool_Props
begin

text \<open>
  The guarantees of the mempool core: no operation panics and every counter is exact in all reachable
  states, a drain hands out each sender's transactions in nonce order and, when the round-robin
  vectors are in order, as many as asked for.  Two operations that do less than they say: a
  restored transaction can be out of reach, and a peek repeats one transaction.
\<close>

section \<open>The drain loop\<close>

lemma drain_classes_ok:
  assumes "drain_inv rv p out" "\<forall>c \<in> set cs. c < 4"
  shows "\<exists>p' out' pr'. drain_classes max' cs (p, out, pr) = Some (p', out', pr') \<and> drain_inv rv p' out'"
  using assms
proof (induction cs arbitrary: p out pr)
  case (Cons c cs)
  obtain p1 out1 pr1 where 1: "drain_class max' c (p, out, pr) = Some (p1, out1, pr1)" "drain_inv rv p1 out1"
    using drain_class_ok [OF Cons.prems(1), of c max' pr] Cons.prems(2) by auto
  then show ?case using Cons.IH [OF 1(2), of pr1] Cons.prems(2) by simp
qed simp

lemma drain_loop_ok:
  assumes "drain_inv rv p out"
  shows "\<exists>p' out'. drain_loop max' p out = Some (p', out') \<and> drain_inv rv p' out' \<and> (length out \<le> max' \<longrightarrow> length out' \<le> max')"
  using assms
proof (induction max' p out rule: drain_loop.induct)
  case (1 max' p out)
  show ?case
  proof (cases "length out < max'")
    case True
    obtain p1 out1 pr1 where r: "drain_classes max' [0, 1, 2, 3] (p, out, False) = Some (p1, out1, pr1)" "drain_inv rv p1 out1"
      using drain_classes_ok [OF "1.prems", of "[0, 1, 2, 3]" max' False] by auto
    have le: "length out1 \<le> max'" using drain_classes_grows [OF r(1)] True by simp
    show ?thesis
    proof (cases pr1)
      case pr: True
      show ?thesis using "1.IH" [OF True r(1) refl refl pr r(2)] le True pr r(1)
        by (subst drain_loop.simps) (simp del: drain_classes.simps)
    next
      case False
      then show ?thesis using r le True by (subst drain_loop.simps) (simp del: drain_classes.simps)
    qed
  next
    case False
    then show ?thesis using "1.prems" by (subst drain_loop.simps) simp
  qed
qed

lemma mset_sort_queue: "mset (rq_queue (sort_queue rq)) = mset (rq_queue rq)"
  by (simp add: sort_queue_def)

lemma sort_queue_simps [simp]:
  "rq_sender (sort_queue rq) = rq_sender rq" "length (rq_queue (sort_queue rq)) = length (rq_queue rq)"
  "set (rq_queue (sort_queue rq)) = set (rq_queue rq)" "rq_queue (sort_queue rq) = [] \<longleftrightarrow> rq_queue rq = []"
  by (simp_all add: sort_queue_def flip: length_0_conv)

lemma sort_queue_sorted: "rq_queue (sort_queue rq) = sort_key m_nonce (rq_queue rq)"
proof (cases "1 < length (rq_queue rq)")
  case False
  then have "rq_queue rq = [] \<or> (\<exists>x. rq_queue rq = [x])" by (cases "rq_queue rq"; cases "tl (rq_queue rq)") auto
  then show ?thesis by (auto simp: sort_queue_def)
qed (simp add: sort_queue_def)

lemma mset_pool_sort: "mset (pool_txs (map sort_queue rv)) = mset (pool_txs rv)"
  by (induction rv) (simp_all add: pool_txs_def mset_sort_queue)

lemma mp_inv_sort: assumes p: "mp_inv p" shows "mp_inv (p\<lparr> ready_vec := map sort_queue (ready_vec p) \<rparr>)"
proof (rule mp_invI)
  note d = mp_invD [OF p]
  let ?rv = "map sort_queue (ready_vec p)"
  have "index_ok ?rv (ready_index p)"
    using index_ok_at [OF d(1)] index_ok_back [OF d(1)] by (intro index_okI) auto
  then show "index_ok (ready_vec (p\<lparr> ready_vec := ?rv \<rparr>)) (ready_index (p\<lparr> ready_vec := ?rv \<rparr>))" by simp
  have "counts_ok ?rv (ready_index p) (counts p)"
    using counts_okD [OF d(2)] by (intro counts_okI) auto
  then show "counts_ok (ready_vec (p\<lparr> ready_vec := ?rv \<rparr>)) (ready_index (p\<lparr> ready_vec := ?rv \<rparr>)) (counts (p\<lparr> ready_vec := ?rv \<rparr>))" by simp
qed (use mp_invD [OF p] in \<open>auto simp: queues_ok_def rr_ok_def mset_pool_sort mset_eq_length [OF mset_pool_sort]\<close>)

lemma drain_inv_start: "mp_inv p \<Longrightarrow> drain_inv (ready_vec p) p []"
  by (simp add: drain_inv_def)

lemma drain_ok:
  assumes "mp_inv p"
  obtains p1 out p' where "purge_expired_internal_if_needed now p = Some p1" "mp_inv p1"
    "drain_fair_batch now max' p = Some (out, p')" "drain_inv (map sort_queue (ready_vec p1)) p' out \<or> max' = 0 \<and> out = [] \<and> p' = p1"
    "length out \<le> max'"
proof -
  obtain p1 where p1: "purge_expired_internal_if_needed now p = Some p1" "mp_inv p1"
    by (rule purge_if_needed_ok [OF assms])
  have "drain_inv (map sort_queue (ready_vec p1)) (p1\<lparr> ready_vec := map sort_queue (ready_vec p1) \<rparr>) []"
    using drain_inv_start [OF mp_inv_sort [OF p1(2)]] by simp
  from drain_loop_ok [OF this, of max']
  obtain p' out where "drain_loop max' (p1\<lparr> ready_vec := map sort_queue (ready_vec p1) \<rparr>) [] = Some (p', out)"
    "drain_inv (map sort_queue (ready_vec p1)) p' out" "length out \<le> max'" by auto
  then show ?thesis
    using that [OF p1, of "[]" p1] that [OF p1, of out p'] p1(1) by (cases "max' = 0") (simp_all add: drain_fair_batch_def)
qed

section \<open>Steps\<close>

inductive mp_step :: "(bytes \<Rightarrow> Account option) \<Rightarrow> 'c lru_ops \<Rightarrow> Mempool \<Rightarrow> Mempool \<Rightarrow> bool" for bincode L where
  add: "add_prevalidated_with_source bincode st (map_option (Pair L) rp) now tx hash from_rpc p = Some (r, p') \<Longrightarrow> mp_step bincode L p p'"
| batch: "add_prevalidated_batch_with_source bincode st (map_option (Pair L) rp) now pvs from_rpc p = Some (rs, p') \<Longrightarrow> mp_step bincode L p p'"
| drain: "drain_fair_batch now n p = Some (out, p') \<Longrightarrow> mp_step bincode L p p'"
| restore: "mp_step bincode L p (restore_drained_txs xs p)"
| purge: "purge_expired_internal now p = Some p' \<Longrightarrow> mp_step bincode L p p'"
| lazy: "purge_expired_internal_if_needed now p = Some p' \<Longrightarrow> mp_step bincode L p p'"
| remove: "remove_by_handles hs p = Some p' \<Longrightarrow> mp_step bincode L p p'"
| commit: "on_block_committed bincode st (map_option (Pair L) rp) now hs us p = Some p' \<Longrightarrow> mp_step bincode L p p'"

definition mp_init :: "Mempool \<Rightarrow> bool" where
  "mp_init p \<longleftrightarrow> (\<exists>now cfg acfg. p = new_mempool now cfg (new_admission now acfg))"

lemma mp_inv_new: "mp_inv (new_mempool now cfg (new_admission now' acfg))"
  using adm_counts_new [of now' acfg]
  by (simp add: mp_inv_def new_mempool_def index_ok_def counts_ok_def queues_ok_def rr_ok_def pool_txs_def)

lemma restore_all_ok: "mp_inv p \<Longrightarrow> mp_inv (restore_drained_txs xs p)"
  unfolding restore_drained_txs_def by (induction xs arbitrary: p) (simp_all add: restore_ok)

lemma batch_ok:
  assumes "mp_inv p"
  obtains rs p' where "add_prevalidated_batch_with_source bincode st rp now pvs from_rpc p = Some (rs, p')" "mp_inv p'"
proof -
  obtain p1 where p1: "purge_expired_internal_if_needed now p = Some p1" "mp_inv p1" by (rule purge_if_needed_ok [OF assms])
  show ?thesis by (rule add_all_ok [OF p1(2)]) (use that p1(1) in \<open>simp add: add_prevalidated_batch_with_source_def\<close>)
qed

lemma commit_ok:
  assumes "mp_inv p"
  obtains p' where "on_block_committed bincode st rp now hs us p = Some p'" "mp_inv p'"
proof -
  obtain p1 where p1: "remove_by_handles hs p = Some p1" "mp_inv p1" by (rule remove_by_handles_ok [OF assms])
  obtain p2 where p2: "evict_stale us p1 = Some p2" "mp_inv p2" by (rule evict_stale_ok [OF p1(2)])
  let ?r = "promote_queued_batch us (cleanup_queued_pool now (admission p2))"
  let ?p = "p2\<lparr> admission := new_round (snd ?r) \<rparr>"
  have "adm_counts (new_round (snd ?r)) R \<longleftrightarrow> adm_counts (admission p2) R" for R
    by (rule adm_counts_cong) (simp_all add: new_round_def promote_queued_batch_def cleanup_queued_pool_def split_beta)
  then have p: "mp_inv ?p" using p2(2) by (simp add: mp_inv_def)
  obtain rs p' where "add_prevalidated_all bincode st rp now False (fst ?r) ?p = Some (rs, p')" "mp_inv p'"
    by (rule add_all_ok [OF p])
  then show ?thesis using that p1(1) p2(1) by (simp add: on_block_committed_def split_beta Let_def)
qed

lemma mp_inv_step: "mp_inv p \<Longrightarrow> mp_step bincode L p p' \<Longrightarrow> mp_inv p'"
proof (erule mp_step.cases)
  fix st rp now tx hash from_rpc q r q'
  assume "mp_inv p" "p = q" "p' = q'" "add_prevalidated_with_source bincode st (map_option (Pair L) rp) now tx hash from_rpc q = Some (r, q')"
  then show ?thesis using add_ok [of p bincode st "map_option (Pair L) rp" now tx hash from_rpc] by (metis Pair_inject option.inject)
next
  fix st rp now pvs from_rpc q rs q'
  assume "mp_inv p" "p = q" "p' = q'" "add_prevalidated_batch_with_source bincode st (map_option (Pair L) rp) now pvs from_rpc q = Some (rs, q')"
  then show ?thesis using batch_ok [of p bincode st "map_option (Pair L) rp" now pvs from_rpc] by (metis Pair_inject option.inject)
next
  fix now n q out q'
  assume "mp_inv p" "p = q" "p' = q'" "drain_fair_batch now n q = Some (out, q')"
  then show ?thesis using drain_ok [of p now n] unfolding drain_inv_def by (metis Pair_inject option.inject)
next
  fix st rp now hs us q q'
  assume "mp_inv p" "p = q" "p' = q'" "on_block_committed bincode st (map_option (Pair L) rp) now hs us q = Some q'"
  then show ?thesis using commit_ok [of p bincode st "map_option (Pair L) rp" now hs us] by (metis option.inject)
qed (use purge_ok purge_if_needed_ok remove_by_handles_ok restore_all_ok in \<open>metis option.inject\<close>)+

interpretation mp: inv_system mp_init "mp_step bincode L" mp_inv for bincode L
  by unfold_locales (auto simp: mp_init_def mp_inv_new intro: mp_inv_step)

section \<open>The round-robin vectors\<close>

text \<open>In order: every non-empty queue has exactly one turn, and no empty queue has one.\<close>

definition rr_exact :: "Mempool \<Rightarrow> bool" where
  "rr_exact p \<longleftrightarrow> distinct (concat (rr_vec_by_class p)) \<and>
    set (concat (rr_vec_by_class p)) = {i. i < length (ready_vec p) \<and> rq_queue (ready_vec p ! i) \<noteq> []}"

lemma concat_update: "c < length xss \<Longrightarrow> concat (xss[c := ys]) = concat (take c xss) @ ys @ concat (drop (Suc c) xss)"
  by (simp add: upd_conv_take_nth_drop)

lemma concat_split: "c < length xss \<Longrightarrow> concat xss = concat (take c xss) @ xss ! c @ concat (drop (Suc c) xss)"
  using concat_update [of c xss "xss ! c"] by simp

lemma concat_drop_one:
  assumes "distinct (concat xss)" "c < length xss" "i \<in> set (xss ! c)"
  shows "concat (xss[c := filter (\<lambda>j. j \<noteq> i) (xss ! c)]) = filter (\<lambda>j. j \<noteq> i) (concat xss)"
proof -
  have "i \<notin> set (concat (take c xss))" "i \<notin> set (concat (drop (Suc c) xss))"
    using assms(1,3) unfolding concat_split [OF assms(2)] distinct_append by auto
  then have "filter (\<lambda>j. j \<noteq> i) (concat (take c xss)) = concat (take c xss)"
    "filter (\<lambda>j. j \<noteq> i) (concat (drop (Suc c) xss)) = concat (drop (Suc c) xss)"
    by (auto intro!: filter_True)
  then show ?thesis unfolding concat_update [OF assms(2)] by (subst concat_split [OF assms(2)]) simp
qed

lemma rr_exact_drain_class:
  assumes d: "drain_inv rv p out" and e: "rr_exact p" and c: "c < 4" and r: "drain_class max' c (p, out, pr) = Some (p', out', pr')"
  shows "rr_exact p' \<and> (length out < length out' \<or> out' = out \<and> p' = p \<and> (max' \<le> length out \<or> rr_vec_by_class p ! c = []))"
proof -
  have d': "drain_inv rv p' out'" using drain_class_ok [OF d c, of max' pr] r by auto
  have rr4: "c < length (rr_vec_by_class p)" using d c mp_invD(4) by (auto simp: drain_inv_def rr_ok_def)
  have len: "length (ready_vec p') = length (ready_vec p)" using d d' by (simp add: drain_inv_def)
  consider (idle) "max' \<le> length out \<or> rr_vec_by_class p ! c = []" "p' = p" "out' = out"
    | (turn) idx where "idx \<in> set (rr_vec_by_class p ! c)" "rq_queue (ready_vec p ! idx) \<noteq> [] \<longrightarrow> length out < length out'"
      "\<forall>j. j \<noteq> idx \<longrightarrow> ready_vec p' ! j = ready_vec p ! j"
      "rr_vec_by_class p' = (if rq_queue (ready_vec p' ! idx) = []
        then (rr_vec_by_class p)[c := filter (\<lambda>i. i \<noteq> idx) (rr_vec_by_class p ! c)] else rr_vec_by_class p)"
    using drain_class_ok [OF d c, of max' pr] r by auto
  then show ?thesis
  proof cases
    case idle
    then show ?thesis using e by simp
  next
    case (turn idx)
    have "idx \<in> set (concat (rr_vec_by_class p))" using turn(1) rr4 by (subst concat_split [OF rr4]) simp
    then have i: "idx < length (ready_vec p)" "rq_queue (ready_vec p ! idx) \<noteq> []" using e unfolding rr_exact_def by blast+
    have "rr_exact p'"
    proof (cases "rq_queue (ready_vec p' ! idx) = []")
      case True
      have c: "concat (rr_vec_by_class p') = filter (\<lambda>j. j \<noteq> idx) (concat (rr_vec_by_class p))"
        using turn(4) True concat_drop_one [OF _ rr4 turn(1)] e by (simp add: rr_exact_def)
      have "(i < length (ready_vec p) \<and> rq_queue (ready_vec p ! i) \<noteq> [] \<and> i \<noteq> idx) \<longleftrightarrow>
          (i < length (ready_vec p) \<and> rq_queue (ready_vec p' ! i) \<noteq> [])" for i
        using turn(3) True by (cases "i = idx") simp_all
      then show ?thesis using e unfolding rr_exact_def c len set_filter by (auto simp del: set_concat)
    next
      case False
      have "rq_queue (ready_vec p' ! i) \<noteq> [] \<longleftrightarrow> rq_queue (ready_vec p ! i) \<noteq> []" for i
        using turn(3) False i(2) by (cases "i = idx") simp_all
      then show ?thesis using e turn(4) False by (simp add: rr_exact_def len)
    qed
    then show ?thesis using turn(2) i(2) by simp
  qed
qed

lemma rr_exact_drain_classes:
  assumes "drain_inv rv p out" "rr_exact p" "\<forall>c \<in> set cs. c < 4" "drain_classes max' cs (p, out, pr) = Some (p', out', pr')"
  shows "rr_exact p' \<and> (length out < length out' \<or> out' = out \<and> p' = p \<and> (max' \<le> length out \<or> (\<forall>c \<in> set cs. rr_vec_by_class p ! c = [])))"
  using assms
proof (induction cs arbitrary: p out pr)
  case (Cons c cs)
  obtain p1 out1 pr1 where 1: "drain_class max' c (p, out, pr) = Some (p1, out1, pr1)" "drain_classes max' cs (p1, out1, pr1) = Some (p', out', pr')"
    using Cons.prems(4) by (auto split: option.splits)
  have d1: "drain_inv rv p1 out1" using drain_class_ok [OF Cons.prems(1), of c max' pr] 1(1) Cons.prems(3) by auto
  note a = rr_exact_drain_class [OF Cons.prems(1,2) _ 1(1)]
  have b: "rr_exact p' \<and> (length out1 < length out' \<or> out' = out1 \<and> p' = p1 \<and> (max' \<le> length out1 \<or> (\<forall>c \<in> set cs. rr_vec_by_class p1 ! c = [])))"
    by (rule Cons.IH [OF d1 _ _ 1(2)]) (use a Cons.prems(3) in simp_all)
  have "length out \<le> length out1" "length out1 \<le> length out'" using drain_class_grows [OF 1(1)] drain_classes_grows [OF 1(2)] by simp_all
  then show ?case using a b Cons.prems(3) by auto
qed simp

lemma rr_exact_idle:
  assumes "mp_inv p" "rr_exact p" "\<forall>c \<in> set [0, 1, 2, 3]. rr_vec_by_class p ! c = []"
  shows "pool_txs (ready_vec p) = []"
proof -
  have "length (rr_vec_by_class p) = 4" using mp_invD(4) [OF assms(1)] by (simp add: rr_ok_def)
  then have "c < length (rr_vec_by_class p) \<Longrightarrow> rr_vec_by_class p ! c = []" for c
    using assms(3) by (auto simp: less_Suc_eq numeral_eq_Suc)
  then have "\<forall>v \<in> set (rr_vec_by_class p). v = []" by (auto simp: in_set_conv_nth)
  then have "concat (rr_vec_by_class p) = []" by (simp add: concat_eq_Nil_conv)
  then have "\<forall>i < length (ready_vec p). rq_queue (ready_vec p ! i) = []" using assms(2) unfolding rr_exact_def by (metis (mono_tags, lifting) empty_iff empty_set mem_Collect_eq)
  then show ?thesis by (auto simp: pool_txs_def in_set_conv_nth)
qed

lemma drain_loop_complete:
  assumes "drain_inv rv p out" "rr_exact p" "drain_loop max' p out = Some (p', out')" "length out \<le> max'"
  shows "rr_exact p' \<and> drain_inv rv p' out' \<and> (length out' = max' \<or> length out' \<le> max' \<and> pool_txs (ready_vec p') = [])"
  using assms
proof (induction max' p out rule: drain_loop.induct)
  case (1 max' p out)
  show ?case
  proof (cases "length out < max'")
    case True
    obtain p1 out1 pr1 where r: "drain_classes max' [0, 1, 2, 3] (p, out, False) = Some (p1, out1, pr1)" "drain_inv rv p1 out1"
      using drain_classes_ok [OF "1.prems"(1), of "[0, 1, 2, 3]" max' False] by auto
    have g: "pr1 \<longleftrightarrow> length out < length out1" "length out1 \<le> max'" using drain_classes_grows [OF r(1)] True by simp_all
    note x = rr_exact_drain_classes [OF "1.prems"(1,2) _ r(1)]
    show ?thesis
    proof (cases pr1)
      case pr: True
      have "drain_loop max' p1 out1 = Some (p', out')"
        using "1.prems"(3) True r(1) pr by (subst (asm) drain_loop.simps) (simp del: drain_classes.simps)
      then show ?thesis using "1.IH" [OF True r(1) refl refl pr r(2)] x g(2) by simp
    next
      case False
      then have "p' = p1" "out' = out1"
        using "1.prems"(3) True r(1) by (subst (asm) drain_loop.simps, simp del: drain_classes.simps)+
      moreover have "p1 = p" "\<forall>c \<in> set [0, 1, 2, 3]. rr_vec_by_class p ! c = []" using x False g(1) True by auto
      ultimately show ?thesis using rr_exact_idle [of p] "1.prems"(1,2) r(2) g(2) by (simp add: drain_inv_def)
    qed
  next
    case False
    then show ?thesis using "1.prems" by (subst (asm) drain_loop.simps) simp
  qed
qed

lemma concat_push:
  assumes "c < length xss"
  shows "set (concat (xss[c := xss ! c @ [i]])) = insert i (set (concat xss))"
    "distinct (concat (xss[c := xss ! c @ [i]])) \<longleftrightarrow> distinct (concat xss) \<and> i \<notin> set (concat xss)"
proof -
  have m: "mset (concat (xss[c := xss ! c @ [i]])) = mset (i # concat xss)"
    unfolding concat_update [OF assms] by (subst concat_split [OF assms]) simp
  show "set (concat (xss[c := xss ! c @ [i]])) = insert i (set (concat xss))" using mset_eq_setD [OF m] by (simp del: set_concat)
  show "distinct (concat (xss[c := xss ! c @ [i]])) \<longleftrightarrow> distinct (concat xss) \<and> i \<notin> set (concat xss)"
    using mset_eq_imp_distinct_iff [OF m] by (auto simp del: set_concat)
qed

lemma rr_exact_push:
  assumes "rr_exact p" "c < length (rr_vec_by_class p)" "rr_vec_by_class r = (rr_vec_by_class p)[c := rr_vec_by_class p ! c @ [i]]"
    and "i \<notin> set (concat (rr_vec_by_class p))"
    and "\<And>j. j < length (ready_vec r) \<and> rq_queue (ready_vec r ! j) \<noteq> [] \<longleftrightarrow> j = i \<or> j < length (ready_vec p) \<and> rq_queue (ready_vec p ! j) \<noteq> []"
  shows "rr_exact r"
  unfolding rr_exact_def assms(3) concat_push [OF assms(2)] using assms(1,4,5) unfolding rr_exact_def by auto

lemma rr_exact_enqueue:
  assumes p: "mp_inv p" and e: "rr_exact p" and r: "enqueue now tx hash from_rpc (p\<lparr> admission := a \<rparr>) = Some p'"
  shows "rr_exact p'"
proof -
  let ?s = "unat (sender_id tx)" and ?p = "ensure_index_capacity (sender_id tx) p"
  note n = mp_inv_ensure [OF p, of "sender_id tx"]
  have c: "class_idx (tx_class tx) < length (rr_vec_by_class p)" using mp_invD(4) [OF p] by (simp add: rr_ok_def)
  have mem: "i \<in> set (concat (rr_vec_by_class p)) \<longleftrightarrow> i < length (ready_vec p) \<and> rq_queue (ready_vec p ! i) \<noteq> []" for i
    using e unfolding rr_exact_def by blast
  show ?thesis
  proof (cases "ready_index ?p ! ?s")
    case None
    have new: "length (ready_vec p) \<notin> set (concat (rr_vec_by_class p))" using mem [of "length (ready_vec p)"] by simp
    show ?thesis
      by (rule rr_exact_push [OF e c _ new]) (use r in \<open>auto simp: enqueue_fresh ensure_admission None Let_def nth_append less_Suc_eq\<close>)
  next
    case (Some i)
    note i = index_ok_back(1) [OF mp_invD(1) [OF n(1)] n(2) Some, simplified]
    show ?thesis
    proof (cases "rq_queue (ready_vec p ! i) = []")
      case True
      then have new: "i \<notin> set (concat (rr_vec_by_class p))" using mem [of i] by simp
      show ?thesis
        by (rule rr_exact_push [OF e c _ new])
          (use r i True in \<open>auto simp: enqueue_known ensure_admission Some Let_def nth_list_update split: if_splits\<close>)
    next
      case False
      have "rr_vec_by_class p' = rr_vec_by_class p" "length (ready_vec p') = length (ready_vec p)"
        "rq_queue (ready_vec p' ! j) \<noteq> [] \<longleftrightarrow> rq_queue (ready_vec p ! j) \<noteq> []" for j
        using r i False by (auto simp: enqueue_known ensure_admission Some Let_def nth_list_update split: if_splits)
      then show ?thesis using e by (simp add: rr_exact_def)
    qed
  qed
qed

lemma rr_exact_cong: "ready_vec r = ready_vec p \<Longrightarrow> rr_vec_by_class r = rr_vec_by_class p \<Longrightarrow> rr_exact r \<longleftrightarrow> rr_exact p"
  by (simp add: rr_exact_def)

lemma rr_exact_add:
  assumes "mp_inv p" "rr_exact p" "add_prevalidated_with_source bincode st rp now tx hash from_rpc p = Some (r, p')"
  shows "rr_exact p'"
proof -
  obtain res a where c: "check_admission_ext_with_source bincode st rp now tx hash from_rpc (admission p) = (res, a)" by fastforce
  show ?thesis
  proof (cases "res = Admitted")
    case True
    then show ?thesis using assms(3) rr_exact_enqueue [OF assms(1,2)] c by (auto simp: add_prevalidated_with_source_def)
  next
    case False
    then have "p' = p\<lparr> admission := a \<rparr>" using assms(3) c by (auto simp: add_prevalidated_with_source_def split: AdmissionResult.splits)
    then show ?thesis using assms(2) by (simp add: rr_exact_def)
  qed
qed

text \<open>A drain while the lazy purge is skipped.\<close>

definition purge_skipped :: "nat \<Rightarrow> Mempool \<Rightarrow> bool" where
  "purge_skipped now p \<longleftrightarrow> now - last_purge p < purge_interval p div 2"

lemma purge_skipped_eq:
  "purge_skipped now p \<Longrightarrow> \<exists>m. purge_expired_internal_if_needed now p = Some (p\<lparr> purge_metrics := m \<rparr>)"
  by (auto simp: purge_skipped_def purge_expired_internal_if_needed_def)

text \<open>Removing an empty queue keeps the turns: the last queue moves to its place, and its turn with it.\<close>

lemma remove_ready_queue_rr:
  assumes "idx < length (ready_vec p)"
  shows "ready_vec (remove_ready_queue idx p) = swap_remove idx (ready_vec p)"
    "concat (rr_vec_by_class (remove_ready_queue idx p)) =
      filter (\<lambda>i. i < length (ready_vec p) - 1) (map (\<lambda>i. if i = length (ready_vec p) - 1 then idx else i) (concat (rr_vec_by_class p)))"
proof -
  let ?l = "length (ready_vec p) - 1"
  have id: "map (\<lambda>i. if i = l then j else i) xs = xs" if "j = l" for j l and xs :: "nat list" using that by (induction xs) auto
  show "ready_vec (remove_ready_queue idx p) = swap_remove idx (ready_vec p)"
    using assms by (simp add: remove_ready_queue_def Let_def split_beta)
  show "concat (rr_vec_by_class (remove_ready_queue idx p)) =
      filter (\<lambda>i. i < ?l) (map (\<lambda>i. if i = ?l then idx else i) (concat (rr_vec_by_class p)))"
    using assms by (cases "idx = ?l") (simp_all add: remove_ready_queue_def Let_def split_beta filter_concat map_concat id comp_def)
qed

lemma move_last:
  assumes "idx < n" "\<not> P idx" and f_def: "f = (\<lambda>i. if i = n - 1 then idx else i)"
  shows "i < n \<Longrightarrow> P i \<Longrightarrow> f i < n - (1::nat)" "inj_on f {i. i < n \<and> P i}"
    "f ` {i. i < n \<and> P i} = {j. j < n - 1 \<and> P (if j = idx then n - 1 else j)}"
proof -
  show lt: "f i < n - 1" if "i < n" "P i" for i
  proof -
    have "idx \<noteq> i" using assms(2) that by blast
    then show ?thesis using assms(1) that(1) by (cases "i = n - 1") (auto simp: f_def)
  qed
  show "inj_on f {i. i < n \<and> P i}" using assms(2) by (auto simp: inj_on_def f_def)
  show "f ` {i. i < n \<and> P i} = {j. j < n - 1 \<and> P (if j = idx then n - 1 else j)}"
  proof (intro equalityI subsetI)
    fix j assume "j \<in> f ` {i. i < n \<and> P i}"
    then obtain k where k: "k < n" "P k" "j = f k" by blast
    then show "j \<in> {j. j < n - 1 \<and> P (if j = idx then n - 1 else j)}" using lt [OF k(1,2)] assms(2) by (auto simp: f_def)
  next
    fix j assume j: "j \<in> {j. j < n - 1 \<and> P (if j = idx then n - 1 else j)}"
    then have "j = f (if j = idx then n - 1 else j)" "(if j = idx then n - 1 else j) \<in> {i. i < n \<and> P i}"
      using assms(1) by (auto simp: f_def)
    then show "j \<in> f ` {i. i < n \<and> P i}" by (rule image_eqI)
  qed
qed

lemma rr_exact_remove:
  assumes e: "rr_exact p" and i: "idx < length (ready_vec p)" and q: "rq_queue (ready_vec p ! idx) = []"
  shows "rr_exact (remove_ready_queue idx p)"
proof -
  define n r where "n = length (ready_vec p)" and "r = concat (rr_vec_by_class p)"
  define f where "f = (\<lambda>i. if i = n - 1 then idx else i)"
  define P where "P = (\<lambda>i. rq_queue (ready_vec p ! i) \<noteq> [])"
  have S: "set r = {i. i < n \<and> P i}" and d: "distinct r" using e by (simp_all only: rr_exact_def n_def r_def P_def)
  have pre: "idx < n" "\<not> P idx" using i q by (simp_all add: n_def P_def)
  note m = move_last [of idx n P f, OF pre f_def]
  have "\<forall>k \<in> set (map f r). k < n - 1" using m(1) S by simp
  then have keep: "concat (rr_vec_by_class (remove_ready_queue idx p)) = map f r"
    unfolding remove_ready_queue_rr(2) [OF i] n_def [symmetric] r_def [symmetric] f_def [symmetric] by (simp only: filter_True)
  have "last (ready_vec p) = ready_vec p ! (n - 1)" using i last_conv_nth [of "ready_vec p"] by (cases "ready_vec p = []") (simp_all add: n_def)
  then have sw: "rq_queue (swap_remove idx (ready_vec p) ! j) \<noteq> [] \<longleftrightarrow> P (if j = idx then n - 1 else j)" if "j < n - 1" for j
    using that nth_swap_remove [OF i, of j] by (simp add: P_def n_def)
  have "set (map f r) = {j. j < length (swap_remove idx (ready_vec p)) \<and> rq_queue (swap_remove idx (ready_vec p) ! j) \<noteq> []}"
    unfolding set_map S m(3) length_swap_remove n_def [symmetric] by (intro Collect_cong conj_cong refl) (rule sw [symmetric])
  moreover have "distinct (map f r)" using d m(2) by (simp add: distinct_map S)
  ultimately show ?thesis unfolding rr_exact_def keep remove_ready_queue_rr(1) [OF i] by (simp only: simp_thms)
qed

lemma rr_exact_sweep:
  assumes "\<forall>rq \<in> set (ready_vec p). \<forall>tx \<in> set (rq_queue rq). \<not> test (rq_sender rq) tx" "rr_exact p"
    and "sweep (\<lambda>_. True) test True idx p = Some p'"
  shows "rr_exact p'"
  using assms
proof (induction "length (ready_vec p) - idx" arbitrary: idx p rule: less_induct)
  case less
  let ?rq = "ready_vec p ! idx"
  show ?case
  proof (cases "length (ready_vec p) \<le> idx")
    case True
    then show ?thesis using less.prems(2,3) by (subst (asm) sweep.simps) simp
  next
    case False
    then have k: "filter (\<lambda>tx. \<not> test (rq_sender ?rq) tx) (rq_queue ?rq) = rq_queue ?rq" "filter (test (rq_sender ?rq)) (rq_queue ?rq) = []"
      using less.prems(1) by (auto simp: filter_id_conv filter_empty_conv)
    have s: "sweep (\<lambda>_. True) test True idx p =
        (if rq_queue ?rq = [] then sweep (\<lambda>_. True) test True idx (remove_ready_queue idx p) else sweep (\<lambda>_. True) test True (idx + 1) p)"
      using False by (subst sweep.simps) (simp add: k Let_def)
    show ?thesis
    proof (cases "rq_queue ?rq = []")
      case True
      have "\<forall>rq \<in> set (ready_vec (remove_ready_queue idx p)). \<forall>tx \<in> set (rq_queue rq). \<not> test (rq_sender rq) tx"
        using less.prems(1) False set_swap_remove [of idx "ready_vec p"] by (auto simp: remove_ready_queue_rr(1))
      then show ?thesis
        using less.hyps [of "remove_ready_queue idx p" idx] rr_exact_remove [OF less.prems(2)] less.prems(3) False True s
        by (simp add: length_remove_ready_queue)
    next
      case ne: False
      then show ?thesis using less.hyps [of p "idx + 1"] less.prems False s by simp
    qed
  qed
qed

text \<open>A call at a time when the lazy purge is skipped or finds nothing expired.\<close>

definition calm :: "nat \<Rightarrow> Mempool \<Rightarrow> bool" where
  "calm now p \<longleftrightarrow> purge_skipped now p \<or> (\<forall>tx \<in> set (pool_txs (ready_vec p)). now - m_inserted tx \<le> mc_ttl (mp_cfg p))"

lemma calm_purge:
  assumes p: "mp_inv p" and e: "rr_exact p" and s: "calm now p" and r: "purge_expired_internal_if_needed now p = Some p1"
  shows "mp_inv p1 \<and> rr_exact p1 \<and> mset (pool_txs (ready_vec p1)) = mset (pool_txs (ready_vec p))"
proof (cases "purge_skipped now p")
  case True
  then obtain m where "p1 = p\<lparr> purge_metrics := m \<rparr>" using purge_skipped_eq r by fastforce
  then show ?thesis using p e by (simp add: mp_inv_frame rr_exact_def)
next
  case False
  then have fresh: "\<forall>tx \<in> set (pool_txs (ready_vec p)). now - m_inserted tx \<le> mc_ttl (mp_cfg p)" using s by (simp add: calm_def)
  have r': "purge_expired_internal now p = Some p1"
    using r False by (simp add: purge_expired_internal_if_needed_def purge_skipped_def)
  then obtain q m where q: "sweep (\<lambda>_. True) (\<lambda>_ tx. mc_ttl (mp_cfg p) < now - m_inserted tx) True 0 (p\<lparr> last_purge := now \<rparr>) = Some q"
    "p1 = q\<lparr> purge_metrics := m \<rparr>" by (auto simp: purge_expired_internal_def)
  have "rr_exact q"
    by (rule rr_exact_sweep [OF _ _ q(1)]) (use fresh e in \<open>auto simp: pool_txs_def rr_exact_def not_less\<close>)
  then have "rr_exact p1" by (simp add: q(2) rr_exact_def)
  moreover obtain p2 where "purge_expired_internal now p = Some p2" "mp_inv p2"
    "mset (pool_txs (ready_vec p2)) = filter_mset (\<lambda>tx. now - m_inserted tx \<le> mc_ttl (mp_cfg p)) (mset (pool_txs (ready_vec p)))"
    by (rule purge_ok [OF p])
  moreover have "filter_mset (\<lambda>tx. now - m_inserted tx \<le> mc_ttl (mp_cfg p)) (mset (pool_txs (ready_vec p))) = mset (pool_txs (ready_vec p))"
    using fresh by (simp add: filter_id_conv flip: mset_filter)
  ultimately show ?thesis using r' by simp
qed

lemma drain_calm:
  assumes p: "mp_inv p" and e: "rr_exact p" and s: "calm now p" and r: "drain_fair_batch now max' p = Some (out, p')"
  obtains p1 where "mp_inv p1" "mset (pool_txs (ready_vec p1)) = mset (pool_txs (ready_vec p))" "rr_exact p'" "mp_inv p'"
    "length out = min max' (mp_total p)" "map rq_sender (ready_vec p') = map rq_sender (ready_vec p1)"
    "mset out + mset (pool_txs (ready_vec p')) = mset (pool_txs (ready_vec p))"
proof -
  obtain p1 where m: "purge_expired_internal_if_needed now p = Some p1" using r by (auto simp: drain_fair_batch_def split: option.splits)
  note c = calm_purge [OF p e s m]
  have tot: "mp_total p1 = mp_total p" using c mp_invD(5) [OF p] mp_invD(5) [of p1] by (metis size_mset)
  show thesis
  proof (cases "max' = 0")
    case True
    then have "p' = p1" "out = []" using r m by (auto simp: drain_fair_batch_def)
    then show ?thesis using that [of p1] c True by simp
  next
    case False
    let ?s = "p1\<lparr> ready_vec := map sort_queue (ready_vec p1) \<rparr>"
    have d: "drain_inv (map sort_queue (ready_vec p1)) ?s []"
      using drain_inv_start [OF mp_inv_sort [OF c [THEN conjunct1]]] by simp
    have "rq_queue (map sort_queue (ready_vec p1) ! i) \<noteq> [] \<longleftrightarrow> rq_queue (ready_vec p1 ! i) \<noteq> []" if "i < length (ready_vec p1)" for i
      using that by simp
    then have "rr_exact ?s" using c unfolding rr_exact_def by (simp cong: conj_cong)
    moreover have "drain_loop max' ?s [] = Some (p', out)" using r m False by (auto simp: drain_fair_batch_def)
    ultimately have x: "rr_exact p'" "drain_inv (map sort_queue (ready_vec p1)) p' out"
      "length out = max' \<or> length out \<le> max' \<and> pool_txs (ready_vec p') = []"
      using drain_loop_complete [OF d] by simp_all
    have ms: "mset out + mset (pool_txs (ready_vec p')) = mset (pool_txs (ready_vec p1))"
      using x(2) by (simp add: drain_inv_def mset_pool_sort)
    have "length out + length (pool_txs (ready_vec p')) = mp_total p"
      using arg_cong [OF ms, of size] arg_cong [OF c [THEN conjunct2, THEN conjunct2], of size] mp_invD(5) [OF p] by simp
    then have "length out = min max' (mp_total p)" using x(3) by auto
    moreover have "map rq_sender (ready_vec p') = map rq_sender (ready_vec p1)"
      using x(2) by (intro nth_equalityI) (simp_all add: drain_inv_def)
    ultimately show ?thesis using that [of p1] x ms c by (simp add: drain_inv_def)
  qed
qed

section \<open>Adding and draining only\<close>

inductive sched_step :: "(bytes \<Rightarrow> Account option) \<Rightarrow> 'c lru_ops \<Rightarrow> Mempool \<Rightarrow> Mempool \<Rightarrow> bool" for bincode L where
  add: "add_prevalidated_with_source bincode st (map_option (Pair L) rp) now tx hash from_rpc p = Some (r, p') \<Longrightarrow> sched_step bincode L p p'"
| add_batch: "calm now p \<Longrightarrow> add_prevalidated_batch_with_source bincode st (map_option (Pair L) rp) now pvs from_rpc p = Some (rs, p') \<Longrightarrow> sched_step bincode L p p'"
| drain: "calm now p \<Longrightarrow> drain_fair_batch now n p = Some (out, p') \<Longrightarrow> sched_step bincode L p p'"

lemma rr_exact_new: "rr_exact (new_mempool now cfg a)"
  by (simp add: rr_exact_def new_mempool_def)

lemma mp_inv_rr_exact_add_all:
  "mp_inv p \<Longrightarrow> rr_exact p \<Longrightarrow> add_prevalidated_all bincode st (map_option (Pair L) rp) now from_rpc xs p = Some (rs, p') \<Longrightarrow> mp_inv p' \<and> rr_exact p'"
proof (induction xs arbitrary: p rs)
  case (Cons x xs)
  obtain tx hash where x: "x = (tx, hash)" by (rule prod.exhaust)
  obtain r q where q: "add_prevalidated_with_source bincode st (map_option (Pair L) rp) now tx hash from_rpc p = Some (r, q)"
    using Cons.prems(3) by (auto simp: x split: option.splits)
  have "mp_inv q" by (rule mp_inv_step [OF Cons.prems(1) mp_step.add [OF q]])
  moreover have "rr_exact q" by (rule rr_exact_add [OF Cons.prems(1,2) q])
  ultimately show ?case using Cons.IH [of q] Cons.prems(3) q by (auto simp: x)
qed simp

lemma sched_inv_step: "mp_inv p \<and> rr_exact p \<Longrightarrow> sched_step bincode L p p' \<Longrightarrow> mp_inv p' \<and> rr_exact p'"
proof (erule sched_step.cases)
  fix st rp now tx hash from_rpc q r q'
  assume "mp_inv p \<and> rr_exact p" "p = q" "p' = q'" "add_prevalidated_with_source bincode st (map_option (Pair L) rp) now tx hash from_rpc q = Some (r, q')"
  then show ?thesis
    using mp_inv_step [OF _ mp_step.add [of bincode st L rp now tx hash from_rpc q r q']]
      rr_exact_add [of q bincode st "map_option (Pair L) rp" now tx hash from_rpc r q'] by simp
next
  fix now q st rp pvs from_rpc rs q'
  assume a: "mp_inv p \<and> rr_exact p" "p = q" "p' = q'" "calm now q"
    "add_prevalidated_batch_with_source bincode st (map_option (Pair L) rp) now pvs from_rpc q = Some (rs, q')"
  then obtain q1 where q1: "purge_expired_internal_if_needed now q = Some q1"
    "add_prevalidated_all bincode st (map_option (Pair L) rp) now from_rpc (map (\<lambda>tx. (tx, None)) pvs) q1 = Some (rs, q')"
    by (auto simp: add_prevalidated_batch_with_source_def split: option.splits)
  then have "mp_inv q1 \<and> rr_exact q1" using calm_purge [of q now q1] a by simp
  then show ?thesis using mp_inv_rr_exact_add_all [OF _ _ q1(2)] a(3) by simp
next
  fix now q n out q'
  assume a: "mp_inv p \<and> rr_exact p" "p = q" "p' = q'" "calm now q" "drain_fair_batch now n q = Some (out, q')"
  show ?thesis by (rule drain_calm [of q now n out q']) (use a in simp_all)
qed

interpretation sched: inv_system mp_init "sched_step bincode L" "\<lambda>p. mp_inv p \<and> rr_exact p" for bincode L
  by unfold_locales (auto simp: mp_init_def mp_inv_new rr_exact_new, (use sched_inv_step in blast)+)

section \<open>One sender's transactions\<close>

definition sender_txs :: "Mempool \<Rightarrow> SenderId \<Rightarrow> MempoolTx list" where
  "sender_txs p s = filter (\<lambda>tx. m_sender_id tx = s) (pool_txs (ready_vec p))"

lemma sender_txs_queue:
  assumes p: "mp_inv p" and i: "i < length (ready_vec p)"
  shows "sender_txs p (rq_sender (ready_vec p ! i)) = rq_queue (ready_vec p ! i)"
proof -
  have own: "m_sender_id tx = rq_sender (ready_vec p ! j)" if "j < length (ready_vec p)" "tx \<in> set (rq_queue (ready_vec p ! j))" for j tx
    using mp_invD(3) [OF p] nth_mem [OF that(1)] that(2) unfolding queues_ok_def by blast
  have other: "m_sender_id tx \<noteq> rq_sender (ready_vec p ! i)"
    if "tx \<in> set (pool_txs (take i (ready_vec p))) \<or> tx \<in> set (pool_txs (drop (Suc i) (ready_vec p)))" for tx
  proof -
    have "\<exists>j. j < length (ready_vec p) \<and> j \<noteq> i \<and> tx \<in> set (rq_queue (ready_vec p ! j))"
      using that
    proof
      assume "tx \<in> set (pool_txs (take i (ready_vec p)))"
      then obtain rq where rq: "rq \<in> set (take i (ready_vec p))" "tx \<in> set (rq_queue rq)" by (auto simp: pool_txs_def)
      from rq(1) obtain j where "j < i" "ready_vec p ! j = rq" using i by (auto simp: in_set_conv_nth)
      then show ?thesis using i rq(2) by (intro exI [of _ j]) simp
    next
      assume "tx \<in> set (pool_txs (drop (Suc i) (ready_vec p)))"
      then obtain rq where rq: "rq \<in> set (drop (Suc i) (ready_vec p))" "tx \<in> set (rq_queue rq)" by (auto simp: pool_txs_def)
      from rq(1) obtain j where "j < length (ready_vec p) - Suc i" "ready_vec p ! (Suc i + j) = rq"
        by (auto simp: in_set_conv_nth)
      then show ?thesis using rq(2) by (intro exI [of _ "Suc i + j"]) simp
    qed
    then obtain j where j: "j < length (ready_vec p)" "j \<noteq> i" "tx \<in> set (rq_queue (ready_vec p ! j))" by blast
    then have "rq_sender (ready_vec p ! j) \<noteq> rq_sender (ready_vec p ! i)" using index_ok_inj [OF mp_invD(1) [OF p] j(1) i] by auto
    then show ?thesis using own [OF j(1,3)] by simp
  qed
  then show ?thesis
    unfolding sender_txs_def pool_txs_split(1) [OF i] using own [OF i] by (simp add: filter_empty_conv)
qed

lemma sender_txs_absent: "mp_inv p \<Longrightarrow> s \<notin> rq_sender ` set (ready_vec p) \<Longrightarrow> sender_txs p s = []"
  using mp_invD(3) [of p] by (fastforce simp: sender_txs_def pool_txs_def queues_ok_def filter_empty_conv)

lemma drain_order:
  assumes d: "drain_inv (map sort_queue (ready_vec p)) p' out" and p: "mp_inv p"
  shows "filter (\<lambda>tx. m_sender_id tx = s) out @ sender_txs p' s = sort_key m_nonce (sender_txs p s)"
proof (cases "s \<in> rq_sender ` set (ready_vec p)")
  case True
  then obtain i where i: "i < length (ready_vec p)" "s = rq_sender (ready_vec p ! i)" by (auto simp: in_set_conv_nth)
  have p': "mp_inv p'" "length (ready_vec p') = length (ready_vec p)" using d by (simp_all add: drain_inv_def)
  have at: "rq_sender (ready_vec p' ! i) = s" "filter (\<lambda>tx. m_sender_id tx = s) out @ rq_queue (ready_vec p' ! i) = rq_queue (sort_queue (ready_vec p ! i))"
    using d i by (simp_all add: drain_inv_def)
  show ?thesis
    using at sender_txs_queue [OF p i(1)] sender_txs_queue [OF p'(1), of i] i p'(2) by (simp add: sort_queue_sorted)
next
  case False
  have "rq_sender ` set (ready_vec p') = rq_sender ` set (ready_vec p)"
  proof -
    have "map rq_sender (ready_vec p') = map rq_sender (ready_vec p)" using d by (intro nth_equalityI) (simp_all add: drain_inv_def)
    then show ?thesis by (metis list.set_map)
  qed
  then have e: "sender_txs p' s = []" "sender_txs p s = []" using False d p by (simp_all add: sender_txs_absent drain_inv_def)
  have "mset (filter (\<lambda>tx. m_sender_id tx = s) out) + mset (sender_txs p' s) = mset (sender_txs p s)"
    using d unfolding sender_txs_def mset_filter drain_inv_def by (metis filter_union_mset mset_pool_sort)
  then show ?thesis using e by simp
qed

section \<open>Properties\<close>

text \<open>C6. No operation of the mempool core panics, in whatever state a sequence of its operations has
  led to: every index it uses is in range.\<close>

theorem mempool_never_panics:
  assumes "reachable mp_init (mp_step bincode L) p"
  shows "add_prevalidated_with_source bincode st rp now tx hash from_rpc p \<noteq> None
    \<and> add_prevalidated_batch_with_source bincode st rp now pvs from_rpc p \<noteq> None
    \<and> drain_fair_batch now n p \<noteq> None \<and> peek_fair_batch now n p \<noteq> None \<and> purge_expired_internal now p \<noteq> None
    \<and> remove_by_handles hs p \<noteq> None \<and> on_block_committed bincode st rp now hs us p \<noteq> None"
proof -
  have p: "mp_inv p" by (rule mp.inv_reachable [OF assms])
  have "peek_fair_batch now n p \<noteq> None" by (rule purge_if_needed_ok [OF p, of now]) (simp add: peek_fair_batch_def)
  then show ?thesis
    using add_ok [OF p, of bincode st rp now tx hash from_rpc] batch_ok [OF p, of bincode st rp now pvs from_rpc] drain_ok [OF p, of now n]
      purge_ok [OF p, of now] remove_by_handles_ok [OF p, of hs] commit_ok [OF p, of bincode st rp now hs us]
    by (metis option.distinct(1))
qed


text \<open>C5. A drain hands out at most as many transactions as asked for, loses and invents none, and of
  each sender it hands out the ones with the lowest nonces in nonce order: what it returns of a sender
  followed by what stays queued is the sender's queue sorted by nonce.\<close>

theorem drain_in_nonce_order:
  assumes "reachable mp_init (mp_step bincode L) p" "0 < n"
    and "purge_expired_internal_if_needed now p = Some p1" "drain_fair_batch now n p = Some (out, p')"
  shows "length out \<le> n \<and> mset out + mset (pool_txs (ready_vec p')) = mset (pool_txs (ready_vec p1))
    \<and> (\<forall>s. filter (\<lambda>tx. m_sender_id tx = s) out @ sender_txs p' s = sort_key m_nonce (sender_txs p1 s))"
proof -
  have "mp_inv p" by (rule mp.inv_reachable [OF assms(1)])
  then have "mp_inv p1" "drain_inv (map sort_queue (ready_vec p1)) p' out" "length out \<le> n"
    using drain_ok [of p now n] assms(2-4) by (metis option.inject Pair_inject less_numeral_extra(3))+
  then show ?thesis using drain_order by (simp add: drain_inv_def mset_pool_sort)
qed

text \<open>C35. As long as transactions are only added, singly or in batches, and drained, and none expires while
  it is queued (or its purge is not due), a drain delivers everything it can: exactly the number asked
  for, or all that are queued.\<close>

theorem drain_delivers:
  assumes "reachable mp_init (sched_step bincode L) p" "calm now p" "drain_fair_batch now n p = Some (out, p')"
  shows "length out = min n (mp_total p)"
  using drain_calm [OF _ _ assms(2,3)] sched.inv_reachable [OF assms(1)] by metis

lemma restore_known:
  assumes p: "mp_inv p" and s: "m_sender_id tx \<in> rq_sender ` set (ready_vec p)"
  shows "rr_vec_by_class (restore_tx tx p) = rr_vec_by_class p"
    "map rq_sender (ready_vec (restore_tx tx p)) = map rq_sender (ready_vec p)" "mp_total (restore_tx tx p) = mp_total p + 1"
proof -
  obtain i where i: "i < length (ready_vec p)" "rq_sender (ready_vec p ! i) = m_sender_id tx" using s by (auto simp: in_set_conv_nth)
  have "ready_index (ensure_index_capacity (m_sender_id tx) p) ! unat (m_sender_id tx) = Some i"
    using index_ok_at(2) [OF mp_invD(1) [OF mp_inv_ensure(1) [OF p, of "m_sender_id tx"]], of i] i by simp
  then show "rr_vec_by_class (restore_tx tx p) = rr_vec_by_class p"
    "map rq_sender (ready_vec (restore_tx tx p)) = map rq_sender (ready_vec p)" "mp_total (restore_tx tx p) = mp_total p + 1"
    using i by (simp_all add: restore_tx_def Let_def map_update list_update_same_conv)
qed

lemma restore_all_known:
  assumes "mp_inv p" "\<forall>tx \<in> set xs. m_sender_id tx \<in> rq_sender ` set (ready_vec p)"
  shows "rr_vec_by_class (restore_drained_txs xs p) = rr_vec_by_class p \<and> mp_total (restore_drained_txs xs p) = mp_total p + length xs"
  using assms
proof (induction xs arbitrary: p)
  case (Cons tx xs)
  note k = restore_known [OF Cons.prems(1), of tx]
  have "rq_sender ` set (ready_vec (restore_tx tx p)) = rq_sender ` set (ready_vec p)"
    using k(2) Cons.prems(2) by (metis list.set_intros(1) list.set_map)
  then show ?case
    using Cons.IH [OF restore_ok [OF Cons.prems(1), of tx]] k(1,3) Cons.prems(2) by (simp add: restore_drained_txs_def)
qed (simp add: restore_drained_txs_def)

lemma drop_txs_rr: "drop_txs s xs p = Some p' \<Longrightarrow> rr_vec_by_class p' = rr_vec_by_class p \<and> ready_vec p' = ready_vec p"
  by (induction s xs p rule: drop_txs.induct) (auto split: option.splits)

lemma sweep_no_turns:
  assumes "concat (rr_vec_by_class p) = []" "sweep visit test also_empty idx p = Some p'"
  shows "concat (rr_vec_by_class p') = []"
  using assms
proof (induction "length (ready_vec p) - idx" arbitrary: idx p rule: less_induct)
  case less
  let ?rq = "ready_vec p ! idx"
  show ?case
  proof (cases "length (ready_vec p) \<le> idx \<or> \<not> visit ?rq")
    case True
    then have "sweep visit test also_empty idx p = (if length (ready_vec p) \<le> idx then Some p else sweep visit test also_empty (idx + 1) p)"
      by (subst sweep.simps) (auto simp: Let_def)
    then show ?thesis using less.prems less.hyps [of p "idx + 1"] by (simp split: if_splits)
  next
    case False
    let ?kept = "filter (\<lambda>tx. \<not> test (rq_sender ?rq) tx) (rq_queue ?rq)"
    obtain q where q: "drop_txs (rq_sender ?rq) (filter (test (rq_sender ?rq)) (rq_queue ?rq)) p = Some q"
      using less.prems(2) False by (subst (asm) sweep.simps) (auto simp: Let_def split: option.splits)
    define u where "u = q\<lparr> ready_vec := (ready_vec p)[idx := ?rq\<lparr> rq_queue := ?kept \<rparr>] \<rparr>"
    have l: "length (ready_vec u) = length (ready_vec p)" "idx < length (ready_vec u)" using False by (simp_all add: u_def)
    have n: "concat (rr_vec_by_class u) = []" using drop_txs_rr [OF q] less.prems(1) by (simp add: u_def)
    have r: "concat (rr_vec_by_class (remove_ready_queue idx u)) = []"
      unfolding remove_ready_queue_rr(2) [OF l(2)] n by simp
    have s: "sweep visit test also_empty idx p = (if ?kept = [] \<and> (also_empty \<or> rq_queue ?rq \<noteq> [])
        then sweep visit test also_empty idx (remove_ready_queue idx u) else sweep visit test also_empty (idx + 1) u)"
      using False by (subst sweep.simps) (simp only: Let_def q u_def option.case de_Morgan_disj not_not simp_thms if_False)
    show ?thesis
    proof (cases "?kept = [] \<and> (also_empty \<or> rq_queue ?rq \<noteq> [])")
      case True
      then have x: "sweep visit test also_empty idx (remove_ready_queue idx u) = Some p'" using less.prems(2) unfolding s by (simp only: if_P if_True)
      have "length (ready_vec (remove_ready_queue idx u)) - idx < length (ready_vec p) - idx" using l length_remove_ready_queue by simp
      then show ?thesis by (rule less.hyps [OF _ r x])
    next
      case ne: False
      then have x: "sweep visit test also_empty (idx + 1) u = Some p'" using less.prems(2) unfolding s by (simp only: if_not_P if_False)
      have "length (ready_vec u) - (idx + 1) < length (ready_vec p) - idx" using l by simp
      then show ?thesis by (rule less.hyps [OF _ n x])
    qed
  qed
qed

lemma drain_idle:
  assumes p: "mp_inv p" and e: "concat (rr_vec_by_class p) = []"
  shows "\<exists>p'. drain_fair_batch now n p = Some ([], p')"
proof -
  obtain p1 where m: "purge_expired_internal_if_needed now p = Some p1" and p1: "mp_inv p1" by (rule purge_if_needed_ok [OF p])
  have "concat (rr_vec_by_class p1) = []"
    using m e by (auto simp: purge_expired_internal_if_needed_def purge_expired_internal_def split: if_splits dest!: sweep_no_turns [rotated])
  moreover have "length (rr_vec_by_class p1) = 4" using mp_invD(4) [OF p1] by (simp add: rr_ok_def)
  ultimately have "rr_vec_by_class p1 ! c = []" if "c < 4" for c using that nth_mem [of c "rr_vec_by_class p1"] by (auto simp: concat_eq_Nil_conv)
  then have "drain_classes k [0, 1, 2, 3] (p1\<lparr> ready_vec := rv \<rparr>, [], False) = Some (p1\<lparr> ready_vec := rv \<rparr>, [], False)" for k rv
    by (simp add: drain_class_def)
  then have "drain_loop n (p1\<lparr> ready_vec := rv \<rparr>) [] = Some (p1\<lparr> ready_vec := rv \<rparr>, [])" for rv
    by (subst drain_loop.simps) (simp del: drain_classes.simps)
  then show ?thesis by (simp add: drain_fair_batch_def m)
qed

text \<open>C36. A batch put back after a drain that emptied the pool is out of reach: when transactions were only
  added and drained and none has expired, such a drain is restored in full, every transaction counts
  again, but the next drain returns nothing, whenever it comes and whatever its size, because the
  queues have lost their turns.\<close>

theorem restored_txs_stranded:
  assumes "reachable mp_init (sched_step bincode L) p" "calm now p" "drain_fair_batch now n p = Some (out, p')" "mp_total p \<le> n"
  shows "mp_total (restore_drained_txs out p') = mp_total p \<and> (\<exists>p''. drain_fair_batch now' k (restore_drained_txs out p') = Some ([], p''))"
proof -
  have p: "mp_inv p" "rr_exact p" using sched.inv_reachable [OF assms(1)] by simp_all
  obtain p1 where p1: "mp_inv p1" "mset (pool_txs (ready_vec p1)) = mset (pool_txs (ready_vec p))"
    and d: "rr_exact p'" "mp_inv p'" "length out = mp_total p" "map rq_sender (ready_vec p') = map rq_sender (ready_vec p1)"
      "mset out + mset (pool_txs (ready_vec p')) = mset (pool_txs (ready_vec p))"
    by (rule drain_calm [OF p assms(2,3)]) (use assms(4) in simp)
  have e: "pool_txs (ready_vec p') = []" using arg_cong [OF d(5), of size] d(3) mp_invD(5) [OF p(1)] by simp
  then have t: "mp_total p' = 0" using mp_invD(5) [OF d(2)] by simp
  have "\<forall>i < length (ready_vec p'). rq_queue (ready_vec p' ! i) = []" using e by (simp add: pool_txs_def)
  then have rr: "concat (rr_vec_by_class p') = []" using d(1) unfolding rr_exact_def by (metis (mono_tags, lifting) Collect_empty_eq set_empty2)
  have "m_sender_id tx \<in> rq_sender ` set (ready_vec p')" if "tx \<in> set out" for tx
  proof -
    have "tx \<in> set (pool_txs (ready_vec p))" using that arg_cong [OF d(5), of set_mset] by auto
    then have "tx \<in> set (pool_txs (ready_vec p1))" using arg_cong [OF p1(2), of set_mset] by simp
    then have "m_sender_id tx \<in> rq_sender ` set (ready_vec p1)" using mp_invD(3) [OF p1(1)] by (fastforce simp: pool_txs_def queues_ok_def)
    then show ?thesis using d(4) by (metis list.set_map)
  qed
  then have k: "rr_vec_by_class (restore_drained_txs out p') = rr_vec_by_class p'" "mp_total (restore_drained_txs out p') = mp_total p"
    using restore_all_known [OF d(2), of out] t d(3) by simp_all
  show ?thesis using drain_idle [OF restore_all_ok [OF d(2)], of out now' k] k rr by simp
qed

lemma concat_single:
  "concat xss = [i] \<Longrightarrow> \<exists>c < length xss. xss ! c = [i] \<and> (\<forall>d < length xss. d \<noteq> c \<longrightarrow> xss ! d = [])"
proof (induction xss)
  case (Cons xs xss)
  show ?case
  proof (cases xs)
    case Nil
    then obtain c where c: "c < length xss" "xss ! c = [i]" "\<forall>d < length xss. d \<noteq> c \<longrightarrow> xss ! d = []" using Cons by auto
    have "(xs # xss) ! d = []" if "d < length (xs # xss)" "d \<noteq> Suc c" for d using that c(3) Nil by (cases d) simp_all
    then show ?thesis using c by (intro exI [of _ "Suc c"]) simp
  next
    case (Cons y ys)
    then have "ys = []" "y = i" "concat xss = []" using Cons.prems by auto
    then have "(xs # xss) ! d = []" if "d < length (xs # xss)" "d \<noteq> 0" for d using that by (cases d) (auto simp: concat_eq_Nil_conv)
    then show ?thesis using Cons \<open>ys = []\<close> \<open>y = i\<close> by (intro exI [of _ 0]) simp
  qed
qed simp

lemma distinct_singleton: "distinct xs \<Longrightarrow> set xs = {i} \<Longrightarrow> xs = [i]"
  by (cases xs; cases "tl xs") auto

lemma pool_single:
  assumes "pool_txs rv = [tx]"
  obtains i where "i < length rv" "rq_queue (rv ! i) = [tx]" "\<And>j. j < length rv \<Longrightarrow> j \<noteq> i \<Longrightarrow> rq_queue (rv ! j) = []"
  using concat_single [of "map rq_queue rv" tx] assms by (auto simp: pool_txs_def)

lemma peek_class_one:
  assumes p: "mp_inv p" and e: "rr_exact p" and one: "pool_txs (ready_vec p) = [tx]"
  obtains c where "c < 4" "\<And>n out. length out < n \<Longrightarrow> peek_class n p c out = out @ [tx]"
    "\<And>d n out. d < 4 \<Longrightarrow> d \<noteq> c \<Longrightarrow> peek_class n p d out = out"
proof -
  obtain i where i: "i < length (ready_vec p)" "rq_queue (ready_vec p ! i) = [tx]"
    "\<And>j. j < length (ready_vec p) \<Longrightarrow> j \<noteq> i \<Longrightarrow> rq_queue (ready_vec p ! j) = []" using pool_single [OF one] by blast
  have "{j. j < length (ready_vec p) \<and> rq_queue (ready_vec p ! j) \<noteq> []} = {i}" using i by force
  then have "set (concat (rr_vec_by_class p)) = {i}" "distinct (concat (rr_vec_by_class p))" using e by (simp_all add: rr_exact_def)
  then have c1: "concat (rr_vec_by_class p) = [i]"
    by (rule distinct_singleton [rotated])
  have "length (rr_vec_by_class p) = 4" using mp_invD(4) [OF p] by (simp add: rr_ok_def)
  then obtain c where c: "c < 4" "rr_vec_by_class p ! c = [i]" "\<forall>d < 4. d \<noteq> c \<longrightarrow> rr_vec_by_class p ! d = []"
    using concat_single [OF c1] by auto
  show ?thesis
    by (rule that [OF c(1)]) (use c i in \<open>simp_all add: peek_class_def Let_def not_le\<close>)
qed

lemma peek_loop_one:
  assumes c: "c < 4" "\<And>n out. length out < n \<Longrightarrow> peek_class n p c out = out @ [tx]"
    "\<And>d n out. d < 4 \<Longrightarrow> d \<noteq> c \<Longrightarrow> peek_class n p d out = out" and le: "length out \<le> n"
  shows "peek_loop n p out = out @ replicate (n - length out) tx"
  using le
proof (induction "n - length out" arbitrary: out)
  case 0
  then show ?case by (subst peek_loop.simps) simp
next
  case (Suc k)
  then have lt: "length out < n" by simp
  have "c \<in> {0, 1, 2, 3}" using c(1) by auto
  then have "fold (peek_class n p) [0, 1, 2, 3] out = out @ [tx]"
    using c(2) [OF lt] c(3) [of 0] c(3) [of 1] c(3) [of 2] c(3) [of 3] by auto
  then have "peek_loop n p out = peek_loop n p (out @ [tx])" using lt by (subst peek_loop.simps) (simp add: Let_def)
  also have "\<dots> = (out @ [tx]) @ replicate (n - length (out @ [tx])) tx" by (rule Suc.hyps(1)) (use Suc lt in simp_all)
  also have "\<dots> = out @ replicate (n - length out) tx" using Suc.hyps(2) by (simp flip: replicate_Suc add: Suc_diff_Suc [OF lt])
  finally show ?case .
qed

text \<open>A peek does not preview a batch: with one transaction in the pool it returns as many copies
  of it as asked for.\<close>

theorem peek_repeats:
  assumes "reachable mp_init (sched_step bincode L) p" "purge_skipped now p" "pool_txs (ready_vec p) = [tx]"
    and "peek_fair_batch now n p = Some (out, p')"
  shows "out = replicate n tx"
proof -
  obtain m where m: "purge_expired_internal_if_needed now p = Some (p\<lparr> purge_metrics := m \<rparr>)" using purge_skipped_eq [OF assms(2)] by blast
  let ?p = "p\<lparr> purge_metrics := m \<rparr>"
  have "mp_inv ?p" "rr_exact ?p" "pool_txs (ready_vec ?p) = [tx]"
    using sched.inv_reachable [OF assms(1)] assms(3) by (simp_all add: mp_inv_frame rr_exact_def)
  from peek_class_one [OF this] obtain c where "c < 4" "\<And>n out. length out < n \<Longrightarrow> peek_class n ?p c out = out @ [tx]"
    "\<And>d n out. d < 4 \<Longrightarrow> d \<noteq> c \<Longrightarrow> peek_class n ?p d out = out" by blast
  from peek_loop_one [OF this, of "[]" n] show ?thesis using assms(4) m by (auto simp: peek_fair_batch_def split: if_splits)
qed

section \<open>A concrete pool\<close>

definition toy_mp0 :: Mempool where
  "toy_mp0 = new_mempool 0 default_mempool_config toy_adm"

definition toy_mp :: Mempool where
  "toy_mp = snd (the (add_prevalidated_with_source (\<lambda>_. None) (Some toy_store) no_replay 5 (toy_pv 4) None False toy_mp0))"

lemma toy_mp0_init: "mp_init toy_mp0"
  unfolding mp_init_def toy_mp0_def toy_adm_def by blast

lemma ensure_keeps_cfg: "mp_cfg (ensure_index_capacity s p) = mp_cfg p"
  by (simp add: ensure_index_capacity_def Let_def)

lemma enqueue_keeps:
  "enqueue now tx hash from_rpc p = Some p' \<Longrightarrow> last_purge p' = last_purge p \<and> purge_interval p' = purge_interval p \<and> mp_cfg p' = mp_cfg p"
  by (cases "ready_index (ensure_index_capacity (sender_id tx) p) ! unat (sender_id tx)")
    (auto simp: enqueue_def ensure_keeps_cfg Let_def split: if_splits)

lemma toy_add:
  "add_prevalidated_with_source (\<lambda>_. None) (Some toy_store) no_replay 5 (toy_pv 4) None False toy_mp0 = Some (Admitted, toy_mp)"
  "pool_txs (ready_vec toy_mp) = [admitted_tx 5 (toy_pv 4) None False]" "mp_total toy_mp = 1"
  "last_purge toy_mp = 0" "purge_interval toy_mp = 1000000000" "mp_cfg toy_mp = default_mempool_config"
proof -
  have inv: "mp_inv toy_mp0" by (simp add: toy_mp0_def toy_adm_def mp_inv_new)
  obtain r p where a: "add_prevalidated_with_source (\<lambda>_. None) (Some toy_store) no_replay 5 (toy_pv 4) None False toy_mp0 = Some (r, p)"
    "mp_inv p" "mset (pool_txs (ready_vec p)) = (if r = Admitted then add_mset (admitted_tx 5 (toy_pv 4) None False) (mset (pool_txs (ready_vec toy_mp0)))
      else mset (pool_txs (ready_vec toy_mp0)))"
    by (rule add_ok [OF inv])
  have adm: "admission toy_mp0 = toy_adm" "ready_vec toy_mp0 = []" by (simp_all add: toy_mp0_def new_mempool_def)
  obtain a' where c: "check_admission_ext_with_source (\<lambda>_. None) (Some toy_store) no_replay 5 (toy_pv 4) None False toy_adm = (Admitted, a')"
    using toy_admitted unfolding toy_check_def by (metis prod.collapse)
  have r: "r = Admitted" "enqueue 5 (toy_pv 4) None False (toy_mp0\<lparr> admission := record_admission 5 (toy_pv 4) None a' \<rparr>) = Some p"
    using a(1) c by (auto simp: add_prevalidated_with_source_def adm)
  have p: "p = toy_mp" using a(1) by (simp add: toy_mp_def)
  show "add_prevalidated_with_source (\<lambda>_. None) (Some toy_store) no_replay 5 (toy_pv 4) None False toy_mp0 = Some (Admitted, toy_mp)"
    using a(1) r p by simp
  show q: "pool_txs (ready_vec toy_mp) = [admitted_tx 5 (toy_pv 4) None False]" using a(3) r p adm(2) by (simp add: pool_txs_def)
  show "mp_total toy_mp = 1" using mp_invD(5) [OF a(2)] q p by simp
  show "last_purge toy_mp = 0" "purge_interval toy_mp = 1000000000" "mp_cfg toy_mp = default_mempool_config"
    using enqueue_keeps [OF r(2)] p by (simp_all add: toy_mp0_def new_mempool_def secs_def)
qed

lemma replay_gate_None [simp]: "replay_gate None tx hash = None"
  by (simp add: replay_gate_def)

lemma toy_mp_reachable:
  "reachable mp_init (sched_step (\<lambda>_. None) toy_lru) toy_mp" "reachable mp_init (mp_step (\<lambda>_. None) toy_lru) toy_mp"
proof -
  have a: "add_prevalidated_with_source (\<lambda>_. None) (Some toy_store) (map_option (Pair toy_lru) None) 5 (toy_pv 4) None False toy_mp0 = Some (Admitted, toy_mp)"
    using toy_add(1)
    unfolding no_replay_def option.map add_prevalidated_with_source_def check_admission_ext_with_source_def replay_gate_None .
  show "reachable mp_init (sched_step (\<lambda>_. None) toy_lru) toy_mp"
    by (rule reachable.move, rule reachable.start, rule toy_mp0_init, rule sched_step.add [OF a])
  show "reachable mp_init (mp_step (\<lambda>_. None) toy_lru) toy_mp"
    by (rule reachable.move, rule reachable.start, rule toy_mp0_init, rule mp_step.add [OF a])
qed

lemma toy_calm: "calm (secs 60) toy_mp" "\<not> purge_skipped (secs 60) toy_mp"
  by (simp_all add: calm_def purge_skipped_def toy_add secs_def default_mempool_config_def)

lemma toy_skipped: "purge_skipped 6 toy_mp"
  by (simp add: purge_skipped_def toy_add)

theorem mempool_never_panics_witness:
  "drain_fair_batch 6 3 toy_mp \<noteq> None \<and> remove_by_handles [9] toy_mp \<noteq> None"
  using mempool_never_panics [OF toy_mp_reachable(2)] by blast


theorem drain_in_nonce_order_witness:
  "\<exists>out p'. drain_fair_batch 6 3 toy_mp = Some (out, p') \<and>
    filter (\<lambda>tx. m_sender_id tx = 1) out @ sender_txs p' 1 = [admitted_tx 5 (toy_pv 4) None False]"
proof -
  have inv: "mp_inv toy_mp" by (rule mp.inv_reachable [OF toy_mp_reachable(2)])
  obtain m where m: "purge_expired_internal_if_needed 6 toy_mp = Some (toy_mp\<lparr> purge_metrics := m \<rparr>)" using purge_skipped_eq [OF toy_skipped] by blast
  obtain out p' where d: "drain_fair_batch 6 3 toy_mp = Some (out, p')" by (rule drain_ok [OF inv, of 6 3]) auto
  have "sender_txs (toy_mp\<lparr> purge_metrics := m \<rparr>) 1 = [admitted_tx 5 (toy_pv 4) None False]"
    by (simp add: sender_txs_def toy_add(2)) (simp add: toy_pv_def)
  then show ?thesis using drain_in_nonce_order [OF toy_mp_reachable(2) _ m d] d by simp
qed

theorem drain_delivers_witness: "\<exists>out p'. drain_fair_batch (secs 60) 3 toy_mp = Some (out, p') \<and> length out = 1"
proof -
  have inv: "mp_inv toy_mp" by (rule mp.inv_reachable [OF toy_mp_reachable(2)])
  obtain out p' where d: "drain_fair_batch (secs 60) 3 toy_mp = Some (out, p')" by (rule drain_ok [OF inv, of "secs 60" 3]) auto
  show ?thesis using drain_delivers [OF toy_mp_reachable(1) toy_calm(1) d] d toy_add(3) by simp
qed

theorem restored_txs_stranded_witness:
  "\<exists>out p' p''. drain_fair_batch (secs 60) 3 toy_mp = Some (out, p') \<and> mp_total (restore_drained_txs out p') = 1 \<and>
    drain_fair_batch (secs 300) 3 (restore_drained_txs out p') = Some ([], p'')"
proof -
  have inv: "mp_inv toy_mp" by (rule mp.inv_reachable [OF toy_mp_reachable(2)])
  obtain out p' where d: "drain_fair_batch (secs 60) 3 toy_mp = Some (out, p')" by (rule drain_ok [OF inv, of "secs 60" 3]) auto
  show ?thesis using restored_txs_stranded [OF toy_mp_reachable(1) toy_calm(1) d, of "secs 300" 3] d toy_add(3) by auto
qed

theorem peek_repeats_witness: "\<exists>p'. peek_fair_batch 6 3 toy_mp = Some (replicate 3 (admitted_tx 5 (toy_pv 4) None False), p')"
proof -
  obtain m where m: "purge_expired_internal_if_needed 6 toy_mp = Some (toy_mp\<lparr> purge_metrics := m \<rparr>)" using purge_skipped_eq [OF toy_skipped] by blast
  obtain out p' where d: "peek_fair_batch 6 3 toy_mp = Some (out, p')" by (simp add: peek_fair_batch_def m)
  show ?thesis using peek_repeats [OF toy_mp_reachable(1) toy_skipped toy_add(2) d] d by simp
qed

end
