(* ===== verification/State_Error.thy ===== *)
theory State_Error
  imports Rust_Prelude
begin

text \<open>
  Fallible operations on a mutable state, as Rust methods with \<open>&mut\<close> arguments and a \<open>Result\<close> have
  them: the result or the error, with the state left behind, which a failing operation may already
  have changed.  The weakest-precondition rules let the simplifier walk through such an operation.
\<close>

section \<open>Operations\<close>

type_synonym ('s, 'e, 'a) comp = "'s \<Rightarrow> ('e + 'a) \<times> 's"

definition ret :: "'a \<Rightarrow> ('s, 'e, 'a) comp" where
  "ret v = (\<lambda>x. (Inr v, x))"

definition throw :: "'e \<Rightarrow> ('s, 'e, 'a) comp" where
  "throw e = (\<lambda>x. (Inl e, x))"

definition bindc :: "('s, 'e, 'a) comp \<Rightarrow> ('a \<Rightarrow> ('s, 'e, 'b) comp) \<Rightarrow> ('s, 'e, 'b) comp" where
  "bindc m f = (\<lambda>x. case m x of (Inl e, x') \<Rightarrow> (Inl e, x') | (Inr v, x') \<Rightarrow> f v x')"

text \<open>A guard with an early return, \<open>ok_or\<close>, and reading and changing the state.\<close>

definition need :: "bool \<Rightarrow> 'e \<Rightarrow> ('s, 'e, unit) comp" where
  "need b e = (if b then ret () else throw e)"

definition ok_or :: "'a option \<Rightarrow> 'e \<Rightarrow> ('s, 'e, 'a) comp" where
  "ok_or v e = (case v of None \<Rightarrow> throw e | Some a \<Rightarrow> ret a)"

definition gets :: "('s \<Rightarrow> 'a) \<Rightarrow> ('s, 'e, 'a) comp" where
  "gets f = (\<lambda>x. (Inr (f x), x))"

definition modify :: "('s \<Rightarrow> 's) \<Rightarrow> ('s, 'e, unit) comp" where
  "modify f = (\<lambda>x. (Inr (), f x))"

section \<open>Reasoning about operations\<close>

text \<open>An operation started in \<open>x\<close> establishes \<open>Q\<close> when it returns and \<open>E\<close> when it fails.\<close>

definition wp :: "('s, 'e, 'a) comp \<Rightarrow> ('a \<Rightarrow> 's \<Rightarrow> bool) \<Rightarrow> ('e \<Rightarrow> 's \<Rightarrow> bool) \<Rightarrow> 's \<Rightarrow> bool" where
  "wp m Q E x = (case m x of (Inr v, x') \<Rightarrow> Q v x' | (Inl e, x') \<Rightarrow> E e x')"

lemma wpI: "(\<And>v x'. m x = (Inr v, x') \<Longrightarrow> Q v x') \<Longrightarrow> (\<And>e x'. m x = (Inl e, x') \<Longrightarrow> E e x') \<Longrightarrow> wp m Q E x"
  by (auto simp: wp_def split: prod.splits sum.splits)

lemma wpD: "wp m Q E x \<Longrightarrow> m x = (Inr v, x') \<Longrightarrow> Q v x'" "wp m Q E x \<Longrightarrow> m x = (Inl e, x') \<Longrightarrow> E e x'"
  by (simp_all add: wp_def)

lemma wp_bind [simp]: "wp (bindc m f) Q E = wp m (\<lambda>v. wp (f v) Q E) E"
  by (auto simp: wp_def bindc_def fun_eq_iff split: prod.splits sum.splits)

lemma wp_ret [simp]: "wp (ret v) Q E = Q v"
  by (auto simp: wp_def ret_def)

lemma wp_throw [simp]: "wp (throw e) Q E = E e"
  by (auto simp: wp_def throw_def)

lemma wp_if [simp]: "wp (if b then m else n) Q E = (if b then wp m Q E else wp n Q E)"
  by simp

lemma wp_need [simp]: "wp (need b e) Q E = (if b then Q () else E e)"
  by (simp add: need_def)

lemma wp_ok_or [simp]: "wp (ok_or v e) Q E = (case v of None \<Rightarrow> E e | Some a \<Rightarrow> Q a)"
  by (simp add: ok_or_def split: option.splits)

lemma wp_gets [simp]: "wp (gets f) Q E = (\<lambda>x. Q (f x) x)"
  by (simp add: gets_def wp_def fun_eq_iff)

lemma wp_modify [simp]: "wp (modify f) Q E = (\<lambda>x. Q () (f x))"
  by (simp add: modify_def wp_def fun_eq_iff)

lemma wp_weaken:
  assumes "wp m Q E x" "\<And>v x'. Q v x' \<Longrightarrow> Q' v x'" "\<And>e x'. E e x' \<Longrightarrow> E' e x'"
  shows "wp m Q' E' x"
  using assms by (auto simp: wp_def split: prod.splits sum.splits)

lemma wp_conj: "wp m Q E x \<Longrightarrow> wp m Q' E' x \<Longrightarrow> wp m (\<lambda>v x. Q v x \<and> Q' v x) (\<lambda>e x. E e x \<and> E' e x) x"
  by (auto simp: wp_def split: prod.splits sum.splits)

text \<open>The same rules for a proof that follows the operation step by step.\<close>

lemma wp_bindI: "wp m (\<lambda>v. wp (f v) Q E) E x \<Longrightarrow> wp (bindc m f) Q E x"
  by simp

lemma wp_retI: "Q v x \<Longrightarrow> wp (ret v) Q E x"
  by simp

lemma wp_ifI: "(b \<Longrightarrow> wp m Q E x) \<Longrightarrow> (\<not> b \<Longrightarrow> wp n Q E x) \<Longrightarrow> wp (if b then m else n) Q E x"
  by simp

lemmas step_rules = wp_bindI wp_retI wp_ifI

text \<open>Running an operation branch by branch.\<close>

lemma bindc_Inr: "bindc m f x = (Inr v, x') \<longleftrightarrow> (\<exists>u y. m x = (Inr u, y) \<and> f u y = (Inr v, x'))"
  by (auto simp: bindc_def split: prod.splits sum.splits)

lemma run_simps:
  "ret v x = (Inr v, x)" "throw e x = (Inl e, x)" "gets f x = (Inr (f x), x)" "modify h x = (Inr (), h x)"
  "need b e x = (if b then (Inr (), x) else (Inl e, x))" "ok_or c e x = (case c of None \<Rightarrow> (Inl e, x) | Some a \<Rightarrow> (Inr a, x))"
  by (simp_all add: ret_def throw_def gets_def modify_def need_def ok_or_def split: option.splits)

text \<open>Operations that keep an invariant whether they return or fail.\<close>

named_theorems preserves_intros \<open>rules for operations that keep an invariant\<close>

definition preserves :: "('s \<Rightarrow> bool) \<Rightarrow> ('s, 'e, 'a) comp \<Rightarrow> bool" where
  "preserves I m \<longleftrightarrow> (\<forall>x. I x \<longrightarrow> I (snd (m x)))"

lemma preservesD: "preserves I m \<Longrightarrow> I x \<Longrightarrow> m x = (r, x') \<Longrightarrow> I x'"
  by (metis preserves_def snd_conv)

lemma preserves_bind [preserves_intros]: "preserves I m \<Longrightarrow> (\<And>v. preserves I (f v)) \<Longrightarrow> preserves I (bindc m f)"
  by (fastforce simp: preserves_def bindc_def split: prod.splits sum.splits)

lemma preserves_basic [preserves_intros]:
  "preserves I (ret v)" "preserves I (throw e)" "preserves I (need b e)" "preserves I (ok_or w e)" "preserves I (gets g)"
  by (auto simp: preserves_def run_simps split: option.splits)

lemma preserves_modify [preserves_intros]: "(\<And>x. I x \<Longrightarrow> I (h x)) \<Longrightarrow> preserves I (modify h)"
  by (simp add: preserves_def run_simps)

lemma preserves_if [preserves_intros]: "preserves I m \<Longrightarrow> preserves I n \<Longrightarrow> preserves I (if b then m else n)"
  by simp

lemma preserves_option [preserves_intros]:
  "preserves I m \<Longrightarrow> (\<And>a. preserves I (f a)) \<Longrightarrow> preserves I (case v of None \<Rightarrow> m | Some a \<Rightarrow> f a)"
  by (simp split: option.splits)

lemma preserves_prod [preserves_intros]: "(\<And>a b. preserves I (f a b)) \<Longrightarrow> preserves I (case v of (a, b) \<Rightarrow> f a b)"
  by (simp split: prod.splits)

end
