(* ===== verification/Tx_Validator.thy ===== *)
theory Tx_Validator
  imports Core_Types State_Error "HOL-Library.Sublist"
begin

text \<open>
  The validator of the executor, \<open>savitri-mempool/src/executor/transaction_validator.rs\<close>: signature,
  fee, replay, nonce and balance of a transaction, and the marking of executed ones.  Its two caches
  are the state.  The \<open>lru\<close> crate is the record \<open>vlru_ops\<close>; storage, the signature scheme, SHA-256 and
  Rust's unspecified \<open>DefaultHasher\<close> are the record \<open>val_env\<close>.  A poisoned lock is not modelled.
\<close>

section \<open>Types\<close>

record 'c vlru_ops =
  vl_new :: "nat \<Rightarrow> 'c"
  vl_get :: "bytes \<Rightarrow> 'c \<Rightarrow> u64 option \<times> 'c"
  vl_put :: "bytes \<Rightarrow> u64 \<Rightarrow> 'c \<Rightarrow> 'c"
  vl_iter :: "'c \<Rightarrow> (bytes \<times> u64) list"
  vl_cap :: "'c \<Rightarrow> nat"
  vl_len :: "'c \<Rightarrow> nat"
  vl_clear :: "'c \<Rightarrow> 'c"

record val_env =
  ve_crypto :: crypto
  ve_sha256 :: "bytes \<Rightarrow> bytes"
  ve_hasher :: "string \<Rightarrow> string \<Rightarrow> u64 \<Rightarrow> u64 \<Rightarrow> u64 \<Rightarrow> u64"
  ve_get_account :: "bytes \<Rightarrow> string + bytes option"
  ve_get_chain_head :: "string + bytes option"

datatype ValidationResult =
  Valid
  | InvalidNonce u64 u64
  | InvalidSignature string
  | InsufficientBalance u128 u128
  | ReplayAttack bytes u64
  | FeeTooLow u64 u64

datatype ValidationError =
  SignatureError string
  | NonceError string
  | BalanceError string
  | ReplayError string
  | FeeError string
  | StorageError string

text \<open>\<open>Display\<close> of the errors.\<close>

fun validation_error_text :: "ValidationError \<Rightarrow> string" where
  "validation_error_text (SignatureError m) = ''Signature validation failed: '' @ m"
| "validation_error_text (NonceError m) = ''Nonce validation failed: '' @ m"
| "validation_error_text (BalanceError m) = ''Balance validation failed: '' @ m"
| "validation_error_text (ReplayError m) = ''Replay detection failed: '' @ m"
| "validation_error_text (FeeError m) = ''Fee validation failed: '' @ m"
| "validation_error_text (StorageError m) = ''Storage error: '' @ m"

record ValidatorConfig =
  replay_cache_size :: nat
  vc_min_fee :: u64
  vc_max_nonce_gap :: u64
  strict_mode :: bool

definition default_validator_config :: ValidatorConfig where
  "default_validator_config = \<lparr> replay_cache_size = 100000, vc_min_fee = 50000000000000, vc_max_nonce_gap = 3000, strict_mode = False \<rparr>"

record 'c TransactionValidator =
  v_replay_cache :: 'c
  v_nonce_cache :: "(bytes \<times> u64) list"
  v_config :: ValidatorConfig

type_synonym ('c, 'a) validating = "('c TransactionValidator, ValidationError, 'a) comp"

section \<open>Operations\<close>

text \<open>A cache of size zero is a panic.\<close>

definition new_transaction_validator :: "'c vlru_ops \<Rightarrow> ValidatorConfig \<Rightarrow> 'c TransactionValidator option" where
  "new_transaction_validator L cfg =
    (if replay_cache_size cfg = 0 then None
     else Some \<lparr> v_replay_cache = vl_new L (replay_cache_size cfg), v_nonce_cache = [], v_config = cfg \<rparr>)"

definition new_default_validator :: "'c vlru_ops \<Rightarrow> 'c TransactionValidator option" where
  "new_default_validator L = new_transaction_validator L default_validator_config"

definition tx_message :: "val_env \<Rightarrow> Transaction \<Rightarrow> bytes" where
  "tx_message E tx = ve_sha256 E (str_bytes (tx_from tx) @ str_bytes (tx_to tx) @ le_bytes 8 (tx_amount tx) @ le_bytes 8 (tx_nonce tx)
     @ le_bytes 8 (tx_fee tx))"

definition validate_signature :: "val_env \<Rightarrow> Transaction \<Rightarrow> ('c, unit) validating" where
  "validate_signature E tx =
    (if pre_verified tx then ret ()
     else
       bindc (need (length (tx_pubkey tx) = 32) (SignatureError ''Invalid public key length'')) (\<lambda>_.
       bindc (ok_or (vkey_from_bytes (ve_crypto E) (tx_pubkey tx)) (SignatureError ''Invalid public key'')) (\<lambda>key.
       bindc (need (length (tx_sig tx) = 64) (SignatureError ''Invalid signature length'')) (\<lambda>_.
       need (sig_verify (ve_crypto E) key (tx_message E tx) (tx_sig tx)) (SignatureError ''Invalid signature'')))))"

definition validate_min_fee :: "Transaction \<Rightarrow> ('c, unit) validating" where
  "validate_min_fee tx = bindc (gets v_config) (\<lambda>cfg. need (\<not> tx_fee tx < vc_min_fee cfg) (FeeError ''Fee too low''))"

definition compute_tx_hash :: "val_env \<Rightarrow> Transaction \<Rightarrow> bytes" where
  "compute_tx_hash E tx = le_bytes 8 (ve_hasher E (tx_from tx) (tx_to tx) (tx_amount tx) (tx_nonce tx) (tx_fee tx)) @ replicate 24 0"

definition check_replay_attack :: "val_env \<Rightarrow> 'c vlru_ops \<Rightarrow> Transaction \<Rightarrow> ('c, unit) validating" where
  "check_replay_attack E L tx v = (case vl_get L (compute_tx_hash E tx) (v_replay_cache v) of
      (Some _, c) \<Rightarrow> (Inl (ReplayError ''Transaction already executed at block height''), v\<lparr> v_replay_cache := c \<rparr>)
    | (None, c) \<Rightarrow> (Inr (), v\<lparr> v_replay_cache := c \<rparr>))"

text \<open>The stored account, \<open>None\<close> when there is none.\<close>

definition stored_account :: "val_env \<Rightarrow> bytes \<Rightarrow> ('c, Account option) validating" where
  "stored_account E addr = (case ve_get_account E addr of
      Inl m \<Rightarrow> throw (StorageError m)
    | Inr None \<Rightarrow> ret None
    | Inr (Some bs) \<Rightarrow> (case decode_account bs of
        Inl _ \<Rightarrow> throw (StorageError ''invalid account length'')
      | Inr a \<Rightarrow> ret (Some a)))"

definition get_expected_nonce :: "val_env \<Rightarrow> bytes \<Rightarrow> ('c, u64) validating" where
  "get_expected_nonce E addr =
    bindc (gets (\<lambda>v. map_of (v_nonce_cache v) addr)) (\<lambda>cached. case cached of
      Some n \<Rightarrow> ret n
    | None \<Rightarrow>
        bindc (stored_account E addr) (\<lambda>acc.
        (let n = (case acc of Some a \<Rightarrow> acc_nonce a | None \<Rightarrow> 0) in
         bindc (modify (\<lambda>v. v\<lparr> v_nonce_cache := AList.update addr n (v_nonce_cache v) \<rparr>)) (\<lambda>_. ret n))))"

definition validate_nonce_sequence :: "val_env \<Rightarrow> Transaction \<Rightarrow> ('c, ValidationResult) validating" where
  "validate_nonce_sequence E tx =
    bindc (get_expected_nonce E (str_bytes (tx_from tx))) (\<lambda>expected.
      ret (if tx_nonce tx \<noteq> expected then InvalidNonce expected (tx_nonce tx) else Valid))"

text \<open>The amount and the fee are added without a check.\<close>

definition validate_balance :: "val_env \<Rightarrow> Transaction \<Rightarrow> ('c, unit) validating" where
  "validate_balance E tx =
    bindc (stored_account E (str_bytes (tx_from tx))) (\<lambda>acc.
    bindc (ok_or acc (BalanceError ''Account does not exist'')) (\<lambda>a.
    (let total_required = tx_amount tx + tx_fee tx in
     need (\<not> balance a < ucast total_required) (BalanceError ''Insufficient balance''))))"

definition validate_transaction :: "val_env \<Rightarrow> 'c vlru_ops \<Rightarrow> Transaction \<Rightarrow> ('c, ValidationResult) validating" where
  "validate_transaction E L tx =
    bindc (validate_signature E tx) (\<lambda>_.
    bindc (validate_min_fee tx) (\<lambda>_.
    bindc (check_replay_attack E L tx) (\<lambda>_.
    bindc (validate_nonce_sequence E tx) (\<lambda>nv.
      case nv of
        InvalidNonce _ _ \<Rightarrow> ret nv
      | _ \<Rightarrow> bindc (validate_balance E tx) (\<lambda>_. ret Valid)))))"

subsection \<open>Batches\<close>

text \<open>The result recorded for an error: chosen by the words its text contains, none when it has none of
  them.\<close>

definition result_of_error :: "ValidationError \<Rightarrow> ValidationResult list" where
  "result_of_error e =
    (let s = validation_error_text e in
     if sublist ''signature'' s then [InvalidSignature s]
     else if sublist ''nonce'' s then [InvalidNonce 0 0]
     else if sublist ''balance'' s then [InsufficientBalance 0 0]
     else if sublist ''replay'' s then [ReplayAttack (replicate 32 0) 0]
     else if sublist ''fee'' s then [FeeTooLow 0 0]
     else [])"

text \<open>A check whose failure is a result, run on each transaction in turn.\<close>

definition attempt :: "('c, 'a) validating \<Rightarrow> (ValidationError \<Rightarrow> 'b) \<Rightarrow> ('a \<Rightarrow> 'b) \<Rightarrow> ('c, 'b) validating" where
  "attempt m on_err on_ok v = (case m v of (Inl e, v') \<Rightarrow> (Inr (on_err e), v') | (Inr a, v') \<Rightarrow> (Inr (on_ok a), v'))"

fun for_each :: "('x \<Rightarrow> ('c, 'b list) validating) \<Rightarrow> 'x list \<Rightarrow> ('c, 'b list) validating" where
  "for_each f [] = ret []"
| "for_each f (x # xs) = bindc (f x) (\<lambda>r. bindc (for_each f xs) (\<lambda>rs. ret (r @ rs)))"

definition validate_transaction_batch :: "val_env \<Rightarrow> 'c vlru_ops \<Rightarrow> Transaction list \<Rightarrow> ('c, ValidationResult list) validating" where
  "validate_transaction_batch E L txs =
    bindc (for_each (\<lambda>tx. attempt (validate_signature E tx) (\<lambda>e. [Inl (InvalidSignature (validation_error_text e))]) (\<lambda>_. [Inr tx])) txs) (\<lambda>signed.
    (let bad = concat (map (\<lambda>r. case r of Inl x \<Rightarrow> [x] | Inr _ \<Rightarrow> []) signed);
         valid_txs = concat (map (\<lambda>r. case r of Inl _ \<Rightarrow> [] | Inr tx \<Rightarrow> [tx]) signed) in
    bindc (gets v_config) (\<lambda>cfg.
    bindc (for_each (\<lambda>tx. attempt (validate_min_fee tx) (\<lambda>_. [FeeTooLow (vc_min_fee cfg) (tx_fee tx)]) (\<lambda>_. [])) valid_txs) (\<lambda>low.
    bindc (for_each (\<lambda>tx. attempt (validate_transaction E L tx) result_of_error (\<lambda>r. [r])) valid_txs) (\<lambda>rs.
      ret (bad @ low @ rs))))))"

subsection \<open>Executed transactions\<close>

definition mark_transaction_executed :: "val_env \<Rightarrow> 'c vlru_ops \<Rightarrow> Transaction \<Rightarrow> u64 \<Rightarrow> 'c TransactionValidator \<Rightarrow> 'c TransactionValidator" where
  "mark_transaction_executed E L tx h v =
    v\<lparr> v_replay_cache := vl_put L (compute_tx_hash E tx) h (v_replay_cache v),
       v_nonce_cache := AList.update (str_bytes (tx_from tx)) (tx_nonce tx + 1) (v_nonce_cache v) \<rparr>"

definition mark_transactions_executed :: "val_env \<Rightarrow> 'c vlru_ops \<Rightarrow> Transaction list \<Rightarrow> u64 \<Rightarrow> 'c TransactionValidator \<Rightarrow> 'c TransactionValidator" where
  "mark_transactions_executed E L txs h = fold (\<lambda>tx. mark_transaction_executed E L tx h) txs"

definition get_current_block_height :: "val_env \<Rightarrow> u64" where
  "get_current_block_height E = (case ve_get_chain_head E of
      Inr (Some bs) \<Rightarrow> if 8 \<le> length bs then from_le_bytes (take 8 bs) else 0
    | _ \<Rightarrow> 0)"

definition validator_cleanup :: "val_env \<Rightarrow> 'c vlru_ops \<Rightarrow> u64 \<Rightarrow> 'c TransactionValidator \<Rightarrow> 'c TransactionValidator" where
  "validator_cleanup E L max_block_age v =
    (let cutoff = saturating_sub (get_current_block_height E) max_block_age in
     v\<lparr> v_replay_cache := fold (\<lambda>(h, b) c. if cutoff \<le> b then vl_put L h b c else c) (vl_iter L (v_replay_cache v))
          (vl_new L (vl_cap L (v_replay_cache v))) \<rparr>)"

definition validator_stats :: "'c vlru_ops \<Rightarrow> 'c TransactionValidator \<Rightarrow> nat \<times> nat" where
  "validator_stats L v = (vl_len L (v_replay_cache v), length (v_nonce_cache v))"

definition validator_reset :: "'c vlru_ops \<Rightarrow> 'c TransactionValidator \<Rightarrow> 'c TransactionValidator" where
  "validator_reset L v = v\<lparr> v_replay_cache := vl_clear L (v_replay_cache v), v_nonce_cache := [] \<rparr>"

section \<open>Lemmas\<close>

text \<open>The cache of nonces after a check: a cached nonce stays, and the one asked for is cached.\<close>

definition keeps_nonces :: "'c TransactionValidator \<Rightarrow> 'c TransactionValidator \<Rightarrow> bool" where
  "keeps_nonces v v' \<longleftrightarrow> (\<forall>a n. map_of (v_nonce_cache v) a = Some n \<longrightarrow> map_of (v_nonce_cache v') a = Some n)"

lemma keeps_nonces_refl [simp]: "keeps_nonces v v"
  by (simp add: keeps_nonces_def)

lemma keeps_nonces_trans: "keeps_nonces u v \<Longrightarrow> keeps_nonces v w \<Longrightarrow> keeps_nonces u w"
  by (simp add: keeps_nonces_def)

lemma stored_account_state: "stored_account E addr v = (r, v') \<Longrightarrow> v' = v"
  by (auto simp: stored_account_def run_simps split: sum.splits option.splits)

lemma get_expected_nonce_cached:
  assumes "get_expected_nonce E addr v = (r, v')"
  shows "keeps_nonces v v'" "r = Inr n \<Longrightarrow> map_of (v_nonce_cache v') addr = Some n"
  using assms
  by (auto simp: get_expected_nonce_def bindc_def run_simps keeps_nonces_def Let_def update_conv'
      dest!: stored_account_state split: option.splits prod.splits sum.splits)

lemma validate_signature_state: "validate_signature E tx v = (r, v') \<Longrightarrow> v' = v"
  by (auto simp: validate_signature_def bindc_def run_simps split: if_splits option.splits)

lemma validate_min_fee_run:
  "validate_min_fee tx v = (if tx_fee tx < vc_min_fee (v_config v) then (Inl (FeeError ''Fee too low''), v) else (Inr (), v))"
  by (simp add: validate_min_fee_def bindc_def run_simps)

lemma check_replay_attack_state: "check_replay_attack E L tx v = (r, v') \<Longrightarrow> v_nonce_cache v' = v_nonce_cache v \<and> v_config v' = v_config v"
  by (auto simp: check_replay_attack_def split: prod.splits option.splits)

lemma validate_nonce_sequence_run:
  assumes "validate_nonce_sequence E tx v = (r, v')"
  shows "keeps_nonces v v'" "r = Inr Valid \<Longrightarrow> map_of (v_nonce_cache v') (str_bytes (tx_from tx)) = Some (tx_nonce tx)"
    "r = Inr q \<Longrightarrow> q = Valid \<or> (\<exists>e. q = InvalidNonce e (tx_nonce tx) \<and> e \<noteq> tx_nonce tx)"
  using assms get_expected_nonce_cached [of E "str_bytes (tx_from tx)" v]
  by (auto simp: validate_nonce_sequence_def bindc_def run_simps split: prod.splits sum.splits if_splits)

lemma validate_balance_run:
  assumes "validate_balance E tx v = (r, v')"
  shows "v' = v" "r = Inr () \<Longrightarrow> \<exists>bs a. ve_get_account E (str_bytes (tx_from tx)) = Inr (Some bs) \<and> decode_account bs = Inr a
    \<and> unat (tx_amount tx + tx_fee tx) \<le> unat (balance a)"
  using assms
  by (auto simp: validate_balance_def stored_account_def bindc_def run_simps Let_def not_less word_le_nat_alt unat_ucast_u128
      split: sum.splits option.splits if_splits)

text \<open>Every check keeps the nonces that are cached.\<close>

lemma preserves_attempt_check [preserves_intros]: "preserves I m \<Longrightarrow> preserves I (attempt m f g)"
  by (fastforce simp: preserves_def attempt_def split: prod.splits sum.splits)

lemma preserves_for_each [preserves_intros]: "(\<And>x. preserves I (f x)) \<Longrightarrow> preserves I (for_each f xs)"
  by (induction xs) (auto intro!: preserves_intros)

lemma preserves_keepsI: "(\<And>v r v'. m v = (r, v') \<Longrightarrow> keeps_nonces v v') \<Longrightarrow> preserves (keeps_nonces u) m"
  unfolding preserves_def by (metis keeps_nonces_trans prod.collapse)

lemma keeps_checks [preserves_intros]:
  "preserves (keeps_nonces u) (validate_signature E tx)"
  "preserves (keeps_nonces u) (validate_min_fee tx)"
  "preserves (keeps_nonces u) (check_replay_attack E L tx)"
  "preserves (keeps_nonces u) (validate_nonce_sequence E tx)"
  "preserves (keeps_nonces u) (validate_balance E tx)"
  by (rule preserves_keepsI,
      auto dest: validate_signature_state check_replay_attack_state validate_nonce_sequence_run(1) validate_balance_run(1)
        simp: validate_min_fee_run keeps_nonces_def split: if_splits)+

lemma keeps_validate_transaction [preserves_intros]: "preserves (keeps_nonces u) (validate_transaction E L tx)"
proof -
  have "preserves (keeps_nonces u) (case nv of InvalidNonce _ _ \<Rightarrow> ret nv | _ \<Rightarrow> bindc (validate_balance E tx) (\<lambda>_. ret Valid))" for nv
    by (cases nv) (auto intro!: preserves_intros)
  then show ?thesis unfolding validate_transaction_def by (intro preserves_intros)
qed

lemma keeps_validate_transaction_batch: "preserves (keeps_nonces u) (validate_transaction_batch E L txs)"
  unfolding validate_transaction_batch_def Let_def by (intro preserves_intros)

text \<open>What a valid transaction has.\<close>

definition signature_ok :: "val_env \<Rightarrow> Transaction \<Rightarrow> bool" where
  "signature_ok E tx \<longleftrightarrow> pre_verified tx \<or> length (tx_pubkey tx) = 32 \<and> length (tx_sig tx) = 64
     \<and> verify_with (ve_crypto E) (tx_pubkey tx) (tx_message E tx) (tx_sig tx)"

lemma validate_signature_iff: "fst (validate_signature E tx v) = Inr () \<longleftrightarrow> signature_ok E tx"
  by (auto simp: validate_signature_def signature_ok_def verify_with_def bindc_def run_simps split: option.splits)

lemma validate_transaction_Valid:
  assumes "validate_transaction E L tx v = (Inr Valid, v')"
  shows "signature_ok E tx" "vc_min_fee (v_config v) \<le> tx_fee tx"
    "map_of (v_nonce_cache v') (str_bytes (tx_from tx)) = Some (tx_nonce tx)"
    "fst (vl_get L (compute_tx_hash E tx) (v_replay_cache v)) = None"
    "\<exists>bs a. ve_get_account E (str_bytes (tx_from tx)) = Inr (Some bs) \<and> decode_account bs = Inr a
       \<and> unat (tx_amount tx + tx_fee tx) \<le> unat (balance a)"
proof -
  from assms obtain v1 v2 v3 v4 nv where s: "validate_signature E tx v = (Inr (), v1)"
    and f: "validate_min_fee tx v1 = (Inr (), v2)" and r: "check_replay_attack E L tx v2 = (Inr (), v3)"
    and n: "validate_nonce_sequence E tx v3 = (Inr nv, v4)"
    and b: "(case nv of InvalidNonce _ _ \<Rightarrow> ret nv | _ \<Rightarrow> bindc (validate_balance E tx) (\<lambda>_. ret Valid)) v4 = (Inr Valid, v')"
    by (auto simp: validate_transaction_def bindc_Inr)
  from validate_nonce_sequence_run(3) [OF n refl] b have nv: "nv = Valid" by (auto simp: run_simps)
  with b have bal: "validate_balance E tx v4 = (Inr (), v')" by (auto simp: bindc_Inr run_simps)
  have v: "v1 = v" "v2 = v" using validate_signature_state [OF s] f by (auto simp: validate_min_fee_run split: if_splits)
  show "signature_ok E tx" using s validate_signature_iff [of E tx v] by simp
  show "vc_min_fee (v_config v) \<le> tx_fee tx" using f v by (auto simp: validate_min_fee_run split: if_splits)
  show "map_of (v_nonce_cache v') (str_bytes (tx_from tx)) = Some (tx_nonce tx)"
    using validate_nonce_sequence_run(2) [OF n] validate_balance_run(1) [OF bal] nv by simp
  show "fst (vl_get L (compute_tx_hash E tx) (v_replay_cache v)) = None"
    using r v by (auto simp: check_replay_attack_def split: prod.splits option.splits)
  show "\<exists>bs a. ve_get_account E (str_bytes (tx_from tx)) = Inr (Some bs) \<and> decode_account bs = Inr a
       \<and> unat (tx_amount tx + tx_fee tx) \<le> unat (balance a)"
    using validate_balance_run(2) [OF bal] by simp
qed

section \<open>The validator in use\<close>

text \<open>Validating transactions one after the other until one is not valid.\<close>

fun validate_all :: "val_env \<Rightarrow> 'c vlru_ops \<Rightarrow> Transaction list \<Rightarrow> 'c TransactionValidator \<Rightarrow> 'c TransactionValidator option" where
  "validate_all E L [] v = Some v"
| "validate_all E L (tx # txs) v = (case validate_transaction E L tx v of (Inr Valid, v') \<Rightarrow> validate_all E L txs v' | _ \<Rightarrow> None)"

text \<open>A validator and the transactions executed since its creation or last reset, the latest first.  A
  transaction is executed when it was found valid.  Several are executed together when each was found
  valid and no two have the same sender.  The storage may be another one at every call.\<close>

inductive validator_step ::
  "'c vlru_ops \<Rightarrow> 'c TransactionValidator \<times> Transaction list \<Rightarrow> 'c TransactionValidator \<times> Transaction list \<Rightarrow> bool"
  for L :: "'c vlru_ops" where
  execute: "validate_transaction E L tx v = (Inr Valid, v') \<Longrightarrow> tx_nonce tx \<noteq> max_value
     \<Longrightarrow> validator_step L (v, ex) (mark_transaction_executed E L tx h v', tx # ex)"
| execute_batch: "validate_all E L txs v = Some v' \<Longrightarrow> distinct (map (str_bytes \<circ> tx_from) txs) \<Longrightarrow> \<forall>tx \<in> set txs. tx_nonce tx \<noteq> max_value
     \<Longrightarrow> validator_step L (v, ex) (mark_transactions_executed E L txs h v', rev txs @ ex)"
| check: "validate_transaction E L tx v = (r, v') \<Longrightarrow> validator_step L (v, ex) (v', ex)"
| check_batch: "validate_transaction_batch E L txs v = (rs, v') \<Longrightarrow> validator_step L (v, ex) (v', ex)"
| clean: "validator_step L (v, ex) (validator_cleanup E L age v, ex)"
| reset: "validator_step L (v, ex) (validator_reset L v, [])"

definition executed_nonces :: "bytes \<Rightarrow> Transaction list \<Rightarrow> u64 list" where
  "executed_nonces a ex = map tx_nonce (filter (\<lambda>t. str_bytes (tx_from t) = a) ex)"

definition nonces_consecutive :: "'c TransactionValidator \<times> Transaction list \<Rightarrow> bool" where
  "nonces_consecutive s \<longleftrightarrow> (\<forall>a. successively (\<lambda>x y. unat x = unat y + 1) (executed_nonces a (snd s))
     \<and> (\<forall>n ns. executed_nonces a (snd s) = n # ns \<longrightarrow> n \<noteq> max_value \<and> map_of (v_nonce_cache (fst s)) a = Some (n + 1)))"

lemma consecutive_keeps: "keeps_nonces v v' \<Longrightarrow> nonces_consecutive (v, ex) \<Longrightarrow> nonces_consecutive (v', ex)"
  by (simp add: nonces_consecutive_def keeps_nonces_def)

lemma executed_nonces_simps [simp]:
  "executed_nonces a [] = []"
  "executed_nonces a (t # ex) = (if str_bytes (tx_from t) = a then tx_nonce t # executed_nonces a ex else executed_nonces a ex)"
  by (simp_all add: executed_nonces_def)

lemma unat_next: "(n :: u64) \<noteq> max_value \<Longrightarrow> unat (n + 1) = unat n + 1"
  by (simp add: unatSuc max_value_def eq_neg_iff_add_eq_0 add.commute)

lemma consecutive_execute:
  assumes "nonces_consecutive (v, ex)" "map_of (v_nonce_cache v) (str_bytes (tx_from tx)) = Some (tx_nonce tx)" "tx_nonce tx \<noteq> max_value"
  shows "nonces_consecutive (mark_transaction_executed E L tx h v, tx # ex)"
proof -
  have "successively (\<lambda>x y. unat x = unat y + 1) (executed_nonces a (tx # ex))" for a
  proof (cases "executed_nonces a ex")
    case (Cons m ms)
    then have "m \<noteq> max_value" "map_of (v_nonce_cache v) a = Some (m + 1)" "successively (\<lambda>x y. unat x = unat y + 1) (m # ms)"
      using assms(1) unfolding nonces_consecutive_def fst_conv snd_conv by metis+
    then show ?thesis using Cons assms(2) unat_next [of m] by (auto simp: successively_Cons)
  qed simp
  moreover have "n \<noteq> max_value \<and> map_of (v_nonce_cache (mark_transaction_executed E L tx h v)) a = Some (n + 1)"
    if "executed_nonces a (tx # ex) = n # ns" for a n ns
    using that assms by (auto simp: nonces_consecutive_def mark_transaction_executed_def update_conv' split: if_splits)
  ultimately show ?thesis by (simp add: nonces_consecutive_def del: executed_nonces_simps(2))
qed

lemma validate_all_cached:
  "validate_all E L txs v = Some v' \<Longrightarrow> keeps_nonces v v' \<and> (\<forall>tx \<in> set txs. map_of (v_nonce_cache v') (str_bytes (tx_from tx)) = Some (tx_nonce tx))"
proof (induction txs arbitrary: v)
  case (Cons tx txs)
  then obtain w where w: "validate_transaction E L tx v = (Inr Valid, w)" and rest: "validate_all E L txs w = Some v'"
    by (auto split: prod.splits sum.splits ValidationResult.splits)
  have "keeps_nonces v w" using preservesD [OF keeps_validate_transaction _ w] by auto
  then show ?case
    using Cons.IH [OF rest] validate_transaction_Valid(3) [OF w] by (auto simp: keeps_nonces_def)
qed simp

lemma consecutive_execute_batch:
  assumes "nonces_consecutive (v, ex)" "distinct (map (str_bytes \<circ> tx_from) txs)"
    "\<forall>tx \<in> set txs. map_of (v_nonce_cache v) (str_bytes (tx_from tx)) = Some (tx_nonce tx) \<and> tx_nonce tx \<noteq> max_value"
  shows "nonces_consecutive (mark_transactions_executed E L txs h v, rev txs @ ex)"
  using assms
proof (induction txs arbitrary: v ex)
  case Nil
  then show ?case by (simp add: mark_transactions_executed_def)
next
  case (Cons tx txs)
  let ?w = "mark_transaction_executed E L tx h v"
  have "nonces_consecutive (?w, tx # ex)" using Cons.prems by (intro consecutive_execute) auto
  moreover have "map_of (v_nonce_cache ?w) (str_bytes (tx_from t)) = Some (tx_nonce t) \<and> tx_nonce t \<noteq> max_value" if "t \<in> set txs" for t
    using Cons.prems(2,3) that by (auto simp: mark_transaction_executed_def update_conv' image_iff)
  ultimately have "nonces_consecutive (mark_transactions_executed E L txs h ?w, rev txs @ tx # ex)"
    using Cons.prems(2) by (intro Cons.IH) auto
  then show ?case by (simp add: mark_transactions_executed_def)
qed

lemma nonces_consecutive_step: "validator_step L s t \<Longrightarrow> nonces_consecutive s \<Longrightarrow> nonces_consecutive t"
proof (induction rule: validator_step.induct)
  case (execute E tx v v' ex h)
  have "keeps_nonces v v'" using preservesD [OF keeps_validate_transaction _ execute(1)] by auto
  from consecutive_keeps [OF this execute(3)] show ?case
    by (rule consecutive_execute) (rule validate_transaction_Valid(3) [OF execute(1)], rule execute(2))
next
  case (execute_batch E txs v v' ex h)
  note c = validate_all_cached [OF execute_batch(1)]
  show ?case
    by (rule consecutive_execute_batch [OF consecutive_keeps [OF c [THEN conjunct1] execute_batch(4)] execute_batch(2)])
      (use c execute_batch(3) in auto)
next
  case (check E tx v r v' ex)
  have "keeps_nonces v v'" using preservesD [OF keeps_validate_transaction _ check(1)] by auto
  then show ?case using check(2) by (rule consecutive_keeps)
next
  case (check_batch E txs v rs v' ex)
  have "keeps_nonces v v'" using preservesD [OF keeps_validate_transaction_batch _ check_batch(1)] by auto
  then show ?case using check_batch(2) by (rule consecutive_keeps)
next
  case (clean v ex E age)
  have "keeps_nonces v (validator_cleanup E L age v)" by (simp add: keeps_nonces_def validator_cleanup_def Let_def)
  then show ?case using clean by (rule consecutive_keeps)
next
  case (reset v ex)
  then show ?case by (simp add: nonces_consecutive_def)
qed

interpretation validator: inv_system "\<lambda>s. \<exists>cfg v. new_transaction_validator L cfg = Some v \<and> s = (v, [])" "validator_step L" nonces_consecutive
  for L
  by unfold_locales (fastforce simp: nonces_consecutive_def, rule nonces_consecutive_step)

lemma consecutive_distinct: "successively (\<lambda>x y. unat x = unat y + 1) ns \<Longrightarrow> distinct (ns :: u64 list)"
proof -
  assume "successively (\<lambda>x y. unat x = unat y + 1) ns"
  then have "successively (\<lambda>x y. y < x) ns" by (rule successively_mono) (simp add: word_less_nat_alt)
  then have "sorted_wrt (\<lambda>x y. y < x) ns" by (subst (asm) successively_conv_sorted_wrt) (auto intro: transpI)
  then show ?thesis by (induction ns) auto
qed

text \<open>A cache as an association list, and an environment with one account.\<close>

definition toy_vlru :: "(bytes \<times> u64) list vlru_ops" where
  "toy_vlru = \<lparr> vl_new = \<lambda>_. [], vl_get = \<lambda>k c. (map_of c k, c), vl_put = AList.update, vl_iter = id, vl_cap = \<lambda>_. 9,
     vl_len = length, vl_clear = \<lambda>_. [] \<rparr>"

definition toy_val_env :: val_env where
  "toy_val_env = \<lparr> ve_crypto = \<lparr> vkey_from_bytes = \<lambda>_. None, sig_verify = \<lambda>_ _ _. False, blake3 = id \<rparr>, ve_sha256 = id,
     ve_hasher = \<lambda>_ _ _ n _. n, ve_get_account = \<lambda>_. Inr (Some (encode_account \<lparr> balance = 1000000000000000, acc_nonce = 0 \<rparr>)),
     ve_get_chain_head = Inr None \<rparr>"

definition toy_valid_tx :: "u64 \<Rightarrow> Transaction" where
  "toy_valid_tx n = (new_transaction 0 ''a'' ''b'' 5 n 50000000000000)\<lparr> pre_verified := True \<rparr>"

lemma toy_account: "decode_account (encode_account a) = Inr a"
  by (simp add: decode_account_def encode_account_def from_le_bytes_le_bytes take_bit_word_eq_self)

definition toy_tx_validator :: "(bytes \<times> u64) list \<Rightarrow> (bytes \<times> u64) list \<Rightarrow> (bytes \<times> u64) list TransactionValidator" where
  "toy_tx_validator c ns = \<lparr> v_replay_cache = c, v_nonce_cache = ns, v_config = default_validator_config \<rparr>"

lemmas toy_defs = toy_vlru_def toy_val_env_def toy_valid_tx_def toy_tx_validator_def new_transaction_def default_validator_config_def

text \<open>The second transaction of the account is valid and executed after the first.\<close>

lemma toy_valid:
  assumes "map_of c (le_bytes 8 n @ replicate 24 0) = None" "map_of ns (str_bytes ''a'') = Some n \<or> ns = [] \<and> n = 0"
  shows "\<exists>ns'. validate_transaction toy_val_env toy_vlru (toy_valid_tx n) (toy_tx_validator c ns) = (Inr Valid, toy_tx_validator c ns')
    \<and> mark_transaction_executed toy_val_env toy_vlru (toy_valid_tx n) h (toy_tx_validator c ns')
      = toy_tx_validator (AList.update (le_bytes 8 n @ replicate 24 0) h c) (AList.update (str_bytes ''a'') (n + 1) ns')"
  using assms
  by (auto simp: validate_transaction_def validate_signature_def validate_min_fee_run check_replay_attack_def compute_tx_hash_def
      validate_nonce_sequence_def get_expected_nonce_def stored_account_def validate_balance_def mark_transaction_executed_def
      bindc_def run_simps Let_def toy_account toy_defs)

section \<open>Properties\<close>

text \<open>C12. What the validator accepts, in full: a verified signature, the minimal fee, a hash that is not in
  the replay cache, the expected nonce (the cached one, else the stored one) and a balance that covers
  the sum of amount and fee, the sum being taken modulo \<open>2 ^ 64\<close>.\<close>

theorem valid_iff:
  "fst (validate_transaction E L tx v) = Inr Valid \<longleftrightarrow>
    signature_ok E tx \<and> vc_min_fee (v_config v) \<le> tx_fee tx \<and> fst (vl_get L (compute_tx_hash E tx) (v_replay_cache v)) = None
    \<and> (\<exists>bs a. ve_get_account E (str_bytes (tx_from tx)) = Inr (Some bs) \<and> decode_account bs = Inr a
        \<and> tx_nonce tx = (case map_of (v_nonce_cache v) (str_bytes (tx_from tx)) of Some n \<Rightarrow> n | None \<Rightarrow> acc_nonce a)
        \<and> (unat (tx_amount tx) + unat (tx_fee tx)) mod 2 ^ 64 \<le> unat (balance a))"
  (is "?l \<longleftrightarrow> ?sig \<and> ?fee \<and> ?new \<and> ?acc")
proof (cases "?sig \<and> ?fee \<and> ?new")
  case True
  then have "validate_signature E tx v = (Inr (), v)"
    using validate_signature_iff [of E tx v] validate_signature_state [of E tx v] by (metis prod.collapse)
  moreover have "validate_min_fee tx v = (Inr (), v)" using True by (simp add: validate_min_fee_run not_less)
  moreover obtain c where "check_replay_attack E L tx v = (Inr (), v\<lparr> v_replay_cache := c \<rparr>)"
    using True by (cases "vl_get L (compute_tx_hash E tx) (v_replay_cache v)") (simp add: check_replay_attack_def)
  ultimately have "?l \<longleftrightarrow> ?acc"
    by (auto simp: validate_transaction_def bindc_def run_simps validate_nonce_sequence_def get_expected_nonce_def stored_account_def
        validate_balance_def Let_def not_less word_le_nat_alt unat_ucast_u128 unat_word_ariths
        split: option.splits sum.splits if_splits prod.splits)
  with True show ?thesis by blast
next
  case False
  then show ?thesis
    using validate_transaction_Valid [of E L tx v "snd (validate_transaction E L tx v)"] by (metis prod.collapse)
qed



text \<open>A check does not reserve the nonce: two different transactions of one sender with one nonce are both
  valid, and marking them together executes the nonce twice.\<close>

theorem same_nonce_twice:
  "\<exists>v. validate_all toy_val_env toy_vlru [toy_valid_tx 0, (toy_valid_tx 0)\<lparr> tx_to := ''c'' \<rparr>] (toy_tx_validator [] []) = Some v
    \<and> toy_valid_tx 0 \<noteq> (toy_valid_tx 0)\<lparr> tx_to := ''c'' \<rparr>
    \<and> executed_nonces (str_bytes ''a'') (rev [toy_valid_tx 0, (toy_valid_tx 0)\<lparr> tx_to := ''c'' \<rparr>]) = [0, 0]"
  by (simp add: validate_transaction_def validate_signature_def validate_min_fee_run check_replay_attack_def compute_tx_hash_def
      validate_nonce_sequence_def get_expected_nonce_def stored_account_def validate_balance_def
      bindc_def run_simps Let_def toy_account toy_defs)

text \<open>A batch has no result for a transaction that was executed before: the error's text has none of the
  words the batch looks for, since it starts with a capital letter.\<close>

theorem batch_loses_replays:
  assumes "signature_ok E tx" "vc_min_fee (v_config v) \<le> tx_fee tx" "fst (vl_get L (compute_tx_hash E tx) (v_replay_cache v)) = Some h"
  shows "fst (validate_transaction_batch E L [tx] v) = Inr []"
proof -
  have s: "validate_signature E tx v = (Inr (), v)"
    using assms(1) validate_signature_iff [of E tx v] validate_signature_state [of E tx v] by (metis prod.collapse)
  have f: "validate_min_fee tx v = (Inr (), v)" using assms(2) by (simp add: validate_min_fee_run not_less)
  obtain c where r: "check_replay_attack E L tx v = (Inl (ReplayError ''Transaction already executed at block height''), v\<lparr> v_replay_cache := c \<rparr>)"
    using assms(3) by (cases "vl_get L (compute_tx_hash E tx) (v_replay_cache v)") (simp add: check_replay_attack_def)
  have "result_of_error (ReplayError ''Transaction already executed at block height'') = []" by code_simp
  then show ?thesis
    by (simp add: validate_transaction_batch_def validate_transaction_def attempt_def bindc_def run_simps s f r)
qed

theorem batch_loses_replays_witness:
  "fst (validate_transaction_batch toy_val_env toy_vlru [toy_valid_tx 0] (toy_tx_validator [(le_bytes 8 (0 :: u64) @ replicate 24 0, 1)] [])) = Inr []"
  by (rule batch_loses_replays [where h = 1]) (simp_all add: signature_ok_def compute_tx_hash_def toy_defs)

end
