(* ===== verification/Contract_Gas.thy ===== *)
theory Contract_Gas
  imports Rust_Prelude
begin

text \<open>
  The gas meter of contract execution (\<open>Savitri-contracts/src/contracts/gas.rs\<close>): operation costs,
  the batched consumption with its deferred limit check, and the queries.  Every operation returns
  the error, if any, with the meter it leaves behind: a failed commit has already added the batch to
  the gas used.
\<close>

section \<open>Costs\<close>

record GasCosts =
  cost_sload :: u64
  cost_sstore_new :: u64
  cost_sstore_update :: u64
  cost_call :: u64
  cost_create :: u64
  cost_transfer :: u64
  cost_log :: u64
  cost_log_topic :: u64
  cost_log_data :: u64
  cost_calldata_byte :: u64

definition default_gas_costs :: GasCosts where
  "default_gas_costs = \<lparr> cost_sload = 100, cost_sstore_new = 20000, cost_sstore_update = 5000, cost_call = 2300,
     cost_create = 32000, cost_transfer = 300, cost_log = 375, cost_log_topic = 375, cost_log_data = 8,
     cost_calldata_byte = 16 \<rparr>"

section \<open>The meter\<close>

record GasMeter =
  gas_limit :: u64
  gas_used :: u64
  costs :: GasCosts
  batch_accumulator :: u64
  batch_count :: nat
  batch_limit :: nat

datatype gas_error = BatchOverflow | GasOverflow | OutOfGas u64 u64 | CostOverflow

definition with_batch_limit :: "u64 \<Rightarrow> nat \<Rightarrow> GasMeter" where
  "with_batch_limit limit b = \<lparr> gas_limit = limit, gas_used = 0, costs = default_gas_costs,
     batch_accumulator = 0, batch_count = 0, batch_limit = b \<rparr>"

definition new_gas_meter :: "u64 \<Rightarrow> GasMeter" where
  "new_gas_meter limit = \<lparr> gas_limit = limit, gas_used = 0, costs = default_gas_costs,
     batch_accumulator = 0, batch_count = 0, batch_limit = 100 \<rparr>"

definition commit_batch :: "GasMeter \<Rightarrow> gas_error option \<times> GasMeter" where
  "commit_batch g =
    (if 0 < batch_accumulator g then
       (case checked_add (gas_used g) (batch_accumulator g) of
          None \<Rightarrow> (Some GasOverflow, g)
        | Some u \<Rightarrow>
            (let g' = g\<lparr> gas_used := u \<rparr> in
             if gas_limit g' < u then (Some (OutOfGas u (gas_limit g')), g')
             else (None, g'\<lparr> batch_accumulator := 0, batch_count := 0 \<rparr>)))
     else (None, g))"

definition consume :: "u64 \<Rightarrow> GasMeter \<Rightarrow> gas_error option \<times> GasMeter" where
  "consume amount g =
    (case checked_add (batch_accumulator g) amount of
       None \<Rightarrow> (Some BatchOverflow, g)
     | Some a \<Rightarrow>
         (let g' = g\<lparr> batch_accumulator := a, batch_count := batch_count g + 1 \<rparr> in
          if batch_limit g' \<le> batch_count g' then commit_batch g' else (None, g')))"

definition consume_immediate :: "u64 \<Rightarrow> GasMeter \<Rightarrow> gas_error option \<times> GasMeter" where
  "consume_immediate amount g =
    (case commit_batch g of
       (Some e, g') \<Rightarrow> (Some e, g')
     | (None, g') \<Rightarrow> commit_batch (g'\<lparr> batch_accumulator := amount, batch_count := 1 \<rparr>))"

definition consume_sload :: "GasMeter \<Rightarrow> gas_error option \<times> GasMeter" where
  "consume_sload g = consume (cost_sload (costs g)) g"

definition consume_sstore :: "bool \<Rightarrow> GasMeter \<Rightarrow> gas_error option \<times> GasMeter" where
  "consume_sstore is_new g = consume (if is_new then cost_sstore_new (costs g) else cost_sstore_update (costs g)) g"

text \<open>A base cost plus \<open>n\<close> units of a price, with the overflow checks of the sources.\<close>

definition plus_units :: "u64 \<Rightarrow> nat \<Rightarrow> u64 \<Rightarrow> u64 option" where
  "plus_units base n price = (case checked_mul (word_of_nat n) price of
      None \<Rightarrow> None | Some c \<Rightarrow> checked_add base c)"

definition consume_call :: "nat option \<Rightarrow> GasMeter \<Rightarrow> gas_error option \<times> GasMeter" where
  "consume_call calldata_len g =
    (case (case calldata_len of None \<Rightarrow> Some (cost_call (costs g))
           | Some n \<Rightarrow> plus_units (cost_call (costs g)) n (cost_calldata_byte (costs g))) of
       None \<Rightarrow> (Some CostOverflow, g) | Some c \<Rightarrow> consume c g)"

definition consume_create :: "nat \<Rightarrow> GasMeter \<Rightarrow> gas_error option \<times> GasMeter" where
  "consume_create bytecode_len g =
    (case plus_units (cost_create (costs g)) bytecode_len (cost_calldata_byte (costs g)) of
       None \<Rightarrow> (Some CostOverflow, g) | Some c \<Rightarrow> consume c g)"

definition consume_log :: "nat \<Rightarrow> nat \<Rightarrow> GasMeter \<Rightarrow> gas_error option \<times> GasMeter" where
  "consume_log topics data_len g =
    (case (if 0 < topics then plus_units (cost_log (costs g)) (topics - 1) (cost_log_topic (costs g))
           else Some (cost_log (costs g))) of
       None \<Rightarrow> (Some CostOverflow, g)
     | Some c \<Rightarrow>
         (case plus_units c data_len (cost_log_data (costs g)) of
            None \<Rightarrow> (Some CostOverflow, g) | Some c' \<Rightarrow> consume c' g))"

definition consume_transfer :: "GasMeter \<Rightarrow> gas_error option \<times> GasMeter" where
  "consume_transfer g = consume (cost_transfer (costs g)) g"

definition gas_remaining :: "GasMeter \<Rightarrow> u64" where
  "gas_remaining g = saturating_sub (gas_limit g) (gas_used g)"

definition gas_used_total :: "GasMeter \<Rightarrow> u64" where
  "gas_used_total g = gas_used g + batch_accumulator g"

definition has_gas :: "u64 \<Rightarrow> GasMeter \<Rightarrow> bool" where
  "has_gas amount g = (case checked_add (gas_used g + batch_accumulator g) amount of
      None \<Rightarrow> False | Some t \<Rightarrow> t \<le> gas_limit g)"

definition reset_meter :: "u64 \<Rightarrow> GasMeter \<Rightarrow> GasMeter" where
  "reset_meter limit g = (snd (commit_batch g))\<lparr> gas_limit := limit, gas_used := 0, batch_accumulator := 0, batch_count := 0 \<rparr>"

definition batch_stats :: "GasMeter \<Rightarrow> nat \<times> u64" where
  "batch_stats g = (batch_count g, batch_accumulator g)"

section \<open>Accounting\<close>

text \<open>A run of charges, stopped at the first failure.\<close>

fun charge :: "u64 list \<Rightarrow> GasMeter \<Rightarrow> gas_error option \<times> GasMeter" where
  "charge [] g = (None, g)"
| "charge (a # as) g = (case consume a g of (None, g') \<Rightarrow> charge as g' | (Some e, g') \<Rightarrow> (Some e, g'))"

abbreviation spent :: "GasMeter \<Rightarrow> nat" where
  "spent g \<equiv> unat (gas_used g) + unat (batch_accumulator g)"




lemma commit_batch_None:
  assumes "commit_batch g = (None, g')"
  shows "spent g' = spent g" "gas_limit g' = gas_limit g" "batch_limit g' = batch_limit g" "costs g' = costs g"
    "gas_used g \<le> gas_limit g \<Longrightarrow> gas_used g' \<le> gas_limit g'" "batch_accumulator g' = 0"
    "0 < batch_accumulator g \<Longrightarrow> batch_count g' = 0"
  using assms
  by (auto simp: commit_batch_def Let_def rust_int not_less split: if_splits option.splits)

lemma consume_None:
  assumes "consume a g = (None, g')"
  shows "spent g' = spent g + unat a" "gas_limit g' = gas_limit g" "batch_limit g' = batch_limit g" "costs g' = costs g"
    "gas_used g \<le> gas_limit g \<Longrightarrow> gas_used g' \<le> gas_limit g'"
proof -
  obtain acc where acc: "checked_add (batch_accumulator g) a = Some acc"
    using assms by (auto simp: consume_def split: option.splits)
  let ?g = "g\<lparr> batch_accumulator := acc, batch_count := batch_count g + 1 \<rparr>"
  have s: "spent ?g = spent g + unat a" using acc by (simp add: rust_int)
  have "g' = ?g \<or> commit_batch ?g = (None, g')"
    using assms acc by (auto simp: consume_def Let_def split: if_splits)
  then show "spent g' = spent g + unat a" "gas_limit g' = gas_limit g" "batch_limit g' = batch_limit g" "costs g' = costs g"
    "gas_used g \<le> gas_limit g \<Longrightarrow> gas_used g' \<le> gas_limit g'"
    using commit_batch_None [of ?g g'] s by auto
qed

lemma charge_None:
  "charge as g = (None, g') \<Longrightarrow> spent g' = spent g + sum_list (map unat as) \<and> gas_limit g' = gas_limit g \<and>
     (gas_used g \<le> gas_limit g \<longrightarrow> gas_used g' \<le> gas_limit g')"
proof (induction as arbitrary: g)
  case (Cons a as)
  then obtain g1 where g1: "consume a g = (None, g1)" "charge as g1 = (None, g')"
    by (auto split: prod.splits option.splits)
  then show ?case using Cons.IH [OF g1(2)] consume_None [OF g1(1)] by auto
qed simp

text \<open>While the batch is not full a charge only adds to it.\<close>

lemma charge_pending:
  "\<lbrakk>batch_count g + length as < batch_limit g; unat (batch_accumulator g) + sum_list (map unat as) < 2 ^ 64\<rbrakk> \<Longrightarrow>
    \<exists>g'. charge as g = (None, g') \<and> gas_used g' = gas_used g \<and> batch_count g' = batch_count g + length as"
proof (induction as arbitrary: g)
  case (Cons a as)
  let ?g = "g\<lparr> batch_accumulator := batch_accumulator g + a, batch_count := batch_count g + 1 \<rparr>"
  have c: "checked_add (batch_accumulator g) a = Some (batch_accumulator g + a)"
    using Cons.prems(2) by (auto simp: checked_add_def add_no_wrap_iff)
  then have u: "unat (batch_accumulator g + a) = unat (batch_accumulator g) + unat a" by (simp add: rust_int)
  have "consume a g = (None, ?g)" using Cons.prems(1) by (simp add: consume_def c)
  moreover from u have "\<exists>g'. charge as ?g = (None, g') \<and> gas_used g' = gas_used ?g \<and> batch_count g' = batch_count ?g + length as"
    using Cons.prems by (intro Cons.IH) auto
  ultimately show ?case by auto
qed simp

section \<open>Properties\<close>

text \<open>The meter charges exactly: after a run of successful charges the gas used with the pending
  batch is the sum of the charges, and what has been committed is within the limit.  The limit
  itself is only enforced when a batch is committed: fewer than a hundred charges on a fresh meter
  succeed whatever the limit is, as long as their sum fits 64 bits.\<close>

theorem gas_accounting:
  "(\<forall>g. charge as (new_gas_meter limit) = (None, g) \<longrightarrow>
      unat (gas_used g) + unat (batch_accumulator g) = sum_list (map unat as) \<and> gas_used g \<le> limit)
   \<and> (length as < 100 \<and> sum_list (map unat as) < 2 ^ 64 \<longrightarrow> (\<exists>g. charge as (new_gas_meter limit) = (None, g)))"
proof (intro conjI allI impI)
  fix g assume c: "charge as (new_gas_meter limit) = (None, g)"
  note charge_None [OF this]
  then show "unat (gas_used g) + unat (batch_accumulator g) = sum_list (map unat as)" "gas_used g \<le> limit"
    by (auto simp: new_gas_meter_def)
next
  assume "length as < 100 \<and> sum_list (map unat as) < 2 ^ 64"
  then show "\<exists>g. charge as (new_gas_meter limit) = (None, g)"
    using charge_pending [of "new_gas_meter limit" as] by (auto simp: new_gas_meter_def)
qed

theorem gas_accounting_witness:
  "\<exists>g. charge [20000, 5000] (new_gas_meter 10) = (None, g) \<and> unat (gas_used g) + unat (batch_accumulator g) = 25000"
  using gas_accounting [of "[20000, 5000]" 10] by auto

end
