(* ===== verification/Contract_Events.thy ===== *)
theory Contract_Events
  imports Contract_Gas Primitives
begin

text \<open>
  The event system of contract execution (\<open>Savitri-contracts/src/contracts/events.rs\<close>): the two
  buffers, emission with its gas charge, persistence under a hash key with the index of the block,
  and the range query.  The parameters are the crates' functions: SHA-256, \<open>hex\<close> and \<open>bincode\<close> for
  the four serialised types.  The attached store is its content, an association list; store failures
  are not modelled.  \<open>None\<close> is the panic of the \<open>unwrap\<close> on a serialisation failure.
\<close>

section \<open>Events\<close>

datatype StandardEvent =
  OwnershipTransferred string string
| Paused string
| Unpaused string
| Upgraded string u64
| GovernanceHookTriggered string string string
| FeeHookTriggered string string u128
| CallbackTriggered string string bytes

record CustomEvent =
  ce_contract :: string
  event_name :: string
  topics :: "bytes list"
  ce_data :: bytes

datatype EventType = Standard | Custom

record StoredEvent =
  event_type :: EventType
  event_data :: bytes
  block_number :: u64
  ev_timestamp :: u64
  transaction_hash :: bytes
  se_contract :: bytes

record EventSystem =
  events_buffer :: "StandardEvent list"
  custom_events_buffer :: "CustomEvent list"
  ev_storage :: "(bytes \<times> bytes) list option"
  current_block :: u64
  current_tx_hash :: bytes

record hexlib =
  hex_encode :: "bytes \<Rightarrow> string"
  hex_decode :: "string \<Rightarrow> bytes option"

record event_codec =
  sha256 :: "bytes \<Rightarrow> bytes"
  ser_standard :: "StandardEvent \<Rightarrow> bytes option"
  de_standard :: "bytes \<Rightarrow> StandardEvent option"
  ser_custom :: "CustomEvent \<Rightarrow> bytes option"
  de_custom :: "bytes \<Rightarrow> CustomEvent option"
  ser_stored :: "StoredEvent \<Rightarrow> bytes option"
  de_stored :: "bytes \<Rightarrow> StoredEvent option"
  ser_hashes :: "bytes list \<Rightarrow> bytes option"
  de_hashes :: "bytes \<Rightarrow> bytes list option"

definition new_event_system :: EventSystem where
  "new_event_system = \<lparr> events_buffer = [], custom_events_buffer = [], ev_storage = None, current_block = 0,
     current_tx_hash = replicate 32 0 \<rparr>"

definition event_system_with_storage :: "(bytes \<times> bytes) list \<Rightarrow> u64 \<Rightarrow> bytes \<Rightarrow> EventSystem" where
  "event_system_with_storage st blk txh = \<lparr> events_buffer = [], custom_events_buffer = [], ev_storage = Some st,
     current_block = blk, current_tx_hash = txh \<rparr>"

definition update_context :: "u64 \<Rightarrow> bytes \<Rightarrow> EventSystem \<Rightarrow> EventSystem" where
  "update_context blk txh es = es\<lparr> current_block := blk, current_tx_hash := txh \<rparr>"

text \<open>\<open>str::strip_prefix\<close> with the text itself as the default.\<close>

definition strip_0x :: "string \<Rightarrow> string" where
  "strip_0x s = (if take 2 s = ''0x'' then drop 2 s else s)"

definition parse_address :: "hexlib \<Rightarrow> string \<Rightarrow> bytes" where
  "parse_address hx s = (case hex_decode hx (strip_0x s) of
      Some bs \<Rightarrow> if length bs = 32 then bs else replicate 32 0
    | None \<Rightarrow> replicate 32 0)"

section \<open>Emission\<close>

definition log_shape :: "StandardEvent \<Rightarrow> nat \<times> nat" where
  "log_shape e = (case e of
      OwnershipTransferred _ _ \<Rightarrow> (2, 0)
    | Paused _ \<Rightarrow> (1, 0)
    | Unpaused _ \<Rightarrow> (1, 0)
    | Upgraded _ _ \<Rightarrow> (2, 0)
    | GovernanceHookTriggered _ _ _ \<Rightarrow> (3, 0)
    | FeeHookTriggered _ _ _ \<Rightarrow> (2, 32)
    | CallbackTriggered _ _ payload \<Rightarrow> (2, length payload))"

text \<open>The gas charge of a log: without a meter it is free; when it fails the event is dropped.\<close>

definition log_gas :: "nat \<times> nat \<Rightarrow> GasMeter option \<Rightarrow> bool \<times> GasMeter option" where
  "log_gas shape gm = (case gm of
      None \<Rightarrow> (True, None)
    | Some g \<Rightarrow> (case consume_log (fst shape) (snd shape) g of (r, g') \<Rightarrow> (r = None, Some g')))"

definition emit_standard_event :: "StandardEvent \<Rightarrow> GasMeter option \<times> EventSystem \<Rightarrow> GasMeter option \<times> EventSystem" where
  "emit_standard_event e = (\<lambda>(gm, es). case log_gas (log_shape e) gm of
      (False, gm') \<Rightarrow> (gm', es)
    | (True, gm') \<Rightarrow> (gm', es\<lparr> events_buffer := events_buffer es @ [e] \<rparr>))"

definition emit_custom_event :: "CustomEvent \<Rightarrow> GasMeter option \<times> EventSystem \<Rightarrow> GasMeter option \<times> EventSystem" where
  "emit_custom_event e = (\<lambda>(gm, es). case log_gas (length (topics e), length (ce_data e)) gm of
      (False, gm') \<Rightarrow> (gm', es)
    | (True, gm') \<Rightarrow> (gm', es\<lparr> custom_events_buffer := custom_events_buffer es @ [e] \<rparr>))"

definition get_standard_events :: "EventSystem \<Rightarrow> StandardEvent list" where
  "get_standard_events es = events_buffer es"

definition get_custom_events :: "EventSystem \<Rightarrow> CustomEvent list" where
  "get_custom_events es = custom_events_buffer es"

definition clear_events :: "EventSystem \<Rightarrow> EventSystem" where
  "clear_events es = es\<lparr> events_buffer := [], custom_events_buffer := [] \<rparr>"

section \<open>Persistence\<close>

definition calculate_event_hash :: "event_codec \<Rightarrow> bytes \<Rightarrow> bytes" where
  "calculate_event_hash ec d = sha256 ec d"

definition calculate_event_key :: "bytes \<Rightarrow> u64 \<Rightarrow> bytes" where
  "calculate_event_key h blk = str_bytes ''event'' @ h @ le_bytes 8 blk"

definition block_events_key :: "u64 \<Rightarrow> bytes" where
  "block_events_key blk = str_bytes (''block_events_'' @ dec (unat blk))"

text \<open>The address an event is filed under.  A callback names no contract: it is the part of its
  identifier before the first colon, else the first 32 bytes of the payload hash, else a hash of the
  identifier.\<close>

fun split_colon :: "string \<Rightarrow> string option" where
  "split_colon [] = None"
| "split_colon (c # cs) = (if c = CHR '':'' then Some [] else map_option ((#) c) (split_colon cs))"

definition extract_contract_address_from_standard_event :: "event_codec \<Rightarrow> hexlib \<Rightarrow> StandardEvent \<Rightarrow> bytes" where
  "extract_contract_address_from_standard_event ec hx e = (case e of
      OwnershipTransferred _ new_owner \<Rightarrow> parse_address hx new_owner
    | Paused account \<Rightarrow> parse_address hx account
    | Unpaused account \<Rightarrow> parse_address hx account
    | Upgraded contract _ \<Rightarrow> parse_address hx contract
    | GovernanceHookTriggered contract _ _ \<Rightarrow> parse_address hx contract
    | FeeHookTriggered contract _ _ \<Rightarrow> parse_address hx contract
    | CallbackTriggered cb payload_hash _ \<Rightarrow>
        (case split_colon cb of
           Some addr \<Rightarrow> parse_address hx addr
         | None \<Rightarrow>
             (case hex_decode hx (strip_0x payload_hash) of
                Some bs \<Rightarrow> if 32 \<le> length bs then take 32 bs else sha256 ec (str_bytes cb)
              | None \<Rightarrow> sha256 ec (str_bytes cb))))"

definition extract_contract_address_from_custom_event :: "hexlib \<Rightarrow> CustomEvent \<Rightarrow> bytes" where
  "extract_contract_address_from_custom_event hx e = parse_address hx (ce_contract e)"

text \<open>One event: its record is put under the hash key and its hash appended to the index.  An event
  that does not serialise is skipped.\<close>

definition persist_one ::
  "event_codec \<Rightarrow> EventType \<Rightarrow> u64 \<Rightarrow> u64 \<Rightarrow> bytes \<Rightarrow> bytes option \<Rightarrow> bytes \<Rightarrow>
     (bytes \<times> bytes) list \<times> bytes list \<times> u64 \<Rightarrow> ((bytes \<times> bytes) list \<times> bytes list \<times> u64) option" where
  "persist_one ec ty now blk txh ser addr = (\<lambda>(st, hashes, n). case ser of
      None \<Rightarrow> Some (st, hashes, n)
    | Some d \<Rightarrow>
        (let h = calculate_event_hash ec d;
             se = \<lparr> event_type = ty, event_data = d, block_number = blk, ev_timestamp = now, transaction_hash = txh, se_contract = addr \<rparr>
         in case ser_stored ec se of
              None \<Rightarrow> None
            | Some sd \<Rightarrow> Some (AList.update (calculate_event_key h blk) sd st, hashes @ [h], n + 1)))"

fun persist_all ::
  "event_codec \<Rightarrow> EventType \<Rightarrow> u64 \<Rightarrow> u64 \<Rightarrow> bytes \<Rightarrow> (bytes option \<times> bytes) list \<Rightarrow>
     (bytes \<times> bytes) list \<times> bytes list \<times> u64 \<Rightarrow> ((bytes \<times> bytes) list \<times> bytes list \<times> u64) option" where
  "persist_all ec ty now blk txh [] s = Some s"
| "persist_all ec ty now blk txh ((ser, addr) # es) s =
    (case persist_one ec ty now blk txh ser addr s of None \<Rightarrow> None | Some s' \<Rightarrow> persist_all ec ty now blk txh es s')"

datatype event_error = NoStorage

definition persist_events :: "event_codec \<Rightarrow> hexlib \<Rightarrow> u64 \<Rightarrow> EventSystem \<Rightarrow> ((event_error + u64) \<times> EventSystem) option" where
  "persist_events ec hx now es = (case ev_storage es of
      None \<Rightarrow> Some (Inl NoStorage, es)
    | Some st \<Rightarrow>
        (let blk = current_block es; txh = current_tx_hash es;
             hashes = (case map_of st (block_events_key blk) of
                         None \<Rightarrow> [] | Some bs \<Rightarrow> (case de_hashes ec bs of None \<Rightarrow> [] | Some hs \<Rightarrow> hs));
             stds = map (\<lambda>e. (ser_standard ec e, extract_contract_address_from_standard_event ec hx e)) (events_buffer es);
             customs = map (\<lambda>e. (ser_custom ec e, extract_contract_address_from_custom_event hx e)) (custom_events_buffer es)
         in case persist_all ec Standard now blk txh stds (st, hashes, 0) of
              None \<Rightarrow> None
            | Some s1 \<Rightarrow>
                (case persist_all ec Custom now blk txh customs s1 of
                   None \<Rightarrow> None
                 | Some (st', hashes', n) \<Rightarrow>
                     (let st'' = (if hashes' = [] then st'
                                  else case ser_hashes ec hashes' of
                                         None \<Rightarrow> st' | Some d \<Rightarrow> AList.update (block_events_key blk) d st')
                      in Some (Inr n, es\<lparr> events_buffer := [], custom_events_buffer := [], ev_storage := Some st'' \<rparr>)))))"

section \<open>Queries\<close>

record EventQueryResult =
  q_events :: "StoredEvent list"
  q_total :: u64
  first_block :: u64
  last_block :: u64

abbreviation max_event_data :: nat where
  "max_event_data \<equiv> 4 * 1024 * 1024"

definition valid_event_data :: "event_codec \<Rightarrow> StoredEvent \<Rightarrow> bool" where
  "valid_event_data ec se \<longleftrightarrow> length (event_data se) \<le> max_event_data \<and>
     (case event_type se of Custom \<Rightarrow> de_custom ec (event_data se) \<noteq> None | Standard \<Rightarrow> de_standard ec (event_data se) \<noteq> None)"

definition events_of_block :: "event_codec \<Rightarrow> (bytes \<times> bytes) list \<Rightarrow> bytes \<Rightarrow> u64 \<Rightarrow> StoredEvent list" where
  "events_of_block ec st addr blk =
    (case map_of st (block_events_key blk) of
       None \<Rightarrow> []
     | Some hb \<Rightarrow>
         if max_event_data < length hb then []
         else case de_hashes ec hb of
                None \<Rightarrow> []
              | Some hs \<Rightarrow>
                  List.map_filter (\<lambda>h. case map_of st (calculate_event_key h blk) of
                      None \<Rightarrow> None
                    | Some d \<Rightarrow> if max_event_data < length d then None
                               else case de_stored ec d of
                                      None \<Rightarrow> None
                                    | Some se \<Rightarrow> if se_contract se = addr \<and> valid_event_data ec se then Some se else None) hs)"

definition block_range :: "u64 \<Rightarrow> u64 \<Rightarrow> u64 list" where
  "block_range a b = map word_of_nat [unat a ..< unat b + 1]"

definition query_events :: "event_codec \<Rightarrow> hexlib \<Rightarrow> string \<Rightarrow> u64 \<Rightarrow> u64 \<Rightarrow> EventSystem \<Rightarrow> EventQueryResult" where
  "query_events ec hx contract from_block to_block es = (case ev_storage es of
      None \<Rightarrow> \<lparr> q_events = [], q_total = 0, first_block = 0, last_block = 0 \<rparr>
    | Some st \<Rightarrow>
        (let addr = parse_address hx contract;
             found = filter (\<lambda>blk. events_of_block ec st addr blk \<noteq> []) (block_range from_block to_block);
             evs = concat (map (events_of_block ec st addr) (block_range from_block to_block))
         in \<lparr> q_events = evs, q_total = word_of_nat (length evs),
              first_block = (case found of [] \<Rightarrow> 0 | b # _ \<Rightarrow> b),
              last_block = (if found = [] then 0 else last found) \<rparr>))"

definition query_custom_events :: "event_codec \<Rightarrow> hexlib \<Rightarrow> string \<Rightarrow> u64 \<Rightarrow> u64 \<Rightarrow> EventSystem \<Rightarrow> CustomEvent list" where
  "query_custom_events ec hx contract from_block to_block es =
    List.map_filter (\<lambda>se. if event_type se = Custom then
        (if max_event_data < length (event_data se) then None else de_custom ec (event_data se)) else None)
      (q_events (query_events ec hx contract from_block to_block es))"

definition query_standard_events :: "event_codec \<Rightarrow> hexlib \<Rightarrow> string \<Rightarrow> u64 \<Rightarrow> u64 \<Rightarrow> EventSystem \<Rightarrow> StandardEvent list" where
  "query_standard_events ec hx contract from_block to_block es =
    List.map_filter (\<lambda>se. if event_type se = Standard then
        (if max_event_data < length (event_data se) then None else de_standard ec (event_data se)) else None)
      (q_events (query_events ec hx contract from_block to_block es))"

definition query_events_by_name :: "event_codec \<Rightarrow> hexlib \<Rightarrow> string \<Rightarrow> string \<Rightarrow> u64 \<Rightarrow> u64 \<Rightarrow> EventSystem \<Rightarrow> CustomEvent list" where
  "query_events_by_name ec hx contract name from_block to_block es =
    filter (\<lambda>e. event_name e = name) (query_custom_events ec hx contract from_block to_block es)"

section \<open>Lemmas\<close>

text \<open>Emission appends at most the one event and leaves the rest of the system alone.\<close>

lemma emit_standard_event_buffer:
  "events_buffer (snd (emit_standard_event e s)) \<in> {events_buffer (snd s), events_buffer (snd s) @ [e]}"
  "custom_events_buffer (snd (emit_standard_event e s)) = custom_events_buffer (snd s)"
  "fst s = None \<Longrightarrow> emit_standard_event e s = (None, (snd s)\<lparr> events_buffer := events_buffer (snd s) @ [e] \<rparr>)"
  by (auto simp: emit_standard_event_def log_gas_def split: prod.splits bool.splits)

lemma emit_custom_event_buffer:
  "custom_events_buffer (snd (emit_custom_event e s)) \<in> {custom_events_buffer (snd s), custom_events_buffer (snd s) @ [e]}"
  "events_buffer (snd (emit_custom_event e s)) = events_buffer (snd s)"
  "fst s = None \<Longrightarrow> emit_custom_event e s = (None, (snd s)\<lparr> custom_events_buffer := custom_events_buffer (snd s) @ [e] \<rparr>)"
  by (auto simp: emit_custom_event_def log_gas_def split: prod.splits bool.splits)

lemma event_key_neq_block_key: "calculate_event_key h b \<noteq> block_events_key c"
  by (simp add: calculate_event_key_def block_events_key_def str_bytes_def)

lemma event_key_inj: "calculate_event_key g b = calculate_event_key h b \<longleftrightarrow> g = h"
  by (simp add: calculate_event_key_def)

text \<open>A run over a buffer whose events all serialise stores every event under its hash and appends
  the hashes in order; \<open>F\<close> is the record of an event's bytes.\<close>

lemma persist_all_ok:
  assumes "\<forall>(s, a) \<in> set es. \<exists>d \<in> D. s = Some d \<and>
       F d = \<lparr> event_type = ty, event_data = d, block_number = blk, ev_timestamp = now, transaction_hash = txh, se_contract = a \<rparr>"
    and tot: "\<And>d. d \<in> D \<Longrightarrow> \<exists>sd. ser_stored ec (F d) = Some sd" and inj: "inj_on (sha256 ec) D" and "Dn \<subseteq> D"
    and "\<forall>d \<in> Dn. map_of st (calculate_event_key (sha256 ec d) blk) = ser_stored ec (F d)"
  shows "\<exists>st'. persist_all ec ty now blk txh es (st, hs, n) =
           Some (st', hs @ map (\<lambda>(s, _). sha256 ec (the s)) es, n + word_of_nat (length es)) \<and>
         (\<forall>d \<in> Dn \<union> (the \<circ> fst) ` set es. map_of st' (calculate_event_key (sha256 ec d) blk) = ser_stored ec (F d)) \<and>
         (\<forall>k. (\<forall>d \<in> D. k \<noteq> calculate_event_key (sha256 ec d) blk) \<longrightarrow> map_of st' k = map_of st k)"
  using assms(1,4,5)
proof (induction es arbitrary: st hs n Dn)
  case (Cons e es)
  obtain s a where e: "e = (s, a)" by fastforce
  then obtain d where d: "d \<in> D" "s = Some d"
    "F d = \<lparr> event_type = ty, event_data = d, block_number = blk, ev_timestamp = now, transaction_hash = txh, se_contract = a \<rparr>"
    using Cons.prems(1) by auto
  obtain sd where sd: "ser_stored ec (F d) = Some sd" using tot [OF d(1)] by blast
  let ?st = "AList.update (calculate_event_key (sha256 ec d) blk) sd st"
  have one: "persist_one ec ty now blk txh s a (st, hs, n) = Some (?st, hs @ [sha256 ec d], n + 1)"
    using sd d by (simp add: persist_one_def Let_def calculate_event_hash_def)
  have "\<forall>x \<in> insert d Dn. map_of ?st (calculate_event_key (sha256 ec x) blk) = ser_stored ec (F x)"
  proof
    fix x assume "x \<in> insert d Dn"
    then show "map_of ?st (calculate_event_key (sha256 ec x) blk) = ser_stored ec (F x)"
      using Cons.prems(2,3) sd d(1) inj_onD [OF inj, of x d] by (cases "x = d") (auto simp: event_key_inj)
  qed
  then obtain st' where st': "persist_all ec ty now blk txh es (?st, hs @ [sha256 ec d], n + 1) =
        Some (st', (hs @ [sha256 ec d]) @ map (\<lambda>(s, _). sha256 ec (the s)) es, n + 1 + word_of_nat (length es))"
    "\<forall>x \<in> insert d Dn \<union> (the \<circ> fst) ` set es. map_of st' (calculate_event_key (sha256 ec x) blk) = ser_stored ec (F x)"
    "\<forall>k. (\<forall>x \<in> D. k \<noteq> calculate_event_key (sha256 ec x) blk) \<longrightarrow> map_of st' k = map_of ?st k"
    using Cons.IH [of "insert d Dn" ?st "hs @ [sha256 ec d]" "n + 1"] Cons.prems(1,2) d(1) by auto
  then show ?case using one e d by (intro exI [of _ st']) (auto simp: add.assoc)
qed simp

lemma block_range_single [simp]: "block_range b b = [b]"
  by (simp add: block_range_def)

text \<open>Looking up hashes that all lead to good records keeps exactly those of the contract.\<close>

lemma map_filter_found:
  assumes "\<forall>x \<in> set xs. f (h x) = (if P x then Some (g x) else None)"
  shows "List.map_filter f (map h xs) = map g (filter P xs)"
  using assms by (induction xs) (auto simp: List.map_filter_simps)

definition event_record :: "EventType \<Rightarrow> u64 \<Rightarrow> u64 \<Rightarrow> bytes \<Rightarrow> bytes \<Rightarrow> bytes \<Rightarrow> StoredEvent" where
  "event_record ty now blk txh addr d = \<lparr> event_type = ty, event_data = d, block_number = blk, ev_timestamp = now,
     transaction_hash = txh, se_contract = addr \<rparr>"

text \<open>The address and the record of an event's bytes, standard bytes first.\<close>

definition record_of :: "event_codec \<Rightarrow> hexlib \<Rightarrow> u64 \<Rightarrow> EventSystem \<Rightarrow> bytes \<Rightarrow> StoredEvent" where
  "record_of ec hx now es d =
    (if d \<in> (the \<circ> ser_standard ec) ` set (events_buffer es)
     then event_record Standard now (current_block es) (current_tx_hash es)
            (extract_contract_address_from_standard_event ec hx (the (de_standard ec d))) d
     else event_record Custom now (current_block es) (current_tx_hash es)
            (extract_contract_address_from_custom_event hx (the (de_custom ec d))) d)"

abbreviation event_bytes :: "event_codec \<Rightarrow> EventSystem \<Rightarrow> bytes list" where
  "event_bytes ec es \<equiv> map (the \<circ> ser_standard ec) (events_buffer es) @ map (the \<circ> ser_custom ec) (custom_events_buffer es)"

text \<open>What the persistence of the buffered events relies on: the events, their records and their
  index round-trip through \<open>bincode\<close> within the size limit, no standard event has the bytes of a
  custom event, and SHA-256 has no collision on them.\<close>

definition events_storable :: "event_codec \<Rightarrow> hexlib \<Rightarrow> u64 \<Rightarrow> EventSystem \<Rightarrow> bool" where
  "events_storable ec hx now es \<longleftrightarrow>
     (\<forall>e \<in> set (events_buffer es). \<exists>d. ser_standard ec e = Some d \<and> de_standard ec d = Some e) \<and>
     (\<forall>e \<in> set (custom_events_buffer es). \<exists>d. ser_custom ec e = Some d \<and> de_custom ec d = Some e) \<and>
     (\<forall>e \<in> set (events_buffer es). \<forall>e' \<in> set (custom_events_buffer es). ser_standard ec e \<noteq> ser_custom ec e') \<and>
     inj_on (sha256 ec) (set (event_bytes ec es)) \<and>
     (\<forall>d \<in> set (event_bytes ec es). length d \<le> max_event_data \<and> (\<exists>sd. ser_stored ec (record_of ec hx now es d) = Some sd \<and>
        de_stored ec sd = Some (record_of ec hx now es d) \<and> length sd \<le> max_event_data)) \<and>
     (\<exists>hb. ser_hashes ec (map (sha256 ec) (event_bytes ec es)) = Some hb \<and>
        de_hashes ec hb = Some (map (sha256 ec) (event_bytes ec es)) \<and> length hb \<le> max_event_data)"

lemma storableD:
  assumes "events_storable ec hx now es"
  shows "e \<in> set (events_buffer es) \<Longrightarrow> \<exists>d. ser_standard ec e = Some d \<and> de_standard ec d = Some e"
    "e' \<in> set (custom_events_buffer es) \<Longrightarrow> \<exists>d. ser_custom ec e' = Some d \<and> de_custom ec d = Some e'"
    "e \<in> set (events_buffer es) \<Longrightarrow> e' \<in> set (custom_events_buffer es) \<Longrightarrow> ser_standard ec e \<noteq> ser_custom ec e'"
    "inj_on (sha256 ec) (set (event_bytes ec es))"
    "d \<in> set (event_bytes ec es) \<Longrightarrow> length d \<le> max_event_data"
    "d \<in> set (event_bytes ec es) \<Longrightarrow> \<exists>sd. ser_stored ec (record_of ec hx now es d) = Some sd \<and>
        de_stored ec sd = Some (record_of ec hx now es d) \<and> length sd \<le> max_event_data"
    "\<exists>hb. ser_hashes ec (map (sha256 ec) (event_bytes ec es)) = Some hb \<and>
        de_hashes ec hb = Some (map (sha256 ec) (event_bytes ec es)) \<and> length hb \<le> max_event_data"
  using assms unfolding events_storable_def by blast+

lemma record_of_standard:
  assumes "events_storable ec hx now es" "e \<in> set (events_buffer es)"
  shows "record_of ec hx now es (the (ser_standard ec e)) = event_record Standard now (current_block es) (current_tx_hash es)
      (extract_contract_address_from_standard_event ec hx e) (the (ser_standard ec e))"
  using assms(2) storableD(1) [OF assms] by (auto simp: record_of_def)

lemma record_of_custom:
  assumes "events_storable ec hx now es" "e \<in> set (custom_events_buffer es)"
  shows "record_of ec hx now es (the (ser_custom ec e)) = event_record Custom now (current_block es) (current_tx_hash es)
      (extract_contract_address_from_custom_event hx e) (the (ser_custom ec e))"
proof -
  have "the (ser_custom ec e) \<notin> (the \<circ> ser_standard ec) ` set (events_buffer es)"
    using storableD(1,3) [OF assms(1)] storableD(2) [OF assms] assms(2) by fastforce
  then show ?thesis using storableD(2) [OF assms] by (auto simp: record_of_def)
qed

lemma record_of_valid:
  assumes c: "events_storable ec hx now es" and d: "d \<in> set (event_bytes ec es)"
  shows "valid_event_data ec (record_of ec hx now es d)"
proof -
  note l = storableD(5) [OF c d]
  consider e where "e \<in> set (events_buffer es)" "d = the (ser_standard ec e)" | e where "e \<in> set (custom_events_buffer es)" "d = the (ser_custom ec e)"
    using d by auto
  then show ?thesis
  proof cases
    case (1 e)
    then show ?thesis using record_of_standard [OF c 1(1)] storableD(1) [OF c 1(1)] l
      by (auto simp: valid_event_data_def event_record_def)
  next
    case (2 e)
    then show ?thesis using record_of_custom [OF c 2(1)] storableD(2) [OF c 2(1)] l
      by (auto simp: valid_event_data_def event_record_def)
  qed
qed

text \<open>The shape both buffers have when they are handed to the storing loop.\<close>

lemma buffers_shape:
  assumes c: "events_storable ec hx now es"
  shows "\<forall>(s, a) \<in> set (map (\<lambda>e. (ser_standard ec e, extract_contract_address_from_standard_event ec hx e)) (events_buffer es)).
      \<exists>d \<in> set (event_bytes ec es). s = Some d \<and> record_of ec hx now es d = \<lparr> event_type = Standard, event_data = d,
        block_number = current_block es, ev_timestamp = now, transaction_hash = current_tx_hash es, se_contract = a \<rparr>" (is ?S)
    and "\<forall>(s, a) \<in> set (map (\<lambda>e. (ser_custom ec e, extract_contract_address_from_custom_event hx e)) (custom_events_buffer es)).
      \<exists>d \<in> set (event_bytes ec es). s = Some d \<and> record_of ec hx now es d = \<lparr> event_type = Custom, event_data = d,
        block_number = current_block es, ev_timestamp = now, transaction_hash = current_tx_hash es, se_contract = a \<rparr>" (is ?C)
proof -
  show ?S
  proof clarsimp
    fix e assume e: "e \<in> set (events_buffer es)"
    then obtain d where d: "ser_standard ec e = Some d" using storableD(1) [OF c] by blast
    then show "\<exists>d \<in> (\<lambda>x. the (ser_standard ec x)) ` set (events_buffer es) \<union> (\<lambda>x. the (ser_custom ec x)) ` set (custom_events_buffer es).
        ser_standard ec e = Some d \<and> record_of ec hx now es d = \<lparr> event_type = Standard, event_data = d,
        block_number = current_block es, ev_timestamp = now, transaction_hash = current_tx_hash es,
        se_contract = extract_contract_address_from_standard_event ec hx e \<rparr>"
      using e record_of_standard [OF c e] by (intro bexI [of _ d]) (force simp: event_record_def)+
  qed
  show ?C
  proof clarsimp
    fix e assume e: "e \<in> set (custom_events_buffer es)"
    then obtain d where d: "ser_custom ec e = Some d" using storableD(2) [OF c] by blast
    then show "\<exists>d \<in> (\<lambda>x. the (ser_standard ec x)) ` set (events_buffer es) \<union> (\<lambda>x. the (ser_custom ec x)) ` set (custom_events_buffer es).
        ser_custom ec e = Some d \<and> record_of ec hx now es d = \<lparr> event_type = Custom, event_data = d,
        block_number = current_block es, ev_timestamp = now, transaction_hash = current_tx_hash es,
        se_contract = extract_contract_address_from_custom_event hx e \<rparr>"
      using e record_of_custom [OF c e] by (intro bexI [of _ d]) (force simp: event_record_def)+
  qed
qed

lemma persist_events_store:
  assumes c: "events_storable ec hx now es" and st: "ev_storage es = Some st"
    and none: "map_of st (block_events_key (current_block es)) = None"
  obtains st' where "persist_events ec hx now es =
      Some (Inr (word_of_nat (length (event_bytes ec es))), es\<lparr> events_buffer := [], custom_events_buffer := [], ev_storage := Some st' \<rparr>)"
    and "\<forall>d \<in> set (event_bytes ec es). map_of st' (calculate_event_key (sha256 ec d) (current_block es)) = ser_stored ec (record_of ec hx now es d)"
    and "map_of st' (block_events_key (current_block es)) =
      (if event_bytes ec es = [] then None else ser_hashes ec (map (sha256 ec) (event_bytes ec es)))"
proof -
  let ?F = "record_of ec hx now es" and ?b = "current_block es" and ?t = "current_tx_hash es" and ?D = "event_bytes ec es"
  let ?ss = "map (\<lambda>e. (ser_standard ec e, extract_contract_address_from_standard_event ec hx e)) (events_buffer es)"
  let ?cs = "map (\<lambda>e. (ser_custom ec e, extract_contract_address_from_custom_event hx e)) (custom_events_buffer es)"
  have tot: "\<And>d. d \<in> set ?D \<Longrightarrow> \<exists>sd. ser_stored ec (?F d) = Some sd" using storableD(6) [OF c] by blast
  note inj = storableD(4) [OF c]
  obtain st1 where 1: "persist_all ec Standard now ?b ?t ?ss (st, [], 0) =
        Some (st1, [] @ map (\<lambda>(s, _). sha256 ec (the s)) ?ss, 0 + word_of_nat (length ?ss))"
    "\<forall>d \<in> {} \<union> (the \<circ> fst) ` set ?ss. map_of st1 (calculate_event_key (sha256 ec d) ?b) = ser_stored ec (?F d)"
    "\<forall>k. (\<forall>d \<in> set ?D. k \<noteq> calculate_event_key (sha256 ec d) ?b) \<longrightarrow> map_of st1 k = map_of st k"
    using persist_all_ok [OF buffers_shape(1) [OF c] tot inj, of "{}" st "[]" 0] by blast
  have sub: "(the \<circ> fst) ` set ?ss \<subseteq> set ?D" by auto
  obtain st2 where 2: "persist_all ec Custom now ?b ?t ?cs (st1, map (\<lambda>(s, _). sha256 ec (the s)) ?ss, word_of_nat (length ?ss)) =
        Some (st2, map (\<lambda>(s, _). sha256 ec (the s)) ?ss @ map (\<lambda>(s, _). sha256 ec (the s)) ?cs,
              word_of_nat (length ?ss) + word_of_nat (length ?cs))"
    "\<forall>d \<in> (the \<circ> fst) ` set ?ss \<union> (the \<circ> fst) ` set ?cs. map_of st2 (calculate_event_key (sha256 ec d) ?b) = ser_stored ec (?F d)"
    "\<forall>k. (\<forall>d \<in> set ?D. k \<noteq> calculate_event_key (sha256 ec d) ?b) \<longrightarrow> map_of st2 k = map_of st1 k"
    using persist_all_ok [OF buffers_shape(2) [OF c] tot inj sub 1(2) [unfolded Un_empty_left],
        of "map (\<lambda>(s, _). sha256 ec (the s)) ?ss" "word_of_nat (length ?ss)"]
    by blast
  have hs: "map (\<lambda>(s, _). sha256 ec (the s)) ?ss @ map (\<lambda>(s, _). sha256 ec (the s)) ?cs = map (sha256 ec) ?D"
    by (simp add: comp_def)
  obtain hd where hd: "ser_hashes ec (map (sha256 ec) ?D) = Some hd" using storableD(7) [OF c] by blast
  let ?st = "if ?D = [] then st2 else AList.update (block_events_key ?b) hd st2"
  have n: "word_of_nat (length ?ss) + word_of_nat (length ?cs) = (word_of_nat (length ?D) :: u64)" by simp
  show ?thesis
  proof (rule that [of ?st])
    show "persist_events ec hx now es =
      Some (Inr (word_of_nat (length ?D)), es\<lparr> events_buffer := [], custom_events_buffer := [], ev_storage := Some ?st \<rparr>)"
      unfolding persist_events_def Let_def using 1(1) 2(1) st none hd
      by (simp only: option.case append_Nil add_0 prod.case hs n) (auto simp: hd)
    show "\<forall>d \<in> set ?D. map_of ?st (calculate_event_key (sha256 ec d) ?b) = ser_stored ec (?F d)"
      using 2(2) by (auto simp: event_key_neq_block_key comp_def image_image)
    show "map_of ?st (block_events_key ?b) = (if ?D = [] then None else ser_hashes ec (map (sha256 ec) ?D))"
      using 1(3) 2(3) none hd by (auto simp: event_key_neq_block_key [symmetric])
  qed
qed

lemma events_of_block_found:
  assumes c: "events_storable ec hx now es"
    and ev: "\<forall>d \<in> set (event_bytes ec es). map_of st (calculate_event_key (sha256 ec d) (current_block es)) = ser_stored ec (record_of ec hx now es d)"
    and ix: "map_of st (block_events_key (current_block es)) =
      (if event_bytes ec es = [] then None else ser_hashes ec (map (sha256 ec) (event_bytes ec es)))"
  shows "events_of_block ec st addr (current_block es) =
    map (record_of ec hx now es) (filter (\<lambda>d. se_contract (record_of ec hx now es d) = addr) (event_bytes ec es))"
proof (cases "event_bytes ec es = []")
  case False
  let ?F = "record_of ec hx now es" and ?b = "current_block es" and ?D = "event_bytes ec es"
  obtain hb where hb: "ser_hashes ec (map (sha256 ec) ?D) = Some hb" "de_hashes ec hb = Some (map (sha256 ec) ?D)"
      "length hb \<le> max_event_data"
    using storableD(7) [OF c] by blast
  have "(case map_of st (calculate_event_key (sha256 ec d) ?b) of
           None \<Rightarrow> None
         | Some d \<Rightarrow> if max_event_data < length d then None
                    else case de_stored ec d of
                           None \<Rightarrow> None
                         | Some se \<Rightarrow> if se_contract se = addr \<and> valid_event_data ec se then Some se else None) =
        (if se_contract (?F d) = addr then Some (?F d) else None)" if d: "d \<in> set ?D" for d
  proof -
    obtain sd where sd: "ser_stored ec (?F d) = Some sd" "de_stored ec sd = Some (?F d)" "length sd \<le> max_event_data"
      using storableD(6) [OF c d] by blast
    then show ?thesis using ev d record_of_valid [OF c d] by (simp add: not_less)
  qed
  then show ?thesis
    unfolding events_of_block_def ix if_not_P [OF False] hb option.case
    using hb by (simp only: not_less [symmetric] if_False simp_thms) (rule map_filter_found, blast)
qed (simp add: events_of_block_def ix)

text \<open>A small instance: one standard and one custom event of two addresses.\<close>

definition toy_hexlib :: hexlib where
  "toy_hexlib = \<lparr> hex_encode = \<lambda>bs. if bs = [] then '''' else ''b'',
     hex_decode = \<lambda>s. Some (replicate 32 (if s = ''b'' then 98 else 97)) \<rparr>"

definition toy_custom :: CustomEvent where
  "toy_custom = \<lparr> ce_contract = ''b'', event_name = ''Transfer'', topics = [], ce_data = [] \<rparr>"

definition toy_event_codec :: event_codec where
  "toy_event_codec = \<lparr> sha256 = (\<lambda>d. d), ser_standard = (\<lambda>_. Some [1]), de_standard = (\<lambda>_. Some (Paused ''a'')),
     ser_custom = (\<lambda>_. Some [2]), de_custom = (\<lambda>_. Some toy_custom),
     ser_stored = (\<lambda>se. Some (event_data se)),
     de_stored = (\<lambda>d. Some (if d = [1] then event_record Standard 9 5 [] (replicate 32 97) d else event_record Custom 9 5 [] (replicate 32 98) d)),
     ser_hashes = (\<lambda>_. Some [7]), de_hashes = (\<lambda>_. Some [[1], [2]]) \<rparr>"

definition toy_events :: EventSystem where
  "toy_events = \<lparr> events_buffer = [Paused ''a''], custom_events_buffer = [toy_custom], ev_storage = Some [],
     current_block = 5, current_tx_hash = [] \<rparr>"

lemma toy_storable: "events_storable toy_event_codec toy_hexlib 9 toy_events"
  by (simp add: events_storable_def toy_event_codec_def toy_hexlib_def toy_events_def toy_custom_def record_of_def event_record_def
      extract_contract_address_from_standard_event_def extract_contract_address_from_custom_event_def parse_address_def strip_0x_def)

section \<open>Properties\<close>

text \<open>Events persisted in a block that had none before are found again: the query of that block for
  a contract returns, in the order of emission, a record of each standard event and then of each
  custom event filed under the contract's address, and nothing else.  The hypotheses state that
  \<open>bincode\<close> round-trips within the size limit and that SHA-256 has no collision on the events.\<close>

theorem persisted_events_found:
  assumes c: "events_storable ec hx now es" and st: "ev_storage es = Some st"
    and none: "map_of st (block_events_key (current_block es)) = None"
  shows "\<exists>es'. persist_events ec hx now es =
      Some (Inr (word_of_nat (length (events_buffer es) + length (custom_events_buffer es))), es')
    \<and> events_buffer es' = [] \<and> custom_events_buffer es' = []
    \<and> q_events (query_events ec hx contract (current_block es) (current_block es) es') =
        map (\<lambda>e. event_record Standard now (current_block es) (current_tx_hash es) (parse_address hx contract) (the (ser_standard ec e)))
          (filter (\<lambda>e. extract_contract_address_from_standard_event ec hx e = parse_address hx contract) (events_buffer es)) @
        map (\<lambda>e. event_record Custom now (current_block es) (current_tx_hash es) (parse_address hx contract) (the (ser_custom ec e)))
          (filter (\<lambda>e. extract_contract_address_from_custom_event hx e = parse_address hx contract) (custom_events_buffer es))"
proof -
  let ?a = "parse_address hx contract" and ?F = "record_of ec hx now es"
  let ?D = "map (the \<circ> ser_standard ec) (events_buffer es) @ map (the \<circ> ser_custom ec) (custom_events_buffer es)"
  obtain st' where p: "persist_events ec hx now es =
      Some (Inr (word_of_nat (length ?D)), es\<lparr> events_buffer := [], custom_events_buffer := [], ev_storage := Some st' \<rparr>)"
    and ev: "\<forall>d \<in> set ?D. map_of st' (calculate_event_key (sha256 ec d) (current_block es)) = ser_stored ec (?F d)"
    and ix: "map_of st' (block_events_key (current_block es)) = (if ?D = [] then None else ser_hashes ec (map (sha256 ec) ?D))"
    by (rule persist_events_store [OF c st none])
  have 1: "map ?F (filter (\<lambda>d. se_contract (?F d) = ?a) (map (the \<circ> ser_standard ec) (events_buffer es))) =
        map (\<lambda>e. event_record Standard now (current_block es) (current_tx_hash es) ?a (the (ser_standard ec e)))
          (filter (\<lambda>e. extract_contract_address_from_standard_event ec hx e = ?a) (events_buffer es))"
    unfolding filter_map map_map by (intro map_cong filter_cong refl) (auto simp: record_of_standard [OF c] event_record_def)
  have 2: "map ?F (filter (\<lambda>d. se_contract (?F d) = ?a) (map (the \<circ> ser_custom ec) (custom_events_buffer es))) =
        map (\<lambda>e. event_record Custom now (current_block es) (current_tx_hash es) ?a (the (ser_custom ec e)))
          (filter (\<lambda>e. extract_contract_address_from_custom_event hx e = ?a) (custom_events_buffer es))"
    unfolding filter_map map_map by (intro map_cong filter_cong refl) (auto simp: record_of_custom [OF c] event_record_def)
  show ?thesis
    using p events_of_block_found [OF c ev ix, of ?a]
    by (simp add: query_events_def Let_def filter_append map_append 1 2 del: filter_map map_map)
qed

theorem persisted_events_found_witness:
  "\<exists>es'. persist_events toy_event_codec toy_hexlib 9 toy_events = Some (Inr 2, es') \<and>
     map event_type (q_events (query_events toy_event_codec toy_hexlib ''b'' 5 5 es')) = [Custom] \<and>
     map event_type (q_events (query_events toy_event_codec toy_hexlib ''a'' 5 5 es')) = [Standard]"
proof -
  have f: "ev_storage toy_events = Some []" "map_of [] (block_events_key (current_block toy_events)) = None" "current_block toy_events = 5"
    by (simp_all add: toy_events_def)
  note p = persisted_events_found [OF toy_storable f(1,2)]
  have a: "extract_contract_address_from_standard_event toy_event_codec toy_hexlib (Paused ''a'') = replicate 32 97"
    "extract_contract_address_from_custom_event toy_hexlib toy_custom = replicate 32 98"
    "parse_address toy_hexlib ''a'' = replicate 32 97" "parse_address toy_hexlib ''b'' = replicate 32 98"
    by (simp_all add: extract_contract_address_from_standard_event_def extract_contract_address_from_custom_event_def parse_address_def
        strip_0x_def toy_hexlib_def toy_custom_def)
  have b: "events_buffer toy_events = [Paused ''a'']" "custom_events_buffer toy_events = [toy_custom]" by (simp_all add: toy_events_def)
  show ?thesis
    using p [of "''a''"] p [of "''b''"] by (auto simp: a b f(3) event_record_def replicate_eq_replicate)
qed

end
