(* ===== verification/Contract_Storage.thy ===== *)
theory Contract_Storage
  imports State_Error Contract_Events
begin

text \<open>
  Contract storage (\<open>Savitri-contracts/src/contracts/storage.rs\<close>, the commit of
  \<open>savitri-storage/src/storage/mod.rs\<close>): 32-byte slots read through an overlay and a read cache from
  the contracts column family, gas-metered reads and writes, the commit of the overlay and the
  storage root.  The column family is its content, the key-ordered list of its entries, as the
  database's iterator yields them; failures of the database are not modelled.

  An operation of a contract runs on the mutable references it gets: its storage, its gas meter and
  the event system of the runtime.  It returns a result or an error and the state it leaves behind,
  which a failing operation may already have changed.
\<close>

section \<open>Operations on the execution state\<close>

record ContractStorage =
  contract_address :: bytes
  overlay :: "(u64 \<times> bytes) list"
  read_cache :: "(u64 \<times> bytes) list"

type_synonym contracts_cf = "(bytes \<times> bytes) list"

datatype cerror = GasFailed gas_error | Bail string | Panicked

record cx =
  cs :: ContractStorage
  gm :: "GasMeter option"
  events :: EventSystem

type_synonym 'a cm = "(cx, cerror, 'a) comp"

definition bail :: "string \<Rightarrow> 'a cm" where
  "bail msg = (\<lambda>x. (Inl (Bail msg), x))"

definition panic :: "'a cm" where
  "panic = (\<lambda>x. (Inl Panicked, x))"

definition ensure :: "bool \<Rightarrow> string \<Rightarrow> unit cm" where
  "ensure b msg = (if b then ret () else bail msg)"

definition or_bail :: "'a option \<Rightarrow> string \<Rightarrow> 'a cm" where
  "or_bail v msg = (case v of None \<Rightarrow> bail msg | Some a \<Rightarrow> ret a)"

definition with_gas :: "(GasMeter \<Rightarrow> gas_error option \<times> GasMeter) \<Rightarrow> unit cm" where
  "with_gas f x = (case gm x of
      None \<Rightarrow> (Inr (), x)
    | Some g \<Rightarrow> (case f g of
          (None, g') \<Rightarrow> (Inr (), x\<lparr> gm := Some g' \<rparr>)
        | (Some e, g') \<Rightarrow> (Inl (GasFailed e), x\<lparr> gm := Some g' \<rparr>)))"

section \<open>Keys and reserved slots\<close>

definition new_contract_storage :: "bytes \<Rightarrow> ContractStorage option" where
  "new_contract_storage addr = (if length addr \<noteq> 32 then None
     else Some \<lparr> contract_address = addr, overlay = [], read_cache = [] \<rparr>)"

definition make_storage_key :: "bytes \<Rightarrow> u64 \<Rightarrow> bytes" where
  "make_storage_key addr slot = str_bytes ''storage:'' @ addr @ le_bytes 8 slot"

lemma make_storage_key_code [code]:
  "make_storage_key addr slot = [115, 116, 111, 114, 97, 103, 101, 58] @ addr @ le_bytes 8 slot"
  by (simp add: make_storage_key_def str_bytes_def)

definition make_storage_prefix :: "bytes \<Rightarrow> bytes" where
  "make_storage_prefix addr = str_bytes ''storage:'' @ addr"

definition is_reserved_slot :: "u64 \<Rightarrow> bool" where
  "is_reserved_slot slot \<longleftrightarrow> 0 \<le> slot \<and> slot \<le> 99"

definition validate_slot_not_reserved :: "u64 \<Rightarrow> unit cm" where
  "validate_slot_not_reserved slot = ensure (\<not> is_reserved_slot slot) ''Slot is reserved for BaseContract''"

section \<open>Reading and writing\<close>

definition sload :: "contracts_cf \<Rightarrow> u64 \<Rightarrow> bytes cm" where
  "sload db slot = bindc (with_gas consume_sload) (\<lambda>_ x.
    case map_of (overlay (cs x)) slot of
      Some v \<Rightarrow> (Inr v, x)
    | None \<Rightarrow>
       (case map_of (read_cache (cs x)) slot of
          Some v \<Rightarrow> (Inr v, x)
        | None \<Rightarrow>
            (let found = (\<lambda>v. (Inr v, x\<lparr> cs := (cs x)\<lparr> read_cache := bt_insert slot v (read_cache (cs x)) \<rparr> \<rparr>))
             in case map_of db (make_storage_key (contract_address (cs x)) slot) of
                  None \<Rightarrow> found (replicate 32 0)
                | Some v \<Rightarrow> if length v \<noteq> 32 then (Inl (Bail ''invalid storage value length in database''), x) else found v)))"

definition zero_value :: "bytes \<Rightarrow> bool" where
  "zero_value v \<longleftrightarrow> (\<forall>b \<in> set v. b = 0)"

lemma zero_value_simps [simp]:
  "zero_value (replicate n 0)" "zero_value []" "zero_value (b # v) \<longleftrightarrow> b = 0 \<and> zero_value v"
  "zero_value (v @ w) \<longleftrightarrow> zero_value v \<and> zero_value w"
  by (auto simp: zero_value_def)

text \<open>Whether a write counts as the first one to its slot.\<close>

definition is_new_slot :: "contracts_cf \<Rightarrow> ContractStorage \<Rightarrow> u64 \<Rightarrow> bool" where
  "is_new_slot db c slot =
    (let absent = map_of db (make_storage_key (contract_address c) slot) = None in
     case map_of (overlay c) slot of
       Some v \<Rightarrow> if zero_value v then absent else False
     | None \<Rightarrow> absent)"

definition put_slot :: "u64 \<Rightarrow> bytes \<Rightarrow> ContractStorage \<Rightarrow> ContractStorage" where
  "put_slot slot v c =
    (if zero_value v then c\<lparr> overlay := AList.delete slot (overlay c), read_cache := AList.delete slot (read_cache c) \<rparr>
     else c\<lparr> overlay := bt_insert slot v (overlay c), read_cache := bt_insert slot v (read_cache c) \<rparr>)"

definition sstore :: "contracts_cf \<Rightarrow> u64 \<Rightarrow> bytes \<Rightarrow> unit cm" where
  "sstore db slot v =
    bindc (ensure (length v = 32) ''storage value must be exactly 32 bytes'') (\<lambda>_.
    bindc (validate_slot_not_reserved slot) (\<lambda>_ x.
    bindc (with_gas (consume_sstore (is_new_slot db (cs x) slot))) (\<lambda>_ x.
      (Inr (), x\<lparr> cs := put_slot slot v (cs x) \<rparr>)) x))"

definition sstore_reserved :: "contracts_cf \<Rightarrow> u64 \<Rightarrow> bytes \<Rightarrow> unit cm" where
  "sstore_reserved db slot v =
    bindc (ensure (length v = 32) ''storage value must be exactly 32 bytes'') (\<lambda>_.
    bindc (ensure (is_reserved_slot slot) ''sstore_reserved() can only be used for reserved slots (0-99)'') (\<lambda>_ x.
    bindc (with_gas (consume_sstore (is_new_slot db (cs x) slot))) (\<lambda>_ x.
      (Inr (), x\<lparr> cs := put_slot slot v (cs x) \<rparr>)) x))"

definition is_isolated :: "ContractStorage \<Rightarrow> bytes \<Rightarrow> bool" where
  "is_isolated c other \<longleftrightarrow> contract_address c \<noteq> other"

definition validate_access :: "bytes \<Rightarrow> unit cm" where
  "validate_access accessing x =
    bindc (ensure (length accessing = 32) ''accessing address must be exactly 32 bytes'') (\<lambda>_.
      ensure (accessing = contract_address (cs x)) ''storage access violation'') x"

definition sload_with_isolation :: "contracts_cf \<Rightarrow> bytes \<Rightarrow> u64 \<Rightarrow> bytes cm" where
  "sload_with_isolation db accessing slot = bindc (validate_access accessing) (\<lambda>_. sload db slot)"

definition sstore_with_isolation :: "contracts_cf \<Rightarrow> bytes \<Rightarrow> u64 \<Rightarrow> bytes \<Rightarrow> unit cm" where
  "sstore_with_isolation db accessing slot v = bindc (validate_access accessing) (\<lambda>_. sstore db slot v)"

definition clear_read_cache :: "ContractStorage \<Rightarrow> ContractStorage" where
  "clear_read_cache c = c\<lparr> read_cache := [] \<rparr>"

definition clear_overlay :: "ContractStorage \<Rightarrow> ContractStorage" where
  "clear_overlay c = c\<lparr> overlay := [] \<rparr>"

section \<open>Commit and storage root\<close>

definition commit_contract_storage_overlay :: "bytes \<Rightarrow> (u64 \<times> bytes) list \<Rightarrow> contracts_cf \<Rightarrow> contracts_cf" where
  "commit_contract_storage_overlay addr ov db =
    fold (\<lambda>(slot, v) d. if zero_value v then AList.delete (make_storage_key addr slot) d
                        else bt_insert (make_storage_key addr slot) v d) ov db"

definition add_slot_to_hasher :: "(bytes \<Rightarrow> bytes) \<Rightarrow> u64 \<Rightarrow> bytes \<Rightarrow> bytes" where
  "add_slot_to_hasher sha512 slot v = sha512 (str_bytes ''CONTRACT-STORAGE-LEAF'' @ le_bytes 8 slot @ v)"

text \<open>The slots that enter the root, by the merge of the sources: the database side counts only
  while the next entry has the contract's prefix.  \<open>None\<close> is the panic on a key too short to hold a
  slot.\<close>

fun root_slots :: "bytes \<Rightarrow> contracts_cf \<Rightarrow> (u64 \<times> bytes) list \<Rightarrow> (u64 \<times> bytes) list option" where
  "root_slots pre db ov =
    (let dbk = (case db of [] \<Rightarrow> None | (k, _) # _ \<Rightarrow> if take (length pre) k = pre then Some k else None);
         slot_of = (\<lambda>k. from_le_bytes (take 8 (drop (length pre) k)) :: u64);
         use_db = (\<lambda>_. case db of [] \<Rightarrow> None
                    | (k, v) # db' \<Rightarrow> if length k < length pre + 8 then None
                                     else map_option ((#) (slot_of k, v)) (root_slots pre db' ov))
     in case (dbk, ov) of
          (None, []) \<Rightarrow> Some []
        | (None, e # ov') \<Rightarrow> map_option ((#) e) (root_slots pre db ov')
        | (Some k, []) \<Rightarrow> use_db ()
        | (Some k, e # ov') \<Rightarrow>
            (if length k < length pre + 8 then map_option ((#) e) (root_slots pre db ov')
             else if slot_of k < fst e then use_db ()
             else if fst e < slot_of k then map_option ((#) e) (root_slots pre db ov')
             else map_option ((#) e) (root_slots pre (tl db) ov')))"

declare root_slots.simps [simp del]

definition compute_storage_root :: "(bytes \<Rightarrow> bytes) \<Rightarrow> contracts_cf \<Rightarrow> ContractStorage \<Rightarrow> bytes option" where
  "compute_storage_root sha512 db c =
    map_option (\<lambda>ls. take 32 (sha512 (sha512 (str_bytes ''CONTRACT-STORAGEv1'') @
        concat (map (\<lambda>(slot, v). add_slot_to_hasher sha512 slot v) ls))))
      (root_slots (make_storage_prefix (contract_address c)) db (overlay c))"

section \<open>The value of a slot\<close>

definition db_value :: "contracts_cf \<Rightarrow> bytes \<Rightarrow> u64 \<Rightarrow> bytes" where
  "db_value db addr slot = (case map_of db (make_storage_key addr slot) of None \<Rightarrow> replicate 32 0 | Some v \<Rightarrow> v)"

definition slot_value :: "contracts_cf \<Rightarrow> ContractStorage \<Rightarrow> u64 \<Rightarrow> bytes" where
  "slot_value db c slot = (case map_of (overlay c) slot of Some v \<Rightarrow> v | None \<Rightarrow> db_value db (contract_address c) slot)"

definition storage_ok :: "contracts_cf \<Rightarrow> ContractStorage \<Rightarrow> bool" where
  "storage_ok db c \<longleftrightarrow> length (contract_address c) = 32 \<and> bt_wf (overlay c) \<and> bt_wf (read_cache c) \<and>
     (\<forall>slot v. map_of (overlay c) slot = Some v \<longrightarrow> length v = 32) \<and>
     (\<forall>slot v. map_of (overlay c) slot = None \<and> map_of (read_cache c) slot = Some v \<longrightarrow> v = db_value db (contract_address c) slot) \<and>
     (\<forall>slot. length (db_value db (contract_address c) slot) = 32)"

lemma storage_ok_new:
  assumes "new_contract_storage addr = Some c" "\<And>slot. length (db_value db addr slot) = 32"
  shows "storage_ok db c" "slot_value db c = db_value db addr" "contract_address c = addr"
  using assms by (auto simp: new_contract_storage_def storage_ok_def slot_value_def fun_eq_iff split: if_splits)

lemma length_slot_value: "storage_ok db c \<Longrightarrow> length (slot_value db c slot) = 32"
  by (auto simp: storage_ok_def slot_value_def split: option.splits)

text \<open>Caching a value read from the database and writing a slot keep the invariant.  A write of
  zero forgets the slot's overlay entry, so that the slot shows the database's value again.\<close>

lemma storage_ok_cache:
  assumes "storage_ok db c" "map_of (overlay c) slot = None" "v = db_value db (contract_address c) slot"
  shows "storage_ok db (c\<lparr> read_cache := bt_insert slot v (read_cache c) \<rparr>)"
    "slot_value db (c\<lparr> read_cache := bt_insert slot v (read_cache c) \<rparr>) = slot_value db c"
  using assms by (auto simp: storage_ok_def slot_value_def map_of_bt_insert bt_wf_insert fun_eq_iff split: option.splits)

lemma storage_ok_put:
  assumes "storage_ok db c" "length v = 32"
  shows "storage_ok db (put_slot slot v c)" "contract_address (put_slot slot v c) = contract_address c"
    "slot_value db (put_slot slot v c) =
       (slot_value db c)(slot := if zero_value v then db_value db (contract_address c) slot else v)"
  using assms
  by (auto simp: put_slot_def storage_ok_def slot_value_def map_of_bt_insert bt_wf_insert bt_wf_remove map_of_delete_iff fun_eq_iff
      split: if_splits option.splits)

section \<open>Reasoning about operations\<close>

text \<open>The state an operation sees: the contract, the values of its slots and the events so far.\<close>

definition stands :: "contracts_cf \<Rightarrow> cx \<Rightarrow> bytes \<Rightarrow> (u64 \<Rightarrow> bytes) \<Rightarrow> EventSystem \<Rightarrow> bool" where
  "stands db x a \<sigma> ev \<longleftrightarrow> storage_ok db (cs x) \<and> contract_address (cs x) = a \<and> slot_value db (cs x) = \<sigma> \<and> events x = ev"

lemma wp_bail [simp]: "wp (bail msg) Q E = E (Bail msg)"
  by (auto simp: wp_def bail_def)

lemma wp_panic [simp]: "wp panic Q E = E Panicked"
  by (auto simp: wp_def panic_def)

lemma wp_ensure [simp]: "wp (ensure b msg) Q E = (if b then Q () else E (Bail msg))"
  by (simp add: ensure_def)

lemma wp_or_bail [simp]: "wp (or_bail v msg) Q E = (case v of None \<Rightarrow> E (Bail msg) | Some a \<Rightarrow> Q a)"
  by (simp add: or_bail_def split: option.splits)

lemma stands_gm [simp]: "stands db (x\<lparr> gm := g \<rparr>) a \<sigma> ev = stands db x a \<sigma> ev"
  by (simp add: stands_def)

lemma with_gas_stands:
  assumes "with_gas f x = (r, x')"
  shows "stands db x' a \<sigma> ev = stands db x a \<sigma> ev" "\<And>e. r = Inl e \<Longrightarrow> \<exists>g. e = GasFailed g" "gm x = None \<Longrightarrow> r = Inr () \<and> x' = x" "cs x' = cs x"
  using assms by (auto simp: with_gas_def split: option.splits prod.splits)

lemma wp_ensureI: "(b \<Longrightarrow> Q () x) \<Longrightarrow> (\<not> b \<Longrightarrow> E (Bail msg) x) \<Longrightarrow> wp (ensure b msg) Q E x"
  by simp

lemma wp_or_bailI: "(\<And>a. v = Some a \<Longrightarrow> Q a x) \<Longrightarrow> (v = None \<Longrightarrow> E (Bail msg) x) \<Longrightarrow> wp (or_bail v msg) Q E x"
  by (cases v) auto

lemma wp_panicI: "E Panicked x \<Longrightarrow> wp panic Q E x"
  by simp

lemmas contract_rules = step_rules wp_ensureI wp_or_bailI wp_panicI

lemma wp_sload:
  assumes s: "stands db x a \<sigma> ev"
    and ok: "\<And>x'. stands db x' a \<sigma> ev \<Longrightarrow> Q (\<sigma> slot) x'"
    and gas: "\<And>g x'. stands db x' a \<sigma> ev \<Longrightarrow> E (GasFailed g) x'"
  shows "wp (sload db slot) Q E x"
proof (cases "with_gas consume_sload x")
  case (Pair r x1)
  note w = with_gas_stands [OF Pair]
  have s1: "stands db x1 a \<sigma> ev" using w(1) s by simp
  then have st: "storage_ok db (cs x1)" and a: "contract_address (cs x1) = a" and sv: "slot_value db (cs x1) = \<sigma>" by (simp_all add: stands_def)
  show ?thesis
  proof (cases r)
    case (Inl e)
    then show ?thesis using w(2) gas [OF s1] Pair by (auto simp: wp_def sload_def bindc_def)
  next
    case (Inr u)
    let ?db = "db_value db a slot"
    have cache: "stands db (x1\<lparr> cs := (cs x1)\<lparr> read_cache := bt_insert slot ?db (read_cache (cs x1)) \<rparr> \<rparr>) a \<sigma> ev"
      if "map_of (overlay (cs x1)) slot = None"
      using storage_ok_cache [OF st that refl] s1 by (simp add: stands_def)
    have l: "length ?db = 32" and c: "\<And>v. map_of (overlay (cs x1)) slot = None \<Longrightarrow> map_of (read_cache (cs x1)) slot = Some v \<Longrightarrow> v = ?db"
      using st a by (auto simp: storage_ok_def)
    have v: "\<sigma> slot = (case map_of (overlay (cs x1)) slot of Some v \<Rightarrow> v | None \<Rightarrow> ?db)"
      using sv a by (auto simp: slot_value_def)
    show ?thesis
      using Pair Inr ok [OF s1] ok [OF cache] v l c a
      by (auto simp: wp_def sload_def bindc_def Let_def db_value_def split: option.splits)
  qed
qed

lemma wp_put:
  assumes s: "stands db x a \<sigma> ev" and l: "length v = 32"
    and ok: "\<And>x'. stands db x' a (\<sigma>(slot := if zero_value v then db_value db a slot else v)) ev \<Longrightarrow> Q () x'"
    and bad: "\<And>g x'. stands db x' a \<sigma> ev \<Longrightarrow> E (GasFailed g) x'"
  shows "wp (\<lambda>x. bindc (with_gas (consume_sstore (is_new_slot db (cs x) slot))) (\<lambda>_ x. (Inr (), x\<lparr> cs := put_slot slot v (cs x) \<rparr>)) x) Q E x"
proof (cases "with_gas (consume_sstore (is_new_slot db (cs x) slot)) x")
  case (Pair r x1)
  note w = with_gas_stands [OF Pair]
  have s1: "stands db x1 a \<sigma> ev" using w(1) s by simp
  have "stands db (x1\<lparr> cs := put_slot slot v (cs x1) \<rparr>) a (\<sigma>(slot := if zero_value v then db_value db a slot else v)) ev"
    using s1 storage_ok_put [of db "cs x1" v slot] l unfolding stands_def by auto
  then show ?thesis using Pair w(2) ok bad [OF s1] by (cases r) (auto simp: wp_def bindc_def)
qed

lemma wp_sstore:
  assumes s: "stands db x a \<sigma> ev" and l: "length v = 32"
    and ok: "\<And>x'. 99 < slot \<Longrightarrow> stands db x' a (\<sigma>(slot := if zero_value v then db_value db a slot else v)) ev \<Longrightarrow> Q () x'"
    and bad: "\<And>e x'. stands db x' a \<sigma> ev \<Longrightarrow> E e x'"
  shows "wp (sstore db slot v) Q E x"
  using wp_put [OF s l] ok bad [OF s] bad l unfolding sstore_def validate_slot_not_reserved_def is_reserved_slot_def
  by (auto simp: not_le)

lemma wp_sstore_reserved:
  assumes s: "stands db x a \<sigma> ev" and l: "length v = 32" and r: "slot \<le> 99"
    and ok: "\<And>x'. stands db x' a (\<sigma>(slot := if zero_value v then db_value db a slot else v)) ev \<Longrightarrow> Q () x'"
    and bad: "\<And>g x'. stands db x' a \<sigma> ev \<Longrightarrow> E (GasFailed g) x'"
  shows "wp (sstore_reserved db slot v) Q E x"
  using wp_put [OF s l] ok bad r l unfolding sstore_reserved_def is_reserved_slot_def by auto

section \<open>Commit\<close>

lemma make_storage_key_inj:
  assumes "length a = length b"
  shows "make_storage_key a s = make_storage_key b t \<longleftrightarrow> a = b \<and> s = t"
  using assms le_bytes_inj [where 'a = 64, of 8 s t] by (auto simp: make_storage_key_def)

abbreviation commit_slot :: "bytes \<Rightarrow> u64 \<times> bytes \<Rightarrow> contracts_cf \<Rightarrow> contracts_cf" where
  "commit_slot addr \<equiv> (\<lambda>(slot, v) d. if zero_value v then AList.delete (make_storage_key addr slot) d
                        else bt_insert (make_storage_key addr slot) v d)"

lemma commit_slot_ok:
  assumes "bt_wf d" "length b = length addr"
  shows "bt_wf (commit_slot addr (slot, v) d)"
    "map_of (commit_slot addr (slot, v) d) (make_storage_key b t) =
      (if b = addr \<and> t = slot then (if zero_value v then None else Some v) else map_of d (make_storage_key b t))"
  using assms by (auto simp: bt_wf_insert bt_wf_remove map_of_bt_insert map_of_delete_iff make_storage_key_inj)

lemma commit_lookup:
  assumes "bt_wf db" "hm_wf ov" "length b = length addr"
  shows "bt_wf (commit_contract_storage_overlay addr ov db) \<and>
    map_of (commit_contract_storage_overlay addr ov db) (make_storage_key b t) =
      (case map_of ov t of Some v \<Rightarrow> if b \<noteq> addr then map_of db (make_storage_key b t) else if zero_value v then None else Some v
       | None \<Rightarrow> map_of db (make_storage_key b t))"
  using assms(1,2) unfolding commit_contract_storage_overlay_def
proof (induction ov arbitrary: db)
  case (Cons e ov)
  obtain slot v where e: "e = (slot, v)" by fastforce
  define d where "d = commit_slot addr (slot, v) db"
  have w: "bt_wf d" and m: "map_of d (make_storage_key b t) =
      (if b = addr \<and> t = slot then (if zero_value v then None else Some v) else map_of db (make_storage_key b t))"
    unfolding d_def by (rule commit_slot_ok [OF Cons.prems(1) assms(3)])+
  have ov: "hm_wf ov" "slot \<notin> fst ` set ov" using Cons.prems(2) e by auto
  then have "t = slot \<Longrightarrow> map_of ov t = None" by (auto simp: map_of_eq_None_iff)
  moreover have "fold (commit_slot addr) (e # ov) db = fold (commit_slot addr) ov d" by (simp only: fold_simps comp_apply e d_def)
  ultimately show ?case
    using Cons.IH [OF w ov(1)] m e by (auto split: option.splits)
qed simp

lemma zero_value_eq: "length v = 32 \<Longrightarrow> zero_value v \<Longrightarrow> v = replicate 32 0"
  by (rule replicate_eqI) (auto simp: zero_value_def)

lemma root_slots_foreign:
  assumes "take (length pre) k \<noteq> pre"
  shows "root_slots pre ((k, v) # db) ov = Some ov"
  using assms by (induction ov) (subst root_slots.simps, simp)+

lemma root_slots_empty: "root_slots pre [] ov = Some ov"
  by (induction ov) (subst root_slots.simps, simp)+

section \<open>Properties\<close>

text \<open>C17. What a read returns after a successful write, in every state whose cache agrees with the
  database: another slot is untouched, the written slot gives the written value, except that a write
  of zero gives back the value the database holds, not zero.\<close>

theorem write_then_read:
  assumes "storage_ok db (cs x)" "sstore db slot v x = (Inr (), x1)" "sload db t x1 = (Inr w, x2)"
  shows "w = (if t \<noteq> slot then slot_value db (cs x) t
              else if zero_value v then db_value db (contract_address (cs x)) slot else v)"
proof -
  have s: "stands db x (contract_address (cs x)) (slot_value db (cs x)) (events x)" using assms(1) by (simp add: stands_def)
  have "length v = 32" using assms(2) by (auto simp: sstore_def bindc_def ensure_def bail_def ret_def split: if_splits)
  let ?\<sigma> = "(slot_value db (cs x))(slot := if zero_value v then db_value db (contract_address (cs x)) slot else v)"
  have "wp (sstore db slot v) (\<lambda>_. wp (sload db t) (\<lambda>w _. w = ?\<sigma> t) (\<lambda>_ _. True)) (\<lambda>_ _. True) x"
    by (rule wp_sstore [OF s \<open>length v = 32\<close>], erule wp_sload) simp_all
  from wpD(1) [OF wpD(1) [OF this assms(2)] assms(3)] show ?thesis by simp
qed

text \<open>C27. For a storage whose cache agrees with the database, committing the overlay makes the slots'
  values those of the database: a storage of the same contract opened afterwards shows exactly the
  values the committed one showed, and the slots of every other contract are untouched.\<close>

theorem commit_persists:
  assumes "storage_ok db c" "bt_wf db" "new_contract_storage (contract_address c) = Some c'"
  shows "slot_value (commit_contract_storage_overlay (contract_address c) (overlay c) db) c' = slot_value db c
    \<and> (\<forall>b slot. length b = 32 \<and> b \<noteq> contract_address c \<longrightarrow>
         db_value (commit_contract_storage_overlay (contract_address c) (overlay c) db) b slot = db_value db b slot)"
proof -
  have ov: "hm_wf (overlay c)" and l: "length (contract_address c) = 32" "\<And>s v. map_of (overlay c) s = Some v \<Longrightarrow> length v = 32"
    using assms(1) bt_wf_distinct by (auto simp: storage_ok_def)
  have z: "\<And>s v. map_of (overlay c) s = Some v \<Longrightarrow> zero_value v \<Longrightarrow> replicate 32 0 = v" using l(2) zero_value_eq by blast
  note commit_lookup [OF assms(2) ov]
  moreover have "overlay c' = []" "contract_address c' = contract_address c"
    using assms(3) by (auto simp: new_contract_storage_def split: if_splits)
  ultimately show ?thesis
    using l(1) z by (auto simp: slot_value_def db_value_def fun_eq_iff split: option.splits)
qed

text \<open>The storage root covers the committed slots only as long as they come first in the column
  family.  When the first entry belongs to another contract the root is that of the overlay alone:
  it no longer depends on what the contract has stored.\<close>

theorem root_misses_stored_slots:
  assumes "take (length (make_storage_prefix (contract_address c))) k \<noteq> make_storage_prefix (contract_address c)"
  shows "compute_storage_root sha512 ((k, v) # db) c = compute_storage_root sha512 [] c"
  using root_slots_foreign [OF assms] root_slots_empty by (simp add: compute_storage_root_def)

text \<open>A contract with one slot and a database that also holds a slot of another contract.\<close>

definition toy_cs :: ContractStorage where
  "toy_cs = \<lparr> contract_address = replicate 32 1, overlay = [], read_cache = [] \<rparr>"

definition toy_db :: contracts_cf where
  "toy_db = [(make_storage_key (replicate 32 0) 100, replicate 32 5), (make_storage_key (replicate 32 1) 100, replicate 32 7)]"

lemma toy_db_value: "db_value toy_db a slot = (if a = replicate 32 0 \<and> slot = 100 then replicate 32 5
    else if a = replicate 32 1 \<and> slot = 100 then replicate 32 7 else replicate 32 0)"
  if "length a = 32"
  using that by (auto simp: db_value_def toy_db_def make_storage_key_inj)

lemma toy_storage_ok: "storage_ok toy_db toy_cs"
  by (auto simp: storage_ok_def toy_cs_def toy_db_value)

theorem write_then_read_witness:
  "let x = \<lparr> cs = toy_cs, gm = None, events = new_event_system \<rparr> in
   \<exists>x1 x2. sstore toy_db 100 (replicate 32 0) x = (Inr (), x1) \<and> sload toy_db 100 x1 = (Inr (replicate 32 7), x2)"
proof -
  let ?x = "\<lparr> cs = toy_cs, gm = None, events = new_event_system \<rparr>"
  obtain x1 where 1: "sstore toy_db 100 (replicate 32 0) ?x = (Inr (), x1)"
    by (simp add: sstore_def bindc_def ensure_def ret_def validate_slot_not_reserved_def is_reserved_slot_def with_gas_def)
  have "x1 = ?x" using 1
    by (auto simp: sstore_def bindc_def ensure_def ret_def validate_slot_not_reserved_def is_reserved_slot_def with_gas_def put_slot_def toy_cs_def zero_value_def)
  then obtain w x2 where 2: "sload toy_db 100 x1 = (Inr w, x2)"
    by (simp add: sload_def bindc_def with_gas_def toy_cs_def toy_db_def make_storage_key_inj)
  then show ?thesis
    using 1 write_then_read [OF _ 1 2] toy_storage_ok by (auto simp: toy_db_value) (simp add: toy_cs_def toy_db_value)
qed

theorem commit_persists_witness:
  "slot_value (commit_contract_storage_overlay (replicate 32 1) [(101, replicate 32 9)] toy_db) toy_cs 101 = replicate 32 9"
proof -
  let ?c = "toy_cs\<lparr> overlay := [(101, replicate 32 9)] \<rparr>"
  have "storage_ok toy_db ?c" using toy_storage_ok by (auto simp: storage_ok_def toy_cs_def split: if_splits)
  moreover have "bt_wf toy_db" by code_simp
  moreover have "new_contract_storage (contract_address ?c) = Some toy_cs" by (simp add: new_contract_storage_def toy_cs_def)
  ultimately have "slot_value (commit_contract_storage_overlay (contract_address ?c) (overlay ?c) toy_db) toy_cs = slot_value toy_db ?c"
    using commit_persists [of toy_db ?c toy_cs] by blast
  then show ?thesis by (simp add: fun_eq_iff slot_value_def [of toy_db] toy_cs_def)
qed

theorem root_misses_stored_slots_witness:
  "compute_storage_root id toy_db toy_cs = compute_storage_root id [] toy_cs"
  unfolding toy_db_def
  by (rule root_misses_stored_slots) (simp add: make_storage_prefix_def make_storage_key_def toy_cs_def str_bytes_def)

end
