(* ===== verification/Contract_Runtime.thy ===== *)
theory Contract_Runtime
  imports Contract_Storage Core_Types
begin

text \<open>
  The contract runtime (\<open>Savitri-contracts/src/contracts/runtime.rs\<close>, the frame limit of
  \<open>memory_monitor.rs\<close>): the call stack with its re-entrancy and depth guards, the block time, the
  determinism flag and the reset between executions.  The locks around the fields are not modelled;
  messages are not modelled beyond their kind.
\<close>

section \<open>State\<close>

record CallFrame =
  frame_contract :: bytes
  caller :: bytes
  frame_value :: u128
  calldata :: bytes
  return_data :: bytes
  frame_gas :: u64
  depth :: u8
  storage_snapshot :: bytes

record Runtime =
  rt_overlay :: "(bytes \<times> Account) list"
  rt_gas_meter :: GasMeter
  call_stack :: "CallFrame list"
  max_call_depth :: nat
  rt_block_timestamp :: u64
  non_deterministic :: bool
  rt_events :: EventSystem

datatype runtime_error = MemoryLimit nat | Reentrancy bytes | MaxCallDepth nat | DepthBeyondU8 | NonDeterministic
  | StackTooDeep nat | WrongDepth nat | NoContract | BadAddressLength nat | IsolationViolation

definition MAX_CALL_DEPTH :: nat where
  "MAX_CALL_DEPTH = 64"

definition runtime_new :: "(bytes \<times> Account) list \<Rightarrow> u64 \<Rightarrow> nat \<Rightarrow> u64 \<Rightarrow> Runtime" where
  "runtime_new ov limit max_depth ts = \<lparr> rt_overlay = ov, rt_gas_meter = new_gas_meter limit, call_stack = [],
     max_call_depth = max_depth, rt_block_timestamp = ts, non_deterministic = False, rt_events = new_event_system \<rparr>"

definition with_empty_overlay :: "u64 \<Rightarrow> u64 \<Rightarrow> Runtime" where
  "with_empty_overlay limit ts = runtime_new [] limit MAX_CALL_DEPTH ts"

definition default_runtime :: Runtime where
  "default_runtime = with_empty_overlay 10000000 0"

section \<open>The call stack\<close>

definition is_in_call_path :: "bytes \<Rightarrow> Runtime \<Rightarrow> bool" where
  "is_in_call_path addr r \<longleftrightarrow> (\<exists>f \<in> set (call_stack r). frame_contract f = addr)"

definition check_reentrancy :: "bytes \<Rightarrow> Runtime \<Rightarrow> runtime_error option" where
  "check_reentrancy addr r = (if is_in_call_path addr r then Some (Reentrancy addr) else None)"

definition check_call_frames :: "nat \<Rightarrow> runtime_error option" where
  "check_call_frames d = (if 1024 < d then Some (MemoryLimit d) else None)"

definition push_frame :: "CallFrame \<Rightarrow> Runtime \<Rightarrow> (runtime_error + unit) \<times> Runtime" where
  "push_frame f r =
    (let n = length (call_stack r) in
     case check_call_frames (n + 1) of
       Some e \<Rightarrow> (Inl e, r)
     | None \<Rightarrow>
         if \<exists>g \<in> set (call_stack r). frame_contract g = frame_contract f then (Inl (Reentrancy (frame_contract f)), r)
         else if max_call_depth r \<le> n then (Inl (MaxCallDepth n), r)
         else
           (let f' = f\<lparr> depth := word_of_nat n \<rparr> in
            if depth f' = max_value \<and> 255 \<le> n then (Inl DepthBeyondU8, r)
            else (Inr (), r\<lparr> call_stack := call_stack r @ [f'] \<rparr>)))"

definition pop_frame :: "Runtime \<Rightarrow> CallFrame option \<times> Runtime" where
  "pop_frame r = (if call_stack r = [] then (None, r)
     else (Some (last (call_stack r)), r\<lparr> call_stack := butlast (call_stack r) \<rparr>))"

definition current_frame :: "Runtime \<Rightarrow> CallFrame option" where
  "current_frame r = (if call_stack r = [] then None else Some (last (call_stack r)))"

definition call_depth :: "Runtime \<Rightarrow> nat" where
  "call_depth r = length (call_stack r)"

definition call_path :: "Runtime \<Rightarrow> bytes list" where
  "call_path r = map frame_contract (call_stack r)"

definition call_count_in_path :: "bytes \<Rightarrow> Runtime \<Rightarrow> nat" where
  "call_count_in_path addr r = length (filter (\<lambda>f. frame_contract f = addr) (call_stack r))"

definition frame_at_depth :: "nat \<Rightarrow> Runtime \<Rightarrow> CallFrame option" where
  "frame_at_depth d r = (if d < length (call_stack r) then Some (call_stack r ! d) else None)"

definition root_frame :: "Runtime \<Rightarrow> CallFrame option" where
  "root_frame r = frame_at_depth 0 r"

fun first_wrong_depth :: "nat \<Rightarrow> CallFrame list \<Rightarrow> nat option" where
  "first_wrong_depth i [] = None"
| "first_wrong_depth i (f # fs) = (if depth f \<noteq> word_of_nat i then Some i else first_wrong_depth (i + 1) fs)"

definition validate_call_stack :: "Runtime \<Rightarrow> runtime_error option" where
  "validate_call_stack r =
    (if max_call_depth r < length (call_stack r) then Some (StackTooDeep (length (call_stack r)))
     else map_option WrongDepth (first_wrong_depth 0 (call_stack r)))"

section \<open>Determinism, time and reset\<close>

definition set_block_timestamp :: "u64 \<Rightarrow> Runtime \<Rightarrow> Runtime" where
  "set_block_timestamp ts r = r\<lparr> rt_block_timestamp := ts \<rparr>"

definition mark_non_deterministic_access :: "Runtime \<Rightarrow> Runtime" where
  "mark_non_deterministic_access r = r\<lparr> non_deterministic := True \<rparr>"

definition check_determinism :: "Runtime \<Rightarrow> runtime_error option" where
  "check_determinism r = (if non_deterministic r then Some NonDeterministic else None)"

definition reset_runtime :: "u64 \<Rightarrow> u64 \<Rightarrow> Runtime \<Rightarrow> Runtime" where
  "reset_runtime limit ts r = r\<lparr> call_stack := [], rt_gas_meter := new_gas_meter limit, non_deterministic := False,
     rt_block_timestamp := ts, rt_events := clear_events (rt_events r) \<rparr>"

definition current_contract_address :: "Runtime \<Rightarrow> bytes option" where
  "current_contract_address r = map_option frame_contract (current_frame r)"

definition validate_storage_access :: "bytes \<Rightarrow> Runtime \<Rightarrow> runtime_error option" where
  "validate_storage_access addr r = (case current_contract_address r of
      None \<Rightarrow> Some NoContract
    | Some a \<Rightarrow> if length addr \<noteq> 32 then Some (BadAddressLength (length addr))
               else if addr \<noteq> a then Some IsolationViolation else None)"

definition sload_with_runtime :: "contracts_cf \<Rightarrow> Runtime \<Rightarrow> u64 \<Rightarrow> bytes cm" where
  "sload_with_runtime db r slot =
    bindc (or_bail (current_contract_address r) ''No contract in execution context'') (\<lambda>a.
    bindc (validate_access a) (\<lambda>_. sload db slot))"

definition sstore_with_runtime :: "contracts_cf \<Rightarrow> Runtime \<Rightarrow> u64 \<Rightarrow> bytes \<Rightarrow> unit cm" where
  "sstore_with_runtime db r slot v =
    bindc (or_bail (current_contract_address r) ''No contract in execution context'') (\<lambda>a.
    bindc (validate_access a) (\<lambda>_. sstore db slot v))"

section \<open>The stack invariant\<close>

inductive rt_step :: "Runtime \<Rightarrow> Runtime \<Rightarrow> bool" where
  push: "push_frame f r = (res, r') \<Longrightarrow> rt_step r r'"
| pop: "pop_frame r = (res, r') \<Longrightarrow> rt_step r r'"
| time: "rt_step r (set_block_timestamp ts r)"
| mark: "rt_step r (mark_non_deterministic_access r)"
| reset: "rt_step r (reset_runtime limit ts r)"

definition stack_ok :: "nat \<Rightarrow> Runtime \<Rightarrow> bool" where
  "stack_ok d r \<longleftrightarrow> max_call_depth r = d \<and> distinct (call_path r) \<and> length (call_stack r) \<le> min d 255 \<and>
     map depth (call_stack r) = map word_of_nat [0..<length (call_stack r)]"

lemma first_wrong_depth_None:
  "first_wrong_depth i fs = None \<longleftrightarrow> map depth fs = map word_of_nat [i..<i + length fs]"
  by (induction fs arbitrary: i) (auto simp: upt_conv_Cons simp del: upt_Suc)

lemma stack_ok_push:
  assumes "stack_ok d r" "push_frame f r = (res, r')"
  shows "stack_ok d r'"
proof (cases "r' = r")
  case False
  let ?n = "length (call_stack r)"
  from assms(2) False have p: "\<forall>g \<in> set (call_stack r). frame_contract g \<noteq> frame_contract f" "?n < max_call_depth r"
    "\<not> (word_of_nat ?n = (max_value :: u8) \<and> 255 \<le> ?n)" "r' = r\<lparr> call_stack := call_stack r @ [f\<lparr> depth := word_of_nat ?n \<rparr>] \<rparr>"
    by (auto simp: push_frame_def Let_def not_le split: if_splits option.splits)
  have l: "?n \<le> 255" using assms(1) by (simp add: stack_ok_def)
  have "?n \<noteq> 255" using p(3) by (auto simp: max_value_def)
  then show ?thesis using assms(1) l p by (auto simp: stack_ok_def call_path_def)
qed (use assms in simp)

lemma stack_ok_pop: "stack_ok d r \<Longrightarrow> pop_frame r = (res, r') \<Longrightarrow> stack_ok d r'"
proof -
  assume a: "stack_ok d r" "pop_frame r = (res, r')"
  show "stack_ok d r'"
  proof (cases "call_stack r" rule: rev_cases)
    case (snoc fs f)
    then show ?thesis using a by (auto simp: stack_ok_def pop_frame_def call_path_def)
  qed (use a in \<open>simp add: pop_frame_def\<close>)
qed

interpretation rt: inv_system "\<lambda>r. r = runtime_new ov limit d ts" rt_step "stack_ok d"
proof
  show "stack_ok d r'" if "rt_step r r'" "stack_ok d r" for r r'
    using that
  proof cases
    case push
    then show ?thesis using stack_ok_push that(2) by blast
  next
    case pop
    then show ?thesis using stack_ok_pop that(2) by blast
  qed (use that(2) in \<open>auto simp: set_block_timestamp_def mark_non_deterministic_access_def reset_runtime_def stack_ok_def call_path_def\<close>)
qed (simp add: runtime_new_def stack_ok_def call_path_def)

section \<open>Properties\<close>

text \<open>C22. Whatever frames are pushed and popped, no contract is on the call stack twice, the stack never
  exceeds the configured depth nor 255 frames, each frame's depth is its position, and so the
  stack's own validation always passes.\<close>

theorem no_reentrancy:
  assumes "reachable (\<lambda>r. r = runtime_new ov limit d ts) rt_step r"
  shows "distinct (call_path r) \<and> length (call_stack r) \<le> min d 255 \<and> validate_call_stack r = None
    \<and> (\<forall>a. call_count_in_path a r \<le> 1)"
proof -
  have s: "stack_ok d r" by (rule rt.inv_reachable [OF assms])
  have "call_count_in_path a r \<le> 1" for a
  proof -
    have "call_count_in_path a r = count_list (call_path r) a"
      by (simp add: call_count_in_path_def call_path_def count_list_eq_length_filter filter_map comp_def eq_commute [of a])
    also have "\<dots> \<le> 1" using s distinct_count_atmost_1 [of "call_path r"] unfolding stack_ok_def by (simp add: count_mset)
    finally show ?thesis .
  qed
  then show ?thesis using s by (auto simp: stack_ok_def validate_call_stack_def first_wrong_depth_None)
qed

definition toy_frame :: "u8 \<Rightarrow> CallFrame" where
  "toy_frame b = \<lparr> frame_contract = replicate 32 b, caller = replicate 32 0, frame_value = 0, calldata = [], return_data = [],
     frame_gas = 0, depth = 0, storage_snapshot = [] \<rparr>"

theorem no_reentrancy_witness:
  "let r = snd (push_frame (toy_frame 1) (snd (push_frame (toy_frame 2) (snd (push_frame (toy_frame 1) default_runtime))))) in
   distinct (call_path r) \<and> length (call_stack r) = 2"
proof -
  let ?r = "snd (push_frame (toy_frame 1) (snd (push_frame (toy_frame 2) (snd (push_frame (toy_frame 1) default_runtime)))))"
  have s: "reachable I rt_step (snd (push_frame f r))" if "reachable I rt_step r" for I f r
    by (rule reachable.move [OF that], rule rt_step.push, rule prod.collapse [symmetric])
  have "reachable (\<lambda>r. r = runtime_new [] 10000000 64 0) rt_step default_runtime"
    by (rule reachable.start) (simp add: default_runtime_def with_empty_overlay_def MAX_CALL_DEPTH_def)
  then have "reachable (\<lambda>r. r = runtime_new [] 10000000 64 0) rt_step ?r" by (intro s)
  moreover have "length (call_stack ?r) = 2" by code_simp
  ultimately show ?thesis using no_reentrancy by (auto simp: Let_def)
qed

end
