(* ===== verification/Base_Contract.thy ===== *)
theory Base_Contract
  imports Contract_Runtime
begin

text \<open>
  The base contract (\<open>Savitri-contracts/src/contracts/base.rs\<close>): owner, version, pause flag and the two
  hook flags in the reserved slots, with the guarded operations on them and the hooks.  The
  governance-controlled upgrade is not modelled.  An operation gets the database, the runtime and
  the execution state.
\<close>

section \<open>Slots and their values\<close>

definition SLOT_OWNER :: u64 where "SLOT_OWNER = 0"
definition SLOT_VERSION :: u64 where "SLOT_VERSION = 1"
definition SLOT_GOVERNANCE_HOOK_ENABLED :: u64 where "SLOT_GOVERNANCE_HOOK_ENABLED = 2"
definition SLOT_FEE_HOOK_ENABLED :: u64 where "SLOT_FEE_HOOK_ENABLED = 3"
definition SLOT_PAUSED :: u64 where "SLOT_PAUSED = 4"

lemmas base_slots = SLOT_OWNER_def SLOT_VERSION_def SLOT_GOVERNANCE_HOOK_ENABLED_def SLOT_FEE_HOOK_ENABLED_def SLOT_PAUSED_def

definition u64_to_storage_value :: "u64 \<Rightarrow> bytes" where
  "u64_to_storage_value v = le_bytes 8 v @ replicate 24 0"

definition storage_value_to_u64 :: "bytes \<Rightarrow> u64 cm" where
  "storage_value_to_u64 v = (if length v < 8 then bail ''Invalid storage value length for u64'' else ret (from_le_bytes (take 8 v)))"

definition bool_to_storage_value :: "bool \<Rightarrow> bytes" where
  "bool_to_storage_value b = (if b then 1 else 0) # replicate 31 0"

definition storage_value_to_bool :: "bytes \<Rightarrow> bool" where
  "storage_value_to_bool v = (case v of [] \<Rightarrow> False | b # _ \<Rightarrow> b \<noteq> 0)"

section \<open>Readers and writers\<close>

definition get_owner :: "contracts_cf \<Rightarrow> bytes cm" where
  "get_owner db = bindc (sload db SLOT_OWNER) (\<lambda>v.
     bindc (ensure (length v = 32) ''Invalid owner value length'') (\<lambda>_. ret v))"

definition set_owner :: "contracts_cf \<Rightarrow> bytes \<Rightarrow> unit cm" where
  "set_owner db owner = bindc (ensure (length owner = 32) ''owner_address must be exactly 32 bytes'') (\<lambda>_.
     sstore_reserved db SLOT_OWNER owner)"

definition get_version :: "contracts_cf \<Rightarrow> u64 cm" where
  "get_version db = bindc (sload db SLOT_VERSION) storage_value_to_u64"

definition set_version :: "contracts_cf \<Rightarrow> u64 \<Rightarrow> unit cm" where
  "set_version db v = sstore_reserved db SLOT_VERSION (u64_to_storage_value v)"

definition is_paused :: "contracts_cf \<Rightarrow> bool cm" where
  "is_paused db = bindc (sload db SLOT_PAUSED) (\<lambda>v. ret (storage_value_to_bool v))"

definition set_paused :: "contracts_cf \<Rightarrow> bool \<Rightarrow> unit cm" where
  "set_paused db p = sstore_reserved db SLOT_PAUSED (bool_to_storage_value p)"

definition is_governance_hook_enabled :: "contracts_cf \<Rightarrow> bool cm" where
  "is_governance_hook_enabled db = bindc (sload db SLOT_GOVERNANCE_HOOK_ENABLED) (\<lambda>v. ret (storage_value_to_bool v))"

definition set_governance_hook_enabled :: "contracts_cf \<Rightarrow> bool \<Rightarrow> unit cm" where
  "set_governance_hook_enabled db b = sstore_reserved db SLOT_GOVERNANCE_HOOK_ENABLED (bool_to_storage_value b)"

definition is_fee_hook_enabled :: "contracts_cf \<Rightarrow> bool cm" where
  "is_fee_hook_enabled db = bindc (sload db SLOT_FEE_HOOK_ENABLED) (\<lambda>v. ret (storage_value_to_bool v))"

definition set_fee_hook_enabled :: "contracts_cf \<Rightarrow> bool \<Rightarrow> unit cm" where
  "set_fee_hook_enabled db b = sstore_reserved db SLOT_FEE_HOOK_ENABLED (bool_to_storage_value b)"

definition initialize_base :: "contracts_cf \<Rightarrow> bytes \<Rightarrow> unit cm" where
  "initialize_base db owner =
    bindc (ensure (length owner = 32) ''owner_address must be exactly 32 bytes'') (\<lambda>_.
    bindc (sstore_reserved db SLOT_OWNER owner) (\<lambda>_.
    bindc (sstore_reserved db SLOT_VERSION (u64_to_storage_value 1)) (\<lambda>_.
    bindc (sstore_reserved db SLOT_GOVERNANCE_HOOK_ENABLED (bool_to_storage_value False)) (\<lambda>_.
    bindc (sstore_reserved db SLOT_FEE_HOOK_ENABLED (bool_to_storage_value False)) (\<lambda>_.
      sstore_reserved db SLOT_PAUSED (bool_to_storage_value False))))))"

section \<open>Operations\<close>

definition emit_standard :: "StandardEvent \<Rightarrow> unit cm" where
  "emit_standard e x = (case emit_standard_event e (gm x, events x) of (g, es) \<Rightarrow> (Inr (), x\<lparr> gm := g, events := es \<rparr>))"

definition current_caller :: "Runtime \<Rightarrow> bytes cm" where
  "current_caller r = bindc (or_bail (current_frame r) ''No caller in execution context'') (\<lambda>f. ret (caller f))"

definition contract_in_execution :: "Runtime \<Rightarrow> bytes cm" where
  "contract_in_execution r = or_bail (current_contract_address r) ''No contract in execution context''"

definition transfer_ownership :: "hexlib \<Rightarrow> contracts_cf \<Rightarrow> Runtime \<Rightarrow> bytes \<Rightarrow> bool cm" where
  "transfer_ownership hx db r new_owner =
    bindc (ensure (length new_owner = 32) ''new_owner must be exactly 32 bytes'') (\<lambda>_.
    bindc (ensure (\<not> zero_value new_owner) ''new_owner cannot be address zero'') (\<lambda>_.
    bindc (current_caller r) (\<lambda>who.
    bindc (get_owner db) (\<lambda>current_owner.
    bindc (ensure (who = current_owner) ''Only owner can transfer ownership'') (\<lambda>_.
    bindc (ensure (new_owner \<noteq> current_owner) ''new_owner must be different from current owner'') (\<lambda>_.
    bindc (set_owner db new_owner) (\<lambda>_.
    bindc (emit_standard (OwnershipTransferred (hex_encode hx current_owner) (hex_encode hx new_owner))) (\<lambda>_.
      ret True))))))))"

definition pause :: "hexlib \<Rightarrow> contracts_cf \<Rightarrow> Runtime \<Rightarrow> bool cm" where
  "pause hx db r =
    bindc (current_caller r) (\<lambda>who.
    bindc (get_owner db) (\<lambda>owner.
    bindc (ensure (who = owner) ''Only owner can pause contract'') (\<lambda>_.
    bindc (is_paused db) (\<lambda>p.
    bindc (ensure (\<not> p) ''Contract is already paused'') (\<lambda>_.
    bindc (set_paused db True) (\<lambda>_.
    bindc (emit_standard (Paused (hex_encode hx who))) (\<lambda>_.
      ret True)))))))"

definition unpause :: "hexlib \<Rightarrow> contracts_cf \<Rightarrow> Runtime \<Rightarrow> bool cm" where
  "unpause hx db r =
    bindc (current_caller r) (\<lambda>who.
    bindc (get_owner db) (\<lambda>owner.
    bindc (ensure (who = owner) ''Only owner can unpause contract'') (\<lambda>_.
    bindc (is_paused db) (\<lambda>p.
    bindc (ensure p ''Contract is not paused'') (\<lambda>_.
    bindc (set_paused db False) (\<lambda>_.
    bindc (emit_standard (Unpaused (hex_encode hx who))) (\<lambda>_.
      ret True)))))))"

definition set_governance_hook :: "contracts_cf \<Rightarrow> Runtime \<Rightarrow> bool \<Rightarrow> bool cm" where
  "set_governance_hook db r enabled =
    bindc (current_caller r) (\<lambda>who.
    bindc (get_owner db) (\<lambda>owner.
    bindc (ensure (who = owner) ''Only owner can set governance hook'') (\<lambda>_.
    bindc (set_governance_hook_enabled db enabled) (\<lambda>_.
      ret True))))"

definition set_fee_hook :: "contracts_cf \<Rightarrow> Runtime \<Rightarrow> bool \<Rightarrow> bool cm" where
  "set_fee_hook db r enabled =
    bindc (current_caller r) (\<lambda>who.
    bindc (get_owner db) (\<lambda>owner.
    bindc (ensure (who = owner) ''Only owner can set fee hook'') (\<lambda>_.
    bindc (set_fee_hook_enabled db enabled) (\<lambda>_.
      ret True))))"

text \<open>The governance hook; \<open>action_type\<close> is the name of the proposal's action.\<close>

definition on_governance_proposal :: "hexlib \<Rightarrow> contracts_cf \<Rightarrow> Runtime \<Rightarrow> bytes \<Rightarrow> string \<Rightarrow> bool cm" where
  "on_governance_proposal hx db r proposal_id action_type =
    bindc (ensure (length proposal_id = 32) ''proposal_id must be exactly 32 bytes'') (\<lambda>_.
    bindc (is_governance_hook_enabled db) (\<lambda>enabled.
      if \<not> enabled then ret True
      else
        bindc (contract_in_execution r) (\<lambda>contract.
        bindc (emit_standard (GovernanceHookTriggered (hex_encode hx contract) (hex_encode hx proposal_id) action_type)) (\<lambda>_.
          ret True))))"

definition trigger_governance_hook :: "hexlib \<Rightarrow> contracts_cf \<Rightarrow> Runtime \<Rightarrow> bytes \<Rightarrow> string \<Rightarrow> bool cm" where
  "trigger_governance_hook hx db r proposal_id action_type =
    bindc (is_governance_hook_enabled db) (\<lambda>enabled.
      if \<not> enabled then ret True else on_governance_proposal hx db r proposal_id action_type)"

definition on_fee_paid :: "hexlib \<Rightarrow> contracts_cf \<Rightarrow> Runtime \<Rightarrow> u128 \<Rightarrow> bool cm" where
  "on_fee_paid hx db r amount =
    bindc (is_fee_hook_enabled db) (\<lambda>enabled.
      if \<not> enabled then ret True
      else
        bindc (current_caller r) (\<lambda>who.
        bindc (contract_in_execution r) (\<lambda>contract.
        bindc (emit_standard (FeeHookTriggered (hex_encode hx contract) (hex_encode hx who) amount)) (\<lambda>_.
          ret True))))"

definition trigger_fee_hook :: "hexlib \<Rightarrow> contracts_cf \<Rightarrow> Runtime \<Rightarrow> u128 \<Rightarrow> bool cm" where
  "trigger_fee_hook hx db r amount =
    bindc (is_fee_hook_enabled db) (\<lambda>enabled. if \<not> enabled then ret True else on_fee_paid hx db r amount)"

section \<open>Lemmas\<close>

lemma storage_values:
  "length (u64_to_storage_value n) = 32" "length (bool_to_storage_value b) = 32"
  "zero_value (bool_to_storage_value b) \<longleftrightarrow> \<not> b" "storage_value_to_bool (bool_to_storage_value b) = b"
  "from_le_bytes (take 8 (u64_to_storage_value n)) = n"
  by (auto simp: u64_to_storage_value_def bool_to_storage_value_def storage_value_to_bool_def from_le_bytes_le_bytes take_bit_word_eq_self)

lemma stands_length: "stands db x a \<sigma> ev \<Longrightarrow> length (\<sigma> slot) = 32"
  using length_slot_value by (auto simp: stands_def)

lemma wp_get_owner:
  assumes "stands db x a \<sigma> ev" "\<And>x'. stands db x' a \<sigma> ev \<Longrightarrow> Q (\<sigma> 0) x'" "\<And>e x'. stands db x' a \<sigma> ev \<Longrightarrow> E e x'"
  shows "wp (get_owner db) Q E x"
  unfolding get_owner_def base_slots using assms stands_length [OF assms(1), of 0] by (auto intro: wp_sload)

lemma wp_flag:
  assumes "stands db x a \<sigma> ev" "\<And>x'. stands db x' a \<sigma> ev \<Longrightarrow> Q (storage_value_to_bool (\<sigma> slot)) x'"
    "\<And>e x'. stands db x' a \<sigma> ev \<Longrightarrow> E e x'"
  shows "wp (bindc (sload db slot) (\<lambda>v. ret (storage_value_to_bool v))) Q E x"
  using assms by (auto intro: wp_sload)

lemmas wp_is_paused = wp_flag [where slot = SLOT_PAUSED, folded is_paused_def, unfolded SLOT_PAUSED_def]

lemma wp_set_owner:
  assumes "stands db x a \<sigma> ev" "length owner = 32" "\<not> zero_value owner"
    "\<And>x'. stands db x' a (\<sigma>(0 := owner)) ev \<Longrightarrow> Q () x'" "\<And>e x'. stands db x' a \<sigma> ev \<Longrightarrow> E e x'"
  shows "wp (set_owner db owner) Q E x"
  unfolding set_owner_def base_slots wp_bind wp_ensure if_P [OF assms(2)]
  by (rule wp_sstore_reserved [OF assms(1,2), where slot = 0, unfolded if_not_P [OF assms(3)]]) (auto intro: assms(4,5))

text \<open>Setting a flag shows in its slot, except that clearing it brings back the database's value.\<close>

lemma wp_set_flag:
  assumes "stands db x a \<sigma> ev" "slot \<le> 99"
    "\<And>x'. stands db x' a (\<sigma>(slot := if b then bool_to_storage_value True else db_value db a slot)) ev \<Longrightarrow> Q () x'"
    "\<And>e x'. stands db x' a \<sigma> ev \<Longrightarrow> E e x'"
  shows "wp (sstore_reserved db slot (bool_to_storage_value b)) Q E x"
  by (rule wp_sstore_reserved [OF assms(1) storage_values(2) assms(2)])
    (use assms(3,4) in \<open>auto simp: storage_values(3) split: if_splits\<close>)

lemma wp_emit_standard:
  assumes "stands db x a \<sigma> ev" "\<And>x' ev'. stands db x' a \<sigma> ev' \<Longrightarrow> Q () x'"
  shows "wp (emit_standard e) Q E x"
  using assms unfolding emit_standard_def wp_def by (auto simp: stands_def split: prod.splits)

lemma wp_current_caller:
  "wp (current_caller r) Q E = (case current_frame r of None \<Rightarrow> E (Bail ''No caller in execution context'') | Some f \<Rightarrow> Q (caller f))"
  by (simp add: current_caller_def split: option.splits)

text \<open>A paused contract in the database, called by its owner.\<close>

definition toy_base_db :: contracts_cf where
  "toy_base_db = [(make_storage_key (replicate 32 1) 0, replicate 32 9), (make_storage_key (replicate 32 1) 4, bool_to_storage_value True)]"

definition toy_owner_rt :: Runtime where
  "toy_owner_rt = snd (push_frame ((toy_frame 1)\<lparr> caller := replicate 32 9 \<rparr>) default_runtime)"

definition toy_x :: cx where
  "toy_x = \<lparr> cs = toy_cs, gm = None, events = new_event_system \<rparr>"

lemma toy_base_ok: "storage_ok toy_base_db (cs toy_x)"
  by (auto simp: storage_ok_def toy_x_def toy_cs_def db_value_def toy_base_db_def make_storage_key_inj storage_values)

section \<open>Properties\<close>

text \<open>Ownership changes hands only by the owner: a transfer that returns was called by the current
  owner, names a different owner that is not the zero address, makes exactly that address the owner,
  and changes no other slot.\<close>

theorem ownership_transfer:
  assumes "storage_ok db (cs x)" "transfer_ownership hx db r new_owner x = (Inr b, x')"
  shows "\<exists>f. current_frame r = Some f \<and> caller f = slot_value db (cs x) SLOT_OWNER \<and> new_owner \<noteq> caller f \<and> \<not> zero_value new_owner
    \<and> slot_value db (cs x') = (slot_value db (cs x))(SLOT_OWNER := new_owner)"
proof -
  have s: "stands db x (contract_address (cs x)) (slot_value db (cs x)) (events x)" using assms(1) by (simp add: stands_def)
  let ?\<sigma> = "slot_value db (cs x)"
  let ?Q = "\<lambda>_ x'. \<exists>f. current_frame r = Some f \<and> caller f = ?\<sigma> 0 \<and> new_owner \<noteq> caller f \<and> \<not> zero_value new_owner
    \<and> slot_value db (cs x') = ?\<sigma>(0 := new_owner)"
  have "wp (transfer_ownership hx db r new_owner) ?Q (\<lambda>_ _. True) x"
  proof (cases "current_frame r")
    case None
    then show ?thesis by (simp add: transfer_ownership_def wp_current_caller)
  next
    case (Some f)
    have "wp (set_owner db new_owner) (\<lambda>v. wp (emit_standard (OwnershipTransferred (hex_encode hx (?\<sigma> 0)) (hex_encode hx new_owner)))
           (\<lambda>v. ?Q True) (\<lambda>_ _. True)) (\<lambda>_ _. True) x1"
      if "stands db x1 (contract_address (cs x)) ?\<sigma> (events x)" "length new_owner = 32" "\<not> zero_value new_owner" "caller f = ?\<sigma> 0" "new_owner \<noteq> ?\<sigma> 0" for x1
      using that Some by (intro wp_set_owner [OF that(1-3)]) (auto intro!: wp_emit_standard simp: stands_def)
    then show ?thesis
      unfolding transfer_ownership_def wp_bind wp_ensure wp_current_caller Some option.case
      by (auto intro!: wp_get_owner [OF s])
  qed
  from wpD(1) [OF this assms(2)] show ?thesis by (simp add: base_slots)
qed

text \<open>Lifting a pause has no lasting effect once the pause is in the database: the flag is cleared by
  a write of zero, which drops the overlay entry, so after a successful unpause the contract reads
  as paused again exactly when the database says so.\<close>

theorem unpause_ineffective:
  assumes "storage_ok db (cs x)" "unpause hx db r x = (Inr b, x1)" "is_paused db x1 = (Inr p, x2)"
  shows "p = storage_value_to_bool (db_value db (contract_address (cs x)) SLOT_PAUSED)"
proof -
  let ?\<sigma> = "slot_value db (cs x)" and ?a = "contract_address (cs x)"
  have s: "stands db x ?a ?\<sigma> (events x)" using assms(1) by (simp add: stands_def)
  let ?Q = "\<lambda>x'. wp (is_paused db) (\<lambda>p _. p = storage_value_to_bool (db_value db ?a 4)) (\<lambda>_ _. True) x'"
  have "?Q x'" if "stands db x' ?a (?\<sigma>(4 := db_value db ?a 4)) ev" for x' ev
    using that by (intro wp_is_paused [OF that]) auto
  then have "wp (set_paused db False) (\<lambda>v. wp (emit_standard e) (\<lambda>v. ?Q) (\<lambda>_ _. True)) (\<lambda>_ _. True) x'" if "stands db x' ?a ?\<sigma> (events x)" for x' e
    unfolding set_paused_def base_slots by (intro wp_set_flag [OF that] wp_emit_standard) auto
  then have "wp (unpause hx db r) (\<lambda>_. ?Q) (\<lambda>_ _. True) x"
    unfolding unpause_def wp_bind wp_ensure wp_current_caller
    by (cases "current_frame r") (auto intro!: wp_get_owner [OF s] wp_is_paused [where db = db and a = ?a and \<sigma> = ?\<sigma>])
  from wpD(1) [OF wpD(1) [OF this assms(2)] assms(3)] show ?thesis by (simp add: base_slots)
qed

theorem ownership_transfer_witness:
  "\<exists>x'. transfer_ownership toy_hexlib toy_base_db toy_owner_rt (replicate 32 7) toy_x = (Inr True, x') \<and>
     slot_value toy_base_db (cs x') SLOT_OWNER = replicate 32 7"
proof -
  have "fst (transfer_ownership toy_hexlib toy_base_db toy_owner_rt (replicate 32 7) toy_x) = Inr True" by code_simp
  then obtain x' where 1: "transfer_ownership toy_hexlib toy_base_db toy_owner_rt (replicate 32 7) toy_x = (Inr True, x')"
    by (metis prod.collapse)
  then show ?thesis using ownership_transfer [OF toy_base_ok 1] by auto
qed

theorem unpause_ineffective_witness:
  "\<exists>x1 x2. unpause toy_hexlib toy_base_db toy_owner_rt toy_x = (Inr True, x1) \<and> is_paused toy_base_db x1 = (Inr True, x2)"
proof -
  have "fst (unpause toy_hexlib toy_base_db toy_owner_rt toy_x) = Inr True" by code_simp
  then obtain x1 where 1: "unpause toy_hexlib toy_base_db toy_owner_rt toy_x = (Inr True, x1)" by (metis prod.collapse)
  have "\<exists>p. fst (is_paused toy_base_db (snd (unpause toy_hexlib toy_base_db toy_owner_rt toy_x))) = Inr p" by code_simp
  then obtain p x2 where 2: "is_paused toy_base_db x1 = (Inr p, x2)" using 1 by (metis prod.collapse snd_conv)
  have "storage_value_to_bool (db_value toy_base_db (contract_address (cs toy_x)) SLOT_PAUSED)" by code_simp
  then show ?thesis using 1 2 unpause_ineffective [OF toy_base_ok 1 2] by auto
qed

end
