(* ===== verification/Savitri20.thy ===== *)
theory Savitri20
  imports Base_Contract
begin

text \<open>
  The fungible token standard (\<open>Savitri-contracts/src/contracts/standards/savitri20.rs\<close>) over contract
  storage: hashed balance and allowance slots, metadata strings in 32-byte chunks, transfers,
  approvals, minting and burning.  Keccak-256 (\<open>kc\<close>) and \<open>hex\<close> are parameters.  Strings are the bytes
  of their UTF-8 form.
\<close>

section \<open>Slots and values\<close>

definition SLOT_TOTAL_SUPPLY :: u64 where "SLOT_TOTAL_SUPPLY = 100"
definition SLOT_BALANCES_BASE :: u64 where "SLOT_BALANCES_BASE = 101"
definition SLOT_ALLOWANCES_BASE :: u64 where "SLOT_ALLOWANCES_BASE = 200"
definition SLOT_NAME_BASE :: u64 where "SLOT_NAME_BASE = 300"
definition SLOT_SYMBOL_BASE :: u64 where "SLOT_SYMBOL_BASE = 400"

definition ensure_non_zero_address :: "bytes \<Rightarrow> string \<Rightarrow> unit cm" where
  "ensure_non_zero_address a msg = ensure (a \<noteq> replicate 32 0) msg"

definition calculate_balance_slot :: "(bytes \<Rightarrow> bytes) \<Rightarrow> bytes \<Rightarrow> u64" where
  "calculate_balance_slot kc a = from_le_bytes (take 8 (kc (a @ le_bytes 8 SLOT_BALANCES_BASE)))"

definition calculate_allowance_slot :: "(bytes \<Rightarrow> bytes) \<Rightarrow> bytes \<Rightarrow> bytes \<Rightarrow> u64" where
  "calculate_allowance_slot kc owner spender =
    from_le_bytes (take 8 (kc (spender @ kc (owner @ le_bytes 8 SLOT_ALLOWANCES_BASE))))"

definition u128_to_storage_value :: "u128 \<Rightarrow> bytes" where
  "u128_to_storage_value v = le_bytes 16 v @ replicate 16 0"

definition storage_value_to_u128 :: "bytes \<Rightarrow> u128 cm" where
  "storage_value_to_u128 v = (if length v < 16 then bail ''Storage value too short for u128'' else ret (from_le_bytes (take 16 v)))"

definition decode_address :: "hexlib \<Rightarrow> string \<Rightarrow> bytes cm" where
  "decode_address hx s =
    bindc (or_bail (hex_decode hx (strip_0x s)) ''Failed to decode address'') (\<lambda>bs.
    bindc (ensure (length bs = 32) ''Address must be 32 bytes'') (\<lambda>_. ret bs))"

section \<open>Strings in storage\<close>

text \<open>\<open>slice::chunks\<close> and the validation of \<open>String::from_utf8\<close>.\<close>

fun chunks :: "nat \<Rightarrow> bytes \<Rightarrow> bytes list" where
  "chunks n bs = (if n = 0 \<or> bs = [] then [] else take n bs # chunks n (drop n bs))"

declare chunks.simps [simp del]

abbreviation cont_byte :: "u8 \<Rightarrow> bool" where
  "cont_byte b \<equiv> 0x80 \<le> b \<and> b \<le> 0xBF"

fun utf8_valid :: "bytes \<Rightarrow> bool" where
  "utf8_valid [] = True"
| "utf8_valid (a # r) =
    (if a < 0x80 then utf8_valid r
     else if 0xC2 \<le> a \<and> a \<le> 0xDF then (case r of b # r' \<Rightarrow> cont_byte b \<and> utf8_valid r' | _ \<Rightarrow> False)
     else if 0xE0 \<le> a \<and> a \<le> 0xEF then
       (case r of b # c # r' \<Rightarrow> cont_byte b \<and> (a = 0xE0 \<longrightarrow> 0xA0 \<le> b) \<and> (a = 0xED \<longrightarrow> b \<le> 0x9F) \<and> cont_byte c \<and> utf8_valid r'
        | _ \<Rightarrow> False)
     else if 0xF0 \<le> a \<and> a \<le> 0xF4 then
       (case r of b # c # d # r' \<Rightarrow> cont_byte b \<and> (a = 0xF0 \<longrightarrow> 0x90 \<le> b) \<and> (a = 0xF4 \<longrightarrow> b \<le> 0x8F) \<and> cont_byte c \<and> cont_byte d \<and>
           utf8_valid r'
        | _ \<Rightarrow> False)
     else False)"

definition pad32 :: "bytes \<Rightarrow> bytes" where
  "pad32 bs = bs @ replicate (32 - length bs) 0"

fun write_chunks :: "contracts_cf \<Rightarrow> u64 \<Rightarrow> bytes list \<Rightarrow> unit cm" where
  "write_chunks db slot [] = ret ()"
| "write_chunks db slot (c # css) = bindc (sstore db slot (pad32 c)) (\<lambda>_. write_chunks db (slot + 1) css)"

definition write_string_to_storage :: "contracts_cf \<Rightarrow> u64 \<Rightarrow> bytes \<Rightarrow> unit cm" where
  "write_string_to_storage db base v =
    bindc (sstore db base (pad32 (le_bytes 8 (word_of_nat (length v) :: u64)))) (\<lambda>_.
      if v = [] then ret () else write_chunks db (base + 1) (chunks 32 v))"

fun read_chunks :: "contracts_cf \<Rightarrow> u64 \<Rightarrow> nat \<Rightarrow> bytes cm" where
  "read_chunks db slot 0 = ret []"
| "read_chunks db slot (Suc n) = bindc (sload db slot) (\<lambda>c. bindc (read_chunks db (slot + 1) n) (\<lambda>cs. ret (c @ cs)))"

definition read_string_from_storage :: "contracts_cf \<Rightarrow> u64 \<Rightarrow> bytes cm" where
  "read_string_from_storage db base =
    bindc (sload db base) (\<lambda>lv.
    bindc (ensure (8 \<le> length lv) ''Invalid string length storage'') (\<lambda>_.
      (let len = unat (from_le_bytes (take 8 lv) :: u64) in
       if len = 0 then ret []
       else
         bindc (read_chunks db (base + 1) ((len + 31) div 32)) (\<lambda>bs.
         bindc (ensure (utf8_valid (take len bs)) ''Stored string is not valid UTF-8'') (\<lambda>_.
           ret (take len bs))))))"

definition set_name :: "contracts_cf \<Rightarrow> bytes \<Rightarrow> unit cm" where
  "set_name db v = write_string_to_storage db SLOT_NAME_BASE v"

definition name :: "contracts_cf \<Rightarrow> bytes cm" where
  "name db = read_string_from_storage db SLOT_NAME_BASE"

definition set_symbol :: "contracts_cf \<Rightarrow> bytes \<Rightarrow> unit cm" where
  "set_symbol db v = write_string_to_storage db SLOT_SYMBOL_BASE v"

definition symbol :: "contracts_cf \<Rightarrow> bytes cm" where
  "symbol db = read_string_from_storage db SLOT_SYMBOL_BASE"

definition initialize_token :: "(bytes \<Rightarrow> bytes) \<Rightarrow> contracts_cf \<Rightarrow> bytes \<Rightarrow> bytes \<Rightarrow> bytes \<Rightarrow> u128 \<Rightarrow> unit cm" where
  "initialize_token kc db owner tname tsymbol initial_supply =
    bindc (set_name db tname) (\<lambda>_.
    bindc (set_symbol db tsymbol) (\<lambda>_.
    bindc (sstore db SLOT_TOTAL_SUPPLY (u128_to_storage_value initial_supply)) (\<lambda>_.
      if 0 < initial_supply then sstore db (calculate_balance_slot kc owner) (u128_to_storage_value initial_supply) else ret ())))"

section \<open>Events\<close>

definition emit_custom :: "CustomEvent \<Rightarrow> unit cm" where
  "emit_custom e x = (case emit_custom_event e (gm x, events x) of (g, es) \<Rightarrow> (Inr (), x\<lparr> gm := g, events := es \<rparr>))"

definition emit_transfer_event :: "(bytes \<Rightarrow> bytes) \<Rightarrow> hexlib \<Rightarrow> bytes \<Rightarrow> bytes \<Rightarrow> bytes \<Rightarrow> u128 \<Rightarrow> unit cm" where
  "emit_transfer_event kc hx contract sender receiver amount = emit_custom
     \<lparr> ce_contract = hex_encode hx contract, event_name = ''Transfer'',
       topics = [kc (str_bytes ''Transfer(address,address,uint256)''), sender, receiver],
       ce_data = le_bytes 16 amount @ replicate 16 0 \<rparr>"

definition emit_approval_event :: "(bytes \<Rightarrow> bytes) \<Rightarrow> hexlib \<Rightarrow> bytes \<Rightarrow> bytes \<Rightarrow> bytes \<Rightarrow> u128 \<Rightarrow> unit cm" where
  "emit_approval_event kc hx contract owner spender amount = emit_custom
     \<lparr> ce_contract = hex_encode hx contract, event_name = ''Approval'',
       topics = [kc (str_bytes ''Approval(address,address,uint256)''), owner, spender],
       ce_data = le_bytes 16 amount @ replicate 16 0 \<rparr>"

lemma event_signatures [code_unfold]:
  "str_bytes ''Transfer(address,address,uint256)'' =
    [84, 114, 97, 110, 115, 102, 101, 114, 40, 97, 100, 100, 114, 101, 115, 115, 44, 97, 100, 100, 114, 101, 115, 115, 44,
     117, 105, 110, 116, 50, 53, 54, 41]"
  "str_bytes ''Approval(address,address,uint256)'' =
    [65, 112, 112, 114, 111, 118, 97, 108, 40, 97, 100, 100, 114, 101, 115, 115, 44, 97, 100, 100, 114, 101, 115, 115, 44,
     117, 105, 110, 116, 50, 53, 54, 41]"
  by (simp_all add: str_bytes_def)

section \<open>Token operations\<close>

definition read_u128 :: "contracts_cf \<Rightarrow> u64 \<Rightarrow> u128 cm" where
  "read_u128 db slot = bindc (sload db slot) storage_value_to_u128"

definition total_supply :: "contracts_cf \<Rightarrow> u128 cm" where
  "total_supply db = bindc (sload db SLOT_TOTAL_SUPPLY) storage_value_to_u128"

definition balance_of :: "(bytes \<Rightarrow> bytes) \<Rightarrow> hexlib \<Rightarrow> contracts_cf \<Rightarrow> string \<Rightarrow> u128 cm" where
  "balance_of kc hx db address =
    bindc (decode_address hx address) (\<lambda>a.
    bindc (sload db (calculate_balance_slot kc a)) storage_value_to_u128)"

definition allowance :: "(bytes \<Rightarrow> bytes) \<Rightarrow> hexlib \<Rightarrow> contracts_cf \<Rightarrow> string \<Rightarrow> string \<Rightarrow> u128 cm" where
  "allowance kc hx db owner spender =
    bindc (decode_address hx owner) (\<lambda>o_bytes.
    bindc (decode_address hx spender) (\<lambda>s_bytes.
    bindc (sload db (calculate_allowance_slot kc o_bytes s_bytes)) storage_value_to_u128))"

definition ensure_not_paused :: "contracts_cf \<Rightarrow> unit cm" where
  "ensure_not_paused db = bindc (is_paused db) (\<lambda>p. ensure (\<not> p) ''Contract is paused'')"

definition transfer :: "(bytes \<Rightarrow> bytes) \<Rightarrow> hexlib \<Rightarrow> contracts_cf \<Rightarrow> Runtime \<Rightarrow> string \<Rightarrow> u128 \<Rightarrow> unit cm" where
  "transfer kc hx db r to_addr amount =
    bindc (ensure_not_paused db) (\<lambda>_.
    bindc (current_caller r) (\<lambda>sender.
    bindc (contract_in_execution r) (\<lambda>contract.
    bindc (decode_address hx to_addr) (\<lambda>receiver.
    bindc (ensure_non_zero_address receiver ''Cannot transfer to zero address'') (\<lambda>_.
    bindc (read_u128 db (calculate_balance_slot kc sender)) (\<lambda>from_balance.
    bindc (ensure (amount \<le> from_balance) ''Insufficient balance'') (\<lambda>_.
      if sender = receiver then emit_transfer_event kc hx contract sender receiver amount
      else
        bindc (or_bail (checked_sub from_balance amount) ''Balance underflow'') (\<lambda>new_from_balance.
        bindc (read_u128 db (calculate_balance_slot kc receiver)) (\<lambda>to_balance.
        bindc (or_bail (checked_add to_balance amount) ''Balance overflow'') (\<lambda>new_to_balance.
        bindc (sstore db (calculate_balance_slot kc sender) (u128_to_storage_value new_from_balance)) (\<lambda>_.
        bindc (sstore db (calculate_balance_slot kc receiver) (u128_to_storage_value new_to_balance)) (\<lambda>_.
          emit_transfer_event kc hx contract sender receiver amount))))))))))))"

definition approve :: "(bytes \<Rightarrow> bytes) \<Rightarrow> hexlib \<Rightarrow> contracts_cf \<Rightarrow> Runtime \<Rightarrow> string \<Rightarrow> u128 \<Rightarrow> unit cm" where
  "approve kc hx db r spender_addr amount =
    bindc (ensure_not_paused db) (\<lambda>_.
    bindc (current_caller r) (\<lambda>owner.
    bindc (contract_in_execution r) (\<lambda>contract.
    bindc (decode_address hx spender_addr) (\<lambda>spender.
    bindc (ensure_non_zero_address spender ''Cannot approve zero address'') (\<lambda>_.
    bindc (sstore db (calculate_allowance_slot kc owner spender) (u128_to_storage_value amount)) (\<lambda>_.
      emit_approval_event kc hx contract owner spender amount))))))"

definition transfer_from :: "(bytes \<Rightarrow> bytes) \<Rightarrow> hexlib \<Rightarrow> contracts_cf \<Rightarrow> Runtime \<Rightarrow> string \<Rightarrow> string \<Rightarrow> u128 \<Rightarrow> unit cm" where
  "transfer_from kc hx db r from_addr to_addr amount =
    bindc (ensure_not_paused db) (\<lambda>_.
    bindc (current_caller r) (\<lambda>spender.
    bindc (decode_address hx from_addr) (\<lambda>sender.
    bindc (decode_address hx to_addr) (\<lambda>receiver.
    bindc (ensure_non_zero_address sender ''Cannot transfer from zero address'') (\<lambda>_.
    bindc (ensure_non_zero_address receiver ''Cannot transfer to zero address'') (\<lambda>_.
    bindc (read_u128 db (calculate_allowance_slot kc sender spender)) (\<lambda>allowed.
    bindc (ensure (amount \<le> allowed) ''Insufficient allowance'') (\<lambda>_.
    bindc (or_bail (checked_sub allowed amount) ''Allowance underflow'') (\<lambda>new_allowance.
    bindc (sstore db (calculate_allowance_slot kc sender spender) (u128_to_storage_value new_allowance)) (\<lambda>_.
    bindc (read_u128 db (calculate_balance_slot kc sender)) (\<lambda>from_balance.
    bindc (ensure (amount \<le> from_balance) ''Insufficient balance'') (\<lambda>_.
    bindc (or_bail (checked_sub from_balance amount) ''Balance underflow'') (\<lambda>new_from_balance.
    bindc (read_u128 db (calculate_balance_slot kc receiver)) (\<lambda>to_balance.
    bindc (or_bail (checked_add to_balance amount) ''Balance overflow'') (\<lambda>new_to_balance.
    bindc (sstore db (calculate_balance_slot kc sender) (u128_to_storage_value new_from_balance)) (\<lambda>_.
    bindc (sstore db (calculate_balance_slot kc receiver) (u128_to_storage_value new_to_balance)) (\<lambda>_.
    bindc (contract_in_execution r) (\<lambda>contract.
      emit_transfer_event kc hx contract sender receiver amount))))))))))))))))))"

definition mint :: "(bytes \<Rightarrow> bytes) \<Rightarrow> hexlib \<Rightarrow> contracts_cf \<Rightarrow> Runtime \<Rightarrow> string \<Rightarrow> u128 \<Rightarrow> unit cm" where
  "mint kc hx db r to_addr amount =
    bindc (ensure_not_paused db) (\<lambda>_.
    bindc (current_caller r) (\<lambda>who.
    bindc (get_owner db) (\<lambda>owner.
    bindc (ensure (who = owner) ''Only owner can mint tokens'') (\<lambda>_.
    bindc (contract_in_execution r) (\<lambda>contract.
    bindc (decode_address hx to_addr) (\<lambda>receiver.
    bindc (ensure_non_zero_address receiver ''Cannot mint to zero address'') (\<lambda>_.
    bindc (total_supply db) (\<lambda>current_supply.
    bindc (or_bail (checked_add current_supply amount) ''Total supply overflow'') (\<lambda>new_supply.
    bindc (sstore db SLOT_TOTAL_SUPPLY (u128_to_storage_value new_supply)) (\<lambda>_.
    bindc (read_u128 db (calculate_balance_slot kc receiver)) (\<lambda>to_balance.
    bindc (or_bail (checked_add to_balance amount) ''Balance overflow'') (\<lambda>new_to_balance.
    bindc (sstore db (calculate_balance_slot kc receiver) (u128_to_storage_value new_to_balance)) (\<lambda>_.
      emit_transfer_event kc hx contract (replicate 32 0) receiver amount)))))))))))))"

definition burn :: "(bytes \<Rightarrow> bytes) \<Rightarrow> hexlib \<Rightarrow> contracts_cf \<Rightarrow> Runtime \<Rightarrow> string \<Rightarrow> u128 \<Rightarrow> unit cm" where
  "burn kc hx db r from_addr amount =
    bindc (ensure_not_paused db) (\<lambda>_.
    bindc (current_caller r) (\<lambda>who.
    bindc (decode_address hx from_addr) (\<lambda>sender.
    bindc (if who \<noteq> sender then
        bindc (allowance kc hx db from_addr (hex_encode hx who)) (\<lambda>allowed.
        bindc (ensure (amount \<le> allowed) ''Burn not authorized'') (\<lambda>_.
        bindc (or_bail (checked_sub allowed amount) ''Allowance underflow'') (\<lambda>new_allowance.
          sstore db (calculate_allowance_slot kc sender who) (u128_to_storage_value new_allowance))))
      else ret ()) (\<lambda>_.
    bindc (contract_in_execution r) (\<lambda>contract.
    bindc (read_u128 db (calculate_balance_slot kc sender)) (\<lambda>from_balance.
    bindc (ensure (amount \<le> from_balance) ''Insufficient balance'') (\<lambda>_.
    bindc (or_bail (checked_sub from_balance amount) ''Balance underflow'') (\<lambda>new_from_balance.
    bindc (total_supply db) (\<lambda>current_supply.
    bindc (or_bail (checked_sub current_supply amount) ''Total supply underflow'') (\<lambda>new_supply.
    bindc (sstore db (calculate_balance_slot kc sender) (u128_to_storage_value new_from_balance)) (\<lambda>_.
    bindc (sstore db SLOT_TOTAL_SUPPLY (u128_to_storage_value new_supply)) (\<lambda>_.
      emit_transfer_event kc hx contract sender (replicate 32 0) amount))))))))))))"

section \<open>Rules for the token's steps\<close>

abbreviation amount_at :: "(u64 \<Rightarrow> bytes) \<Rightarrow> u64 \<Rightarrow> u128" where
  "amount_at \<sigma> slot \<equiv> from_le_bytes (take 16 (\<sigma> slot))"

text \<open>What a slot shows after an amount was written to it.\<close>

definition put_amount :: "contracts_cf \<Rightarrow> bytes \<Rightarrow> u64 \<Rightarrow> u128 \<Rightarrow> (u64 \<Rightarrow> bytes) \<Rightarrow> u64 \<Rightarrow> bytes" where
  "put_amount db a slot v \<sigma> = \<sigma>(slot := if v = 0 then db_value db a slot else u128_to_storage_value v)"

lemma u128_values:
  "length (u128_to_storage_value v) = 32" "zero_value (u128_to_storage_value v) \<longleftrightarrow> v = 0"
  "from_le_bytes (take 16 (u128_to_storage_value v)) = v"
proof -
  show l: "from_le_bytes (take 16 (u128_to_storage_value v)) = v"
    by (simp add: u128_to_storage_value_def from_le_bytes_le_bytes take_bit_word_eq_self)
  show "zero_value (u128_to_storage_value v) \<longleftrightarrow> v = 0"
  proof
    assume "zero_value (u128_to_storage_value v)"
    then have "le_bytes 16 v = replicate 16 0"
      by (intro replicate_eqI) (auto simp: u128_to_storage_value_def zero_value_def)
    then have "le_bytes 16 v = le_bytes 16 (0 :: u128)" by (simp add: le_bytes_zero)
    then show "v = 0" by (intro le_bytes_inj [of 16]) simp_all
  qed (simp add: u128_to_storage_value_def le_bytes_zero)
qed (simp add: u128_to_storage_value_def)

lemma amount_put [simp]:
  "amount_at (put_amount db a slot v \<sigma>) t = (if t = slot then (if v = 0 then amount_at (db_value db a) slot else v) else amount_at \<sigma> t)"
  by (simp add: put_amount_def u128_values)

lemma put_amount_other: "t \<noteq> slot \<Longrightarrow> put_amount db a slot v \<sigma> t = \<sigma> t"
  by (simp add: put_amount_def)

lemma wp_amount:
  assumes "stands db x a \<sigma> ev" "\<And>x'. stands db x' a \<sigma> ev \<Longrightarrow> Q (amount_at \<sigma> slot) x'" "\<And>e x'. stands db x' a \<sigma> ev \<Longrightarrow> E e x'"
  shows "wp (bindc (sload db slot) storage_value_to_u128) Q E x"
  using assms stands_length [OF assms(1), of slot] by (auto simp: storage_value_to_u128_def intro: wp_sload)

lemmas wp_read_u128 = wp_amount [folded read_u128_def]
lemmas wp_total_supply = wp_amount [where slot = SLOT_TOTAL_SUPPLY, folded total_supply_def]

lemma wp_put_amount:
  assumes "stands db x a \<sigma> ev" "\<And>x'. stands db x' a (put_amount db a slot v \<sigma>) ev \<Longrightarrow> Q () x'"
    "\<And>e x'. stands db x' a \<sigma> ev \<Longrightarrow> E e x'"
  shows "wp (sstore db slot (u128_to_storage_value v)) Q E x"
  by (rule wp_sstore [OF assms(1) u128_values(1)]) (use assms(2,3) in \<open>simp_all add: put_amount_def u128_values(2)\<close>)

lemma wp_decode_address:
  assumes "\<And>bs. hex_decode hx (strip_0x s) = Some bs \<Longrightarrow> length bs = 32 \<Longrightarrow> Q bs x" "\<And>msg. E (Bail msg) x"
  shows "wp (decode_address hx s) Q E x"
  using assms by (auto simp: decode_address_def split: option.splits)

lemma wp_emit_custom:
  assumes "stands db x a \<sigma> ev" "\<And>x' ev'. stands db x' a \<sigma> ev' \<Longrightarrow> Q () x'"
  shows "wp (emit_custom e) Q E x"
  using assms unfolding emit_custom_def wp_def by (auto simp: stands_def split: prod.splits)

lemma wp_emit_transfer:
  assumes "stands db x a \<sigma> ev" "\<And>x' ev'. stands db x' a \<sigma> ev' \<Longrightarrow> Q () x'"
  shows "wp (emit_transfer_event kc hx c s t amt) Q E x"
  unfolding emit_transfer_event_def by (rule wp_emit_custom [OF assms(1)]) (rule assms(2))

lemma wp_ensure_not_paused:
  assumes "stands db x a \<sigma> ev" "\<And>x'. stands db x' a \<sigma> ev \<Longrightarrow> \<not> storage_value_to_bool (\<sigma> SLOT_PAUSED) \<Longrightarrow> Q () x'"
    "\<And>e x'. stands db x' a \<sigma> ev \<Longrightarrow> E e x'"
  shows "wp (ensure_not_paused db) Q E x"
  unfolding ensure_not_paused_def wp_bind
  by (rule wp_is_paused [OF assms(1)]) (use assms(2,3) in \<open>auto simp: base_slots\<close>)

lemma wp_caller:
  assumes "\<And>f. current_frame r = Some f \<Longrightarrow> Q (caller f) x" "\<And>e. E e x"
  shows "wp (current_caller r) Q E x"
  using assms by (auto simp: wp_current_caller split: option.splits)

lemma wp_contract:
  assumes "\<And>c. current_contract_address r = Some c \<Longrightarrow> Q c x" "\<And>e. E e x"
  shows "wp (contract_in_execution r) Q E x"
  using assms by (auto simp: contract_in_execution_def split: option.splits)

lemmas token_rules = wp_ensure_not_paused wp_caller wp_contract wp_decode_address wp_read_u128 wp_total_supply wp_put_amount
  wp_emit_transfer wp_get_owner

lemma stands_init: "storage_ok db (cs x) \<Longrightarrow> stands db x (contract_address (cs x)) (slot_value db (cs x)) (events x)"
  by (simp add: stands_def)

lemma stands_view: "stands db x a \<sigma> ev \<Longrightarrow> slot_value db (cs x) = \<sigma>"
  by (simp add: stands_def)

text \<open>The slots after a transfer that returned.\<close>

lemma transfer_result:
  assumes s: "stands db x a \<sigma> ev" and t: "transfer kc hx db r to_addr amount x = (Inr (), x')"
  obtains f receiver where "current_frame r = Some f" "hex_decode hx (strip_0x to_addr) = Some receiver"
    "\<not> storage_value_to_bool (\<sigma> SLOT_PAUSED)" "receiver \<noteq> replicate 32 0"
    "amount \<le> amount_at \<sigma> (calculate_balance_slot kc (caller f))"
    "caller f = receiver \<Longrightarrow> slot_value db (cs x') = \<sigma>"
    "caller f \<noteq> receiver \<Longrightarrow> unat (amount_at \<sigma> (calculate_balance_slot kc receiver)) + unat amount < 2 ^ 128 \<and>
      slot_value db (cs x') = put_amount db a (calculate_balance_slot kc receiver) (amount_at \<sigma> (calculate_balance_slot kc receiver) + amount)
        (put_amount db a (calculate_balance_slot kc (caller f)) (amount_at \<sigma> (calculate_balance_slot kc (caller f)) - amount) \<sigma>)"
proof -
  let ?P = "\<lambda>f receiver x'. current_frame r = Some f \<and> hex_decode hx (strip_0x to_addr) = Some receiver \<and>
    \<not> storage_value_to_bool (\<sigma> SLOT_PAUSED) \<and> receiver \<noteq> replicate 32 0 \<and>
    amount \<le> amount_at \<sigma> (calculate_balance_slot kc (caller f)) \<and>
    (caller f = receiver \<longrightarrow> slot_value db (cs x') = \<sigma>) \<and>
    (caller f \<noteq> receiver \<longrightarrow> unat (amount_at \<sigma> (calculate_balance_slot kc receiver)) + unat amount < 2 ^ 128 \<and>
      slot_value db (cs x') = put_amount db a (calculate_balance_slot kc receiver) (amount_at \<sigma> (calculate_balance_slot kc receiver) + amount)
        (put_amount db a (calculate_balance_slot kc (caller f)) (amount_at \<sigma> (calculate_balance_slot kc (caller f)) - amount) \<sigma>))"
  have "wp (transfer kc hx db r to_addr amount) (\<lambda>_ x'. \<exists>f receiver. ?P f receiver x') (\<lambda>_ _. True) x"
    unfolding transfer_def wp_bind ensure_non_zero_address_def wp_ensure wp_or_bail wp_if
    by (rule wp_ensure_not_paused [OF s])
      (auto intro!: token_rules stands_view simp: checked_sub_def checked_add_def add_no_wrap_iff split: option.splits if_splits)
  from wpD(1) [OF this t] that show thesis by blast
qed

text \<open>The slots after a delegated transfer that returned: the allowance is written first, then both
  balances are read and written, the receiver's last.\<close>

lemma transfer_from_result:
  assumes s: "stands db x a \<sigma> ev" and t: "transfer_from kc hx db r from_addr to_addr amount x = (Inr (), x')"
  obtains f sender receiver \<tau> where "current_frame r = Some f"
    "hex_decode hx (strip_0x from_addr) = Some sender" "hex_decode hx (strip_0x to_addr) = Some receiver"
    "amount \<le> amount_at \<sigma> (calculate_allowance_slot kc sender (caller f))"
    "\<tau> = put_amount db a (calculate_allowance_slot kc sender (caller f))
           (amount_at \<sigma> (calculate_allowance_slot kc sender (caller f)) - amount) \<sigma>"
    "amount \<le> amount_at \<tau> (calculate_balance_slot kc sender)"
    "unat (amount_at \<tau> (calculate_balance_slot kc receiver)) + unat amount < 2 ^ 128"
    "slot_value db (cs x') = put_amount db a (calculate_balance_slot kc receiver) (amount_at \<tau> (calculate_balance_slot kc receiver) + amount)
       (put_amount db a (calculate_balance_slot kc sender) (amount_at \<tau> (calculate_balance_slot kc sender) - amount) \<tau>)"
proof -
  let ?P = "\<lambda>f sender receiver \<tau> x'. current_frame r = Some f \<and>
    hex_decode hx (strip_0x from_addr) = Some sender \<and> hex_decode hx (strip_0x to_addr) = Some receiver \<and>
    amount \<le> amount_at \<sigma> (calculate_allowance_slot kc sender (caller f)) \<and>
    \<tau> = put_amount db a (calculate_allowance_slot kc sender (caller f))
           (amount_at \<sigma> (calculate_allowance_slot kc sender (caller f)) - amount) \<sigma> \<and>
    amount \<le> amount_at \<tau> (calculate_balance_slot kc sender) \<and>
    unat (amount_at \<tau> (calculate_balance_slot kc receiver)) + unat amount < 2 ^ 128 \<and>
    slot_value db (cs x') = put_amount db a (calculate_balance_slot kc receiver) (amount_at \<tau> (calculate_balance_slot kc receiver) + amount)
       (put_amount db a (calculate_balance_slot kc sender) (amount_at \<tau> (calculate_balance_slot kc sender) - amount) \<tau>)"
  have "wp (transfer_from kc hx db r from_addr to_addr amount) (\<lambda>_ x'. \<exists>f sender receiver \<tau>. ?P f sender receiver \<tau> x') (\<lambda>_ _. True) x"
    unfolding transfer_from_def wp_bind ensure_non_zero_address_def wp_ensure wp_or_bail
    by (rule wp_ensure_not_paused [OF s])
      (auto intro!: token_rules stands_view simp: checked_sub_def checked_add_def add_no_wrap_iff simp del: amount_put
        split: option.splits if_splits)
  from wpD(1) [OF this t] that show thesis by blast
qed

text \<open>The slots after a mint that returned.\<close>

lemma mint_result:
  assumes s: "stands db x a \<sigma> ev" and t: "mint kc hx db r to_addr amount x = (Inr (), x')"
  obtains f receiver \<tau> where "current_frame r = Some f" "caller f = \<sigma> SLOT_OWNER" "hex_decode hx (strip_0x to_addr) = Some receiver"
    "unat (amount_at \<sigma> SLOT_TOTAL_SUPPLY) + unat amount < 2 ^ 128"
    "\<tau> = put_amount db a SLOT_TOTAL_SUPPLY (amount_at \<sigma> SLOT_TOTAL_SUPPLY + amount) \<sigma>"
    "unat (amount_at \<tau> (calculate_balance_slot kc receiver)) + unat amount < 2 ^ 128"
    "slot_value db (cs x') = put_amount db a (calculate_balance_slot kc receiver) (amount_at \<tau> (calculate_balance_slot kc receiver) + amount) \<tau>"
proof -
  let ?P = "\<lambda>f receiver \<tau> x'. current_frame r = Some f \<and> caller f = \<sigma> SLOT_OWNER \<and> hex_decode hx (strip_0x to_addr) = Some receiver \<and>
    unat (amount_at \<sigma> SLOT_TOTAL_SUPPLY) + unat amount < 2 ^ 128 \<and>
    \<tau> = put_amount db a SLOT_TOTAL_SUPPLY (amount_at \<sigma> SLOT_TOTAL_SUPPLY + amount) \<sigma> \<and>
    unat (amount_at \<tau> (calculate_balance_slot kc receiver)) + unat amount < 2 ^ 128 \<and>
    slot_value db (cs x') = put_amount db a (calculate_balance_slot kc receiver) (amount_at \<tau> (calculate_balance_slot kc receiver) + amount) \<tau>"
  have "wp (mint kc hx db r to_addr amount) (\<lambda>_ x'. \<exists>f receiver \<tau>. ?P f receiver \<tau> x') (\<lambda>_ _. True) x"
    unfolding mint_def wp_bind ensure_non_zero_address_def wp_ensure wp_or_bail
    by (rule wp_ensure_not_paused [OF s])
      (auto intro!: token_rules stands_view simp: checked_add_def add_no_wrap_iff SLOT_OWNER_def simp del: amount_put
        split: option.splits if_splits)
  from wpD(1) [OF this t] that show thesis by blast
qed

text \<open>A token with one committed balance, and an allowance of the same account for itself.\<close>

definition toy_kc :: "bytes \<Rightarrow> bytes" where
  "toy_kc bs = (if length bs = 40 then [bs ! 0, bs ! 32] @ replicate 30 0 else [bs ! 0, bs ! 32, 1] @ replicate 29 0)"

definition toy_token_db :: contracts_cf where
  "toy_token_db =
    [(make_storage_key (replicate 32 1) 0, replicate 32 9),
     (make_storage_key (replicate 32 1) (calculate_balance_slot toy_kc (replicate 32 9)), u128_to_storage_value 50),
     (make_storage_key (replicate 32 1) (calculate_balance_slot toy_kc (replicate 32 98)), u128_to_storage_value 30),
     (make_storage_key (replicate 32 1) (calculate_allowance_slot toy_kc (replicate 32 98) (replicate 32 9)), u128_to_storage_value 40)]"

lemma toy_token_ok: "storage_ok toy_token_db (cs toy_x)"
  by (auto simp: storage_ok_def toy_x_def toy_cs_def db_value_def toy_token_db_def make_storage_key_inj u128_values)

definition toy_alice :: bytes where "toy_alice = replicate 32 9"
definition toy_bob :: bytes where "toy_bob = replicate 32 98"

abbreviation token_balance :: "(bytes \<Rightarrow> bytes) \<Rightarrow> contracts_cf \<Rightarrow> cx \<Rightarrow> bytes \<Rightarrow> u128" where
  "token_balance kc db x who \<equiv> amount_at (slot_value db (cs x)) (calculate_balance_slot kc who)"

lemma toy_token_facts:
  "map_option caller (current_frame toy_owner_rt) = Some toy_alice"
  "hex_decode toy_hexlib (strip_0x ''b'') = Some toy_bob"
  "calculate_balance_slot toy_kc toy_alice \<noteq> calculate_balance_slot toy_kc toy_bob"
  "calculate_allowance_slot toy_kc toy_bob toy_alice \<noteq> calculate_balance_slot toy_kc toy_bob"
  "token_balance toy_kc toy_token_db toy_x toy_alice = 50"
  "token_balance toy_kc toy_token_db toy_x toy_bob = 30"
  "amount_at (db_value toy_token_db (contract_address (cs toy_x))) (calculate_balance_slot toy_kc toy_alice) = 50"
  by code_simp+

lemma toy_token_frame: "\<exists>f. current_frame toy_owner_rt = Some f \<and> caller f = toy_alice"
  using toy_token_facts(1) by (simp only: map_option_eq_Some)

lemma result_of: "fst p = Inr () \<Longrightarrow> \<exists>x'. p = (Inr (), x')"
  by (cases p) auto

section \<open>Properties\<close>

text \<open>C16. A transfer that returns moves the amount: when the two balances have slots of their own and the
  sender keeps something (or has no balance in the database), the sender has the amount less, the
  receiver the amount more, the sum is the same, and no other slot changes.\<close>

theorem transfer_moves:
  assumes ok: "storage_ok db (cs x)" and t: "transfer kc hx db r to_addr amount x = (Inr (), x')"
    and f: "current_frame r = Some f" and d: "hex_decode hx (strip_0x to_addr) = Some receiver"
    and slots: "calculate_balance_slot kc (caller f) \<noteq> calculate_balance_slot kc receiver" and "0 < amount"
    and keeps: "amount < token_balance kc db x (caller f) \<or>
      amount_at (db_value db (contract_address (cs x))) (calculate_balance_slot kc (caller f)) = 0"
  shows "unat (token_balance kc db x' (caller f)) = unat (token_balance kc db x (caller f)) - unat amount
    \<and> unat (token_balance kc db x' receiver) = unat (token_balance kc db x receiver) + unat amount
    \<and> unat (token_balance kc db x' (caller f)) + unat (token_balance kc db x' receiver) =
        unat (token_balance kc db x (caller f)) + unat (token_balance kc db x receiver)
    \<and> (\<forall>s. s \<noteq> calculate_balance_slot kc (caller f) \<and> s \<noteq> calculate_balance_slot kc receiver \<longrightarrow>
         slot_value db (cs x') s = slot_value db (cs x) s)"
proof -
  let ?\<sigma> = "slot_value db (cs x)" and ?a = "contract_address (cs x)" and ?sf = "calculate_balance_slot kc (caller f)"
    and ?st = "calculate_balance_slot kc receiver"
  have ne: "caller f \<noteq> receiver" using slots by auto
  have le: "amount \<le> amount_at ?\<sigma> ?sf" and nw: "unat (amount_at ?\<sigma> ?st) + unat amount < 2 ^ 128"
    and v: "slot_value db (cs x') = put_amount db ?a ?st (amount_at ?\<sigma> ?st + amount) (put_amount db ?a ?sf (amount_at ?\<sigma> ?sf - amount) ?\<sigma>)"
    using transfer_result [OF stands_init [OF ok] t] f d ne by (metis option.inject)+
  have add: "unat (amount_at ?\<sigma> ?st + amount) = unat (amount_at ?\<sigma> ?st) + unat amount" using nw by (simp add: unat_word_ariths)
  then have nz: "amount_at ?\<sigma> ?st + amount \<noteq> 0" using \<open>0 < amount\<close> by (auto simp: word_less_nat_alt unat_eq_0 [symmetric])
  have sub: "unat (amount_at ?\<sigma> ?sf - amount) = unat (amount_at ?\<sigma> ?sf) - unat amount" using le by (simp add: unat_sub)
  have zs: "amount_at ?\<sigma> ?sf - amount = 0 \<Longrightarrow> amount_at (db_value db ?a) ?sf = 0" using keeps le by auto
  have 1: "amount_at (slot_value db (cs x')) ?sf = amount_at ?\<sigma> ?sf - amount" using slots zs by (simp add: v)
  have 2: "amount_at (slot_value db (cs x')) ?st = amount_at ?\<sigma> ?st + amount" using nz by (simp add: v)
  have 3: "\<forall>s. s \<noteq> ?sf \<and> s \<noteq> ?st \<longrightarrow> slot_value db (cs x') s = ?\<sigma> s" by (simp add: v put_amount_other)
  have "unat amount \<le> unat (amount_at ?\<sigma> ?sf)" using le by (simp add: word_le_nat_alt)
  then show ?thesis using 3 unfolding 1 2 add sub by simp
qed

theorem transfer_moves_witness:
  "\<exists>x'. transfer toy_kc toy_hexlib toy_token_db toy_owner_rt ''b'' 20 toy_x = (Inr (), x') \<and>
     unat (token_balance toy_kc toy_token_db x' toy_alice) = 30 \<and> unat (token_balance toy_kc toy_token_db x' toy_bob) = 50"
proof -
  have "fst (transfer toy_kc toy_hexlib toy_token_db toy_owner_rt ''b'' 20 toy_x) = Inr ()" by code_simp
  then obtain x' where t: "transfer toy_kc toy_hexlib toy_token_db toy_owner_rt ''b'' 20 toy_x = (Inr (), x')" using result_of by blast
  obtain f where f: "current_frame toy_owner_rt = Some f" "caller f = toy_alice" using toy_token_frame by blast
  show ?thesis
    using t transfer_moves [OF toy_token_ok t f(1) toy_token_facts(2), unfolded f(2), OF toy_token_facts(3)]
    unfolding toy_token_facts(5,6) by auto
qed

text \<open>A transfer of the whole committed balance duplicates it: the receiver is credited, but the
  sender's balance is written as zero, which shows the balance in the database again.\<close>

theorem full_transfer_duplicates:
  assumes ok: "storage_ok db (cs x)" and t: "transfer kc hx db r to_addr amount x = (Inr (), x')"
    and f: "current_frame r = Some f" and d: "hex_decode hx (strip_0x to_addr) = Some receiver"
    and slots: "calculate_balance_slot kc (caller f) \<noteq> calculate_balance_slot kc receiver" and pos: "0 < amount"
    and full: "amount = token_balance kc db x (caller f)"
    and committed: "amount_at (db_value db (contract_address (cs x))) (calculate_balance_slot kc (caller f)) = amount"
  shows "token_balance kc db x' (caller f) = token_balance kc db x (caller f)
    \<and> unat (token_balance kc db x' receiver) = unat (token_balance kc db x receiver) + unat amount"
proof -
  let ?\<sigma> = "slot_value db (cs x)" and ?a = "contract_address (cs x)" and ?sf = "calculate_balance_slot kc (caller f)"
    and ?st = "calculate_balance_slot kc receiver"
  have ne: "caller f \<noteq> receiver" using slots by auto
  have nw: "unat (amount_at ?\<sigma> ?st) + unat amount < 2 ^ 128"
    and v: "slot_value db (cs x') = put_amount db ?a ?st (amount_at ?\<sigma> ?st + amount) (put_amount db ?a ?sf (amount_at ?\<sigma> ?sf - amount) ?\<sigma>)"
    using transfer_result [OF stands_init [OF ok] t] f d ne by (metis option.inject)+
  have add: "unat (amount_at ?\<sigma> ?st + amount) = unat (amount_at ?\<sigma> ?st) + unat amount" using nw by (simp add: unat_word_ariths)
  then have "amount_at ?\<sigma> ?st + amount \<noteq> 0" using pos by (auto simp: word_less_nat_alt unat_eq_0 [symmetric])
  then show ?thesis using slots full committed add by (simp add: v)
qed

theorem full_transfer_duplicates_witness:
  "\<exists>x'. transfer toy_kc toy_hexlib toy_token_db toy_owner_rt ''b'' 50 toy_x = (Inr (), x') \<and>
     token_balance toy_kc toy_token_db x' toy_alice = 50 \<and> unat (token_balance toy_kc toy_token_db x' toy_bob) = 80"
proof -
  have "fst (transfer toy_kc toy_hexlib toy_token_db toy_owner_rt ''b'' 50 toy_x) = Inr ()" by code_simp
  then obtain x' where t: "transfer toy_kc toy_hexlib toy_token_db toy_owner_rt ''b'' 50 toy_x = (Inr (), x')" using result_of by blast
  obtain f where f: "current_frame toy_owner_rt = Some f" "caller f = toy_alice" using toy_token_frame by blast
  show ?thesis
    using t full_transfer_duplicates [OF toy_token_ok t f(1) toy_token_facts(2), unfolded f(2), OF toy_token_facts(3)]
    unfolding toy_token_facts(5-7) by auto
qed

text \<open>C38. A delegated transfer from an account to itself creates tokens: the receiver's balance is
  computed before the sender's new balance is written, so the account ends with the amount more.\<close>

theorem self_transfer_from_mints:
  assumes ok: "storage_ok db (cs x)" and t: "transfer_from kc hx db r from_addr to_addr amount x = (Inr (), x')"
    and f: "current_frame r = Some f" and d: "hex_decode hx (strip_0x from_addr) = Some who" "hex_decode hx (strip_0x to_addr) = Some who"
    and slots: "calculate_allowance_slot kc who (caller f) \<noteq> calculate_balance_slot kc who" and pos: "0 < amount"
  shows "unat (token_balance kc db x' who) = unat (token_balance kc db x who) + unat amount"
proof -
  let ?\<sigma> = "slot_value db (cs x)" and ?a = "contract_address (cs x)" and ?s = "calculate_balance_slot kc who"
  obtain \<tau> where \<tau>: "\<tau> = put_amount db ?a (calculate_allowance_slot kc who (caller f)) (amount_at ?\<sigma> (calculate_allowance_slot kc who (caller f)) - amount) ?\<sigma>"
    and nw: "unat (amount_at \<tau> ?s) + unat amount < 2 ^ 128"
    and v: "slot_value db (cs x') = put_amount db ?a ?s (amount_at \<tau> ?s + amount) (put_amount db ?a ?s (amount_at \<tau> ?s - amount) \<tau>)"
    using transfer_from_result [OF stands_init [OF ok] t] f d by (metis option.inject)
  have "amount_at \<tau> ?s = amount_at ?\<sigma> ?s" using slots by (simp add: \<tau>)
  moreover have add: "unat (amount_at \<tau> ?s + amount) = unat (amount_at \<tau> ?s) + unat amount" using nw by (simp add: unat_word_ariths)
  moreover from this have "amount_at \<tau> ?s + amount \<noteq> 0" using pos by (auto simp: word_less_nat_alt unat_eq_0 [symmetric])
  ultimately show ?thesis by (simp add: v)
qed

theorem self_transfer_from_mints_witness:
  "\<exists>x'. transfer_from toy_kc toy_hexlib toy_token_db toy_owner_rt ''b'' ''b'' 7 toy_x = (Inr (), x') \<and>
     unat (token_balance toy_kc toy_token_db x' toy_bob) = 37"
proof -
  have "fst (transfer_from toy_kc toy_hexlib toy_token_db toy_owner_rt ''b'' ''b'' 7 toy_x) = Inr ()" by code_simp
  then obtain x' where t: "transfer_from toy_kc toy_hexlib toy_token_db toy_owner_rt ''b'' ''b'' 7 toy_x = (Inr (), x')" using result_of by blast
  obtain f where f: "current_frame toy_owner_rt = Some f" "caller f = toy_alice" using toy_token_frame by blast
  show ?thesis
    using t self_transfer_from_mints [OF toy_token_ok t f(1) toy_token_facts(2,2), unfolded f(2), OF toy_token_facts(4)]
    unfolding toy_token_facts(6) by auto
qed

text \<open>Minting is the owner's: a mint that returns was called by the owner and raises the total supply
  and the receiver's balance by the same amount.\<close>

theorem mint_exact:
  assumes ok: "storage_ok db (cs x)" and t: "mint kc hx db r to_addr amount x = (Inr (), x')"
    and f: "current_frame r = Some f" and d: "hex_decode hx (strip_0x to_addr) = Some receiver"
    and slots: "calculate_balance_slot kc receiver \<noteq> SLOT_TOTAL_SUPPLY" and pos: "0 < amount"
  shows "caller f = slot_value db (cs x) SLOT_OWNER
    \<and> unat (amount_at (slot_value db (cs x')) SLOT_TOTAL_SUPPLY) = unat (amount_at (slot_value db (cs x)) SLOT_TOTAL_SUPPLY) + unat amount
    \<and> unat (token_balance kc db x' receiver) = unat (token_balance kc db x receiver) + unat amount"
proof -
  let ?\<sigma> = "slot_value db (cs x)" and ?a = "contract_address (cs x)" and ?s = "calculate_balance_slot kc receiver"
  obtain \<tau> where o: "caller f = ?\<sigma> SLOT_OWNER" and 1: "unat (amount_at ?\<sigma> SLOT_TOTAL_SUPPLY) + unat amount < 2 ^ 128"
    and \<tau>: "\<tau> = put_amount db ?a SLOT_TOTAL_SUPPLY (amount_at ?\<sigma> SLOT_TOTAL_SUPPLY + amount) ?\<sigma>"
    and 2: "unat (amount_at \<tau> ?s) + unat amount < 2 ^ 128"
    and v: "slot_value db (cs x') = put_amount db ?a ?s (amount_at \<tau> ?s + amount) \<tau>"
    using mint_result [OF stands_init [OF ok] t] f d by (metis option.inject)
  have a1: "unat (amount_at ?\<sigma> SLOT_TOTAL_SUPPLY + amount) = unat (amount_at ?\<sigma> SLOT_TOTAL_SUPPLY) + unat amount"
    and a2: "unat (amount_at \<tau> ?s + amount) = unat (amount_at \<tau> ?s) + unat amount" using 1 2 by (simp_all add: unat_word_ariths)
  then have "amount_at ?\<sigma> SLOT_TOTAL_SUPPLY + amount \<noteq> 0" "amount_at \<tau> ?s + amount \<noteq> 0"
    using pos by (auto simp: word_less_nat_alt unat_eq_0 [symmetric])
  moreover have "amount_at \<tau> ?s = amount_at ?\<sigma> ?s" using slots by (simp add: \<tau>)
  moreover have "amount_at (slot_value db (cs x')) SLOT_TOTAL_SUPPLY = amount_at \<tau> SLOT_TOTAL_SUPPLY" using slots by (simp add: v)
  ultimately show ?thesis using o a1 a2 by (simp add: v) (simp add: \<tau>)
qed

theorem mint_exact_witness:
  "\<exists>x'. mint toy_kc toy_hexlib toy_token_db toy_owner_rt ''b'' 7 toy_x = (Inr (), x') \<and>
     unat (token_balance toy_kc toy_token_db x' toy_bob) = 37"
proof -
  have "fst (mint toy_kc toy_hexlib toy_token_db toy_owner_rt ''b'' 7 toy_x) = Inr ()" by code_simp
  then obtain x' where t: "mint toy_kc toy_hexlib toy_token_db toy_owner_rt ''b'' 7 toy_x = (Inr (), x')" using result_of by blast
  obtain f where f: "current_frame toy_owner_rt = Some f" "caller f = toy_alice" using toy_token_frame by blast
  have "calculate_balance_slot toy_kc toy_bob \<noteq> SLOT_TOTAL_SUPPLY" by code_simp
  then show ?thesis
    using t mint_exact [OF toy_token_ok t f(1) toy_token_facts(2)] unfolding toy_token_facts(6) by auto
qed

end
