(* ===== verification/Savitri721.thy ===== *)
theory Savitri721
  imports Savitri20
begin

text \<open>
  The non-fungible token standard (\<open>Savitri-contracts/src/contracts/standards/savitri721.rs\<close>) over
  contract storage: owner, approval and balance slots by hash, minting, approvals, transfers and token
  URIs over several slots.  The transfers that first call the receiving contract are not modelled.
  Keccak-256 (\<open>kc\<close>) and \<open>hex\<close> are parameters; a URI is its UTF-8 bytes.
\<close>

section \<open>Slots and values\<close>

definition SLOT_TOKEN_OWNERS_BASE :: u64 where "SLOT_TOKEN_OWNERS_BASE = 100"
definition SLOT_TOKEN_BALANCES_BASE :: u64 where "SLOT_TOKEN_BALANCES_BASE = 200"
definition SLOT_TOKEN_APPROVALS_BASE :: u64 where "SLOT_TOKEN_APPROVALS_BASE = 300"
definition SLOT_TOKEN_URIS_BASE :: u64 where "SLOT_TOKEN_URIS_BASE = 400"

definition nft_storage_value_to_u64 :: "bytes \<Rightarrow> u64 cm" where
  "nft_storage_value_to_u64 v = (if length v < 8 then bail ''Storage value too short for u64'' else ret (from_le_bytes (take 8 v)))"

definition encode_address :: "hexlib \<Rightarrow> bytes \<Rightarrow> string" where
  "encode_address hx a = ''0x'' @ hex_encode hx a"

definition token_owner_slot :: "(bytes \<Rightarrow> bytes) \<Rightarrow> u64 \<Rightarrow> u64" where
  "token_owner_slot kc token = from_le_bytes (take 8 (kc (le_bytes 8 SLOT_TOKEN_OWNERS_BASE @ le_bytes 8 token)))"

definition token_approval_slot :: "(bytes \<Rightarrow> bytes) \<Rightarrow> u64 \<Rightarrow> u64" where
  "token_approval_slot kc token = from_le_bytes (take 8 (kc (le_bytes 8 SLOT_TOKEN_APPROVALS_BASE @ le_bytes 8 token)))"

definition token_uri_slot :: "(bytes \<Rightarrow> bytes) \<Rightarrow> u64 \<Rightarrow> u64" where
  "token_uri_slot kc token = from_le_bytes (take 8 (kc (le_bytes 8 SLOT_TOKEN_URIS_BASE @ le_bytes 8 token)))"

definition owner_balance_slot :: "(bytes \<Rightarrow> bytes) \<Rightarrow> bytes \<Rightarrow> u64" where
  "owner_balance_slot kc owner = from_le_bytes (take 8 (kc (owner @ le_bytes 8 SLOT_TOKEN_BALANCES_BASE)))"

definition storage_value_to_address :: "bytes \<Rightarrow> bytes cm" where
  "storage_value_to_address v = bindc (ensure (length v = 32) ''Invalid address value length'') (\<lambda>_. ret v)"

definition nft_emit_transfer :: "(bytes \<Rightarrow> bytes) \<Rightarrow> hexlib \<Rightarrow> bytes \<Rightarrow> bytes \<Rightarrow> bytes \<Rightarrow> u64 \<Rightarrow> unit cm" where
  "nft_emit_transfer kc hx contract sender receiver token = emit_custom
     \<lparr> ce_contract = hex_encode hx contract, event_name = ''Transfer'',
       topics = [kc (str_bytes ''Transfer(address,address,uint256)''), sender, receiver],
       ce_data = u64_to_storage_value token \<rparr>"

definition nft_emit_approval :: "(bytes \<Rightarrow> bytes) \<Rightarrow> hexlib \<Rightarrow> bytes \<Rightarrow> bytes \<Rightarrow> bytes \<Rightarrow> u64 \<Rightarrow> unit cm" where
  "nft_emit_approval kc hx contract owner approved token = emit_custom
     \<lparr> ce_contract = hex_encode hx contract, event_name = ''Approval'',
       topics = [kc (str_bytes ''Approval(address,address,uint256)''), owner, approved],
       ce_data = u64_to_storage_value token \<rparr>"

section \<open>Token operations\<close>

definition read_u64 :: "contracts_cf \<Rightarrow> u64 \<Rightarrow> u64 cm" where
  "read_u64 db slot = bindc (sload db slot) nft_storage_value_to_u64"

text \<open>The owner of a token that exists.\<close>

definition existing_owner :: "(bytes \<Rightarrow> bytes) \<Rightarrow> contracts_cf \<Rightarrow> u64 \<Rightarrow> bytes cm" where
  "existing_owner kc db token =
    bindc (sload db (token_owner_slot kc token)) (\<lambda>v.
    bindc (ensure (\<not> zero_value v) ''Token does not exist'') (\<lambda>_. ret v))"

text \<open>The approved account, none when the slot is zero.\<close>

definition read_approval :: "(bytes \<Rightarrow> bytes) \<Rightarrow> contracts_cf \<Rightarrow> u64 \<Rightarrow> bytes option cm" where
  "read_approval kc db token =
    bindc (sload db (token_approval_slot kc token)) (\<lambda>v.
      if zero_value v then ret None else bindc (storage_value_to_address v) (\<lambda>a. ret (Some a)))"

definition nft_mint :: "(bytes \<Rightarrow> bytes) \<Rightarrow> hexlib \<Rightarrow> contracts_cf \<Rightarrow> Runtime \<Rightarrow> string \<Rightarrow> u64 \<Rightarrow> unit cm" where
  "nft_mint kc hx db r to_addr token =
    bindc (ensure_not_paused db) (\<lambda>_.
    bindc (current_caller r) (\<lambda>who.
    bindc (get_owner db) (\<lambda>owner.
    bindc (ensure (who = owner) ''Only owner can mint tokens'') (\<lambda>_.
    bindc (contract_in_execution r) (\<lambda>contract.
    bindc (decode_address hx to_addr) (\<lambda>receiver.
    bindc (ensure_non_zero_address receiver ''Address cannot be zero'') (\<lambda>_.
    bindc (sload db (token_owner_slot kc token)) (\<lambda>current.
    bindc (ensure (zero_value current) ''Token already minted'') (\<lambda>_.
    bindc (sstore db (token_owner_slot kc token) receiver) (\<lambda>_.
    bindc (read_u64 db (owner_balance_slot kc receiver)) (\<lambda>balance.
    bindc (or_bail (checked_add balance 1) ''Balance overflow'') (\<lambda>new_balance.
    bindc (sstore db (owner_balance_slot kc receiver) (u64_to_storage_value new_balance)) (\<lambda>_.
      nft_emit_transfer kc hx contract (replicate 32 0) receiver token)))))))))))))"

definition nft_balance_of :: "(bytes \<Rightarrow> bytes) \<Rightarrow> hexlib \<Rightarrow> contracts_cf \<Rightarrow> string \<Rightarrow> u64 cm" where
  "nft_balance_of kc hx db owner = bindc (decode_address hx owner) (\<lambda>a. read_u64 db (owner_balance_slot kc a))"

definition owner_of :: "(bytes \<Rightarrow> bytes) \<Rightarrow> hexlib \<Rightarrow> contracts_cf \<Rightarrow> u64 \<Rightarrow> string cm" where
  "owner_of kc hx db token =
    bindc (existing_owner kc db token) (\<lambda>v. bindc (storage_value_to_address v) (\<lambda>a. ret (encode_address hx a)))"

definition get_approved :: "(bytes \<Rightarrow> bytes) \<Rightarrow> hexlib \<Rightarrow> contracts_cf \<Rightarrow> u64 \<Rightarrow> string option cm" where
  "get_approved kc hx db token =
    bindc (existing_owner kc db token) (\<lambda>_.
    bindc (read_approval kc db token) (\<lambda>a. ret (map_option (encode_address hx) a)))"

definition nft_approve :: "(bytes \<Rightarrow> bytes) \<Rightarrow> hexlib \<Rightarrow> contracts_cf \<Rightarrow> Runtime \<Rightarrow> string \<Rightarrow> u64 \<Rightarrow> unit cm" where
  "nft_approve kc hx db r to_addr token =
    bindc (ensure_not_paused db) (\<lambda>_.
    bindc (current_caller r) (\<lambda>who.
    bindc (contract_in_execution r) (\<lambda>contract.
    bindc (existing_owner kc db token) (\<lambda>v.
    bindc (storage_value_to_address v) (\<lambda>owner.
    bindc (ensure (who = owner) ''Only token owner can approve'') (\<lambda>_.
    bindc (decode_address hx to_addr) (\<lambda>approved.
    bindc (ensure (approved \<noteq> owner) ''Cannot approve owner'') (\<lambda>_.
    bindc (sstore db (token_approval_slot kc token) approved) (\<lambda>_.
      nft_emit_approval kc hx contract owner approved token)))))))))"

definition nft_transfer_from :: "(bytes \<Rightarrow> bytes) \<Rightarrow> hexlib \<Rightarrow> contracts_cf \<Rightarrow> Runtime \<Rightarrow> string \<Rightarrow> string \<Rightarrow> u64 \<Rightarrow> unit cm" where
  "nft_transfer_from kc hx db r from_addr to_addr token =
    bindc (ensure_not_paused db) (\<lambda>_.
    bindc (current_caller r) (\<lambda>who.
    bindc (contract_in_execution r) (\<lambda>contract.
    bindc (decode_address hx from_addr) (\<lambda>sender.
    bindc (decode_address hx to_addr) (\<lambda>receiver.
    bindc (ensure_non_zero_address receiver ''Address cannot be zero'') (\<lambda>_.
    bindc (existing_owner kc db token) (\<lambda>v.
    bindc (storage_value_to_address v) (\<lambda>owner.
    bindc (ensure (owner = sender) ''From is not token owner'') (\<lambda>_.
    bindc (read_approval kc db token) (\<lambda>approved.
    bindc (ensure (who = owner \<or> approved = Some who) ''Caller is not owner nor approved'') (\<lambda>_.
      if sender = receiver then nft_emit_transfer kc hx contract sender receiver token
      else
        bindc (sstore db (token_owner_slot kc token) receiver) (\<lambda>_.
        bindc (sstore db (token_approval_slot kc token) (replicate 32 0)) (\<lambda>_.
        bindc (read_u64 db (owner_balance_slot kc sender)) (\<lambda>from_balance.
        bindc (or_bail (checked_sub from_balance 1) ''Balance underflow'') (\<lambda>new_from_balance.
        bindc (sstore db (owner_balance_slot kc sender) (u64_to_storage_value new_from_balance)) (\<lambda>_.
        bindc (read_u64 db (owner_balance_slot kc receiver)) (\<lambda>to_balance.
        bindc (or_bail (checked_add to_balance 1) ''Balance overflow'') (\<lambda>new_to_balance.
        bindc (sstore db (owner_balance_slot kc receiver) (u64_to_storage_value new_to_balance)) (\<lambda>_.
          nft_emit_transfer kc hx contract sender receiver token)))))))))))))))))))"

section \<open>Token URIs\<close>

text \<open>The chunks after the first slot, from an offset of the base slot.\<close>

fun write_uri_chunks :: "contracts_cf \<Rightarrow> u64 \<Rightarrow> u64 \<Rightarrow> bytes list \<Rightarrow> unit cm" where
  "write_uri_chunks db base off [] = ret ()"
| "write_uri_chunks db base off (c # css) =
    bindc (or_bail (checked_add base off) ''Slot overflow for URI storage'') (\<lambda>slot.
    bindc (sstore db slot (pad32 c)) (\<lambda>_.
    bindc (or_bail (checked_add off 1) ''Too many slots for URI'') (\<lambda>off'.
      write_uri_chunks db base off' css)))"

definition write_uri_to_storage :: "contracts_cf \<Rightarrow> u64 \<Rightarrow> bytes \<Rightarrow> unit cm" where
  "write_uri_to_storage db base uri =
    bindc (sstore db base (pad32 (le_bytes 8 (word_of_nat (length uri) :: u64) @ take 24 uri))) (\<lambda>_.
      write_uri_chunks db base 1 (chunks 32 (drop 24 uri)))"

fun read_uri_chunks :: "contracts_cf \<Rightarrow> u64 \<Rightarrow> u64 \<Rightarrow> nat \<Rightarrow> bytes cm" where
  "read_uri_chunks db base off remaining =
    (if remaining = 0 then ret []
     else
       bindc (or_bail (checked_add base off) ''Slot overflow reading URI'') (\<lambda>slot.
       bindc (sload db slot) (\<lambda>v.
       bindc (or_bail (checked_add off 1) ''Too many slots reading URI'') (\<lambda>off'.
       bindc (read_uri_chunks db base off' (remaining - 32)) (\<lambda>rest. ret (take (min 32 remaining) v @ rest))))))"

declare read_uri_chunks.simps [simp del]

text \<open>A stored length beyond the largest allocation panics.\<close>

definition read_uri_from_storage :: "contracts_cf \<Rightarrow> u64 \<Rightarrow> bytes cm" where
  "read_uri_from_storage db base =
    bindc (sload db base) (\<lambda>v.
    bindc (ensure (8 \<le> length v) ''Invalid URI storage: first slot too short'') (\<lambda>_.
      (let len = unat (from_le_bytes (take 8 v) :: u64) in
       if len = 0 then ret []
       else if 2 ^ 63 \<le> len then panic
       else
         bindc (if len \<le> 24 then ret (take len (drop 8 v))
                else bindc (read_uri_chunks db base 1 (len - 24)) (\<lambda>rest. ret (take 24 (drop 8 v) @ rest))) (\<lambda>uri.
         bindc (ensure (utf8_valid uri) ''Invalid UTF-8 in token URI'') (\<lambda>_. ret uri)))))"

definition set_token_uri :: "(bytes \<Rightarrow> bytes) \<Rightarrow> contracts_cf \<Rightarrow> Runtime \<Rightarrow> u64 \<Rightarrow> bytes \<Rightarrow> unit cm" where
  "set_token_uri kc db r token uri =
    bindc (ensure_not_paused db) (\<lambda>_.
    bindc (current_caller r) (\<lambda>who.
    bindc (existing_owner kc db token) (\<lambda>v.
    bindc (storage_value_to_address v) (\<lambda>owner.
    bindc (ensure (who = owner) ''Only token owner can set token URI'') (\<lambda>_.
      write_uri_to_storage db (token_uri_slot kc token) uri)))))"

definition token_uri :: "(bytes \<Rightarrow> bytes) \<Rightarrow> contracts_cf \<Rightarrow> u64 \<Rightarrow> bytes cm" where
  "token_uri kc db token =
    bindc (existing_owner kc db token) (\<lambda>_. read_uri_from_storage db (token_uri_slot kc token))"

section \<open>Rules for the token's steps\<close>

abbreviation count_at :: "(u64 \<Rightarrow> bytes) \<Rightarrow> u64 \<Rightarrow> u64" where
  "count_at \<sigma> slot \<equiv> from_le_bytes (take 8 (\<sigma> slot))"

text \<open>What a slot shows after a value was written to it.\<close>

definition put_value :: "contracts_cf \<Rightarrow> bytes \<Rightarrow> u64 \<Rightarrow> bytes \<Rightarrow> (u64 \<Rightarrow> bytes) \<Rightarrow> u64 \<Rightarrow> bytes" where
  "put_value db a slot v \<sigma> = \<sigma>(slot := if zero_value v then db_value db a slot else v)"

lemma put_value_apply [simp]:
  "put_value db a slot v \<sigma> t = (if t = slot then (if zero_value v then db_value db a slot else v) else \<sigma> t)"
  by (simp add: put_value_def)

lemma u64_values:
  "length (u64_to_storage_value v) = 32" "zero_value (u64_to_storage_value v) \<longleftrightarrow> v = 0"
  "from_le_bytes (take 8 (u64_to_storage_value v)) = v"
proof -
  show "zero_value (u64_to_storage_value v) \<longleftrightarrow> v = 0"
  proof
    assume "zero_value (u64_to_storage_value v)"
    then have "le_bytes 8 v = le_bytes 8 (0 :: u64)"
      unfolding le_bytes_zero by (intro replicate_eqI) (auto simp: u64_to_storage_value_def zero_value_def)
    then show "v = 0" by (intro le_bytes_inj [of 8]) simp_all
  qed (simp add: u64_to_storage_value_def le_bytes_zero)
qed (simp_all add: u64_to_storage_value_def from_le_bytes_le_bytes take_bit_word_eq_self)

lemma word_le_plus_1: "(n :: 'a::len word) \<le> n + 1 \<longleftrightarrow> n + 1 \<noteq> 0"
proof (cases "n + 1 = 0")
  case False
  then have "unat (n + 1) = Suc (unat n)" by (metis unatSuc add.commute)
  then show ?thesis using False by (simp add: word_le_nat_alt)
qed (auto simp: word_le_nat_alt unat_eq_0)

lemma unat_step: "n \<noteq> 0 \<Longrightarrow> unat (n - 1) + 1 = unat n" "n + 1 \<noteq> 0 \<Longrightarrow> unat (n + 1) = unat n + 1" for n :: "'a::len word"
  using unat_minus_one [of n] unat_gt_0 [of n] unatSuc [of n] by (simp_all add: add.commute)

lemma wp_put_value:
  assumes "stands db x a \<sigma> ev" "length v = 32"
    "\<And>x'. 99 < slot \<Longrightarrow> stands db x' a (put_value db a slot v \<sigma>) ev \<Longrightarrow> Q () x'" "\<And>e x'. stands db x' a \<sigma> ev \<Longrightarrow> E e x'"
  shows "wp (sstore db slot v) Q E x"
  by (rule wp_sstore [OF assms(1,2)]) (use assms(3,4) in \<open>simp_all add: put_value_def\<close>)

lemma wp_read_u64:
  assumes "stands db x a \<sigma> ev" "\<And>x'. stands db x' a \<sigma> ev \<Longrightarrow> Q (count_at \<sigma> slot) x'" "\<And>e x'. stands db x' a \<sigma> ev \<Longrightarrow> E e x'"
  shows "wp (read_u64 db slot) Q E x"
  unfolding read_u64_def using assms stands_length [OF assms(1), of slot]
  by (auto simp: nft_storage_value_to_u64_def intro: wp_sload)

lemma wp_existing_owner:
  assumes "stands db x a \<sigma> ev"
    "\<And>x'. stands db x' a \<sigma> ev \<Longrightarrow> \<not> zero_value (\<sigma> (token_owner_slot kc token)) \<Longrightarrow> Q (\<sigma> (token_owner_slot kc token)) x'"
    "\<And>g x'. stands db x' a \<sigma> ev \<Longrightarrow> E (GasFailed g) x'"
    "\<And>x'. stands db x' a \<sigma> ev \<Longrightarrow> zero_value (\<sigma> (token_owner_slot kc token)) \<Longrightarrow> E (Bail ''Token does not exist'') x'"
  shows "wp (existing_owner kc db token) Q E x"
  unfolding existing_owner_def wp_bind by (rule wp_sload [OF assms(1)]) (use assms in auto)

lemma wp_read_approval:
  assumes "stands db x a \<sigma> ev"
    "\<And>x'. stands db x' a \<sigma> ev \<Longrightarrow>
       Q (if zero_value (\<sigma> (token_approval_slot kc token)) then None else Some (\<sigma> (token_approval_slot kc token))) x'"
    "\<And>e x'. stands db x' a \<sigma> ev \<Longrightarrow> E e x'"
  shows "wp (read_approval kc db token) Q E x"
  unfolding read_approval_def wp_bind
  by (rule wp_sload [OF assms(1)])
    (use assms stands_length [OF assms(1)] in \<open>auto simp: storage_value_to_address_def split: if_splits\<close>)

lemma wp_nft_emit:
  assumes "stands db x a \<sigma> ev" "\<And>x' ev'. stands db x' a \<sigma> ev' \<Longrightarrow> Q () x'"
  shows "wp (nft_emit_transfer kc hx c s t token) Q E x" "wp (nft_emit_approval kc hx c s t token) Q E x"
  unfolding nft_emit_transfer_def nft_emit_approval_def by (rule wp_emit_custom [OF assms(1)], erule assms(2))+

lemmas nft_rules = contract_rules wp_caller wp_contract wp_decode_address
lemmas nft_steps = wp_ensure_not_paused wp_get_owner wp_sload wp_read_u64 wp_put_value wp_existing_owner wp_read_approval wp_nft_emit

text \<open>The slots during a transfer between two accounts: the owner written and the approval cleared, the
  balance of the sender lowered, the balance of the receiver raised.\<close>

definition nft_cleared :: "(bytes \<Rightarrow> bytes) \<Rightarrow> contracts_cf \<Rightarrow> bytes \<Rightarrow> u64 \<Rightarrow> bytes \<Rightarrow> (u64 \<Rightarrow> bytes) \<Rightarrow> u64 \<Rightarrow> bytes" where
  "nft_cleared kc db a token receiver \<sigma> =
    put_value db a (token_approval_slot kc token) (replicate 32 0) (put_value db a (token_owner_slot kc token) receiver \<sigma>)"

definition nft_debited :: "(bytes \<Rightarrow> bytes) \<Rightarrow> contracts_cf \<Rightarrow> bytes \<Rightarrow> bytes \<Rightarrow> (u64 \<Rightarrow> bytes) \<Rightarrow> u64 \<Rightarrow> bytes" where
  "nft_debited kc db a sender \<tau> =
    put_value db a (owner_balance_slot kc sender) (u64_to_storage_value (count_at \<tau> (owner_balance_slot kc sender) - 1)) \<tau>"

definition nft_credited :: "(bytes \<Rightarrow> bytes) \<Rightarrow> contracts_cf \<Rightarrow> bytes \<Rightarrow> bytes \<Rightarrow> (u64 \<Rightarrow> bytes) \<Rightarrow> u64 \<Rightarrow> bytes" where
  "nft_credited kc db a receiver \<tau> =
    put_value db a (owner_balance_slot kc receiver) (u64_to_storage_value (count_at \<tau> (owner_balance_slot kc receiver) + 1)) \<tau>"

text \<open>A transfer that returned: who called it, and the slots it leaves.\<close>

lemma nft_transfer_result:
  assumes s: "stands db x a \<sigma> ev" and t: "nft_transfer_from kc hx db r from_addr to_addr token x = (Inr (), x')"
    and f: "current_frame r = Some f" and d: "hex_decode hx (strip_0x from_addr) = Some sender" "hex_decode hx (strip_0x to_addr) = Some receiver"
  shows "length receiver = 32 \<and> receiver \<noteq> replicate 32 0 \<and> sender = \<sigma> (token_owner_slot kc token) \<and> \<not> zero_value sender \<and>
    (caller f = sender \<or> caller f = \<sigma> (token_approval_slot kc token) \<and> \<not> zero_value (caller f)) \<and>
    (sender = receiver \<longrightarrow> (\<exists>ev'. stands db x' a \<sigma> ev')) \<and>
    (sender \<noteq> receiver \<longrightarrow>
      count_at (nft_cleared kc db a token receiver \<sigma>) (owner_balance_slot kc sender) \<noteq> 0 \<and>
      count_at (nft_debited kc db a sender (nft_cleared kc db a token receiver \<sigma>)) (owner_balance_slot kc receiver) + 1 \<noteq> 0 \<and>
      (\<exists>ev'. stands db x' a (nft_credited kc db a receiver (nft_debited kc db a sender (nft_cleared kc db a token receiver \<sigma>))) ev'))"
    (is "?P x'")
proof -
  have "wp (nft_transfer_from kc hx db r from_addr to_addr token) (\<lambda>_. ?P) (\<lambda>_ _. True) x"
    unfolding nft_transfer_from_def ensure_non_zero_address_def storage_value_to_address_def using s f d
    by - (rule TrueI | rule nft_rules | erule nft_steps | (simp add: u64_values; fail)
      | (force simp: checked_sub_def checked_add_def nft_cleared_def nft_debited_def nft_credited_def word_le_plus_1 simp del: put_value_apply
          split: if_splits))+
  from wpD(1) [OF this t] show ?thesis .
qed

text \<open>The chunks of a list by position.\<close>

lemma chunks_nth: "0 < n \<Longrightarrow> i * n < length bs \<Longrightarrow> i < length (chunks n bs) \<and> chunks n bs ! i = take n (drop (i * n) bs)"
proof (induction n bs arbitrary: i rule: chunks.induct)
  case (1 n bs)
  show ?case
  proof (cases i)
    case (Suc j)
    have "j * n < length (drop n bs)" using 1(3) Suc by (simp add: less_diff_conv add.commute)
    then show ?thesis using 1 Suc by (subst (1 2) chunks.simps) (auto simp: add.commute)
  qed (use 1 in \<open>simp add: chunks.simps [of n bs]\<close>)
qed

lemma length_chunks: "0 < n \<Longrightarrow> i < length (chunks n bs) \<Longrightarrow> i * n < length bs"
proof (induction n bs arbitrary: i rule: chunks.induct)
  case (1 n bs)
  then have ne: "bs \<noteq> []" by (auto simp: chunks.simps)
  show ?case
  proof (cases i)
    case (Suc j)
    then have "j * n < length (drop n bs)" using 1 ne by (simp add: chunks.simps [of n bs])
    then show ?thesis using Suc by simp
  qed (use ne in simp)
qed

lemma set_chunks_length: "c \<in> set (chunks n bs) \<Longrightarrow> length c \<le> n"
  by (induction n bs rule: chunks.induct) (subst (asm) (2) chunks.simps, auto split: if_splits)

text \<open>Slots of one URI are those after the base slot that do not wrap around.\<close>

definition uri_at :: "u64 \<Rightarrow> u64 \<Rightarrow> bytes list \<Rightarrow> (u64 \<Rightarrow> bytes) \<Rightarrow> bool" where
  "uri_at base off css \<sigma> \<longleftrightarrow> (\<forall>i < length css. unat base + unat off + i < 2 ^ 64 \<and> unat off + i + 1 < 2 ^ 64 \<and>
     \<sigma> (base + off + word_of_nat i) = pad32 (css ! i))"

lemma checked_add_Some: "checked_add a b = Some c \<longleftrightarrow> unat a + unat b < 2 ^ LENGTH('a) \<and> c = (a + b :: 'a::len word)"
  by (auto simp: checked_add_def add_no_wrap_iff)

lemma uri_at_Cons:
  assumes "unat base + unat off < 2 ^ 64" "unat off + 1 < 2 ^ 64" "\<sigma> (base + off) = pad32 c" "uri_at base (off + 1) css \<sigma>"
  shows "uri_at base off (c # css) \<sigma>"
proof -
  have o: "unat (off + 1) = unat off + 1" using assms(2) by (simp add: unat_word_ariths)
  show ?thesis
    using assms o unfolding uri_at_def by (auto simp: less_Suc_eq_0_disj algebra_simps)
qed

lemma uri_at_ConsD:
  assumes "uri_at base off (c # css) \<sigma>"
  shows "unat base + unat off < 2 ^ 64" "unat off + 1 < 2 ^ 64" "\<sigma> (base + off) = pad32 c" "uri_at base (off + 1) css \<sigma>"
proof -
  have 0: "unat base + unat off + i < 2 ^ 64 \<and> unat off + i + 1 < 2 ^ 64 \<and> \<sigma> (base + off + word_of_nat i) = pad32 ((c # css) ! i)"
    if "i < Suc (length css)" for i
    using assms that unfolding uri_at_def by simp
  show "unat base + unat off < 2 ^ 64" "unat off + 1 < 2 ^ 64" "\<sigma> (base + off) = pad32 c" using 0 [of 0] by simp_all
  then have o: "unat (off + 1) = unat off + 1" by (simp add: unat_word_ariths)
  show "uri_at base (off + 1) css \<sigma>" unfolding uri_at_def o using 0 [of "Suc i" for i] by (auto simp: algebra_simps)
qed

lemma uri_slot_neq:
  assumes "unat base + unat off + i < 2 ^ 64" "unat base + unat off + j < 2 ^ 64" "i \<noteq> j"
  shows "(base :: u64) + off + word_of_nat i \<noteq> base + off + word_of_nat j"
proof -
  have "unat (base + off + word_of_nat k) = unat base + unat off + k" if "unat base + unat off + k < 2 ^ 64" for k
    using that by (simp add: unat_word_ariths unat_of_nat)
  then show ?thesis using assms by (metis add_left_cancel)
qed

lemma wp_write_uri_chunks:
  assumes "stands db x a \<sigma> ev" "\<forall>c \<in> set css. length c \<le> 32 \<and> \<not> zero_value c"
  shows "wp (write_uri_chunks db base off css)
    (\<lambda>_ x'. \<exists>\<sigma>'. stands db x' a \<sigma>' ev \<and> uri_at base off css \<sigma>' \<and>
       (\<forall>s. (\<forall>i < length css. s \<noteq> base + off + word_of_nat i) \<longrightarrow> \<sigma>' s = \<sigma> s)) (\<lambda>_ _. True) x"
  using assms
proof (induction css arbitrary: off \<sigma> x)
  case (Cons c css)
  have l: "length (pad32 c) = 32" "\<not> zero_value (pad32 c)" using Cons.prems(2) by (auto simp: pad32_def)
  let ?\<tau> = "put_value db a (base + off) (pad32 c) \<sigma>"
  have step: "wp (write_uri_chunks db base (off + 1) css)
      (\<lambda>_ x'. \<exists>\<sigma>'. stands db x' a \<sigma>' ev \<and> uri_at base off (c # css) \<sigma>' \<and>
        (\<forall>s. (\<forall>i < length (c # css). s \<noteq> base + off + word_of_nat i) \<longrightarrow> \<sigma>' s = \<sigma> s)) (\<lambda>_ _. True) x'"
    if st: "stands db x' a ?\<tau> ev" and b: "unat base + unat off < 2 ^ 64" "unat off + 1 < 2 ^ 64" for x'
  proof (rule wp_weaken [OF Cons.IH [OF st]])
    have o: "unat (off + 1) = unat off + 1" using b(2) by (simp add: unat_word_ariths)
    fix v x'' assume "\<exists>\<sigma>'. stands db x'' a \<sigma>' ev \<and> uri_at base (off + 1) css \<sigma>' \<and>
       (\<forall>s. (\<forall>i < length css. s \<noteq> base + (off + 1) + word_of_nat i) \<longrightarrow> \<sigma>' s = ?\<tau> s)"
    then obtain \<sigma>' where 1: "stands db x'' a \<sigma>' ev" "uri_at base (off + 1) css \<sigma>'"
      and 2: "\<And>s. \<forall>i < length css. s \<noteq> base + (off + 1) + word_of_nat i \<Longrightarrow> \<sigma>' s = ?\<tau> s" by blast
    have shift: "base + (off + 1) + word_of_nat i = base + off + word_of_nat (Suc i)" for i by (simp add: algebra_simps)
    have "base + off \<noteq> base + (off + 1) + word_of_nat i" if "i < length css" for i
      using uri_slot_neq [of base off 0 "Suc i"] 1(2) that o b(1) unfolding uri_at_def shift by auto
    then have "\<sigma>' (base + off) = pad32 c" using 2 [of "base + off"] l(2) by simp
    then have "uri_at base off (c # css) \<sigma>'" using b 1(2) by (intro uri_at_Cons)
    moreover have "\<sigma>' s = \<sigma> s" if s: "\<forall>i < length (c # css). s \<noteq> base + off + word_of_nat i" for s
    proof -
      have "s \<noteq> base + off" using s [rule_format, of 0] by simp
      moreover have "\<forall>i < length css. s \<noteq> base + (off + 1) + word_of_nat i" using s unfolding shift by auto
      ultimately show ?thesis using 2 by simp
    qed
    ultimately show "\<exists>\<sigma>'. stands db x'' a \<sigma>' ev \<and> uri_at base off (c # css) \<sigma>' \<and>
        (\<forall>s. (\<forall>i < length (c # css). s \<noteq> base + off + word_of_nat i) \<longrightarrow> \<sigma>' s = \<sigma> s)" using 1(1) by blast
  qed (use Cons.prems(2) in auto)
  show ?case
    unfolding write_uri_chunks.simps using Cons.prems(1) l(1)
    by - (rule contract_rules TrueI | erule wp_put_value | (simp; fail) | (simp only: checked_add_Some, rule step, auto))+
qed (auto simp: uri_at_def)

lemma wp_read_uri_chunks:
  assumes "stands db x a \<sigma> ev" "uri_at base off (chunks 32 bs) \<sigma>"
  shows "wp (read_uri_chunks db base off (length bs)) (\<lambda>v x'. v = bs \<and> stands db x' a \<sigma> ev) (\<lambda>e _. \<exists>g. e = GasFailed g) x"
  using assms
proof (induction "32 :: nat" bs arbitrary: off x rule: chunks.induct)
  case (1 bs)
  show ?case
  proof (cases "bs = []")
    case False
    let ?Q = "\<lambda>v x'. v = bs \<and> stands db x' a \<sigma> ev" and ?E = "\<lambda>e _. \<exists>g. e = GasFailed g"
    have "uri_at base off (take 32 bs # chunks 32 (drop 32 bs)) \<sigma>" using 1(3) False by (simp add: chunks.simps [of 32 bs])
    note u = uri_at_ConsD [OF this]
    have tk: "take (min 32 (length bs)) (pad32 (take 32 bs)) = take 32 bs" by (simp add: pad32_def min_def)
    have c: "checked_add base off = Some (base + off)" "checked_add off 1 = Some (off + 1)"
      using u(1,2) by (simp_all add: checked_add_Some)
    have step: "wp (bindc (read_uri_chunks db base (off + 1) (length bs - 32)) (\<lambda>rest. ret (take 32 bs @ rest))) ?Q ?E x'"
      if "stands db x' a \<sigma> ev" for x'
    proof -
      have "\<not> (32 = (0 :: nat) \<or> bs = [])" using False by simp
      from 1(1) [OF this that u(4)] have "wp (read_uri_chunks db base (off + 1) (length bs - 32))
          (\<lambda>v x'. v = drop 32 bs \<and> stands db x' a \<sigma> ev) ?E x'" by simp
      then show ?thesis unfolding wp_bind by (rule wp_weaken) (auto simp: append_take_drop_id)
    qed
    show ?thesis
      by (subst read_uri_chunks.simps) (use False c u(3) tk step in \<open>auto intro!: wp_sload [OF 1(2)]\<close>)
  qed (use 1 in \<open>simp add: read_uri_chunks.simps\<close>)
qed

lemma distinct_slots:
  assumes "distinct [a, b, c, d]"
  shows "a \<noteq> b" "a \<noteq> c" "a \<noteq> d" "b \<noteq> c" "b \<noteq> d" "c \<noteq> d" "b \<noteq> a" "c \<noteq> a" "d \<noteq> a" "c \<noteq> b" "d \<noteq> b" "d \<noteq> c"
  using assms by auto

lemma wp_write_uri:
  assumes st: "stands db x a \<sigma> ev" and u: "uri \<noteq> []" "length uri < 2 ^ 63" "\<forall>c \<in> set (chunks 32 (drop 24 uri)). \<not> zero_value c"
  shows "wp (write_uri_to_storage db base uri)
    (\<lambda>_ x'. \<exists>\<sigma>'. stands db x' a \<sigma>' ev \<and> \<sigma>' base = pad32 (le_bytes 8 (word_of_nat (length uri) :: u64) @ take 24 uri) \<and>
       uri_at base 1 (chunks 32 (drop 24 uri)) \<sigma>' \<and> (\<forall>s. (\<forall>i \<le> length uri. s \<noteq> base + word_of_nat i) \<longrightarrow> \<sigma>' s = \<sigma> s))
    (\<lambda>_ _. True) x"
proof -
  let ?w = "word_of_nat (length uri) :: u64" and ?css = "chunks 32 (drop 24 uri)"
  let ?first = "pad32 (le_bytes 8 ?w @ take 24 uri)"
  have "?w \<noteq> 0" using u(1,2) by (simp add: word_of_nat_eq_0_iff nat_dvd_not_less)
  then have "\<not> zero_value (le_bytes 8 ?w)" using u64_values(2) [of ?w] by (simp add: u64_to_storage_value_def)
  then have f: "length ?first = 32" "\<not> zero_value ?first" by (simp_all add: pad32_def)
  have cs: "\<forall>c \<in> set ?css. length c \<le> 32 \<and> \<not> zero_value c"
    using u(3) set_chunks_length by blast
  have few: "Suc i \<le> length uri" if "i < length ?css" for i using length_chunks [OF _ that] by simp
  have "wp (write_uri_chunks db base 1 ?css) (\<lambda>_ x'. \<exists>\<sigma>'. stands db x' a \<sigma>' ev \<and> \<sigma>' base = ?first \<and>
       uri_at base 1 ?css \<sigma>' \<and> (\<forall>s. (\<forall>i \<le> length uri. s \<noteq> base + word_of_nat i) \<longrightarrow> \<sigma>' s = \<sigma> s)) (\<lambda>_ _. True) x'"
    if st': "stands db x' a (put_value db a base ?first \<sigma>) ev" for x'
  proof (rule wp_weaken [OF wp_write_uri_chunks [OF st' cs, of base 1]])
    fix v x'' assume "\<exists>\<sigma>'. stands db x'' a \<sigma>' ev \<and> uri_at base 1 ?css \<sigma>' \<and>
       (\<forall>s. (\<forall>i < length ?css. s \<noteq> base + 1 + word_of_nat i) \<longrightarrow> \<sigma>' s = put_value db a base ?first \<sigma> s)"
    then obtain \<sigma>' where 1: "stands db x'' a \<sigma>' ev" "uri_at base 1 ?css \<sigma>'"
      and 2: "\<And>s. \<forall>i < length ?css. s \<noteq> base + 1 + word_of_nat i \<Longrightarrow> \<sigma>' s = put_value db a base ?first \<sigma> s" by blast
    have shift: "base + 1 + word_of_nat i = base + word_of_nat (Suc i)" for i by (simp add: algebra_simps)
    have "base \<noteq> base + 1 + word_of_nat i" if "i < length ?css" for i
      using uri_slot_neq [of base 0 0 "Suc i"] 1(2) that unfolding uri_at_def shift by auto
    then have "\<sigma>' base = ?first" using 2 [of base] f(2) by simp
    moreover have "\<sigma>' s = \<sigma> s" if s: "\<forall>i \<le> length uri. s \<noteq> base + word_of_nat i" for s
    proof -
      have "s \<noteq> base" using s [rule_format, of 0] by simp
      moreover have "\<forall>i < length ?css. s \<noteq> base + 1 + word_of_nat i" using s few unfolding shift by blast
      ultimately show ?thesis using 2 by simp
    qed
    ultimately show "\<exists>\<sigma>'. stands db x'' a \<sigma>' ev \<and> \<sigma>' base = ?first \<and> uri_at base 1 ?css \<sigma>' \<and>
      (\<forall>s. (\<forall>i \<le> length uri. s \<noteq> base + word_of_nat i) \<longrightarrow> \<sigma>' s = \<sigma> s)" using 1 by blast
  qed simp
  then show ?thesis
    unfolding write_uri_to_storage_def wp_bind by (intro wp_put_value [OF st f(1)]) auto
qed

lemma wp_read_uri:
  assumes st: "stands db x a \<sigma> ev" and u: "uri \<noteq> []" "length uri < 2 ^ 63" "utf8_valid uri"
    and s: "\<sigma> base = pad32 (le_bytes 8 (word_of_nat (length uri) :: u64) @ take 24 uri)" "uri_at base 1 (chunks 32 (drop 24 uri)) \<sigma>"
  shows "wp (read_uri_from_storage db base) (\<lambda>v _. v = uri) (\<lambda>e _. \<exists>g. e = GasFailed g) x"
proof -
  let ?E = "\<lambda>e (_ :: cx). \<exists>g. e = GasFailed g"
  have len: "unat (from_le_bytes (take 8 (\<sigma> base)) :: u64) = length uri"
    using u(2) by (simp add: s(1) pad32_def from_le_bytes_le_bytes take_bit_word_eq_self unat_of_nat)
  have d: "drop 8 (\<sigma> base) = take 24 uri @ replicate (24 - length (take 24 uri)) 0" by (simp add: s(1) pad32_def)
  have long: "wp (read_uri_chunks db base 1 (length uri - 24)) (\<lambda>rest _. take 24 (drop 8 (\<sigma> base)) @ rest = uri) ?E x'"
    if "24 < length uri" "stands db x' a \<sigma> ev" for x'
    by (rule wp_weaken [OF wp_read_uri_chunks [OF that(2) s(2), unfolded length_drop]]) (use that(1) in \<open>simp_all add: d\<close>)
  have short: "take (length uri) (drop 8 (\<sigma> base)) = uri" if "length uri \<le> 24" using that by (simp add: d)
  show ?thesis
    unfolding read_uri_from_storage_def Let_def using st
    by - (rule contract_rules | erule wp_sload | (simp add: len u short stands_length; fail) | (use len u(2) in linarith)
      | (simp only: len, rule wp_weaken [OF long], simp_all add: u; fail))+
qed

text \<open>A contract with one token, its owner's balance of two and an approval of the runtime's caller, all
  committed.\<close>

definition toy_nft_kc :: "bytes \<Rightarrow> bytes" where
  "toy_nft_kc bs = (if length bs = 16 then [bs ! 0, bs ! 1, bs ! 8, 1] else [bs ! 0, bs ! 32, 0, 2]) @ replicate 28 0"

definition toy_carol :: bytes where "toy_carol = replicate 32 97"

definition toy_nft_db :: contracts_cf where
  "toy_nft_db =
    [(make_storage_key (replicate 32 1) (token_owner_slot toy_nft_kc 5), toy_carol),
     (make_storage_key (replicate 32 1) (token_approval_slot toy_nft_kc 5), toy_alice),
     (make_storage_key (replicate 32 1) (owner_balance_slot toy_nft_kc toy_carol), u64_to_storage_value 2)]"

definition toy_uri_db :: contracts_cf where
  "toy_uri_db = [(make_storage_key (replicate 32 1) (token_owner_slot toy_nft_kc 5), toy_alice)]"

lemma toy_nft_ok: "storage_ok toy_nft_db (cs toy_x)"
  by (auto simp: storage_ok_def toy_x_def toy_cs_def db_value_def toy_nft_db_def make_storage_key_inj u64_values toy_carol_def toy_alice_def)

lemma toy_nft_facts:
  "hex_decode toy_hexlib (strip_0x ''a'') = Some toy_carol"
  "distinct [token_owner_slot toy_nft_kc 5, token_approval_slot toy_nft_kc 5, owner_balance_slot toy_nft_kc toy_carol,
     owner_balance_slot toy_nft_kc toy_bob]"
  "count_at (slot_value toy_nft_db (cs toy_x)) (owner_balance_slot toy_nft_kc toy_carol) = 2"
  "count_at (slot_value toy_nft_db (cs toy_x)) (owner_balance_slot toy_nft_kc toy_bob) = 0"
  "db_value toy_nft_db (contract_address (cs toy_x)) (token_approval_slot toy_nft_kc 5) = toy_alice"
  by code_simp+

section \<open>Properties\<close>

abbreviation nft_balance :: "(bytes \<Rightarrow> bytes) \<Rightarrow> contracts_cf \<Rightarrow> cx \<Rightarrow> bytes \<Rightarrow> u64" where
  "nft_balance kc db x who \<equiv> count_at (slot_value db (cs x)) (owner_balance_slot kc who)"

text \<open>C19. A transfer that returns was called by the token's owner or its approved account.  To the owner
  itself it changes no slot.  To another account, when the four slots involved are different, the
  receiver is the owner and has one more token; the sender has one less, except that a last token
  leaves the balance the database holds for the sender (a zero is never stored); the approval is the
  one in the database; and no other slot changes.\<close>

theorem nft_transfer_exact:
  assumes ok: "storage_ok db (cs x)" and t: "nft_transfer_from kc hx db r from_addr to_addr token x = (Inr (), x')"
    and f: "current_frame r = Some f" and d: "hex_decode hx (strip_0x from_addr) = Some sender" "hex_decode hx (strip_0x to_addr) = Some receiver"
    and slots: "sender \<noteq> receiver \<Longrightarrow>
      distinct [token_owner_slot kc token, token_approval_slot kc token, owner_balance_slot kc sender, owner_balance_slot kc receiver]"
  shows "slot_value db (cs x) (token_owner_slot kc token) = sender
    \<and> (caller f = sender \<or> caller f = slot_value db (cs x) (token_approval_slot kc token))
    \<and> (if sender = receiver then slot_value db (cs x') = slot_value db (cs x)
       else slot_value db (cs x') (token_owner_slot kc token) = receiver
         \<and> unat (nft_balance kc db x' receiver) = unat (nft_balance kc db x receiver) + 1
         \<and> (if nft_balance kc db x sender = 1
            then nft_balance kc db x' sender = count_at (db_value db (contract_address (cs x))) (owner_balance_slot kc sender)
            else unat (nft_balance kc db x' sender) + 1 = unat (nft_balance kc db x sender))
         \<and> slot_value db (cs x') (token_approval_slot kc token) = db_value db (contract_address (cs x)) (token_approval_slot kc token)
         \<and> (\<forall>s. s \<notin> {token_owner_slot kc token, token_approval_slot kc token, owner_balance_slot kc sender, owner_balance_slot kc receiver} \<longrightarrow>
              slot_value db (cs x') s = slot_value db (cs x) s))"
proof (cases "sender = receiver")
  case True
  then show ?thesis using nft_transfer_result [OF stands_init [OF ok] t f d] by (auto simp: stands_def)
next
  case ne: False
  let ?\<sigma> = "slot_value db (cs x)" and ?a = "contract_address (cs x)" and ?bs = "owner_balance_slot kc sender"
    and ?br = "owner_balance_slot kc receiver"
  let ?\<tau> = "nft_cleared kc db ?a token receiver ?\<sigma>"
  note sl = distinct_slots [OF slots [OF ne]]
  note R = nft_transfer_result [OF stands_init [OF ok] t f d]
  from R ne obtain ev' where v: "slot_value db (cs x') = nft_credited kc db ?a receiver (nft_debited kc db ?a sender ?\<tau>)"
    by (auto simp: stands_def)
  have nz: "\<not> zero_value receiver" using R zero_value_def by (metis replicate_eqI)
  have c: "count_at ?\<tau> ?bs = count_at ?\<sigma> ?bs" "count_at (nft_debited kc db ?a sender ?\<tau>) ?br = count_at ?\<sigma> ?br"
    using sl by (simp_all add: nft_cleared_def nft_debited_def)
  have p: "count_at ?\<sigma> ?bs \<noteq> 0" "count_at ?\<sigma> ?br + 1 \<noteq> 0" using R ne unfolding c by blast+
  have "count_at (slot_value db (cs x')) ?bs = (if count_at ?\<sigma> ?bs = 1 then count_at (db_value db ?a) ?bs else count_at ?\<sigma> ?bs - 1)"
    unfolding v nft_credited_def nft_debited_def c(1) using sl by (auto simp: u64_values)
  then have 1: "if count_at ?\<sigma> ?bs = 1 then count_at (slot_value db (cs x')) ?bs = count_at (db_value db ?a) ?bs
      else unat (count_at (slot_value db (cs x')) ?bs) + 1 = unat (count_at ?\<sigma> ?bs)"
    using unat_step(1) [OF p(1)] by simp
  have "count_at (slot_value db (cs x')) ?br = count_at ?\<sigma> ?br + 1"
    unfolding v nft_credited_def c(2) using p(2) by (simp add: u64_values)
  then have 2: "unat (count_at (slot_value db (cs x')) ?br) = unat (count_at ?\<sigma> ?br) + 1"
    using unat_step(2) [OF p(2)] by simp
  have 3: "slot_value db (cs x') (token_owner_slot kc token) = receiver"
    "slot_value db (cs x') (token_approval_slot kc token) = db_value db ?a (token_approval_slot kc token)"
    "s \<notin> {token_owner_slot kc token, token_approval_slot kc token, ?bs, ?br} \<Longrightarrow> slot_value db (cs x') s = ?\<sigma> s" for s
    using sl nz by (auto simp: v nft_credited_def nft_debited_def nft_cleared_def)
  show ?thesis using R 1 2 3 ne by auto
qed

theorem nft_transfer_exact_witness:
  "\<exists>x'. nft_transfer_from toy_nft_kc toy_hexlib toy_nft_db toy_owner_rt ''a'' ''b'' 5 toy_x = (Inr (), x') \<and>
     slot_value toy_nft_db (cs x') (token_owner_slot toy_nft_kc 5) = toy_bob \<and> unat (nft_balance toy_nft_kc toy_nft_db x' toy_bob) = 1"
proof -
  have "fst (nft_transfer_from toy_nft_kc toy_hexlib toy_nft_db toy_owner_rt ''a'' ''b'' 5 toy_x) = Inr ()" by code_simp
  then obtain x' where t: "nft_transfer_from toy_nft_kc toy_hexlib toy_nft_db toy_owner_rt ''a'' ''b'' 5 toy_x = (Inr (), x')" using result_of by blast
  obtain f where f: "current_frame toy_owner_rt = Some f" "caller f = toy_alice" using toy_token_frame by blast
  have ne: "toy_carol \<noteq> toy_bob" using toy_nft_facts(2) by auto
  show ?thesis
    using t nft_transfer_exact [OF toy_nft_ok t f(1) toy_nft_facts(1) toy_token_facts(2) toy_nft_facts(2)] toy_nft_facts(3,4) ne by auto
qed

text \<open>C26. A committed approval survives the transfer of its token: the transfer writes a zero approval, which
  shows the one in the database again, so the account approved by the old owner is the approved account
  of the new owner's token, and \<open>get_approved\<close> answers it unless it runs out of gas.\<close>

theorem nft_approval_survives:
  assumes ok: "storage_ok db (cs x)" and t: "nft_transfer_from kc hx db r from_addr to_addr token x = (Inr (), x')"
    and f: "current_frame r = Some f" and d: "hex_decode hx (strip_0x from_addr) = Some sender" "hex_decode hx (strip_0x to_addr) = Some receiver"
    and slots: "distinct [token_owner_slot kc token, token_approval_slot kc token, owner_balance_slot kc sender, owner_balance_slot kc receiver]"
    and m: "db_value db (contract_address (cs x)) (token_approval_slot kc token) = m" "\<not> zero_value m"
  shows "slot_value db (cs x') (token_owner_slot kc token) = receiver \<and> slot_value db (cs x') (token_approval_slot kc token) = m
    \<and> (case fst (get_approved kc hx db token x') of Inr who \<Rightarrow> who = Some (encode_address hx m) | Inl e \<Rightarrow> \<exists>g. e = GasFailed g)"
proof -
  let ?\<sigma> = "slot_value db (cs x)" and ?a = "contract_address (cs x)"
  let ?\<sigma>' = "nft_credited kc db ?a receiver (nft_debited kc db ?a sender (nft_cleared kc db ?a token receiver ?\<sigma>))"
  have ne: "sender \<noteq> receiver" using slots by auto
  note R = nft_transfer_result [OF stands_init [OF ok] t f d]
  from R ne obtain ev' where st: "stands db x' ?a ?\<sigma>' ev'" by auto
  have nz: "\<not> zero_value receiver" using R zero_value_def by (metis replicate_eqI)
  have o: "?\<sigma>' (token_owner_slot kc token) = receiver" and p: "?\<sigma>' (token_approval_slot kc token) = m"
    using distinct_slots [OF slots] nz m by (auto simp: nft_credited_def nft_debited_def nft_cleared_def)
  have "length m = 32" using stands_length [OF st] p by metis
  then have "wp (get_approved kc hx db token) (\<lambda>who _. who = Some (encode_address hx m)) (\<lambda>e _. \<exists>g. e = GasFailed g) x'"
    unfolding get_approved_def existing_owner_def read_approval_def storage_value_to_address_def using st
    by - (rule contract_rules | erule wp_sload | (simp add: o p nz m(2); fail))+
  then have "case fst (get_approved kc hx db token x') of Inr who \<Rightarrow> who = Some (encode_address hx m) | Inl e \<Rightarrow> \<exists>g. e = GasFailed g"
    by (auto simp: wp_def split: prod.splits sum.splits)
  then show ?thesis using o p st by (auto simp: stands_def)
qed

theorem nft_approval_survives_witness:
  "\<exists>x' x''. nft_transfer_from toy_nft_kc toy_hexlib toy_nft_db toy_owner_rt ''a'' ''b'' 5 toy_x = (Inr (), x') \<and>
     slot_value toy_nft_db (cs x') (token_approval_slot toy_nft_kc 5) = toy_alice \<and>
     nft_transfer_from toy_nft_kc toy_hexlib toy_nft_db toy_owner_rt ''b'' ''a'' 5 x' = (Inr (), x'')"
proof -
  have 1: "fst (nft_transfer_from toy_nft_kc toy_hexlib toy_nft_db toy_owner_rt ''a'' ''b'' 5 toy_x) = Inr ()" by code_simp
  have 2: "fst (nft_transfer_from toy_nft_kc toy_hexlib toy_nft_db toy_owner_rt ''b'' ''a'' 5
      (snd (nft_transfer_from toy_nft_kc toy_hexlib toy_nft_db toy_owner_rt ''a'' ''b'' 5 toy_x))) = Inr ()" by code_simp
  obtain x' where t: "nft_transfer_from toy_nft_kc toy_hexlib toy_nft_db toy_owner_rt ''a'' ''b'' 5 toy_x = (Inr (), x')"
    using 1 result_of by blast
  obtain f where f: "current_frame toy_owner_rt = Some f" "caller f = toy_alice" using toy_token_frame by blast
  have "\<not> zero_value toy_alice" by code_simp
  moreover obtain x'' where "nft_transfer_from toy_nft_kc toy_hexlib toy_nft_db toy_owner_rt ''b'' ''a'' 5 x' = (Inr (), x'')"
    using result_of [OF 2] unfolding t by auto
  ultimately show ?thesis
    using t nft_approval_survives [OF toy_nft_ok t f(1) toy_nft_facts(1) toy_token_facts(2) toy_nft_facts(2) toy_nft_facts(5)] by auto
qed

text \<open>C28. A token URI that was set is read back, or the read fails for lack of gas, when the URI is not
  empty, is valid UTF-8 shorter than \<open>2 ^ 63\<close> bytes, has no 32-byte chunk of zeros after its first 24
  bytes, and the owner's slot is not one of the URI's.  An empty URI, or a chunk of zeros, written over
  committed slots is different: a zero is a deletion, and a deleted slot reads the committed value.\<close>

theorem token_uri_roundtrip:
  assumes ok: "storage_ok db (cs x)" and t: "set_token_uri kc db r token uri x = (Inr (), x')"
    and u: "utf8_valid uri" "uri \<noteq> []" "length uri < 2 ^ 63" "\<forall>c \<in> set (chunks 32 (drop 24 uri)). \<not> zero_value c"
    and slots: "\<forall>i \<le> length uri. token_owner_slot kc token \<noteq> token_uri_slot kc token + word_of_nat i"
  shows "case fst (token_uri kc db token x') of Inr v \<Rightarrow> v = uri | Inl e \<Rightarrow> \<exists>g. e = GasFailed g"
proof -
  let ?a = "contract_address (cs x)" and ?\<sigma> = "slot_value db (cs x)" and ?os = "token_owner_slot kc token" and ?base = "token_uri_slot kc token"
  let ?P = "\<lambda>x'. \<not> zero_value (?\<sigma> ?os) \<and> (\<exists>\<sigma>' ev. stands db x' ?a \<sigma>' ev \<and> \<sigma>' ?os = ?\<sigma> ?os \<and>
     \<sigma>' ?base = pad32 (le_bytes 8 (word_of_nat (length uri) :: u64) @ take 24 uri) \<and> uri_at ?base 1 (chunks 32 (drop 24 uri)) \<sigma>')"
  have w: "wp (write_uri_to_storage db ?base uri) (\<lambda>_. ?P) (\<lambda>_ _. True) x1" if "stands db x1 ?a ?\<sigma> ev" "\<not> zero_value (?\<sigma> ?os)" for x1 ev
    by (rule wp_weaken [OF wp_write_uri [OF that(1) u(2-4)]]) (use that(2) slots in blast)+
  have "wp (set_token_uri kc db r token uri) (\<lambda>_. ?P) (\<lambda>_ _. True) x"
    unfolding set_token_uri_def storage_value_to_address_def using stands_init [OF ok]
    by - (rule TrueI | rule nft_rules | erule nft_steps | (erule w, simp))+
  from wpD(1) [OF this t] obtain \<sigma>' ev where o: "\<not> zero_value (\<sigma>' ?os)" and st: "stands db x' ?a \<sigma>' ev"
    and v: "\<sigma>' ?base = pad32 (le_bytes 8 (word_of_nat (length uri) :: u64) @ take 24 uri)" "uri_at ?base 1 (chunks 32 (drop 24 uri)) \<sigma>'"
    by (elim conjE exE) (rule that, simp_all)
  have "wp (token_uri kc db token) (\<lambda>v _. v = uri) (\<lambda>e _. \<exists>g. e = GasFailed g) x'"
    unfolding token_uri_def existing_owner_def using st
    by - (rule contract_rules | erule wp_sload | (erule wp_read_uri [OF _ u(2,3,1) v]) | (simp add: o; fail))+
  then show ?thesis by (auto simp: wp_def split: prod.splits sum.splits)
qed

theorem token_uri_roundtrip_witness:
  "\<exists>x'. set_token_uri toy_nft_kc toy_uri_db toy_owner_rt 5 (replicate 30 65) toy_x = (Inr (), x') \<and>
     (case fst (token_uri toy_nft_kc toy_uri_db 5 x') of Inr v \<Rightarrow> v = replicate 30 65 | Inl e \<Rightarrow> \<exists>g. e = GasFailed g)"
proof -
  have "fst (set_token_uri toy_nft_kc toy_uri_db toy_owner_rt 5 (replicate 30 65) toy_x) = Inr ()" by code_simp
  then obtain x' where t: "set_token_uri toy_nft_kc toy_uri_db toy_owner_rt 5 (replicate 30 65) toy_x = (Inr (), x')" using result_of by blast
  have "storage_ok toy_uri_db (cs toy_x)"
    by (auto simp: storage_ok_def toy_x_def toy_cs_def db_value_def toy_uri_db_def toy_alice_def)
  moreover have "utf8_valid (replicate 30 65)" by code_simp
  moreover have "list_all (\<lambda>c. \<not> zero_value c) (chunks 32 (drop 24 (replicate 30 65)))" by code_simp
  moreover have "list_all (\<lambda>i. token_owner_slot toy_nft_kc 5 \<noteq> token_uri_slot toy_nft_kc 5 + word_of_nat i) [0..<31]" by code_simp
  ultimately show ?thesis
    using t token_uri_roundtrip [OF _ t] by (auto simp: list_all_iff)
qed

end
