(* ===== verification/Evm_Interpreter.thy ===== *)
theory Evm_Interpreter
  imports Base_Contract
begin

text \<open>
  The bytecode interpreter (\<open>Savitri-contracts/src/contracts/evm_interpreter.rs\<close>): the machine, every
  supported opcode and the run loop.  The words are \<open>primitive_types::U256\<close>; Keccak-256 is a parameter.
  The stack is a list with its top first.  A panic is an outcome of its own: growing the memory beyond
  the largest allocation, or a stored value of less than 32 bytes.  Error texts are kept without their
  formatted arguments.  The loop may not end by its shape alone, so it is a partial function; its
  property is that the gas meter ends it.
\<close>

section \<open>The machine\<close>

type_synonym u256 = "256 word"

record Vm =
  code :: bytes
  pc :: nat
  vstack :: "u256 list"
  memory :: bytes
  vm_contract :: bytes
  vm_caller :: bytes
  vm_value :: u128
  vm_calldata :: bytes
  vm_timestamp :: u64

datatype vm_error = VmErr string | VmStorage cerror | VmPanic

datatype outcome = Next | Done bytes

type_synonym vm_op = "Vm \<Rightarrow> vm_error + Vm"

text \<open>Sequencing of operations on the machine alone.\<close>

definition popv :: "(u256 \<Rightarrow> vm_op) \<Rightarrow> vm_op" where
  "popv k vm = (case vstack vm of [] \<Rightarrow> Inl (VmErr ''EVM stack underflow'') | v # st \<Rightarrow> k v (vm\<lparr> vstack := st \<rparr>))"

definition pushv :: "u256 \<Rightarrow> vm_op" where
  "pushv v vm = Inr (vm\<lparr> vstack := v # vstack vm \<rparr>)"

definition USIZE_MAX :: nat where "USIZE_MAX = 2 ^ 64 - 1"
definition ISIZE_MAX :: nat where "ISIZE_MAX = 2 ^ 63 - 1"

definition to_usize :: "u256 \<Rightarrow> (nat \<Rightarrow> vm_op) \<Rightarrow> vm_op" where
  "to_usize v k vm = (if USIZE_MAX < unat v then Inl (VmErr ''value too large for usize'') else k (unat v) vm)"

definition popn :: "(nat \<Rightarrow> vm_op) \<Rightarrow> vm_op" where
  "popn k = popv (\<lambda>v. to_usize v k)"

definition binop :: "(u256 \<Rightarrow> u256 \<Rightarrow> u256) \<Rightarrow> vm_op" where
  "binop f = popv (\<lambda>b. popv (\<lambda>a. pushv (f a b)))"

definition cmpop :: "(u256 \<Rightarrow> u256 \<Rightarrow> bool) \<Rightarrow> vm_op" where
  "cmpop f = popv (\<lambda>b. popv (\<lambda>a. pushv (if f a b then 1 else 0)))"

definition signed_lt :: "u256 \<Rightarrow> u256 \<Rightarrow> bool" where
  "signed_lt a b = (let a_neg = bit a 255; b_neg = bit b 255 in if a_neg \<noteq> b_neg then a_neg else a < b)"

definition signed_gt :: "u256 \<Rightarrow> u256 \<Rightarrow> bool" where
  "signed_gt a b = (let a_neg = bit a 255; b_neg = bit b 255 in if a_neg \<noteq> b_neg then b_neg else b < a)"

text \<open>\<open>U256::from_big_endian\<close> and \<open>to_big_endian\<close>.\<close>

definition from_big_endian :: "bytes \<Rightarrow> u256" where
  "from_big_endian bs = from_le_bytes (rev bs)"

definition to_big_endian :: "u256 \<Rightarrow> bytes" where
  "to_big_endian v = rev (le_bytes 32 v)"

definition slot_to_u64 :: "u256 \<Rightarrow> u64" where
  "slot_to_u64 v = ucast v"

section \<open>Operations on stack and memory\<close>

definition byteop :: vm_op where
  "byteop = popv (\<lambda>idx. popv (\<lambda>word. to_usize idx (\<lambda>i.
     pushv (if 32 \<le> i then 0 else and (drop_bit ((31 - i) * 8) word) 0xff))))"

definition shift_amount :: "u256 \<Rightarrow> nat" where
  "shift_amount v = (if 255 < v then 256 else unat v)"

definition shift_left :: vm_op where
  "shift_left = popv (\<lambda>s. popv (\<lambda>v. pushv (if 256 \<le> shift_amount s then 0 else push_bit (shift_amount s) v)))"

definition shift_right :: vm_op where
  "shift_right = popv (\<lambda>s. popv (\<lambda>v. pushv (if 256 \<le> shift_amount s then 0 else drop_bit (shift_amount s) v)))"

text \<open>\<open>ensure_memory(offset.saturating_add(n))\<close>: growing beyond the largest allocation panics.\<close>

definition ensure_memory :: "nat \<Rightarrow> vm_op \<Rightarrow> vm_op" where
  "ensure_memory hi k vm =
    (let size = min hi USIZE_MAX in
     if length (memory vm) < size then
       (if ISIZE_MAX < size then Inl VmPanic else k (vm\<lparr> memory := memory vm @ replicate (size - length (memory vm)) 0 \<rparr>))
     else k vm)"

definition write_memory :: "nat \<Rightarrow> bytes \<Rightarrow> Vm \<Rightarrow> Vm" where
  "write_memory off bs vm = vm\<lparr> memory := take off (memory vm) @ bs @ drop (off + length bs) (memory vm) \<rparr>"

definition read_memory :: "nat \<Rightarrow> nat \<Rightarrow> Vm \<Rightarrow> bytes" where
  "read_memory off n vm = take n (drop off (memory vm))"

definition mload :: vm_op where
  "mload = popn (\<lambda>off. ensure_memory (off + 32) (\<lambda>vm. pushv (from_big_endian (read_memory off 32 vm)) vm))"

definition mstore :: vm_op where
  "mstore = popn (\<lambda>off. popv (\<lambda>v. ensure_memory (off + 32) (\<lambda>vm. Inr (write_memory off (to_big_endian v) vm))))"

definition mstore8 :: vm_op where
  "mstore8 = popn (\<lambda>off. popv (\<lambda>v. ensure_memory (off + 1) (\<lambda>vm. Inr (write_memory off [ucast v] vm))))"

text \<open>Copying into memory; the source index is a machine addition.\<close>

definition source_bytes :: "bytes \<Rightarrow> nat \<Rightarrow> nat \<Rightarrow> bytes" where
  "source_bytes src off n = map (\<lambda>i. let j = (off + i) mod 2 ^ 64 in if j < length src then src ! j else 0) [0..<n]"

definition copyop :: "(Vm \<Rightarrow> bytes) \<Rightarrow> vm_op" where
  "copyop src = popn (\<lambda>mem_offset. popn (\<lambda>data_offset. popn (\<lambda>len.
     ensure_memory (mem_offset + len) (\<lambda>vm. Inr (write_memory mem_offset (source_bytes (src vm) data_offset len) vm)))))"

definition calldataload :: vm_op where
  "calldataload = popn (\<lambda>off vm. pushv (from_big_endian (take 32 (drop off (vm_calldata vm) @ replicate 32 0))) vm)"

definition sha3 :: "(bytes \<Rightarrow> bytes) \<Rightarrow> vm_op" where
  "sha3 kc = popn (\<lambda>off. popn (\<lambda>len. ensure_memory (off + len) (\<lambda>vm. pushv (from_big_endian (kc (read_memory off len vm))) vm)))"

section \<open>Control flow and stack shuffling\<close>

definition validate_jumpdest :: "nat \<Rightarrow> vm_op \<Rightarrow> vm_op" where
  "validate_jumpdest dest k vm =
    (if length (code vm) \<le> dest then Inl (VmErr ''jump destination out of bounds'')
     else if code vm ! dest \<noteq> 0x5b then Inl (VmErr ''jump destination is not JUMPDEST'')
     else k vm)"

definition jump :: vm_op where
  "jump = popn (\<lambda>dest. validate_jumpdest dest (\<lambda>vm. Inr (vm\<lparr> pc := dest \<rparr>)))"

definition jumpi :: vm_op where
  "jumpi = popn (\<lambda>dest. popv (\<lambda>cond vm.
     if cond \<noteq> 0 then validate_jumpdest dest (\<lambda>vm. Inr (vm\<lparr> pc := dest \<rparr>)) vm else Inr vm))"

definition pushn :: "u8 \<Rightarrow> vm_op" where
  "pushn op vm =
    (let n = unat (op - 0x5f) in
     if length (code vm) < pc vm + n then Inl (VmErr ''PUSH exceeds bytecode length'')
     else pushv (from_big_endian (take n (drop (pc vm) (code vm)))) (vm\<lparr> pc := pc vm + n \<rparr>))"

definition vm_dup :: "u8 \<Rightarrow> vm_op" where
  "vm_dup op vm =
    (let d = unat (op - 0x7f) in
     if length (vstack vm) < d then Inl (VmErr ''EVM stack underflow'') else pushv (vstack vm ! (d - 1)) vm)"

definition vm_swap :: "u8 \<Rightarrow> vm_op" where
  "vm_swap op vm =
    (let d = unat (op - 0x8f); st = vstack vm in
     if length st \<le> d then Inl (VmErr ''EVM stack underflow'') else Inr (vm\<lparr> vstack := st[0 := st ! d, d := st ! 0] \<rparr>))"

definition vm_return_data :: "Vm \<Rightarrow> (vm_error + bytes) \<times> Vm" where
  "vm_return_data vm =
    (case popn (\<lambda>off. popn (\<lambda>size. ensure_memory (off + size) (\<lambda>vm. Inr (vm\<lparr> memory := read_memory off size vm \<rparr>)))) vm of
       Inl e \<Rightarrow> (Inl e, vm) | Inr vm' \<Rightarrow> (Inr (memory vm'), vm'))"

section \<open>Storage operations\<close>

type_synonym vm_step = "Vm \<times> cx \<Rightarrow> (vm_error + outcome) \<times> Vm \<times> cx"

definition lift :: "vm_op \<Rightarrow> vm_step" where
  "lift m = (\<lambda>(vm, x). case m vm of Inl e \<Rightarrow> (Inl e, vm, x) | Inr vm' \<Rightarrow> (Inr Next, vm', x))"

definition vm_sload :: "contracts_cf \<Rightarrow> vm_step" where
  "vm_sload db = (\<lambda>(vm, x). case vstack vm of
      [] \<Rightarrow> (Inl (VmErr ''EVM stack underflow''), vm, x)
    | slot # st \<Rightarrow>
        (case sload db (slot_to_u64 slot) x of
           (Inl e, x') \<Rightarrow> (Inl (VmStorage e), vm, x')
         | (Inr v, x') \<Rightarrow>
             if length v < 32 then (Inl VmPanic, vm, x')
             else (Inr Next, vm\<lparr> vstack := from_big_endian (take 32 v) # st \<rparr>, x')))"

definition vm_sstore :: "vm_step" where
  "vm_sstore = (\<lambda>(vm, x). case vstack vm of
      slot # v # st \<Rightarrow>
        (case with_gas (consume_sstore False) x of
           (Inl e, x') \<Rightarrow> (Inl (VmStorage e), vm, x')
         | (Inr _, x') \<Rightarrow> (Inr Next, vm\<lparr> vstack := st \<rparr>,
              x'\<lparr> cs := (cs x')\<lparr> overlay := bt_insert (slot_to_u64 slot) (to_big_endian v) (overlay (cs x')) \<rparr> \<rparr>))
    | _ \<Rightarrow> (Inl (VmErr ''EVM stack underflow''), vm, x))"

definition finish :: "bool \<Rightarrow> vm_step" where
  "finish revert = (\<lambda>(vm, x). case vm_return_data vm of
      (Inl e, vm') \<Rightarrow> (Inl e, vm', x)
    | (Inr d, vm') \<Rightarrow> (if revert then Inl (VmErr ''EVM revert'') else Inr (Done d), vm', x))"

definition push_of :: "(Vm \<Rightarrow> u256) \<Rightarrow> vm_op" where
  "push_of f = (\<lambda>vm. pushv (f vm) vm)"

section \<open>Dispatch and run\<close>

definition exec_op :: "(bytes \<Rightarrow> bytes) \<Rightarrow> contracts_cf \<Rightarrow> u8 \<Rightarrow> vm_step" where
  "exec_op kc db op =
    (if op = 0x00 then (\<lambda>(vm, x). (Inr (Done []), vm, x))
     else if op = 0x01 then lift (binop (+))
     else if op = 0x02 then lift (binop (*))
     else if op = 0x03 then lift (binop (-))
     else if op = 0x04 then lift (binop (\<lambda>a b. if b = 0 then 0 else a div b))
     else if op = 0x06 then lift (binop (\<lambda>a b. if b = 0 then 0 else a mod b))
     else if op = 0x10 then lift (cmpop (<))
     else if op = 0x11 then lift (cmpop (\<lambda>a b. b < a))
     else if op = 0x12 then lift (cmpop signed_lt)
     else if op = 0x13 then lift (cmpop signed_gt)
     else if op = 0x14 then lift (cmpop (=))
     else if op = 0x15 then lift (popv (\<lambda>v. pushv (if v = 0 then 1 else 0)))
     else if op = 0x16 then lift (binop (\<lambda>a b. and a b))
     else if op = 0x17 then lift (binop (\<lambda>a b. or a b))
     else if op = 0x18 then lift (binop (\<lambda>a b. xor a b))
     else if op = 0x19 then lift (popv (\<lambda>v. pushv (not v)))
     else if op = 0x1a then lift byteop
     else if op = 0x1b then lift shift_left
     else if op = 0x1c then lift shift_right
     else if op = 0x20 then lift (sha3 kc)
     else if op = 0x30 then lift (push_of (\<lambda>vm. from_big_endian (vm_contract vm)))
     else if op = 0x33 then lift (push_of (\<lambda>vm. from_big_endian (vm_caller vm)))
     else if op = 0x34 then lift (push_of (\<lambda>vm. ucast (vm_value vm)))
     else if op = 0x35 then lift calldataload
     else if op = 0x36 then lift (push_of (\<lambda>vm. word_of_nat (length (vm_calldata vm))))
     else if op = 0x37 then lift (copyop vm_calldata)
     else if op = 0x38 then lift (push_of (\<lambda>vm. word_of_nat (length (code vm))))
     else if op = 0x39 then lift (copyop code)
     else if op = 0x42 then lift (push_of (\<lambda>vm. ucast (vm_timestamp vm)))
     else if op = 0x50 then lift (popv (\<lambda>_ vm. Inr vm))
     else if op = 0x51 then lift mload
     else if op = 0x52 then lift mstore
     else if op = 0x53 then lift mstore8
     else if op = 0x54 then vm_sload db
     else if op = 0x55 then vm_sstore
     else if op = 0x56 then lift jump
     else if op = 0x57 then lift jumpi
     else if op = 0x58 then lift (push_of (\<lambda>vm. word_of_nat (pc vm - 1)))
     else if op = 0x59 then lift (push_of (\<lambda>vm. word_of_nat (length (memory vm))))
     else if op = 0x5b then lift Inr
     else if op = 0xf3 then finish False
     else if op = 0xfd then finish True
     else if op = 0xfe then lift (\<lambda>_. Inl (VmErr ''EVM invalid opcode''))
     else if 0x60 \<le> op \<and> op \<le> 0x7f then lift (pushn op)
     else if 0x80 \<le> op \<and> op \<le> 0x8f then lift (vm_dup op)
     else if 0x90 \<le> op \<and> op \<le> 0x9f then lift (vm_swap op)
     else lift (\<lambda>_. Inl (VmErr ''EVM opcode not yet supported'')))"

text \<open>One turn of the loop with code left: a unit of gas, then the operation.\<close>

definition vm_turn :: "(bytes \<Rightarrow> bytes) \<Rightarrow> contracts_cf \<Rightarrow> vm_step" where
  "vm_turn kc db = (\<lambda>(vm, x). case with_gas (consume 1) x of
      (Inl e, x') \<Rightarrow> (Inl (VmStorage e), vm, x')
    | (Inr _, x') \<Rightarrow> exec_op kc db (code vm ! pc vm) (vm\<lparr> pc := pc vm + 1 \<rparr>, x'))"

partial_function (option) vm_run :: "(bytes \<Rightarrow> bytes) \<Rightarrow> contracts_cf \<Rightarrow> Vm \<times> cx \<Rightarrow> ((vm_error + bytes) \<times> Vm \<times> cx) option" where
  "vm_run kc db s =
    (if length (code (fst s)) \<le> pc (fst s) then Some (Inr [], s)
     else case vm_turn kc db s of
            (Inl e, s') \<Rightarrow> Some (Inl e, s')
          | (Inr (Done d), s') \<Rightarrow> Some (Inr d, s')
          | (Inr Next, s') \<Rightarrow> vm_run kc db s')"

definition vm_execute ::
  "(bytes \<Rightarrow> bytes) \<Rightarrow> contracts_cf \<Rightarrow> Runtime \<Rightarrow> bytes \<Rightarrow> bytes \<Rightarrow> bytes \<Rightarrow> u128 \<Rightarrow> bytes \<Rightarrow> cx \<Rightarrow> ((vm_error + bytes) \<times> cx) option" where
  "vm_execute kc db r contract bytecode who value input x =
    (if length contract \<noteq> 32 then Some (Inl (VmErr ''contract address must be 32 bytes''), x)
     else map_option (\<lambda>(res, _, x'). (res, x'))
       (vm_run kc db (\<lparr> code = bytecode, pc = 0, vstack = [], memory = [], vm_contract = contract, vm_caller = who, vm_value = value,
          vm_calldata = input, vm_timestamp = rt_block_timestamp r \<rparr>, x)))"


section \<open>The meter ends the loop\<close>

text \<open>A meter in use: the default costs and batch size, the committed gas within the limit and every
  charge of the open batch at least one unit.\<close>

definition meter_ok :: "GasMeter \<Rightarrow> bool" where
  "meter_ok g \<longleftrightarrow> costs g = default_gas_costs \<and> batch_limit g = 100 \<and> gas_used g \<le> gas_limit g
     \<and> batch_count g < 100 \<and> batch_count g \<le> unat (batch_accumulator g)"

text \<open>The turns a meter can still pay for.\<close>

definition turns_left :: "GasMeter \<Rightarrow> nat" where
  "turns_left g = unat (gas_limit g) - unat (gas_used g) + 100 - batch_count g"

lemma meter_ok_new: "meter_ok (new_gas_meter limit)"
  by (simp add: meter_ok_def new_gas_meter_def)

lemma consume_turns:
  assumes g: "meter_ok g" and c: "consume a g = (None, g')" and a: "a \<noteq> 0"
  shows "meter_ok g' \<and> turns_left g' < turns_left g \<and> gas_limit g' = gas_limit g"
proof -
  have pos: "1 \<le> unat a" using a by (metis Suc_leI One_nat_def unat_gt_0)
  obtain s where n: "checked_add (batch_accumulator g) a = Some s"
    using c by (cases "checked_add (batch_accumulator g) a") (auto simp: consume_def)
  then have fit: "unat s = unat (batch_accumulator g) + unat a" by (auto simp: rust_int split: if_splits)
  let ?g = "g\<lparr> batch_accumulator := s, batch_count := batch_count g + 1 \<rparr>"
  show ?thesis
  proof (cases "batch_count g + 1 < 100")
    case True
    then have "g' = ?g" using c n g by (simp add: consume_def meter_ok_def)
    then show ?thesis using True g pos fit by (auto simp: meter_ok_def turns_left_def)
  next
    case False
    then have b: "batch_count g = 99" and cb: "commit_batch ?g = (None, g')"
      using c n g by (auto simp: consume_def meter_ok_def Let_def)
    have nz: "0 < batch_accumulator ?g" using fit pos by (simp add: word_gt_0_no word_less_nat_alt)
    obtain u where u: "checked_add (gas_used ?g) (batch_accumulator ?g) = Some u" "u \<le> gas_limit g"
      and g': "g' = ?g\<lparr> gas_used := u, batch_accumulator := 0, batch_count := 0 \<rparr>"
      using cb nz by (auto simp: commit_batch_def Let_def not_less split: option.splits if_splits)
    have "unat u = unat (gas_used g) + (unat (batch_accumulator g) + unat a)"
      using u(1) fit by (auto simp: rust_int split: if_splits)
    moreover have "unat u \<le> unat (gas_limit g)" using u(2) by (simp add: word_le_nat_alt)
    ultimately show ?thesis using g g' b pos u(2) by (auto simp: meter_ok_def turns_left_def)
  qed
qed

text \<open>What a step that continues does to the meter.\<close>

definition meter_step :: "cx \<Rightarrow> cx \<Rightarrow> bool" where
  "meter_step x x' \<longleftrightarrow> (\<forall>g. gm x = Some g \<and> meter_ok g \<longrightarrow>
     (\<exists>g'. gm x' = Some g' \<and> meter_ok g' \<and> turns_left g' \<le> turns_left g))"

lemma meter_step_refl: "meter_step x x"
  by (simp add: meter_step_def)

lemma meter_step_gm: "gm x' = gm x \<Longrightarrow> meter_step x x'"
  by (simp add: meter_step_def)

lemma with_gas_turns:
  assumes "with_gas f x = (Inr u, x')" "gm x = Some g" "meter_ok g" "\<And>g. meter_ok g \<Longrightarrow> \<exists>a. a \<noteq> 0 \<and> f g = consume a g"
  shows "\<exists>g'. gm x' = Some g' \<and> meter_ok g' \<and> turns_left g' < turns_left g"
proof -
  obtain a where a: "a \<noteq> 0" "f g = consume a g" using assms(3,4) by blast
  obtain g' where "consume a g = (None, g')" "x' = x\<lparr> gm := Some g' \<rparr>"
    using assms(1,2) a(2) by (auto simp: with_gas_def split: prod.splits option.splits)
  then show ?thesis using consume_turns [OF assms(3) _ a(1)] by auto
qed

lemma sload_meter:
  assumes "sload db slot x = (Inr v, x')"
  shows "meter_step x x'"
proof -
  obtain u x1 where 1: "with_gas consume_sload x = (Inr u, x1)" "gm x' = gm x1"
    using assms by (auto simp: sload_def bindc_def Let_def bail_def split: prod.splits sum.splits option.splits if_splits)
  have "\<exists>a. a \<noteq> 0 \<and> consume_sload g = consume a g" if "meter_ok g" for g
    using that by (intro exI [of _ 100]) (simp add: consume_sload_def meter_ok_def default_gas_costs_def)
  then show ?thesis using with_gas_turns [OF 1(1)] 1(2) by (force simp: meter_step_def)
qed

lemma exec_op_meter:
  assumes "exec_op kc db op (vm, x) = (Inr Next, vm', x')"
  shows "meter_step x x'"
proof -
  have l: "meter_step x x'" if "lift m (vm, x) = (Inr Next, vm', x')" for m
    using that by (auto simp: lift_def meter_step_refl split: sum.splits)
  have s: "meter_step x x'" if "vm_sload db (vm, x) = (Inr Next, vm', x')"
    using that sload_meter by (auto simp: vm_sload_def split: list.splits prod.splits sum.splits if_splits)
  have st: "meter_step x x'" if sst: "vm_sstore (vm, x) = (Inr Next, vm', x')"
  proof -
    obtain u x1 where 1: "with_gas (consume_sstore False) x = (Inr u, x1)" "gm x' = gm x1"
      using sst by (auto simp: vm_sstore_def split: list.splits prod.splits sum.splits)
    have "\<exists>a. a \<noteq> 0 \<and> consume_sstore False g = consume a g" if "meter_ok g" for g
      using that by (intro exI [of _ 5000]) (simp add: consume_sstore_def meter_ok_def default_gas_costs_def)
    then show ?thesis using with_gas_turns [OF 1(1)] 1(2) by (force simp: meter_step_def)
  qed
  have f: False if "finish b (vm, x) = (Inr Next, vm', x')" for b
    using that by (auto simp: finish_def split: prod.splits sum.splits if_splits)
  show ?thesis
    using assms unfolding exec_op_def
    by (auto simp only: if_split_asm intro: l s st dest: f split: if_split_asm)
qed

lemma vm_turn_turns:
  assumes "vm_turn kc db (vm, x) = (Inr Next, vm', x')" "gm x = Some g" "meter_ok g"
  shows "\<exists>g'. gm x' = Some g' \<and> meter_ok g' \<and> turns_left g' < turns_left g"
proof -
  obtain u x1 where 1: "with_gas (consume 1) x = (Inr u, x1)"
    and 2: "exec_op kc db (code vm ! pc vm) (vm\<lparr> pc := pc vm + 1 \<rparr>, x1) = (Inr Next, vm', x')"
    using assms(1) by (auto simp: vm_turn_def split: prod.splits sum.splits)
  have "\<exists>g'. gm x1 = Some g' \<and> meter_ok g' \<and> turns_left g' < turns_left g"
    by (rule with_gas_turns [OF 1 assms(2,3)]) (rule exI [of _ 1], simp)
  then show ?thesis using exec_op_meter [OF 2] unfolding meter_step_def by fastforce
qed

text \<open>The loop cut after a number of turns.\<close>

fun vm_steps :: "nat \<Rightarrow> (bytes \<Rightarrow> bytes) \<Rightarrow> contracts_cf \<Rightarrow> Vm \<times> cx \<Rightarrow> ((vm_error + bytes) \<times> Vm \<times> cx) option" where
  "vm_steps 0 kc db s = None"
| "vm_steps (Suc n) kc db s =
    (if length (code (fst s)) \<le> pc (fst s) then Some (Inr [], s)
     else case vm_turn kc db s of
            (Inl e, s') \<Rightarrow> Some (Inl e, s')
          | (Inr (Done d), s') \<Rightarrow> Some (Inr d, s')
          | (Inr Next, s') \<Rightarrow> vm_steps n kc db s')"

lemma vm_steps_run: "vm_steps n kc db s = Some r \<Longrightarrow> vm_run kc db s = Some r"
proof (induction n arbitrary: s)
  case (Suc n)
  then show ?case by (subst vm_run.simps) (auto split: if_splits prod.splits sum.splits outcome.splits)
qed simp

lemma vm_steps_end:
  assumes "gm (snd s) = Some g" "meter_ok g" "turns_left g < n"
  shows "\<exists>r. vm_steps n kc db s = Some r"
  using assms
proof (induction n arbitrary: s g)
  case (Suc n)
  obtain vm x where s: "s = (vm, x)" by force
  show ?case
  proof (cases "vm_turn kc db s")
    case (fields out vm' x')
    show ?thesis
    proof (cases "out = Inr Next")
      case True
      then obtain g' where "gm x' = Some g'" "meter_ok g'" "turns_left g' < turns_left g"
        using vm_turn_turns [of kc db vm x vm' x' g] fields Suc.prems s by auto
      then show ?thesis using Suc.IH [of "(vm', x')" g'] Suc.prems True fields by auto
    qed (use fields in \<open>auto split: sum.splits outcome.splits\<close>)
  qed
qed simp

section \<open>Properties\<close>

text \<open>C18. Execution always ends: with a fresh meter of any limit every program on every input returns, after
  at most the gas limit plus a hundred turns (the size of the batch in which the meter defers its
  check).\<close>

theorem evm_run_ends:
  assumes "gm x = Some (new_gas_meter limit)" "length contract = 32"
  shows "\<exists>res vm' x'. vm_execute kc db r contract bytecode who value input x = Some (res, x')
    \<and> vm_steps (unat limit + 101) kc db
        (\<lparr> code = bytecode, pc = 0, vstack = [], memory = [], vm_contract = contract, vm_caller = who, vm_value = value,
           vm_calldata = input, vm_timestamp = rt_block_timestamp r \<rparr>, x) = Some (res, vm', x')"
proof -
  have "turns_left (new_gas_meter limit) < unat limit + 101" by (simp add: turns_left_def new_gas_meter_def)
  then obtain res vm' x' where 1: "vm_steps (unat limit + 101) kc db
        (\<lparr> code = bytecode, pc = 0, vstack = [], memory = [], vm_contract = contract, vm_caller = who, vm_value = value,
           vm_calldata = input, vm_timestamp = rt_block_timestamp r \<rparr>, x) = Some (res, vm', x')"
    using vm_steps_end [of "(_, x)", unfolded snd_conv, OF assms(1) meter_ok_new] by (metis prod.collapse)
  then show ?thesis using vm_steps_run [OF 1] assms(2) by (simp add: vm_execute_def)
qed

text \<open>A program that jumps to itself, with five units of gas.\<close>

definition toy_vm_x :: cx where
  "toy_vm_x = toy_x\<lparr> gm := Some (new_gas_meter 5) \<rparr>"

theorem evm_run_ends_witness:
  "\<exists>res x'. vm_execute id [] default_runtime (replicate 32 1) [0x5b, 0x60, 0, 0x56] [] 0 [] toy_vm_x = Some (res, x')"
proof -
  have "gm toy_vm_x = Some (new_gas_meter 5)" "length (replicate 32 (1::u8)) = 32" by (simp_all add: toy_vm_x_def)
  then show ?thesis using evm_run_ends [of toy_vm_x 5 "replicate 32 1" id "[]" default_runtime "[0x5b, 0x60, 0, 0x56]" "[]" 0 "[]"] by blast
qed

end
