(* ===== verification/Gov_Storage.thy ===== *)
theory Gov_Storage
  imports State_Error Contract_Events "HOL-Library.Sublist"
begin

text \<open>
  The governance part of the node's storage: the accessors of \<open>savitri-storage/src/storage/mod.rs\<close>
  (vote tokens, proposals, votes, approved standards, connectors) on the default column family, and
  the block-driven governance of \<open>savitri-storage/src/storage/governance.rs\<close>.  The column family is
  its content in key order; failures of the database are not modelled.  bincode and hex are
  parameters.  Strings are their UTF-8 bytes; error texts are kept without formatted arguments.
\<close>

section \<open>Accessors\<close>

type_synonym kv = "(bytes \<times> bytes) list"
type_synonym 'a gov = "(kv, string, 'a) comp"

definition read_u128_le :: "bytes \<Rightarrow> kv \<Rightarrow> u128" where
  "read_u128_le k db = (case map_of db k of
      Some d \<Rightarrow> if 16 \<le> length d then from_le_bytes (take 16 d) else 0 | None \<Rightarrow> 0)"

definition vote_token_key :: "bytes \<Rightarrow> bytes" where
  "vote_token_key addr = str_bytes ''vote_token:'' @ addr"

definition get_vote_token_balance :: "bytes \<Rightarrow> kv \<Rightarrow> u128" where
  "get_vote_token_balance addr db = read_u128_le (vote_token_key addr) db"

definition increment_vote_token_balance :: "bytes \<Rightarrow> u128 \<Rightarrow> kv \<Rightarrow> kv" where
  "increment_vote_token_balance addr n db =
    bt_insert (vote_token_key addr) (le_bytes 16 (saturating_add (get_vote_token_balance addr db) n)) db"

definition decrement_vote_token_balance :: "bytes \<Rightarrow> u128 \<Rightarrow> kv \<Rightarrow> kv" where
  "decrement_vote_token_balance addr n db =
    bt_insert (vote_token_key addr) (le_bytes 16 (saturating_sub (get_vote_token_balance addr db) n)) db"

definition set_fee_base :: "u64 \<Rightarrow> kv \<Rightarrow> kv" where
  "set_fee_base v db = bt_insert (str_bytes ''fee:base'') (le_bytes 8 v) db"

definition set_fee_max :: "u64 \<Rightarrow> kv \<Rightarrow> kv" where
  "set_fee_max v db = bt_insert (str_bytes ''fee:max'') (le_bytes 8 v) db"

definition put_approved_standard :: "bytes \<Rightarrow> bytes \<Rightarrow> kv \<Rightarrow> kv" where
  "put_approved_standard sid d db = bt_insert (str_bytes ''standard:'' @ sid) d db"

definition put_non_core_change :: "bytes \<Rightarrow> bytes \<Rightarrow> kv \<Rightarrow> kv" where
  "put_non_core_change cid d db = bt_insert (str_bytes ''non_core_change:'' @ cid) d db"

definition set_fl_policy :: "bytes \<Rightarrow> kv \<Rightarrow> kv" where
  "set_fl_policy d db = bt_insert (str_bytes ''fl:policy'') d db"

definition approve_fl_model :: "bytes \<Rightarrow> kv \<Rightarrow> kv" where
  "approve_fl_model mid db = bt_insert (str_bytes ''fl:approved_model:'' @ mid) (str_bytes ''approved'') db"

definition abort_fl_round :: "u64 \<Rightarrow> kv \<Rightarrow> kv" where
  "abort_fl_round r db = bt_insert (str_bytes (''fl:round:'' @ dec (unat r) @ '':status'')) (str_bytes ''aborted'') db"

definition put_connector_info :: "bytes \<Rightarrow> bytes \<Rightarrow> kv \<Rightarrow> kv" where
  "put_connector_info cid d db = bt_insert (str_bytes ''connector:'' @ cid) d db"

definition connector_exists :: "bytes \<Rightarrow> kv \<Rightarrow> bool" where
  "connector_exists cid db = (map_of db (str_bytes ''connector:'' @ cid) \<noteq> None)"

definition delete_connector_info :: "bytes \<Rightarrow> kv \<Rightarrow> kv" where
  "delete_connector_info cid db = AList.delete (str_bytes ''connector:'' @ cid) db"

definition get_total_vote_tokens :: "kv \<Rightarrow> u128" where
  "get_total_vote_tokens db = read_u128_le (str_bytes ''vote_tokens:total'') db"

definition next_id_key :: bytes where
  "next_id_key = str_bytes ''proposals:next_id''"

definition next_proposal_id :: "kv \<Rightarrow> u64" where
  "next_proposal_id db = (case map_of db next_id_key of
      Some d \<Rightarrow> if 8 \<le> length d then from_le_bytes (take 8 d) else 1 | None \<Rightarrow> 1)"

definition proposal_key :: "u64 \<Rightarrow> bytes" where
  "proposal_key pid = str_bytes (''proposal:'' @ dec (unat pid))"

definition put_proposal :: "u64 \<Rightarrow> bytes \<Rightarrow> kv \<Rightarrow> kv" where
  "put_proposal pid d db = bt_insert (proposal_key pid) d db"

definition get_proposal :: "u64 \<Rightarrow> kv \<Rightarrow> bytes option" where
  "get_proposal pid db = map_of db (proposal_key pid)"

definition gov_vote_key :: "hexlib \<Rightarrow> bytes \<Rightarrow> u64 \<Rightarrow> bytes" where
  "gov_vote_key hx voter pid = str_bytes (''vote:'' @ hex_encode hx voter @ '':'' @ dec (unat pid))"

definition get_vote :: "hexlib \<Rightarrow> bytes \<Rightarrow> u64 \<Rightarrow> kv \<Rightarrow> bytes option" where
  "get_vote hx voter pid db = map_of db (gov_vote_key hx voter pid)"

definition put_vote :: "hexlib \<Rightarrow> bytes \<Rightarrow> u64 \<Rightarrow> bytes \<Rightarrow> kv \<Rightarrow> kv" where
  "put_vote hx voter pid d db = bt_insert (gov_vote_key hx voter pid) d db"

definition get_available_vote_tokens :: "bytes \<Rightarrow> kv \<Rightarrow> u128" where
  "get_available_vote_tokens addr db = get_vote_token_balance addr db"

definition locked_tokens_key :: "hexlib \<Rightarrow> bytes \<Rightarrow> bytes" where
  "locked_tokens_key hx addr = str_bytes (''locked_tokens:'' @ hex_encode hx addr)"

definition get_locked_vote_tokens :: "hexlib \<Rightarrow> bytes \<Rightarrow> kv \<Rightarrow> u128" where
  "get_locked_vote_tokens hx addr db = read_u128_le (locked_tokens_key hx addr) db"

text \<open>The scans compare keys after a lossy UTF-8 decoding, which keeps every ASCII byte in place.\<close>

definition get_proposal_votes :: "u64 \<Rightarrow> kv \<Rightarrow> bytes list" where
  "get_proposal_votes pid db =
    map snd (filter (\<lambda>(k, _). prefix (str_bytes ''vote:'') k \<and> suffix (str_bytes ('':'' @ dec (unat pid))) k) db)"

definition bytes_str :: "bytes \<Rightarrow> string" where
  "bytes_str bs = map (\<lambda>b. char_of (unat b)) bs"

definition proposal_id_of :: "bytes \<Rightarrow> u64 option" where
  "proposal_id_of k = (if prefix (str_bytes ''proposal:'') k
     then map_option word_of_nat (parse_usize (bytes_str (drop 9 k))) else None)"

definition get_all_proposals :: "kv \<Rightarrow> u64 list" where
  "get_all_proposals db = sort (List.map_filter (proposal_id_of \<circ> fst) db)"

definition put_contract :: "hexlib \<Rightarrow> bytes \<Rightarrow> bytes \<Rightarrow> kv \<Rightarrow> kv" where
  "put_contract hx addr d db = bt_insert (str_bytes (''contract:'' @ hex_encode hx addr)) d db"

definition update_contract_code :: "hexlib \<Rightarrow> bytes \<Rightarrow> bytes \<Rightarrow> kv \<Rightarrow> kv" where
  "update_contract_code hx addr code db = put_contract hx addr code db"

section \<open>Stored proposals and votes\<close>

datatype SProposalStatus = SPending | SActiveVoting | SApproved | SRejected | SExecuted

datatype GovVoteType = Yes | No | Abstain

datatype SProposalAction =
    SFeeVariation "u128 option" "u128 option"
  | SProjectSelection bytes u128
  | SStandards string string
  | SContractUpgrade bytes bytes string
  | SNonCore string
  | SSetFlPolicy u16 u32 "bytes list"
  | SApproveFlModel bytes
  | SAbortFlRound bytes u64
  | SSetBondParams "u128 option" "u128 option"
  | SSetSlashParams "u16 option" "u16 option" "u16 option"
  | SAddConnector string bytes bytes
  | SRemoveConnector string
  | SSlashingParamsUpdate "u128 option" "u16 option" "u16 option" "u16 option"

record SProposal =
  sp_id :: u64
  sp_creator :: bytes
  sp_deposit :: u128
  sp_description :: string
  sp_action :: SProposalAction
  sp_status :: SProposalStatus
  sp_created_at :: u64
  sp_review_end :: u64
  sp_voting_end :: u64
  sp_yes_votes :: u128
  sp_no_votes :: u128
  sp_abstain_votes :: u128

record SVote =
  sv_proposal_id :: u64
  sv_voter :: bytes
  sv_vote_type :: GovVoteType
  sv_vote_amount :: u128
  sv_timestamp :: u64

record GovernanceParams =
  quorum_threshold_bps :: u16
  approval_threshold_bps :: u16
  voting_period_blocks :: u64
  review_period_blocks :: u64
  min_proposal_deposit :: u128
  max_proposals_per_block :: u32

definition default_governance_params :: GovernanceParams where
  "default_governance_params = \<lparr> quorum_threshold_bps = 1000, approval_threshold_bps = 5000, voting_period_blocks = 10080,
     review_period_blocks = 1440, min_proposal_deposit = 1000000, max_proposals_per_block = 5 \<rparr>"

record ConnectorConfig =
  max_ingest_per_minute :: u64
  max_payload_size :: nat
  rate_limit_window_secs :: u64

text \<open>bincode, with its plain decoder and the size-limited one of \<open>safe_deserialize\<close>.\<close>

record gov_codec =
  enc_proposal :: "SProposal \<Rightarrow> bytes"
  dec_proposal :: "bytes \<Rightarrow> SProposal option"
  safe_dec_proposal :: "bytes \<Rightarrow> SProposal option"
  enc_vote :: "SVote \<Rightarrow> bytes"
  dec_vote :: "bytes \<Rightarrow> SVote option"
  safe_dec_vote :: "bytes \<Rightarrow> SVote option"
  enc_params :: "GovernanceParams \<Rightarrow> bytes"
  safe_dec_params :: "bytes \<Rightarrow> GovernanceParams option"
  enc_action :: "SProposalAction \<Rightarrow> bytes"
  enc_config :: "ConnectorConfig \<Rightarrow> bytes"
  dec_config :: "bytes \<Rightarrow> ConnectorConfig option"
  enc_connector :: "bytes \<times> ConnectorConfig \<times> u64 \<Rightarrow> bytes"

section \<open>Quorum and approval of the storage\<close>

definition sp_total_votes :: "SProposal \<Rightarrow> u128" where
  "sp_total_votes p = saturating_add (saturating_add (sp_yes_votes p) (sp_no_votes p)) (sp_abstain_votes p)"

definition check_proposal_quorum_10 :: "gov_codec \<Rightarrow> u64 \<Rightarrow> kv \<Rightarrow> bool" where
  "check_proposal_quorum_10 gc pid db =
    (case Option.bind (get_proposal pid db) (safe_dec_proposal gc) of
       None \<Rightarrow> False
     | Some p \<Rightarrow>
         if get_total_vote_tokens db = 0 then False
         else saturating_mul (get_total_vote_tokens db) 1000 div 10000 \<le> sp_total_votes p)"

definition check_proposal_majority :: "gov_codec \<Rightarrow> u64 \<Rightarrow> kv \<Rightarrow> bool" where
  "check_proposal_majority gc pid db =
    (if \<not> check_proposal_quorum_10 gc pid db then False
     else case Option.bind (get_proposal pid db) (safe_dec_proposal gc) of
            None \<Rightarrow> False | Some p \<Rightarrow> sp_no_votes p < sp_yes_votes p)"

section \<open>Block-driven governance\<close>

definition gs_create_proposal ::
  "gov_codec \<Rightarrow> bytes \<Rightarrow> u128 \<Rightarrow> string \<Rightarrow> SProposalAction \<Rightarrow> u64 \<Rightarrow> GovernanceParams \<Rightarrow> u64 gov" where
  "gs_create_proposal gc creator deposit description action height params =
    bindc (need (min_proposal_deposit params \<le> deposit) ''Deposit below minimum required'') (\<lambda>_.
    bindc (gets next_proposal_id) (\<lambda>pid.
    let review_end = height + review_period_blocks params in
    bindc (modify (put_proposal pid (enc_proposal gc
      \<lparr> sp_id = pid, sp_creator = creator, sp_deposit = deposit, sp_description = description, sp_action = action,
        sp_status = SPending, sp_created_at = height, sp_review_end = review_end,
        sp_voting_end = review_end + voting_period_blocks params, sp_yes_votes = 0, sp_no_votes = 0, sp_abstain_votes = 0 \<rparr>))) (\<lambda>_.
    bindc (modify (bt_insert next_id_key (le_bytes 8 (pid + 1)))) (\<lambda>_. ret pid))))"

definition gs_get_proposal :: "gov_codec \<Rightarrow> u64 \<Rightarrow> SProposal option gov" where
  "gs_get_proposal gc pid = bindc (gets (get_proposal pid)) (\<lambda>d. case d of
      None \<Rightarrow> ret None
    | Some bs \<Rightarrow> bindc (ok_or (safe_dec_proposal gc bs) ''deserialization failed'') (\<lambda>p. ret (Some p)))"

definition gs_update_proposal_status :: "gov_codec \<Rightarrow> u64 \<Rightarrow> SProposalStatus \<Rightarrow> unit gov" where
  "gs_update_proposal_status gc pid st = bindc (gs_get_proposal gc pid) (\<lambda>p.
     bindc (ok_or p ''Proposal not found'') (\<lambda>p.
       modify (put_proposal pid (enc_proposal gc (p\<lparr> sp_status := st \<rparr>)))))"

text \<open>The tally of the block-driven votes is a wrapping addition.\<close>

definition add_vote_amount :: "GovVoteType \<Rightarrow> u128 \<Rightarrow> SProposal \<Rightarrow> SProposal" where
  "add_vote_amount ty n p = (case ty of
      Yes \<Rightarrow> p\<lparr> sp_yes_votes := sp_yes_votes p + n \<rparr>
    | No \<Rightarrow> p\<lparr> sp_no_votes := sp_no_votes p + n \<rparr>
    | Abstain \<Rightarrow> p\<lparr> sp_abstain_votes := sp_abstain_votes p + n \<rparr>)"

definition gs_cast_vote :: "hexlib \<Rightarrow> gov_codec \<Rightarrow> bytes \<Rightarrow> u64 \<Rightarrow> GovVoteType \<Rightarrow> u128 \<Rightarrow> u64 \<Rightarrow> unit gov" where
  "gs_cast_vote hx gc voter pid ty n height =
    bindc (gs_get_proposal gc pid) (\<lambda>p.
    bindc (ok_or p ''Proposal not found'') (\<lambda>p.
    bindc (need (sp_review_end p \<le> height) ''Voting period not started'') (\<lambda>_.
    bindc (need (height \<le> sp_voting_end p) ''Voting period ended'') (\<lambda>_.
    bindc (gets (get_vote hx voter pid)) (\<lambda>v.
    bindc (need (v = None) ''Already voted'') (\<lambda>_.
    bindc (gets (get_available_vote_tokens voter)) (\<lambda>available.
    bindc (need (n \<le> available) ''Insufficient vote tokens'') (\<lambda>_.
    bindc (modify (put_vote hx voter pid (enc_vote gc
      \<lparr> sv_proposal_id = pid, sv_voter = voter, sv_vote_type = ty, sv_vote_amount = n, sv_timestamp = height \<rparr>))) (\<lambda>_.
    bindc (modify (put_proposal pid (enc_proposal gc (add_vote_amount ty n p)))) (\<lambda>_.
      modify (\<lambda>db. bt_insert (locked_tokens_key hx voter)
        (le_bytes 16 (saturating_add (get_locked_vote_tokens hx voter db) n)) db)))))))))))"

fun decode_all :: "('a \<Rightarrow> 'b option) \<Rightarrow> 'a list \<Rightarrow> 'b list gov" where
  "decode_all f [] = ret []"
| "decode_all f (x # xs) = bindc (ok_or (f x) ''deserialization failed'') (\<lambda>y. bindc (decode_all f xs) (\<lambda>ys. ret (y # ys)))"

definition gs_get_proposal_votes :: "gov_codec \<Rightarrow> u64 \<Rightarrow> SVote list gov" where
  "gs_get_proposal_votes gc pid = bindc (gets (get_proposal_votes pid)) (decode_all (safe_dec_vote gc))"

fun gs_load_proposals :: "gov_codec \<Rightarrow> u64 list \<Rightarrow> SProposal list gov" where
  "gs_load_proposals gc [] = ret []"
| "gs_load_proposals gc (pid # pids) = bindc (gs_get_proposal gc pid) (\<lambda>p.
     bindc (gs_load_proposals gc pids) (\<lambda>ps. ret (case p of None \<Rightarrow> ps | Some p \<Rightarrow> p # ps)))"

definition gs_get_all_proposals :: "gov_codec \<Rightarrow> SProposal list gov" where
  "gs_get_all_proposals gc = bindc (gets get_all_proposals) (gs_load_proposals gc)"

definition gs_check_quorum :: "gov_codec \<Rightarrow> u64 \<Rightarrow> GovernanceParams \<Rightarrow> bool gov" where
  "gs_check_quorum gc pid params = bindc (gs_get_proposal gc pid) (\<lambda>p. case p of
      None \<Rightarrow> ret False
    | Some p \<Rightarrow> bindc (gets get_total_vote_tokens) (\<lambda>total.
        if total = 0 then ret False
        else ret (saturating_mul total (ucast (quorum_threshold_bps params)) div 10000 \<le> sp_total_votes p)))"

definition gs_check_approval :: "gov_codec \<Rightarrow> u64 \<Rightarrow> GovernanceParams \<Rightarrow> bool gov" where
  "gs_check_approval gc pid params = bindc (gs_check_quorum gc pid params) (\<lambda>q.
     if \<not> q then ret False
     else bindc (gs_get_proposal gc pid) (\<lambda>p. case p of
        None \<Rightarrow> ret False
      | Some p \<Rightarrow>
          if sp_total_votes p = 0 then ret False
          else ret (saturating_mul (sp_total_votes p) (ucast (approval_threshold_bps params)) div 10000 \<le> sp_yes_votes p)))"

definition gs_apply_action :: "hexlib \<Rightarrow> gov_codec \<Rightarrow> SProposal \<Rightarrow> unit gov" where
  "gs_apply_action hx gc p = (case sp_action p of
      SFeeVariation b m \<Rightarrow>
        bindc (case b of None \<Rightarrow> ret () | Some f \<Rightarrow> modify (set_fee_base (ucast f))) (\<lambda>_.
          case m of None \<Rightarrow> ret () | Some f \<Rightarrow> modify (set_fee_max (ucast f)))
    | SStandards n v \<Rightarrow> modify (put_approved_standard (str_bytes (n @ '':'' @ v)) (sp_creator p))
    | SContractUpgrade a h _ \<Rightarrow> modify (update_contract_code hx a h)
    | SSetFlPolicy _ _ _ \<Rightarrow> modify (set_fl_policy (enc_action gc (sp_action p)))
    | SApproveFlModel mid \<Rightarrow> modify (approve_fl_model mid)
    | SAbortFlRound _ r \<Rightarrow> modify (abort_fl_round r)
    | SAddConnector cid pk cfg \<Rightarrow>
        modify (put_connector_info (str_bytes cid) (str_bytes (cid @ '':'' @ hex_encode hx pk @ '':'' @ hex_encode hx cfg)))
    | SRemoveConnector cid \<Rightarrow> modify (delete_connector_info (str_bytes cid))
    | _ \<Rightarrow> throw ''Proposal action not implemented'')"

definition gs_execute_proposal :: "hexlib \<Rightarrow> gov_codec \<Rightarrow> u64 \<Rightarrow> unit gov" where
  "gs_execute_proposal hx gc pid = bindc (gs_get_proposal gc pid) (\<lambda>p.
     bindc (ok_or p ''Proposal not found'') (\<lambda>p.
     bindc (need (sp_status p = SApproved) ''Proposal not approved'') (\<lambda>_.
     bindc (gs_apply_action hx gc p) (\<lambda>_.
       gs_update_proposal_status gc pid SExecuted))))"

definition gs_get_governance_params :: "gov_codec \<Rightarrow> GovernanceParams gov" where
  "gs_get_governance_params gc = bindc (gets (\<lambda>db. map_of db (str_bytes ''governance:params''))) (\<lambda>d. case d of
      None \<Rightarrow> ret default_governance_params | Some bs \<Rightarrow> ok_or (safe_dec_params gc bs) ''deserialization failed'')"

definition gs_set_governance_params :: "gov_codec \<Rightarrow> GovernanceParams \<Rightarrow> unit gov" where
  "gs_set_governance_params gc params = modify (bt_insert (str_bytes ''governance:params'') (enc_params gc params))"

text \<open>A proposal's part of a block: review ends, voting ends, or an approved action runs.  A failing
  execution is skipped, with what it already changed.\<close>

definition gs_process_one ::
  "hexlib \<Rightarrow> gov_codec \<Rightarrow> u64 \<Rightarrow> GovernanceParams \<Rightarrow> SProposal \<Rightarrow> u64 list \<Rightarrow> u64 list gov" where
  "gs_process_one hx gc height params p executed = (case sp_status p of
      SPending \<Rightarrow>
        if sp_review_end p \<le> height
        then bindc (gs_update_proposal_status gc (sp_id p) SActiveVoting) (\<lambda>_. ret executed) else ret executed
    | SActiveVoting \<Rightarrow>
        if sp_voting_end p < height
        then bindc (gs_check_approval gc (sp_id p) params) (\<lambda>ok.
               bindc (gs_update_proposal_status gc (sp_id p) (if ok then SApproved else SRejected)) (\<lambda>_. ret executed))
        else ret executed
    | SApproved \<Rightarrow>
        if length executed < unat (max_proposals_per_block params)
        then (\<lambda>db. case gs_execute_proposal hx gc (sp_id p) db of
                (Inr _, db') \<Rightarrow> (Inr (executed @ [sp_id p]), db') | (Inl _, db') \<Rightarrow> (Inr executed, db'))
        else ret executed
    | _ \<Rightarrow> ret executed)"

fun gs_process_all ::
  "hexlib \<Rightarrow> gov_codec \<Rightarrow> u64 \<Rightarrow> GovernanceParams \<Rightarrow> SProposal list \<Rightarrow> u64 list \<Rightarrow> u64 list gov" where
  "gs_process_all hx gc height params [] executed = ret executed"
| "gs_process_all hx gc height params (p # ps) executed =
    bindc (gs_process_one hx gc height params p executed) (gs_process_all hx gc height params ps)"

definition gs_process_proposals :: "hexlib \<Rightarrow> gov_codec \<Rightarrow> u64 \<Rightarrow> u64 list gov" where
  "gs_process_proposals hx gc height =
    bindc (gs_get_governance_params gc) (\<lambda>params.
    bindc (gs_get_all_proposals gc) (\<lambda>ps.
      gs_process_all hx gc height params ps []))"

record ProposalStats =
  st_proposal_id :: u64
  st_status :: SProposalStatus
  st_total_votes :: u128
  st_yes_votes :: u128
  st_no_votes :: u128
  st_abstain_votes :: u128
  st_unique_voters :: u64
  st_created_at :: u64
  st_voting_end :: u64

definition gs_get_proposal_stats :: "gov_codec \<Rightarrow> u64 \<Rightarrow> ProposalStats option gov" where
  "gs_get_proposal_stats gc pid = bindc (gs_get_proposal gc pid) (\<lambda>p. case p of
      None \<Rightarrow> ret None
    | Some p \<Rightarrow> bindc (gs_get_proposal_votes gc pid) (\<lambda>vs. ret (Some
        \<lparr> st_proposal_id = pid, st_status = sp_status p, st_total_votes = sp_total_votes p, st_yes_votes = sp_yes_votes p,
          st_no_votes = sp_no_votes p, st_abstain_votes = sp_abstain_votes p, st_unique_voters = word_of_nat (length vs),
          st_created_at = sp_created_at p, st_voting_end = sp_voting_end p \<rparr>)))"

section \<open>Keys\<close>

lemma str_bytes_simps [simp]:
  "str_bytes [] = []" "str_bytes (c # s) = word_of_nat (of_char c) # str_bytes s" "str_bytes (s @ t) = str_bytes s @ str_bytes t"
  by (simp_all add: str_bytes_def)

lemma str_bytes_inj [simp]: "str_bytes s = str_bytes t \<longleftrightarrow> s = t"
proof -
  have "inj (\<lambda>c :: char. word_of_nat (of_char c) :: u8)"
  proof (rule injI)
    fix c d :: char assume "(word_of_nat (of_char c) :: u8) = word_of_nat (of_char d)"
    then have "(of_char c :: nat) mod 256 = of_char d mod 256" by (simp add: word_of_nat_eq_iff take_bit_eq_mod)
    then show "c = d" by simp
  qed
  then show ?thesis by (simp add: str_bytes_def inj_map_eq_map)
qed

lemma dec_inj: "m < 2 ^ 64 \<Longrightarrow> n < 2 ^ 64 \<Longrightarrow> dec m = dec n \<longleftrightarrow> m = n"
  by (metis option.inject parse_usize_dec)

lemma proposal_key_inj [simp]: "proposal_key p = proposal_key q \<longleftrightarrow> p = q"
  using dec_inj [of "unat p" "unat q"] unat_bound [of p] unat_bound [of q] by (simp add: proposal_key_def word_unat_eq_iff)

lemma vote_token_key_inj [simp]: "vote_token_key a = vote_token_key b \<longleftrightarrow> a = b"
  by (simp add: vote_token_key_def)

definition total_key :: bytes where
  "total_key = str_bytes ''vote_tokens:total''"

lemma keys_apart [simp]:
  "proposal_key p \<noteq> vote_token_key a" "vote_token_key a \<noteq> proposal_key p"
  "gov_vote_key hx v p \<noteq> vote_token_key a" "vote_token_key a \<noteq> gov_vote_key hx v p"
  "gov_vote_key hx v p \<noteq> proposal_key q" "proposal_key q \<noteq> gov_vote_key hx v p"
  "total_key \<noteq> vote_token_key a" "total_key \<noteq> proposal_key p" "total_key \<noteq> gov_vote_key hx v p"
  "next_id_key \<noteq> vote_token_key a" "next_id_key \<noteq> proposal_key p" "next_id_key \<noteq> gov_vote_key hx v p"
  by (simp_all add: proposal_key_def vote_token_key_def gov_vote_key_def total_key_def next_id_key_def)

lemma get_total_vote_tokens_key: "get_total_vote_tokens db = read_u128_le total_key db"
  by (simp add: get_total_vote_tokens_def total_key_def)

lemma read_u128_le_insert:
  assumes "bt_wf db"
  shows "read_u128_le k (bt_insert j d db) = (if k = j then if 16 \<le> length d then from_le_bytes (take 16 d) else 0 else read_u128_le k db)"
  using assms by (simp add: read_u128_le_def map_of_bt_insert)

lemma u128_le_roundtrip [simp]: "from_le_bytes (le_bytes 16 (n :: u128)) = n"
  by (simp add: from_le_bytes_le_bytes take_bit_word_eq_self)

text \<open>What changing a balance does to the store.\<close>

lemma increment_store:
  assumes "bt_wf db"
  shows "bt_wf (increment_vote_token_balance b n db)"
    "get_vote_token_balance a (increment_vote_token_balance b n db) =
      (if a = b then saturating_add (get_vote_token_balance b db) n else get_vote_token_balance a db)"
    "get_proposal p (increment_vote_token_balance b n db) = get_proposal p db"
    "get_total_vote_tokens (increment_vote_token_balance b n db) = get_total_vote_tokens db"
    "map_of (increment_vote_token_balance b n db) total_key = map_of db total_key"
    "get_vote hx v p (increment_vote_token_balance b n db) = get_vote hx v p db"
  using assms
  by (simp_all add: increment_vote_token_balance_def bt_wf_insert get_vote_token_balance_def read_u128_le_insert get_proposal_def
      get_vote_def map_of_bt_insert get_total_vote_tokens_key)

lemma decrement_store:
  assumes "bt_wf db"
  shows "bt_wf (decrement_vote_token_balance b n db)"
    "get_vote_token_balance a (decrement_vote_token_balance b n db) =
      (if a = b then saturating_sub (get_vote_token_balance b db) n else get_vote_token_balance a db)"
    "get_proposal p (decrement_vote_token_balance b n db) = get_proposal p db"
    "get_vote hx v p (decrement_vote_token_balance b n db) = get_vote hx v p db"
    "map_of (decrement_vote_token_balance b n db) total_key = map_of db total_key"
  using assms
  by (simp_all add: decrement_vote_token_balance_def bt_wf_insert get_vote_token_balance_def read_u128_le_insert get_proposal_def
      get_vote_def map_of_bt_insert)

lemma put_proposal_store:
  assumes "bt_wf db"
  shows "bt_wf (put_proposal q d db)" "get_vote_token_balance a (put_proposal q d db) = get_vote_token_balance a db"
    "get_proposal p (put_proposal q d db) = (if p = q then Some d else get_proposal p db)"
    "get_vote hx v p (put_proposal q d db) = get_vote hx v p db"
    "map_of (put_proposal q d db) total_key = map_of db total_key"
  using assms
  by (simp_all add: put_proposal_def bt_wf_insert get_vote_token_balance_def read_u128_le_insert get_proposal_def get_vote_def map_of_bt_insert)

lemma put_vote_store:
  assumes "bt_wf db"
  shows "bt_wf (put_vote hx w q d db)" "get_vote_token_balance a (put_vote hx w q d db) = get_vote_token_balance a db"
    "get_proposal p (put_vote hx w q d db) = get_proposal p db"
    "get_vote hx w q (put_vote hx w q d db) = Some d"
    "map_of (put_vote hx w q d db) total_key = map_of db total_key"
  using assms
  by (simp_all add: put_vote_def bt_wf_insert get_vote_token_balance_def read_u128_le_insert get_proposal_def get_vote_def map_of_bt_insert)

lemmas gov_store = increment_store decrement_store put_proposal_store put_vote_store

text \<open>A proposal's number is read back from its key.\<close>

lemma bytes_str_str_bytes [simp]: "bytes_str (str_bytes s) = s"
proof -
  have "(of_char c :: nat) mod 256 = of_char c" for c :: char by simp
  then show ?thesis by (induction s) (simp_all add: bytes_str_def unat_of_nat)
qed

lemma proposal_id_of_key [simp]: "proposal_id_of (proposal_key pid) = Some pid"
proof -
  have "drop 9 (proposal_key pid) = str_bytes (dec (unat pid))" by (simp add: proposal_key_def)
  moreover have "prefix (str_bytes ''proposal:'') (proposal_key pid)" by (simp add: proposal_key_def)
  ultimately show ?thesis using unat_bound [of pid] by (simp add: proposal_id_of_def parse_usize_dec del: str_bytes_simps)
qed

text \<open>A balance change does not change the list of proposals.\<close>

lemma map_filter_bt_insert: "f k = None \<Longrightarrow> List.map_filter (f \<circ> fst) (bt_insert k v m) = List.map_filter (f \<circ> fst) m"
  by (induction k v m rule: bt_insert.induct) (auto simp: List.map_filter_simps split: option.splits)

lemma map_filter_bt_insert_first:
  assumes "List.map_filter (f \<circ> fst) m = []" "f k = Some a"
  shows "List.map_filter (f \<circ> fst) (bt_insert k v m) = [a]"
  using assms by (induction k v m rule: bt_insert.induct) (auto simp: List.map_filter_simps split: option.splits)

lemma get_all_proposals_increment [simp]: "get_all_proposals (increment_vote_token_balance a n db) = get_all_proposals db"
proof -
  have "proposal_id_of (vote_token_key a) = None"
    by (auto simp: proposal_id_of_def vote_token_key_def prefix_def)
  then show ?thesis by (simp add: get_all_proposals_def increment_vote_token_balance_def map_filter_bt_insert)
qed

end
