(* ===== verification/Governance.thy ===== *)
theory Governance
  imports Gov_Storage
begin

text \<open>
  Governance by vote tokens (\<open>Savitri-contracts/src/governance\<close>: \<open>proposals.rs\<close>, \<open>deposit.rs\<close>,
  \<open>voting.rs\<close>, \<open>vote_token.rs\<close>): proposals and their life cycle, deposits, votes, results and the
  finalisation of expired proposals.  The wall clock is an argument.  The percentages that are only
  reported (64-bit floats) and the metrics counters are not modelled.
\<close>

section \<open>Proposals\<close>

definition MAX_DESERIALIZE_SIZE :: nat where "MAX_DESERIALIZE_SIZE = 4 * 1024 * 1024"
definition REVIEW_PERIOD_SECONDS :: u64 where "REVIEW_PERIOD_SECONDS = 24 * 60 * 60"
definition VOTING_PERIOD_SECONDS :: u64 where "VOTING_PERIOD_SECONDS = 7 * 24 * 60 * 60"

datatype ProposalStatus = Pending | ActiveVoting | Approved | Rejected

datatype ProposalAction =
    FeeVariation "u128 option" "u128 option"
  | ProjectSelection string u128
  | Standards string string
  | NonCore string
  | ContractUpgrade bytes bytes string
  | SlashingParamsUpdate "u128 option" "u16 option" "u16 option" "u16 option"
  | SetFlPolicy u16 u32 "string list"
  | ApproveFlModel string
  | AbortFlRound string u64
  | AddConnector string bytes ConnectorConfig
  | RemoveConnector string

record Proposal =
  gp_id :: u64
  gp_creator :: string
  gp_deposit :: u128
  gp_description :: string
  gp_action :: ProposalAction
  gp_status :: ProposalStatus
  gp_created_at :: u64
  gp_review_end :: u64
  gp_voting_end :: u64
  gp_yes_votes :: u128
  gp_no_votes :: u128
  gp_abstain_votes :: u128

definition new_with_timestamp :: "u64 \<Rightarrow> string \<Rightarrow> u128 \<Rightarrow> string \<Rightarrow> ProposalAction \<Rightarrow> u64 \<Rightarrow> Proposal" where
  "new_with_timestamp pid creator deposit description action created_at =
    \<lparr> gp_id = pid, gp_creator = creator, gp_deposit = deposit, gp_description = description, gp_action = action,
      gp_status = Pending, gp_created_at = created_at, gp_review_end = created_at + REVIEW_PERIOD_SECONDS,
      gp_voting_end = created_at + REVIEW_PERIOD_SECONDS + VOTING_PERIOD_SECONDS,
      gp_yes_votes = 0, gp_no_votes = 0, gp_abstain_votes = 0 \<rparr>"

definition total_votes :: "Proposal \<Rightarrow> u128" where
  "total_votes p = (case Option.bind (checked_add (gp_yes_votes p) (gp_no_votes p)) (\<lambda>s. checked_add s (gp_abstain_votes p)) of
      Some t \<Rightarrow> t | None \<Rightarrow> max_value)"

definition total_valid_votes :: "Proposal \<Rightarrow> u128" where
  "total_valid_votes p = (case checked_add (gp_yes_votes p) (gp_no_votes p) of Some t \<Rightarrow> t | None \<Rightarrow> max_value)"

definition add_proposal_vote :: "GovVoteType \<Rightarrow> u128 \<Rightarrow> Proposal \<Rightarrow> Proposal option" where
  "add_proposal_vote ty n p = (case ty of
      Yes \<Rightarrow> map_option (\<lambda>v. p\<lparr> gp_yes_votes := v \<rparr>) (checked_add (gp_yes_votes p) n)
    | No \<Rightarrow> map_option (\<lambda>v. p\<lparr> gp_no_votes := v \<rparr>) (checked_add (gp_no_votes p) n)
    | Abstain \<Rightarrow> map_option (\<lambda>v. p\<lparr> gp_abstain_votes := v \<rparr>) (checked_add (gp_abstain_votes p) n))"

definition is_in_review :: "u64 \<Rightarrow> Proposal \<Rightarrow> bool" where
  "is_in_review now p \<longleftrightarrow> gp_status p = Pending \<and> now < gp_review_end p"

definition is_in_voting :: "u64 \<Rightarrow> Proposal \<Rightarrow> bool" where
  "is_in_voting now p \<longleftrightarrow> gp_status p = ActiveVoting \<and> gp_review_end p \<le> now \<and> now < gp_voting_end p"

definition is_expired :: "u64 \<Rightarrow> Proposal \<Rightarrow> bool" where
  "is_expired now p \<longleftrightarrow> gp_voting_end p \<le> now"

definition is_finalized :: "Proposal \<Rightarrow> bool" where
  "is_finalized p \<longleftrightarrow> gp_status p = Approved \<or> gp_status p = Rejected"

definition transition_state :: "u64 \<Rightarrow> Proposal \<Rightarrow> bool \<times> Proposal" where
  "transition_state now p =
    (if is_finalized p then (False, p)
     else case gp_status p of
       Pending \<Rightarrow> if gp_review_end p \<le> now then (True, p\<lparr> gp_status := ActiveVoting \<rparr>) else (False, p)
     | ActiveVoting \<Rightarrow> if gp_voting_end p \<le> now then (True, p\<lparr> gp_status := Rejected \<rparr>) else (False, p)
     | _ \<Rightarrow> (False, p))"

definition should_transition :: "u64 \<Rightarrow> Proposal \<Rightarrow> bool" where
  "should_transition now p =
    (if is_finalized p then False
     else case gp_status p of
       Pending \<Rightarrow> gp_review_end p \<le> now | ActiveVoting \<Rightarrow> gp_voting_end p \<le> now | _ \<Rightarrow> False)"

definition is_valid_transition :: "ProposalStatus \<Rightarrow> Proposal \<Rightarrow> bool" where
  "is_valid_transition new_status p =
    (if is_finalized p then False
     else case gp_status p of
       Pending \<Rightarrow> new_status = ActiveVoting
     | ActiveVoting \<Rightarrow> new_status = Approved \<or> new_status = Rejected
     | _ \<Rightarrow> False)"

definition try_transition_to :: "ProposalStatus \<Rightarrow> u64 \<Rightarrow> Proposal \<Rightarrow> (string + bool) \<times> Proposal" where
  "try_transition_to new_status now p =
    (if gp_status p = new_status then (Inr False, p)
     else if \<not> is_valid_transition new_status p then (Inl ''Transizione invalida'', p)
     else case new_status of
       ActiveVoting \<Rightarrow> (case transition_state now p of (b, p') \<Rightarrow> (Inr b, p'))
     | Approved \<Rightarrow> (Inr True, p\<lparr> gp_status := Approved \<rparr>)
     | Rejected \<Rightarrow> (Inr True, p\<lparr> gp_status := Rejected \<rparr>)
     | Pending \<Rightarrow> (Inl ''Non possibile tornare allo stato Pending'', p))"

definition can_be_voted :: "u64 \<Rightarrow> Proposal \<Rightarrow> bool" where
  "can_be_voted now p =
    (if is_in_review now p then False else if gp_status p \<noteq> ActiveVoting then False else now < gp_voting_end p)"

section \<open>Stored and governance form\<close>

definition or_zero :: "'a::zero option \<Rightarrow> 'a option" where
  "or_zero v = Some (case v of None \<Rightarrow> 0 | Some n \<Rightarrow> n)"

definition decode_config :: "gov_codec \<Rightarrow> bytes \<Rightarrow> ConnectorConfig gov" where
  "decode_config gc cfg = bindc (need (length cfg \<le> MAX_DESERIALIZE_SIZE) ''Connector config data too large'') (\<lambda>_.
     ok_or (dec_config gc cfg) ''Failed to deserialize config'')"

definition storage_action_to_governance :: "hexlib \<Rightarrow> gov_codec \<Rightarrow> SProposalAction \<Rightarrow> ProposalAction gov" where
  "storage_action_to_governance hx gc a = (case a of
      SFeeVariation b m \<Rightarrow> ret (FeeVariation (or_zero b) (or_zero m))
    | SProjectSelection addr n \<Rightarrow> ret (ProjectSelection (hex_encode hx addr) n)
    | SStandards n v \<Rightarrow> ret (Standards n v)
    | SNonCore d \<Rightarrow> ret (NonCore d)
    | SContractUpgrade addr h d \<Rightarrow>
        bindc (ok_or (hex_decode hx (bytes_str addr)) ''Invalid contract address'') (\<lambda>addr.
        bindc (ok_or (hex_decode hx (bytes_str h)) ''Invalid new_code_hash'') (\<lambda>h. ret (ContractUpgrade addr h d)))
    | SSlashingParamsUpdate mb e dv ia \<Rightarrow> ret (SlashingParamsUpdate (or_zero mb) (or_zero e) (or_zero dv) (or_zero ia))
    | SSetFlPolicy bps mm wl \<Rightarrow> ret (SetFlPolicy bps mm (map (hex_encode hx) wl))
    | SApproveFlModel m \<Rightarrow> ret (ApproveFlModel (hex_encode hx m))
    | SAbortFlRound m r \<Rightarrow> ret (AbortFlRound (hex_encode hx m) r)
    | SAddConnector c pk cfg \<Rightarrow> bindc (decode_config gc cfg) (\<lambda>cfg. ret (AddConnector c pk cfg))
    | SRemoveConnector c \<Rightarrow> ret (RemoveConnector c)
    | _ \<Rightarrow> ret (NonCore ''Unknown action type''))"

definition storage_status_to_governance :: "SProposalStatus \<Rightarrow> ProposalStatus" where
  "storage_status_to_governance s = (case s of
      SPending \<Rightarrow> Pending | SActiveVoting \<Rightarrow> ActiveVoting | SApproved \<Rightarrow> Approved | SRejected \<Rightarrow> Rejected | SExecuted \<Rightarrow> Approved)"

definition storage_proposal_to_governance_proposal :: "hexlib \<Rightarrow> gov_codec \<Rightarrow> SProposal \<Rightarrow> Proposal gov" where
  "storage_proposal_to_governance_proposal hx gc p =
    bindc (storage_action_to_governance hx gc (sp_action p)) (\<lambda>action. ret
      \<lparr> gp_id = sp_id p, gp_creator = hex_encode hx (sp_creator p), gp_deposit = sp_deposit p,
        gp_description = sp_description p, gp_action = action, gp_status = storage_status_to_governance (sp_status p),
        gp_created_at = sp_created_at p, gp_review_end = sp_review_end p, gp_voting_end = sp_voting_end p,
        gp_yes_votes = sp_yes_votes p, gp_no_votes = sp_no_votes p, gp_abstain_votes = sp_abstain_votes p \<rparr>)"

definition governance_action_to_storage :: "hexlib \<Rightarrow> gov_codec \<Rightarrow> ProposalAction \<Rightarrow> SProposalAction gov" where
  "governance_action_to_storage hx gc a = (case a of
      FeeVariation b m \<Rightarrow> ret (SFeeVariation (or_zero b) (or_zero m))
    | ProjectSelection addr n \<Rightarrow>
        bindc (ok_or (hex_decode hx addr) ''Invalid project address'') (\<lambda>addr. ret (SProjectSelection addr n))
    | Standards n v \<Rightarrow> ret (SStandards n v)
    | NonCore d \<Rightarrow> ret (SNonCore d)
    | ContractUpgrade addr h d \<Rightarrow>
        bindc (ok_or (hex_decode hx (bytes_str addr)) ''Invalid contract address'') (\<lambda>addr.
        bindc (ok_or (hex_decode hx (bytes_str h)) ''Invalid new_code_hash'') (\<lambda>h. ret (SContractUpgrade addr h d)))
    | SlashingParamsUpdate mb e dv ia \<Rightarrow> ret (SSlashingParamsUpdate (or_zero mb) (or_zero e) (or_zero dv) (or_zero ia))
    | SetFlPolicy bps mm wl \<Rightarrow>
        ret (SSetFlPolicy bps mm (map (\<lambda>a. case hex_decode hx a of None \<Rightarrow> [] | Some b \<Rightarrow> b) wl))
    | ApproveFlModel m \<Rightarrow> bindc (ok_or (hex_decode hx m) ''Invalid model_id'') (\<lambda>m. ret (SApproveFlModel m))
    | AbortFlRound m r \<Rightarrow> bindc (ok_or (hex_decode hx m) ''Invalid model_id'') (\<lambda>m. ret (SAbortFlRound m r))
    | AddConnector c pk cfg \<Rightarrow> ret (SAddConnector c pk (enc_config gc cfg))
    | RemoveConnector c \<Rightarrow> ret (SRemoveConnector c))"

definition governance_status_to_storage :: "ProposalStatus \<Rightarrow> SProposalStatus" where
  "governance_status_to_storage s = (case s of
      Pending \<Rightarrow> SPending | ActiveVoting \<Rightarrow> SActiveVoting | Approved \<Rightarrow> SApproved | Rejected \<Rightarrow> SRejected)"

definition governance_proposal_to_storage_proposal :: "hexlib \<Rightarrow> gov_codec \<Rightarrow> Proposal \<Rightarrow> SProposal gov" where
  "governance_proposal_to_storage_proposal hx gc p =
    bindc (ok_or (hex_decode hx (gp_creator p)) ''Invalid creator'') (\<lambda>creator.
    bindc (governance_action_to_storage hx gc (gp_action p)) (\<lambda>action. ret
      \<lparr> sp_id = gp_id p, sp_creator = creator, sp_deposit = gp_deposit p, sp_description = gp_description p,
        sp_action = action, sp_status = governance_status_to_storage (gp_status p), sp_created_at = gp_created_at p,
        sp_review_end = gp_review_end p, sp_voting_end = gp_voting_end p, sp_yes_votes = gp_yes_votes p,
        sp_no_votes = gp_no_votes p, sp_abstain_votes = gp_abstain_votes p \<rparr>))"

text \<open>Loading with the size limit, as every operation of this module does it.\<close>

definition load_proposal :: "gov_codec \<Rightarrow> u64 \<Rightarrow> SProposal gov" where
  "load_proposal gc pid =
    bindc (gets (get_proposal pid)) (\<lambda>d.
    bindc (ok_or d ''Proposta non trovata'') (\<lambda>d.
    bindc (need (length d \<le> MAX_DESERIALIZE_SIZE) ''Proposal data too large'') (\<lambda>_.
      ok_or (dec_proposal gc d) ''deserialization failed'')))"

section \<open>Creation and state updates\<close>

definition calculate_min_deposit :: "u128 \<Rightarrow> u128" where
  "calculate_min_deposit supply = (case checked_mul supply 5 of Some v \<Rightarrow> v div 100 | None \<Rightarrow> max_value)"

definition is_deposit_sufficient :: "u128 \<Rightarrow> u128 \<Rightarrow> bool" where
  "is_deposit_sufficient deposit supply = (if supply = 0 then False else calculate_min_deposit supply \<le> deposit)"

definition create_proposal ::
  "hexlib \<Rightarrow> gov_codec \<Rightarrow> u64 \<Rightarrow> bytes \<Rightarrow> u128 \<Rightarrow> string \<Rightarrow> ProposalAction \<Rightarrow> Proposal gov" where
  "create_proposal hx gc now creator deposit description action =
    bindc (gets get_total_vote_tokens) (\<lambda>supply.
    bindc (need (is_deposit_sufficient deposit supply) ''Deposit insufficiente'') (\<lambda>_.
    bindc (gets (get_vote_token_balance creator)) (\<lambda>bal.
    bindc (need (deposit \<le> bal) ''Balance insufficiente'') (\<lambda>_.
    bindc (modify (decrement_vote_token_balance creator deposit)) (\<lambda>_.
    bindc (gets next_proposal_id) (\<lambda>pid.
    let p = new_with_timestamp pid (hex_encode hx creator) deposit description action now in
    bindc (governance_proposal_to_storage_proposal hx gc p) (\<lambda>sp.
    bindc (modify (put_proposal (sp_id sp) (enc_proposal gc sp))) (\<lambda>_. ret p))))))))"

definition update_proposal_state :: "hexlib \<Rightarrow> gov_codec \<Rightarrow> u64 \<Rightarrow> u64 \<Rightarrow> bool gov" where
  "update_proposal_state hx gc pid now =
    bindc (load_proposal gc pid) (\<lambda>sp.
    bindc (storage_proposal_to_governance_proposal hx gc sp) (\<lambda>p.
    case transition_state now p of (changed, p) \<Rightarrow>
      bindc (if changed
             then bindc (governance_proposal_to_storage_proposal hx gc p) (\<lambda>sp.
                    modify (put_proposal (sp_id sp) (enc_proposal gc sp)))
             else ret ()) (\<lambda>_. ret changed)))"

section \<open>Deposits\<close>

definition lock_deposit :: "bytes \<Rightarrow> u128 \<Rightarrow> unit gov" where
  "lock_deposit creator n =
    bindc (need (n \<noteq> 0) ''Deposit amount must be greater than zero'') (\<lambda>_.
    bindc (gets (get_vote_token_balance creator)) (\<lambda>bal.
    bindc (need (n \<le> bal) ''Balance insufficiente'') (\<lambda>_.
      modify (decrement_vote_token_balance creator n))))"

definition unlock_deposit :: "hexlib \<Rightarrow> Proposal \<Rightarrow> unit gov" where
  "unlock_deposit hx p =
    bindc (need (gp_status p = Approved) ''proposta non in stato Approved'') (\<lambda>_.
      if gp_deposit p = 0 then ret ()
      else
        bindc (ok_or (hex_decode hx (gp_creator p)) ''Errore nel parsing of the address of the creator'') (\<lambda>creator.
        bindc (need (length creator = 32) ''Invalid creator address'') (\<lambda>_.
          modify (increment_vote_token_balance creator (gp_deposit p)))))"

definition burn_deposit :: "Proposal \<Rightarrow> unit gov" where
  "burn_deposit p = bindc (need (gp_status p = Rejected) ''proposta non in stato Rejected'') (\<lambda>_. ret ())"

definition handle_finalized_proposal :: "hexlib \<Rightarrow> Proposal \<Rightarrow> unit gov" where
  "handle_finalized_proposal hx p = (case gp_status p of
      Approved \<Rightarrow> unlock_deposit hx p | Rejected \<Rightarrow> burn_deposit p | _ \<Rightarrow> throw ''Proposta non finalizzata'')"

section \<open>Voting\<close>

definition add_stored_vote :: "GovVoteType \<Rightarrow> u128 \<Rightarrow> SProposal \<Rightarrow> SProposal option" where
  "add_stored_vote ty n p = (case ty of
      Yes \<Rightarrow> map_option (\<lambda>v. p\<lparr> sp_yes_votes := v \<rparr>) (checked_add (sp_yes_votes p) n)
    | No \<Rightarrow> map_option (\<lambda>v. p\<lparr> sp_no_votes := v \<rparr>) (checked_add (sp_no_votes p) n)
    | Abstain \<Rightarrow> map_option (\<lambda>v. p\<lparr> sp_abstain_votes := v \<rparr>) (checked_add (sp_abstain_votes p) n))"

definition vote :: "hexlib \<Rightarrow> gov_codec \<Rightarrow> u64 \<Rightarrow> u64 \<Rightarrow> bytes \<Rightarrow> GovVoteType \<Rightarrow> u128 \<Rightarrow> unit gov" where
  "vote hx gc now pid voter ty n =
    bindc (need (n \<noteq> 0) ''Vote amount deve essere maggiore di zero'') (\<lambda>_.
    bindc (load_proposal gc pid) (\<lambda>p.
    bindc (need (sp_status p = SActiveVoting) ''Proposta non in votazione attiva'') (\<lambda>_.
    bindc (need (now < sp_voting_end p) ''Proposta scaduta: voting period terminato'') (\<lambda>_.
    bindc (gets (get_vote hx voter pid)) (\<lambda>old.
    bindc (need (old = None) ''Voter ha gia votato su questa proposta'') (\<lambda>_.
    bindc (gets (get_available_vote_tokens voter)) (\<lambda>available.
    bindc (need (n \<le> available) ''Vote token disponibili insufficienti'') (\<lambda>_.
    bindc (modify (decrement_vote_token_balance voter n)) (\<lambda>_.
    bindc (modify (put_vote hx voter pid (enc_vote gc
      \<lparr> sv_proposal_id = pid, sv_voter = voter, sv_vote_type = ty, sv_vote_amount = n, sv_timestamp = now \<rparr>))) (\<lambda>_.
    bindc (ok_or (add_stored_vote ty n p) ''votes overflow'') (\<lambda>p.
      modify (put_proposal pid (enc_proposal gc p)))))))))))))"

definition sized_dec_vote :: "gov_codec \<Rightarrow> bytes \<Rightarrow> SVote option" where
  "sized_dec_vote gc d = (if MAX_DESERIALIZE_SIZE < length d then None else dec_vote gc d)"

fun return_vote_tokens :: "SVote list \<Rightarrow> kv \<Rightarrow> kv" where
  "return_vote_tokens [] db = db"
| "return_vote_tokens (v # vs) db = return_vote_tokens vs (increment_vote_token_balance (sv_voter v) (sv_vote_amount v) db)"

definition unlock_vote_tokens :: "gov_codec \<Rightarrow> u64 \<Rightarrow> unit gov" where
  "unlock_vote_tokens gc pid =
    bindc (load_proposal gc pid) (\<lambda>p.
    bindc (need (sp_status p = SApproved \<or> sp_status p = SRejected) ''Proposta non finalizzata'') (\<lambda>_.
    bindc (gets (get_proposal_votes pid)) (\<lambda>ds.
    bindc (decode_all (sized_dec_vote gc) ds) (\<lambda>vs.
      modify (return_vote_tokens vs)))))"

definition calculate_quorum :: "u128 \<Rightarrow> u128" where
  "calculate_quorum supply = supply div 5"

definition is_quorum_reached :: "u128 \<Rightarrow> u128 \<Rightarrow> bool" where
  "is_quorum_reached votes supply = (if supply = 0 then False else calculate_quorum supply \<le> votes)"

definition calculate_missing_for_quorum :: "u128 \<Rightarrow> u128 \<Rightarrow> u128" where
  "calculate_missing_for_quorum votes supply =
    (if supply = 0 then 0 else if calculate_quorum supply \<le> votes then 0 else calculate_quorum supply - votes)"

definition valid_votes :: "u128 \<Rightarrow> u128 \<Rightarrow> u128" where
  "valid_votes yes no = (case checked_add yes no of Some t \<Rightarrow> t | None \<Rightarrow> max_value)"

definition calculate_approval_threshold :: "u128 \<Rightarrow> u128" where
  "calculate_approval_threshold valid = (case checked_mul valid 65 of Some v \<Rightarrow> v div 100 | None \<Rightarrow> max_value)"

definition is_approval_reached :: "u128 \<Rightarrow> u128 \<Rightarrow> bool" where
  "is_approval_reached yes no =
    (if valid_votes yes no = 0 then False else calculate_approval_threshold (valid_votes yes no) \<le> yes)"

definition is_approved :: "u128 \<Rightarrow> u128 \<Rightarrow> u128 \<Rightarrow> u128 \<Rightarrow> bool" where
  "is_approved yes no votes supply = (if \<not> is_quorum_reached votes supply then False else is_approval_reached yes no)"

definition calculate_missing_for_approval :: "u128 \<Rightarrow> u128 \<Rightarrow> u128" where
  "calculate_missing_for_approval yes no =
    (let t = calculate_approval_threshold (valid_votes yes no)
     in if valid_votes yes no = 0 then 0 else if t \<le> yes then 0 else t - yes)"

definition calculate_proposal_result :: "Proposal \<Rightarrow> kv \<Rightarrow> ProposalStatus" where
  "calculate_proposal_result p db =
    (if \<not> is_quorum_reached (total_votes p) (get_total_vote_tokens db) then Rejected
     else if is_approval_reached (gp_yes_votes p) (gp_no_votes p) then Approved else Rejected)"

definition calculate_proposal_result_from_storage :: "gov_codec \<Rightarrow> u64 \<Rightarrow> ProposalStatus gov" where
  "calculate_proposal_result_from_storage gc pid =
    bindc (load_proposal gc pid) (\<lambda>p.
    bindc (ok_or (Option.bind (checked_add (sp_yes_votes p) (sp_no_votes p)) (\<lambda>s. checked_add s (sp_abstain_votes p)))
      ''total votes overflow'') (\<lambda>votes.
    bindc (gets get_total_vote_tokens) (\<lambda>supply.
      ret (if \<not> is_quorum_reached votes supply then Rejected
           else if is_approval_reached (sp_yes_votes p) (sp_no_votes p) then Approved else Rejected))))"

record VotingResult =
  vr_result :: ProposalStatus
  vr_quorum_reached :: bool
  vr_approval_reached :: bool
  vr_quorum_threshold :: u128
  vr_total_votes :: u128
  vr_total_vote_tokens :: u128
  vr_yes_votes :: u128
  vr_no_votes :: u128
  vr_abstain_votes :: u128
  vr_approval_threshold :: u128

definition calculate_detailed_result :: "Proposal \<Rightarrow> kv \<Rightarrow> VotingResult" where
  "calculate_detailed_result p db =
    (let supply = get_total_vote_tokens db;
         q = is_quorum_reached (total_votes p) supply;
         a = is_approval_reached (gp_yes_votes p) (gp_no_votes p)
     in \<lparr> vr_result = (if q \<and> a then Approved else Rejected), vr_quorum_reached = q, vr_approval_reached = a,
          vr_quorum_threshold = calculate_quorum supply, vr_total_votes = total_votes p, vr_total_vote_tokens = supply,
          vr_yes_votes = gp_yes_votes p, vr_no_votes = gp_no_votes p, vr_abstain_votes = gp_abstain_votes p,
          vr_approval_threshold = calculate_approval_threshold (valid_votes (gp_yes_votes p) (gp_no_votes p)) \<rparr>)"

definition is_in_voting_period :: "gov_codec \<Rightarrow> u64 \<Rightarrow> u64 \<Rightarrow> bool gov" where
  "is_in_voting_period gc pid now = bindc (load_proposal gc pid) (\<lambda>p.
     ret (sp_status p = SActiveVoting \<and> sp_review_end p \<le> now \<and> now < sp_voting_end p))"

section \<open>Finalisation of expired proposals\<close>

definition finalised_action :: "hexlib \<Rightarrow> gov_codec \<Rightarrow> SProposalAction \<Rightarrow> ProposalAction gov" where
  "finalised_action hx gc a = (case a of
      SNonCore d \<Rightarrow> ret (NonCore d)
    | SFeeVariation b m \<Rightarrow> ret (FeeVariation (or_zero b) (or_zero m))
    | SProjectSelection addr n \<Rightarrow> ret (ProjectSelection (hex_encode hx addr) n)
    | SStandards n v \<Rightarrow> ret (Standards n v)
    | SContractUpgrade addr h d \<Rightarrow> ret (ContractUpgrade addr h d)
    | SSlashingParamsUpdate mb e dv ia \<Rightarrow> ret (SlashingParamsUpdate (or_zero mb) (or_zero e) (or_zero dv) (or_zero ia))
    | SSetFlPolicy bps mm wl \<Rightarrow> ret (SetFlPolicy bps mm (map (hex_encode hx) wl))
    | SApproveFlModel m \<Rightarrow> ret (ApproveFlModel (hex_encode hx m))
    | SAbortFlRound m r \<Rightarrow> ret (AbortFlRound (hex_encode hx m) r)
    | SAddConnector c pk cfg \<Rightarrow> bindc (decode_config gc cfg) (\<lambda>cfg. ret (AddConnector c pk cfg))
    | SRemoveConnector c \<Rightarrow> ret (RemoveConnector c)
    | SSetBondParams mn mx \<Rightarrow>
        ret (SlashingParamsUpdate (or_zero (case mn of None \<Rightarrow> mx | Some n \<Rightarrow> Some n)) None None None)
    | SSetSlashParams e dv ia \<Rightarrow> ret (SlashingParamsUpdate None (or_zero e) (or_zero dv) (or_zero ia)))"

text \<open>The end of voting: result, deposit and vote tokens.  The proposal itself is saved afterwards.\<close>

definition finalise_proposal :: "hexlib \<Rightarrow> gov_codec \<Rightarrow> SProposal \<Rightarrow> SProposal gov" where
  "finalise_proposal hx gc p =
    bindc (calculate_proposal_result_from_storage gc (sp_id p)) (\<lambda>result.
    let p = p\<lparr> sp_status := (case result of Approved \<Rightarrow> SApproved | _ \<Rightarrow> SRejected) \<rparr> in
    bindc (finalised_action hx gc (sp_action p)) (\<lambda>action.
    let g = new_with_timestamp (sp_id p) (hex_encode hx (sp_creator p)) (sp_deposit p) (sp_description p) action (sp_created_at p);
        g = g\<lparr> gp_status := (case result of Approved \<Rightarrow> Approved | Rejected \<Rightarrow> Rejected | _ \<Rightarrow> gp_status g) \<rparr> in
    bindc (case result of
        Approved \<Rightarrow> bindc (unlock_deposit hx g) (\<lambda>_. unlock_vote_tokens gc (sp_id p))
      | Rejected \<Rightarrow> bindc (burn_deposit g) (\<lambda>_. unlock_vote_tokens gc (sp_id p))
      | _ \<Rightarrow> ret ()) (\<lambda>_. ret p)))"

definition process_expired_proposal :: "hexlib \<Rightarrow> gov_codec \<Rightarrow> u64 \<Rightarrow> u64 \<Rightarrow> nat \<Rightarrow> nat gov" where
  "process_expired_proposal hx gc now pid processed =
    bindc (load_proposal gc pid) (\<lambda>p.
    let (p, updated) = (if sp_status p = SPending \<and> sp_review_end p \<le> now then (p\<lparr> sp_status := SActiveVoting \<rparr>, True)
                        else (p, False)) in
    bindc (if sp_status p = SActiveVoting \<and> sp_voting_end p \<le> now
           then bindc (finalise_proposal hx gc p) (\<lambda>p. ret (p, True, processed + 1))
           else ret (p, updated, processed)) (\<lambda>(p, updated, processed).
    bindc (if updated then modify (put_proposal (sp_id p) (enc_proposal gc p)) else ret ()) (\<lambda>_. ret processed)))"

fun process_expired_all :: "hexlib \<Rightarrow> gov_codec \<Rightarrow> u64 \<Rightarrow> u64 list \<Rightarrow> nat \<Rightarrow> nat gov" where
  "process_expired_all hx gc now [] processed = ret processed"
| "process_expired_all hx gc now (pid # pids) processed =
    bindc (process_expired_proposal hx gc now pid processed) (process_expired_all hx gc now pids)"

definition process_expired_proposals :: "hexlib \<Rightarrow> gov_codec \<Rightarrow> u64 \<Rightarrow> nat gov" where
  "process_expired_proposals hx gc now =
    bindc (gets get_all_proposals) (\<lambda>pids. process_expired_all hx gc now (take 100 pids) 0)"

section \<open>Minting vote tokens\<close>

definition mint_from_fees :: "u128 \<Rightarrow> u128" where
  "mint_from_fees fees = max (fees div 1000) 0"

fun fees_sum :: "u128 \<Rightarrow> (bytes \<times> u128) list \<Rightarrow> u128 option" where
  "fees_sum acc [] = Some acc"
| "fees_sum acc ((_, f) # ps) = Option.bind (checked_add acc f) (\<lambda>acc. fees_sum acc ps)"

definition share_of :: "u128 \<Rightarrow> u128 \<Rightarrow> u128 \<Rightarrow> u128" where
  "share_of tokens part whole = (case checked_mul tokens part of Some v \<Rightarrow> if whole = 0 then 0 else v div whole | None \<Rightarrow> 0)"

fun distribute_to :: "u128 \<Rightarrow> u128 \<Rightarrow> (bytes \<times> u128) list \<Rightarrow> u128 \<Rightarrow> unit gov" where
  "distribute_to tokens whole [] distributed = ret ()"
| "distribute_to tokens whole ((addr, fee) # ps) distributed =
    (let n = (if ps = [] then tokens - distributed else share_of tokens fee whole) in
     if n = 0 then distribute_to tokens whole ps distributed
     else bindc (modify (increment_vote_token_balance addr n)) (\<lambda>_.
          bindc (ok_or (checked_add distributed n) ''distributed total overflow'') (distribute_to tokens whole ps)))"

definition distribute_proportional :: "u128 \<Rightarrow> (bytes \<times> u128) list \<Rightarrow> unit gov" where
  "distribute_proportional tokens participants =
    (if tokens = 0 \<or> participants = [] then ret ()
     else bindc (ok_or (fees_sum 0 participants) ''total fees overflow'') (\<lambda>whole.
       if whole = 0 then ret () else distribute_to tokens whole participants 0))"

definition mint_to_sender :: "bytes \<Rightarrow> u128 \<Rightarrow> unit gov" where
  "mint_to_sender addr fee_paid =
    (if fee_paid = 0 \<or> mint_from_fees fee_paid = 0 then ret ()
     else modify (increment_vote_token_balance addr (mint_from_fees fee_paid)))"

section \<open>What is stored\<close>

definition stored :: "gov_codec \<Rightarrow> kv \<Rightarrow> u64 \<Rightarrow> SProposal option" where
  "stored gc db pid = Option.bind (get_proposal pid db) (\<lambda>d. if length d \<le> MAX_DESERIALIZE_SIZE then dec_proposal gc d else None)"

definition finalised :: "SProposal \<Rightarrow> bool" where
  "finalised p \<longleftrightarrow> sp_status p = SApproved \<or> sp_status p = SRejected"

lemma wp_load:
  assumes "\<And>p. stored gc db pid = Some p \<Longrightarrow> Q p db" "stored gc db pid = None \<Longrightarrow> (\<And>e. E e db)"
  shows "wp (load_proposal gc pid) Q E db"
  using assms by (auto simp: load_proposal_def stored_def split: option.splits if_splits)

lemma load_proposal_Some: "stored gc db pid = Some p \<Longrightarrow> load_proposal gc pid db = (Inr p, db)"
  by (auto simp: load_proposal_def stored_def bindc_def run_simps split: option.splits if_splits bind_splits)

lemma load_proposal_Inr: "load_proposal gc pid db = (Inr p, db') \<longleftrightarrow> stored gc db pid = Some p \<and> db' = db"
  by (auto simp: load_proposal_def stored_def bindc_def run_simps split: option.splits if_splits bind_splits)

lemma stored_cong: "get_proposal pid db = get_proposal pid db' \<Longrightarrow> stored gc db pid = stored gc db' pid"
  by (simp add: stored_def)

section \<open>Finalisation does not complete\<close>

lemma wp_result:
  assumes "\<And>st. st = Approved \<or> st = Rejected \<Longrightarrow> Q st db" "\<And>e. E e db"
  shows "wp (calculate_proposal_result_from_storage gc pid) Q E db"
  unfolding calculate_proposal_result_from_storage_def wp_bind by (rule wp_load) (use assms in \<open>auto split: option.splits\<close>)

lemma wp_finalised_action:
  assumes "\<And>a. Q a db" "\<And>e. E e db"
  shows "wp (finalised_action hx gc a) Q E db"
  using assms by (auto simp: finalised_action_def decode_config_def split: SProposalAction.splits option.splits)

lemma wp_unlock_deposit:
  assumes "Q () db" "\<And>a n. Q () (increment_vote_token_balance a n db)" "\<And>e. E e db"
  shows "wp (unlock_deposit hx g) Q E db"
  using assms by (auto simp: unlock_deposit_def split: option.splits)

text \<open>Returning the vote tokens needs the stored proposal finalised, which it is not yet.\<close>

lemma wp_unlock_vote_tokens:
  assumes "stored gc db pid = Some q" "\<not> finalised q" "\<And>e. E e db"
  shows "wp (unlock_vote_tokens gc pid) Q E db"
  unfolding unlock_vote_tokens_def wp_bind by (rule wp_load) (use assms in \<open>auto simp: finalised_def\<close>)

lemma wp_finalise_proposal:
  assumes db: "bt_wf db" and q: "stored gc db (sp_id p) = Some q" "\<not> finalised q"
    and e: "\<And>e a n. E e (increment_vote_token_balance a n db)" "\<And>e. E e db"
  shows "wp (finalise_proposal hx gc p) Q E db"
proof -
  have inc: "stored gc (increment_vote_token_balance a n db) (sp_id p) = Some q" for a n
    using q(1) gov_store(3) [OF db] stored_cong by metis
  show ?thesis
    unfolding finalise_proposal_def wp_bind Let_def
    by (rule wp_result)
      (auto intro!: wp_finalised_action wp_unlock_deposit wp_unlock_vote_tokens [OF inc q(2)] wp_unlock_vote_tokens [OF q] e
        simp: burn_deposit_def)
qed

text \<open>The stores that finalisation leaves behind.\<close>

definition not_finalised_more :: "gov_codec \<Rightarrow> kv \<Rightarrow> kv \<Rightarrow> bool" where
  "not_finalised_more gc db0 db \<longleftrightarrow> bt_wf db \<and> (\<forall>pid p. stored gc db pid = Some p \<longrightarrow> sp_id p = pid)
     \<and> (\<forall>pid p. stored gc db pid = Some p \<and> finalised p \<longrightarrow> stored gc db0 pid = Some p)"

lemma not_finalised_more_increment:
  assumes "not_finalised_more gc db0 db"
  shows "not_finalised_more gc db0 (increment_vote_token_balance a n db)"
  using assms gov_store(1,3) stored_cong unfolding not_finalised_more_def by metis

lemma not_finalised_more_activate:
  assumes "not_finalised_more gc db0 db" "stored gc db pid = Some p" "\<And>r. dec_proposal gc (enc_proposal gc q) = Some r \<Longrightarrow> r = q"
    "sp_id q = sp_id p" "\<not> finalised q"
  shows "not_finalised_more gc db0 (put_proposal (sp_id q) (enc_proposal gc q) db)"
proof -
  have db: "bt_wf db" and i: "sp_id p = pid" using assms(1,2) by (auto simp: not_finalised_more_def)
  have s: "r \<noteq> pid \<longrightarrow> stored gc (put_proposal (sp_id q) (enc_proposal gc q) db) r = stored gc db r"
    "stored gc (put_proposal (sp_id q) (enc_proposal gc q) db) pid \<in> {None, Some q}" for r
    using assms(3,4) i
    by (auto simp: stored_def put_proposal_store [OF db]) (cases "dec_proposal gc (enc_proposal gc q)"; auto)
  have "sp_id p' = r \<and> (finalised p' \<longrightarrow> stored gc db0 r = Some p')"
    if "stored gc (put_proposal (sp_id q) (enc_proposal gc q) db) r = Some p'" for r p'
  proof (cases "r = pid")
    case True
    then have "p' = q" using that s(2) by simp
    then show ?thesis using True assms(4,5) i by simp
  next
    case False
    then have "stored gc db r = Some p'" using that s(1) by simp
    then show ?thesis using assms(1) unfolding not_finalised_more_def by blast
  qed
  then show ?thesis using put_proposal_store(1) [OF db] unfolding not_finalised_more_def by blast
qed

lemma wp_process_expired_proposal:
  assumes inv: "not_finalised_more gc db0 db" and codec: "\<And>p q. dec_proposal gc (enc_proposal gc p) = Some q \<Longrightarrow> q = p"
  shows "wp (process_expired_proposal hx gc now pid k) (\<lambda>n. \<lambda>db'. n = k \<and> not_finalised_more gc db0 db')
    (\<lambda>_. not_finalised_more gc db0) db"
  unfolding process_expired_proposal_def wp_bind
proof (rule wp_load)
  fix p assume p: "stored gc db pid = Some p"
  then have i: "sp_id p = pid" and db: "bt_wf db" using inv by (auto simp: not_finalised_more_def)
  have act: "not_finalised_more gc db0 (put_proposal pid (enc_proposal gc (p\<lparr> sp_status := SActiveVoting \<rparr>)) db)"
    using not_finalised_more_activate [OF inv p codec, of "p\<lparr> sp_status := SActiveVoting \<rparr>"] i by (simp add: finalised_def)
  have fin: "wp (finalise_proposal hx gc (p\<lparr> sp_status := st \<rparr>)) Q (\<lambda>_. not_finalised_more gc db0) db" if "\<not> finalised p" for Q st
    by (rule wp_finalise_proposal [OF db, of _ _ p]) (use p i that inv not_finalised_more_increment [OF inv] in auto)
  have fin0: "wp (finalise_proposal hx gc p) Q (\<lambda>_. not_finalised_more gc db0) db" if "\<not> finalised p" for Q
    using fin [OF that, of "sp_status p"] by simp
  show "wp (let (p, updated) = if sp_status p = SPending \<and> sp_review_end p \<le> now then (p\<lparr> sp_status := SActiveVoting \<rparr>, True) else (p, False)
       in bindc (if sp_status p = SActiveVoting \<and> sp_voting_end p \<le> now
             then bindc (finalise_proposal hx gc p) (\<lambda>p. ret (p, True, k + 1)) else ret (p, updated, k))
          (\<lambda>(p, updated, processed).
              bindc (if updated then modify (put_proposal (sp_id p) (enc_proposal gc p)) else ret ()) (\<lambda>_. ret processed)))
     (\<lambda>n db'. n = k \<and> not_finalised_more gc db0 db') (\<lambda>_. not_finalised_more gc db0) db"
    using act fin fin0 inv i by (auto simp: finalised_def)
qed (rule inv)

lemma wp_process_expired_all:
  assumes codec: "\<And>p q. dec_proposal gc (enc_proposal gc p) = Some q \<Longrightarrow> q = p"
  shows "not_finalised_more gc db0 db \<Longrightarrow> wp (process_expired_all hx gc now pids k) (\<lambda>n db'. n = k \<and> not_finalised_more gc db0 db')
    (\<lambda>_. not_finalised_more gc db0) db"
proof (induction pids arbitrary: db)
  case (Cons pid pids)
  show ?case
    unfolding process_expired_all.simps wp_bind
    by (rule wp_weaken [OF wp_process_expired_proposal [OF Cons.prems codec]]) (use Cons.IH in auto)
qed simp

text \<open>A proposal whose vote passed and whose voting period is over, first in the list.\<close>

definition passed_and_expired :: "hexlib \<Rightarrow> gov_codec \<Rightarrow> u64 \<Rightarrow> SProposal \<Rightarrow> kv \<Rightarrow> bool" where
  "passed_and_expired hx gc now p db \<longleftrightarrow> bt_wf db \<and> stored gc db (sp_id p) = Some p \<and> sp_status p = SActiveVoting
     \<and> sp_voting_end p \<le> now \<and> (\<exists>rest. get_all_proposals db = sp_id p # rest)
     \<and> (\<exists>votes. Option.bind (checked_add (sp_yes_votes p) (sp_no_votes p)) (\<lambda>s. checked_add s (sp_abstain_votes p)) = Some votes
          \<and> is_quorum_reached votes (get_total_vote_tokens db))
     \<and> is_approval_reached (sp_yes_votes p) (sp_no_votes p)
     \<and> (\<forall>c pk cfg. sp_action p \<noteq> SAddConnector c pk cfg) \<and> sp_deposit p \<noteq> 0
     \<and> hex_decode hx (hex_encode hx (sp_creator p)) = Some (sp_creator p) \<and> length (sp_creator p) = 32"

lemma finalised_action_pure:
  assumes "\<forall>c pk cfg. a \<noteq> SAddConnector c pk cfg"
  obtains b where "\<And>db. finalised_action hx gc a db = (Inr b, db)"
  using assms by (cases a) (auto simp: finalised_action_def run_simps)

lemma process_pays_deposit:
  assumes p: "passed_and_expired hx gc now p db"
  shows "process_expired_proposals hx gc now db =
    (Inl ''Proposta non finalizzata'', increment_vote_token_balance (sp_creator p) (sp_deposit p) db)"
proof -
  note a = p [unfolded passed_and_expired_def]
  let ?db = "increment_vote_token_balance (sp_creator p) (sp_deposit p) db"
  have l: "load_proposal gc (sp_id p) db = (Inr p, db)" using a load_proposal_Some by blast
  have "stored gc ?db (sp_id p) = Some p" using a gov_store(3) stored_cong by metis
  then have l': "load_proposal gc (sp_id p) ?db = (Inr p, ?db)" by (rule load_proposal_Some)
  have r: "calculate_proposal_result_from_storage gc (sp_id p) db = (Inr Approved, db)"
    using a l by (auto simp: calculate_proposal_result_from_storage_def bindc_def run_simps)
  obtain b where b: "\<And>db. finalised_action hx gc (sp_action p) db = (Inr b, db)" using a finalised_action_pure by metis
  have "finalise_proposal hx gc p db = (Inl ''Proposta non finalizzata'', ?db)"
    using a l' by (simp add: finalise_proposal_def bindc_def r b run_simps unlock_deposit_def new_with_timestamp_def unlock_vote_tokens_def Let_def)
  then have "process_expired_proposal hx gc now (sp_id p) 0 db = (Inl ''Proposta non finalizzata'', ?db)"
    using a l by (simp add: process_expired_proposal_def bindc_def)
  then show ?thesis using a by (auto simp: process_expired_proposals_def bindc_def run_simps)
qed

section \<open>A store without a supply\<close>

definition no_supply :: "kv \<Rightarrow> bool" where
  "no_supply db \<longleftrightarrow> bt_wf db \<and> map_of db total_key = None"

lemma no_supply_insert: "no_supply db \<Longrightarrow> k \<noteq> total_key \<Longrightarrow> no_supply (bt_insert k v db)"
  by (simp add: no_supply_def bt_wf_insert map_of_bt_insert)

lemma no_supply_delete: "no_supply db \<Longrightarrow> no_supply (AList.delete k db)"
  by (simp add: no_supply_def bt_wf_remove map_of_delete_iff)

lemma no_supply_store [intro]:
  assumes "no_supply db"
  shows "no_supply (increment_vote_token_balance a n db)" "no_supply (decrement_vote_token_balance a n db)"
    "no_supply (put_proposal p d db)" "no_supply (put_vote hx v p d db)" "no_supply (bt_insert next_id_key d db)"
    "no_supply (bt_insert (locked_tokens_key hx a) d db)" "no_supply (bt_insert (str_bytes ''governance:params'') d db)"
    "no_supply (set_fee_base f db)" "no_supply (set_fee_max f db)" "no_supply (put_approved_standard s d db)"
    "no_supply (update_contract_code hx a d db)" "no_supply (set_fl_policy d db)" "no_supply (approve_fl_model a db)"
    "no_supply (abort_fl_round f db)" "no_supply (put_connector_info a d db)" "no_supply (delete_connector_info a db)"
  using assms gov_store(1) [of db] gov_store(5) [of db]
  by (auto intro!: no_supply_insert no_supply_delete
      simp: increment_vote_token_balance_def decrement_vote_token_balance_def put_proposal_def put_vote_def set_fee_base_def set_fee_max_def
        put_approved_standard_def update_contract_code_def put_contract_def set_fl_policy_def approve_fl_model_def abort_fl_round_def
        put_connector_info_def delete_connector_info_def locked_tokens_key_def next_id_key_def total_key_def
        vote_token_key_def proposal_key_def gov_vote_key_def)

lemma preserves_load [preserves_intros]: "preserves I (load_proposal gc pid)" "preserves I (gs_get_proposal gc pid)"
  unfolding load_proposal_def gs_get_proposal_def by (intro preserves_intros)+

lemma preserves_decode_all [preserves_intros]: "preserves I (decode_all f xs)"
  by (induction xs) (auto intro!: preserves_intros)

lemma preserves_return_vote_tokens: "no_supply db \<Longrightarrow> no_supply (return_vote_tokens vs db)"
  by (induction vs db rule: return_vote_tokens.induct) auto

lemma preserves_conversions [preserves_intros]:
  "preserves I (finalised_action hx gc a)" "preserves I (storage_proposal_to_governance_proposal hx gc sp)"
  "preserves I (governance_proposal_to_storage_proposal hx gc gp)"
  unfolding storage_proposal_to_governance_proposal_def governance_proposal_to_storage_proposal_def finalised_action_def
    storage_action_to_governance_def governance_action_to_storage_def decode_config_def
  by (auto intro!: preserves_intros split: SProposalAction.splits ProposalAction.splits)

lemma no_supply_finalise [preserves_intros]:
  "preserves no_supply (unlock_vote_tokens gc pid)" "preserves no_supply (unlock_deposit hx g)"
  "preserves no_supply (burn_deposit g)" "preserves no_supply (calculate_proposal_result_from_storage gc pid)"
  unfolding unlock_vote_tokens_def unlock_deposit_def burn_deposit_def calculate_proposal_result_from_storage_def
  by (auto intro!: preserves_intros preserves_return_vote_tokens)

lemma no_supply_process_expired [preserves_intros]: "preserves no_supply (process_expired_proposals hx gc now)"
proof -
  have f: "preserves no_supply (finalise_proposal hx gc p)" for p
    unfolding finalise_proposal_def Let_def by (auto intro!: preserves_intros split: ProposalStatus.splits)
  have "preserves no_supply (process_expired_proposal hx gc now pid k)" for pid k
    unfolding process_expired_proposal_def Let_def by (auto intro!: preserves_intros f split: prod.splits)
  then have "preserves no_supply (process_expired_all hx gc now pids k)" for pids k
    by (induction pids arbitrary: k) (auto intro!: preserves_intros)
  then show ?thesis unfolding process_expired_proposals_def by (auto intro!: preserves_intros)
qed

lemma no_supply_voting [preserves_intros]:
  "preserves no_supply (create_proposal hx gc now c d ds a)" "preserves no_supply (vote hx gc now pid v ty n)"
  "preserves no_supply (update_proposal_state hx gc pid now)" "preserves no_supply (lock_deposit v n)"
  "preserves no_supply (handle_finalized_proposal hx p)" "preserves no_supply (mint_to_sender v n)"
  unfolding create_proposal_def vote_def update_proposal_state_def lock_deposit_def handle_finalized_proposal_def mint_to_sender_def Let_def
  by (auto intro!: preserves_intros split: prod.splits ProposalStatus.splits)

lemma no_supply_distribute [preserves_intros]: "preserves no_supply (distribute_proportional n ps)"
proof -
  have "preserves no_supply (distribute_to n w ps k)" for w k
    by (induction n w ps k rule: distribute_to.induct) (auto simp: Let_def intro!: preserves_intros)
  then show ?thesis unfolding distribute_proportional_def by (auto intro!: preserves_intros)
qed

lemma no_supply_block_driven [preserves_intros]:
  "preserves no_supply (gs_create_proposal gc c d ds sa h params)" "preserves no_supply (gs_cast_vote hx gc v pid ty n h)"
  "preserves no_supply (gs_update_proposal_status gc pid st)" "preserves no_supply (gs_set_governance_params gc params)"
  "preserves no_supply (gs_check_approval gc pid params)" "preserves no_supply (gs_get_governance_params gc)"
  unfolding gs_create_proposal_def gs_cast_vote_def gs_update_proposal_status_def gs_set_governance_params_def gs_check_approval_def
    gs_check_quorum_def gs_get_governance_params_def Let_def
  by (auto intro!: preserves_intros intro: no_supply_insert simp: total_key_def)

lemma no_supply_execute [preserves_intros]: "preserves no_supply (gs_execute_proposal hx gc pid)"
  unfolding gs_execute_proposal_def gs_apply_action_def
  by (auto intro!: preserves_intros split: SProposalAction.splits)

lemma preserves_attempt [preserves_intros]:
  "preserves I m \<Longrightarrow> preserves I (\<lambda>db. case m db of (Inr _, db') \<Rightarrow> (Inr a, db') | (Inl _, db') \<Rightarrow> (Inr b, db'))"
  by (auto simp: preserves_def split: prod.splits sum.splits)

lemma no_supply_process [preserves_intros]: "preserves no_supply (gs_process_proposals hx gc h)"
proof -
  have "preserves no_supply (gs_process_one hx gc h params p ex)" for params p ex
    unfolding gs_process_one_def by (auto intro!: preserves_intros split: SProposalStatus.splits)
  then have a: "preserves no_supply (gs_process_all hx gc h params ps ex)" for params ps ex
    by (induction ps arbitrary: ex) (auto intro!: preserves_intros)
  have "preserves no_supply (gs_load_proposals gc pids)" for pids
    by (induction pids) (auto intro!: preserves_intros)
  then show ?thesis unfolding gs_process_proposals_def gs_get_all_proposals_def by (auto intro!: preserves_intros a)
qed

text \<open>Every operation that governance offers on the store, in any order.\<close>

inductive gov_step :: "hexlib \<Rightarrow> gov_codec \<Rightarrow> kv \<Rightarrow> kv \<Rightarrow> bool" for hx gc where
  create: "create_proposal hx gc now c d ds a db = (r, db') \<Longrightarrow> gov_step hx gc db db'"
| update: "update_proposal_state hx gc pid now db = (s, db') \<Longrightarrow> gov_step hx gc db db'"
| cast: "vote hx gc now pid v ty n db = (u, db') \<Longrightarrow> gov_step hx gc db db'"
| expire: "process_expired_proposals hx gc now db = (k, db') \<Longrightarrow> gov_step hx gc db db'"
| unlock: "unlock_vote_tokens gc pid db = (u, db') \<Longrightarrow> gov_step hx gc db db'"
| lock: "lock_deposit v n db = (u, db') \<Longrightarrow> gov_step hx gc db db'"
| settle: "handle_finalized_proposal hx gp db = (u, db') \<Longrightarrow> gov_step hx gc db db'"
| distribute: "distribute_proportional n ps db = (u, db') \<Longrightarrow> gov_step hx gc db db'"
| mint: "mint_to_sender v n db = (u, db') \<Longrightarrow> gov_step hx gc db db'"
| gs_create: "gs_create_proposal gc c d ds sa h params db = (i, db') \<Longrightarrow> gov_step hx gc db db'"
| gs_cast: "gs_cast_vote hx gc v pid ty n h db = (u, db') \<Longrightarrow> gov_step hx gc db db'"
| gs_process: "gs_process_proposals hx gc h db = (l, db') \<Longrightarrow> gov_step hx gc db db'"
| gs_params: "gs_set_governance_params gc params db = (u, db') \<Longrightarrow> gov_step hx gc db db'"

interpretation gov: inv_system "\<lambda>db. db = []" "gov_step hx gc" no_supply for hx gc
proof unfold_locales
  fix db db' assume "no_supply db" "gov_step hx gc db db'"
  then show "no_supply db'" by (auto elim!: gov_step.cases dest: preservesD [rotated, rotated] intro: preserves_intros)
qed (simp add: no_supply_def)

text \<open>A store with a supply of 100 vote tokens, a proposal in voting and a voter.\<close>

definition toy_proposal :: SProposal where
  "toy_proposal = \<lparr> sp_id = 7, sp_creator = replicate 32 98, sp_deposit = 10, sp_description = [], sp_action = SNonCore [],
     sp_status = SActiveVoting, sp_created_at = 0, sp_review_end = 5, sp_voting_end = 50, sp_yes_votes = 60, sp_no_votes = 1,
     sp_abstain_votes = 0 \<rparr>"

definition toy_gov_codec :: gov_codec where
  "toy_gov_codec = \<lparr> enc_proposal = (\<lambda>p. if p = toy_proposal then [1] else [2]),
     dec_proposal = (\<lambda>d. if d = [1] then Some toy_proposal else None), safe_dec_proposal = (\<lambda>_. None),
     enc_vote = (\<lambda>_. [3]), dec_vote = (\<lambda>_. None), safe_dec_vote = (\<lambda>_. None), enc_params = (\<lambda>_. []),
     safe_dec_params = (\<lambda>_. None), enc_action = (\<lambda>_. []), enc_config = (\<lambda>_. []), dec_config = (\<lambda>_. None),
     enc_connector = (\<lambda>_. []) \<rparr>"

definition toy_gov_db :: kv where
  "toy_gov_db = put_proposal 7 [1] (bt_insert total_key (le_bytes 16 (100 :: u128))
     (increment_vote_token_balance (replicate 32 98) 40 []))"

lemma toy_gov_store:
  "bt_wf toy_gov_db" "stored toy_gov_codec toy_gov_db pid = (if pid = 7 then Some toy_proposal else None)"
  "get_total_vote_tokens toy_gov_db = 100" "get_all_proposals toy_gov_db = [7]"
  "get_vote_token_balance a toy_gov_db = (if a = replicate 32 98 then 40 else 0)" "get_vote hx voter pid toy_gov_db = None"
proof -
  let ?d = "increment_vote_token_balance (replicate 32 98) 40 []"
  have 1: "bt_wf ?d" "get_proposal p ?d = None" for p
    using increment_store(1,3) [of "[]"] by (simp_all add: get_proposal_def)
  have 3: "get_vote_token_balance a ?d = (if a = replicate 32 98 then 40 else 0)" "get_vote hx voter pid ?d = None"
    using increment_store(2,6) [of "[]"]
    by (simp_all add: get_vote_token_balance_def read_u128_le_def get_vote_def saturating_add_def checked_add_def)
  have 2: "bt_wf (bt_insert total_key v ?d)" "get_proposal p (bt_insert total_key v ?d) = None" for p v
    using 1 keys_apart(8) [THEN not_sym] by (auto simp: bt_wf_insert get_proposal_def map_of_bt_insert)
  show "get_vote_token_balance a toy_gov_db = (if a = replicate 32 98 then 40 else 0)" "get_vote hx voter pid toy_gov_db = None"
    unfolding toy_gov_db_def put_proposal_store [OF 2(1)] using 3 keys_apart(7,9) [THEN not_sym]
    by (simp_all add: get_vote_token_balance_def read_u128_le_insert 1(1) get_vote_def map_of_bt_insert)
  show "bt_wf toy_gov_db" unfolding toy_gov_db_def by (rule put_proposal_store(1) [OF 2(1)])
  show "stored toy_gov_codec toy_gov_db pid = (if pid = 7 then Some toy_proposal else None)"
    by (simp add: stored_def toy_gov_db_def put_proposal_store(3) [OF 2(1)] 2(2) toy_gov_codec_def MAX_DESERIALIZE_SIZE_def)
  show "get_total_vote_tokens toy_gov_db = 100"
    by (simp add: toy_gov_db_def get_total_vote_tokens_key put_proposal_def read_u128_le_insert 1(1) 2(1))
  have "proposal_id_of total_key = None" by (auto simp: proposal_id_of_def total_key_def)
  then have "List.map_filter (proposal_id_of \<circ> fst) (bt_insert total_key (le_bytes 16 (100 :: u128)) ?d) = []"
    using get_all_proposals_increment [of "replicate 32 98" 40 "[]"]
    by (simp add: map_filter_bt_insert get_all_proposals_def List.map_filter_simps) (metis length_0_conv length_sort)
  then show "get_all_proposals toy_gov_db = [7]"
    by (simp add: toy_gov_db_def get_all_proposals_def put_proposal_def map_filter_bt_insert_first)
qed

lemma toy_passed: "passed_and_expired toy_hexlib toy_gov_codec 60 toy_proposal toy_gov_db"
proof -
  have "is_quorum_reached 61 100" by (simp add: is_quorum_reached_def calculate_quorum_def)
  moreover have "is_approval_reached 60 1"
    by (simp add: is_approval_reached_def valid_votes_def calculate_approval_threshold_def checked_add_def checked_mul_def)
  moreover have "hex_decode toy_hexlib (hex_encode toy_hexlib (replicate 32 98)) = Some (replicate 32 98)" by (simp add: toy_hexlib_def)
  moreover have "Option.bind (checked_add (60 :: u128) 1) (\<lambda>s. checked_add s 0) = Some 61" by (simp add: checked_add_def)
  ultimately show ?thesis by (auto simp: passed_and_expired_def toy_gov_store toy_proposal_def)
qed

section \<open>Properties\<close>

text \<open>C20. A vote that is accepted is on an active proposal before its end, by a voter who had not voted and
  has the tokens; it takes exactly these tokens from that voter, adds them to exactly one column of
  exactly this proposal, records the vote, and every later vote of that voter on the proposal is
  refused.\<close>

theorem vote_exact:
  assumes "bt_wf db" "vote hx gc now pid voter ty n db = (Inr u, db')"
  shows "\<exists>p p'. stored gc db pid = Some p \<and> sp_status p = SActiveVoting \<and> now < sp_voting_end p \<and> n \<noteq> 0
    \<and> n \<le> get_vote_token_balance voter db \<and> get_vote hx voter pid db = None
    \<and> add_stored_vote ty n p = Some p' \<and> get_proposal pid db' = Some (enc_proposal gc p')
    \<and> (\<forall>q. q \<noteq> pid \<longrightarrow> get_proposal q db' = get_proposal q db)
    \<and> (\<forall>a. get_vote_token_balance a db' = (if a = voter then get_vote_token_balance a db - n else get_vote_token_balance a db))
    \<and> (\<forall>now' ty' m. \<exists>e. vote hx gc now' pid voter ty' m db' = (Inl e, db'))"
proof -
  let ?v = "enc_vote gc \<lparr> sv_proposal_id = pid, sv_voter = voter, sv_vote_type = ty, sv_vote_amount = n, sv_timestamp = now \<rparr>"
  let ?d = "put_vote hx voter pid ?v (decrement_vote_token_balance voter n db)"
  obtain p p' where 1: "stored gc db pid = Some p" "sp_status p = SActiveVoting" "now < sp_voting_end p" "n \<noteq> 0"
      "n \<le> get_vote_token_balance voter db" "get_vote hx voter pid db = None" "add_stored_vote ty n p = Some p'"
    and db': "db' = put_proposal pid (enc_proposal gc p') ?d"
    using assms(2) unfolding vote_def bindc_Inr load_proposal_Inr
    by (auto simp: run_simps get_available_vote_tokens_def split: if_splits option.splits)
  note s = decrement_store [OF assms(1)]
  note s' = put_vote_store [OF s(1)]
  note s'' = put_proposal_store [OF s'(1)]
  have sub: "saturating_sub (get_vote_token_balance voter db) n = get_vote_token_balance voter db - n"
    using 1(5) by (simp add: saturating_sub_def checked_sub_def)
  have g: "get_vote hx voter pid db' = Some ?v" unfolding db' by (simp add: s''(4) s'(4))
  have "\<exists>e. vote hx gc now' pid voter ty' m db' = (Inl e, db')" for now' ty' m
  proof -
    have "wp (vote hx gc now' pid voter ty' m) (\<lambda>_ _. False) (\<lambda>_ x. x = db') db'"
      unfolding vote_def wp_bind wp_need if_distrib [where f = "\<lambda>f. f db'"] by (auto intro!: wp_load simp: g)
    then show ?thesis by (auto simp: wp_def split: prod.splits sum.splits)
  qed
  then show ?thesis
    using 1 sub by (intro exI [of _ p] exI [of _ p']) (auto simp: db' s s' s'')
qed

text \<open>C25. No expired proposal is ever finalised: whatever the store holds, a run over the expired proposals
  that returns reports none processed, and whether it returns or fails it leaves no proposal approved
  or rejected that was not so before.  The vote tokens are to be returned before the new status is
  saved, and returning them requires that status.\<close>

theorem finalisation_never_completes:
  assumes "bt_wf db" "\<And>pid p. stored gc db pid = Some p \<Longrightarrow> sp_id p = pid"
    "\<And>p q. dec_proposal gc (enc_proposal gc p) = Some q \<Longrightarrow> q = p"
    "process_expired_proposals hx gc now db = (r, db')"
  shows "(\<forall>n. r \<noteq> Inr (Suc n)) \<and> (\<forall>pid p. stored gc db' pid = Some p \<and> finalised p \<longrightarrow> stored gc db pid = Some p)"
proof -
  have "not_finalised_more gc db db" using assms(1,2) by (auto simp: not_finalised_more_def)
  then have "wp (process_expired_proposals hx gc now) (\<lambda>n db'. n = 0 \<and> not_finalised_more gc db db') (\<lambda>_. not_finalised_more gc db) db"
    unfolding process_expired_proposals_def wp_bind wp_gets by (intro wp_process_expired_all assms(3))
  then show ?thesis using assms(4) by (cases r) (auto simp: wp_def not_finalised_more_def)
qed

text \<open>Governance never starts: from an empty store no sequence of its operations writes the total supply
  of vote tokens, so every attempt to create a proposal is refused.\<close>

theorem governance_inert:
  assumes "reachable (\<lambda>db. db = []) (gov_step hx gc) db"
  shows "create_proposal hx gc now creator deposit description action db = (Inl ''Deposit insufficiente'', db)"
proof -
  have "map_of db total_key = None" using gov.inv_reachable [OF assms] by (simp add: no_supply_def)
  then have "get_total_vote_tokens db = 0" by (simp add: get_total_vote_tokens_key read_u128_le_def)
  then show ?thesis by (simp add: create_proposal_def bindc_def run_simps is_deposit_sufficient_def)
qed

theorem vote_exact_witness:
  "\<exists>db'. vote toy_hexlib toy_gov_codec 10 7 (replicate 32 98) Yes 30 toy_gov_db = (Inr (), db')
     \<and> get_vote_token_balance (replicate 32 98) db' = get_vote_token_balance (replicate 32 98) toy_gov_db - 30"
proof -
  have "load_proposal toy_gov_codec 7 toy_gov_db = (Inr toy_proposal, toy_gov_db)" by (rule load_proposal_Some) (simp add: toy_gov_store)
  moreover have "add_stored_vote Yes 30 toy_proposal = Some (toy_proposal\<lparr> sp_yes_votes := 90 \<rparr>)"
    by (simp add: add_stored_vote_def toy_proposal_def checked_add_def)
  ultimately have "fst (vote toy_hexlib toy_gov_codec 10 7 (replicate 32 98) Yes 30 toy_gov_db) = Inr ()"
    by (simp add: vote_def bindc_def run_simps toy_gov_store get_available_vote_tokens_def) (simp add: toy_proposal_def)
  then obtain db' where 1: "vote toy_hexlib toy_gov_codec 10 7 (replicate 32 98) Yes 30 toy_gov_db = (Inr (), db')"
    by (metis prod.collapse)
  then show ?thesis using vote_exact [OF toy_gov_store(1) 1] by auto
qed

theorem finalisation_never_completes_witness:
  "\<exists>e db'. process_expired_proposals toy_hexlib toy_gov_codec 60 toy_gov_db = (Inl e, db') \<and> stored toy_gov_codec db' 7 = Some toy_proposal"
proof -
  obtain r db' where 1: "process_expired_proposals toy_hexlib toy_gov_codec 60 toy_gov_db = (r, db')" by (rule prod.exhaust)
  have c: "q = p" if "dec_proposal toy_gov_codec (enc_proposal toy_gov_codec p) = Some q" for p q
    using that by (auto simp: toy_gov_codec_def split: if_splits)
  have i: "sp_id p = pid" if "stored toy_gov_codec toy_gov_db pid = Some p" for pid p
    using that by (auto simp: toy_gov_store toy_proposal_def split: if_splits)
  have "db' = increment_vote_token_balance (sp_creator toy_proposal) (sp_deposit toy_proposal) toy_gov_db" "r \<noteq> Inr 0"
    using 1 process_pays_deposit [OF toy_passed] by auto
  then have "stored toy_gov_codec db' 7 = Some toy_proposal"
    using increment_store(3) [OF toy_gov_store(1)] stored_cong toy_gov_store(2) by metis
  moreover have "r \<noteq> Inr n" for n
    using finalisation_never_completes [OF toy_gov_store(1) i c 1] \<open>r \<noteq> Inr 0\<close> by (cases n) auto
  ultimately show ?thesis using 1 by (cases r) auto
qed

theorem governance_inert_witness:
  "\<exists>db. reachable (\<lambda>db. db = []) (gov_step toy_hexlib toy_gov_codec) db \<and> db \<noteq> []
     \<and> create_proposal toy_hexlib toy_gov_codec 0 (replicate 32 97) 5 [] (NonCore []) db = (Inl ''Deposit insufficiente'', db)"
proof -
  let ?d = "increment_vote_token_balance (replicate 32 97) 7 []"
  have "mint_to_sender (replicate 32 97) 7000 [] = (Inr (), ?d)" by (simp add: mint_to_sender_def mint_from_fees_def run_simps)
  then have "gov_step toy_hexlib toy_gov_codec [] ?d" by (rule gov_step.mint)
  then have r: "reachable (\<lambda>db. db = []) (gov_step toy_hexlib toy_gov_codec) ?d" by (intro reachable.move [OF reachable.start]) simp_all
  have "?d \<noteq> []" by (simp add: increment_vote_token_balance_def)
  then show ?thesis using r governance_inert [OF r] by blast
qed

end
