(* ===== verification/Fees.thy ===== *)
theory Fees
  imports Governance Core_Types
begin

text \<open>
  Fees: calculation, treasury, distribution, burning and halving (\<open>Savitri-contracts/src/fee.rs\<close>), and the
  fees of contract calls with the vote tokens they mint (\<open>Savitri-contracts/src/contracts/fee.rs\<close>).  The
  clock is an argument; the times of the last update are kept.  Multiplication without a check wraps.  A
  division by zero panics, which is \<open>None\<close>.
\<close>

section \<open>Fee calculation\<close>

record FeeConfig =
  base_fee :: u64
  priority_fee :: u64
  fc_gas_price :: u64
  max_gas_limit :: u64
  min_fee :: u64

definition default_fee_config :: FeeConfig where
  "default_fee_config = \<lparr> base_fee = 1000, priority_fee = 2000, fc_gas_price = 1, max_gas_limit = 10000000, min_fee = 100 \<rparr>"

record FeeMetrics =
  total_fees :: u128
  avg_fee :: u64
  transaction_count :: u64
  total_gas :: u64
  avg_gas :: u64

definition default_fee_metrics :: FeeMetrics where
  "default_fee_metrics = \<lparr> total_fees = 0, avg_fee = 0, transaction_count = 0, total_gas = 0, avg_gas = 0 \<rparr>"

record FeeCalculator =
  calc_config :: FeeConfig
  calc_metrics :: FeeMetrics

definition new_fee_calculator :: "FeeConfig \<Rightarrow> FeeCalculator" where
  "new_fee_calculator cfg = \<lparr> calc_config = cfg, calc_metrics = default_fee_metrics \<rparr>"

definition calculate_fee :: "FeeCalculator \<Rightarrow> u64 \<Rightarrow> bool \<Rightarrow> u64" where
  "calculate_fee c gas is_priority =
    (let base = max (base_fee (calc_config c)) (min_fee (calc_config c));
         gas_cost = saturating_mul gas (fc_gas_price (calc_config c))
     in saturating_add (saturating_add base gas_cost) (if is_priority then priority_fee (calc_config c) else 0))"

definition calculate_min_fee :: "FeeCalculator \<Rightarrow> u64" where
  "calculate_min_fee c = min_fee (calc_config c)"

definition reset_metrics :: "FeeCalculator \<Rightarrow> FeeCalculator" where
  "reset_metrics c = c\<lparr> calc_metrics := default_fee_metrics \<rparr>"

definition record_fee :: "u64 \<Rightarrow> FeeMetrics \<Rightarrow> FeeMetrics" where
  "record_fee fee m =
    (let amt = total_fees m + ucast fee; n = transaction_count m + 1
     in m\<lparr> total_fees := amt, transaction_count := n, avg_fee := if 0 < n then ucast (amt div ucast n) else avg_fee m \<rparr>)"

definition record_gas :: "u64 \<Rightarrow> FeeMetrics \<Rightarrow> FeeMetrics" where
  "record_gas gas m =
    (let amt = total_gas m + gas
     in m\<lparr> total_gas := amt, avg_gas := if 0 < transaction_count m then amt div transaction_count m else avg_gas m \<rparr>)"

section \<open>Treasury\<close>

record Treasury =
  tr_balance :: u128
  total_collected :: u128
  tr_total_burned :: u128
  last_update :: u64

definition new_treasury :: "u64 \<Rightarrow> Treasury" where
  "new_treasury now = \<lparr> tr_balance = 0, total_collected = 0, tr_total_burned = 0, last_update = now \<rparr>"

type_synonym 'a treasury = "(Treasury, string, 'a) comp"

definition tr_deposit :: "u64 \<Rightarrow> u128 \<Rightarrow> unit treasury" where
  "tr_deposit now amount = modify (\<lambda>t. t\<lparr> tr_balance := saturating_add (tr_balance t) amount,
     total_collected := saturating_add (total_collected t) amount, last_update := now \<rparr>)"

definition tr_withdraw :: "u64 \<Rightarrow> u128 \<Rightarrow> unit treasury" where
  "tr_withdraw now amount =
    bindc (gets tr_balance) (\<lambda>b.
    bindc (need (amount \<le> b) ''Insufficient treasury balance'') (\<lambda>_.
      modify (\<lambda>t. t\<lparr> tr_balance := saturating_sub (tr_balance t) amount, last_update := now \<rparr>)))"

definition tr_spend :: "u64 \<Rightarrow> u128 \<Rightarrow> unit treasury" where
  "tr_spend now amount =
    bindc (gets tr_balance) (\<lambda>b.
    bindc (need (amount \<le> b div 20) ''Amount exceeds 5% treasury limit'') (\<lambda>_. tr_withdraw now amount))"

definition tr_burn :: "u64 \<Rightarrow> u128 \<Rightarrow> unit treasury" where
  "tr_burn now amount =
    bindc (gets tr_balance) (\<lambda>b.
    bindc (need (amount \<le> b) ''Insufficient treasury balance for burning'') (\<lambda>_.
      modify (\<lambda>t. t\<lparr> tr_balance := saturating_sub (tr_balance t) amount,
        tr_total_burned := saturating_add (tr_total_burned t) amount, last_update := now \<rparr>)))"

section \<open>Distribution\<close>

record DistributionAmounts =
  burn_amount :: u128
  treasury_amount :: u128
  validator_amount :: u128
  proposer_amount :: u128
  da_treasury :: u128
  da_masternode :: u128
  da_proposer_p2p :: u128

definition from_total :: "u128 \<Rightarrow> u16 \<Rightarrow> u16 \<Rightarrow> u16 \<Rightarrow> DistributionAmounts" where
  "from_total amt burn_pct treasury_pct validator_pct =
    (let b = amt * ucast burn_pct div 10000; t = amt * ucast treasury_pct div 10000; v = amt * ucast validator_pct div 10000
     in \<lparr> burn_amount = b, treasury_amount = t, validator_amount = v, proposer_amount = saturating_sub amt (b + t + v),
          da_treasury = 0, da_masternode = 0, da_proposer_p2p = 0 \<rparr>)"

definition amounts_total :: "DistributionAmounts \<Rightarrow> u128" where
  "amounts_total d = burn_amount d + treasury_amount d + validator_amount d + proposer_amount d"

record FeeDistribution =
  fd_burn_rate :: u16
  treasury_rate :: u16
  validator_rate :: u16

definition default_fee_distribution :: FeeDistribution where
  "default_fee_distribution = \<lparr> fd_burn_rate = 5000, treasury_rate = 3000, validator_rate = 2000 \<rparr>"

record FeeDistributor =
  dist_config :: FeeDistribution
  dist_treasury :: Treasury

text \<open>An operation on the treasury inside a distributor.\<close>

definition in_treasury :: "'a treasury \<Rightarrow> (FeeDistributor, string, 'a) comp" where
  "in_treasury m d = (case m (dist_treasury d) of (r, t) \<Rightarrow> (r, d\<lparr> dist_treasury := t \<rparr>))"

definition distribute :: "u64 \<Rightarrow> u128 \<Rightarrow> (FeeDistributor, string, DistributionAmounts) comp" where
  "distribute now amt =
    bindc (gets dist_config) (\<lambda>cfg.
    (let a = from_total amt (fd_burn_rate cfg) (treasury_rate cfg) (validator_rate cfg) in
    bindc (if 0 < burn_amount a then in_treasury (tr_burn now (burn_amount a)) else ret ()) (\<lambda>_.
    bindc (if 0 < treasury_amount a then in_treasury (tr_deposit now (treasury_amount a)) else ret ()) (\<lambda>_. ret a))))"

section \<open>Burning\<close>

record BurnEngine =
  be_total_burned :: u128
  burn_rate :: u16
  current_volume :: u128

definition new_burn_engine :: "u16 \<Rightarrow> BurnEngine" where
  "new_burn_engine rate = \<lparr> be_total_burned = 0, burn_rate = rate, current_volume = 0 \<rparr>"

definition execute_burn :: "u128 \<Rightarrow> BurnEngine \<Rightarrow> BurnEngine" where
  "execute_burn amount e = (if 0 < amount then e\<lparr> be_total_burned := saturating_add (be_total_burned e) amount \<rparr> else e)"

definition update_volume :: "u128 \<Rightarrow> BurnEngine \<Rightarrow> BurnEngine" where
  "update_volume v e = e\<lparr> current_volume := v \<rparr>"

definition calculate_burn_amount :: "BurnEngine \<Rightarrow> u128" where
  "calculate_burn_amount e = saturating_add 1000 (current_volume e * ucast (burn_rate e) div 10000)"

section \<open>The fee engine\<close>

record FeeEngine =
  fe_calculator :: FeeCalculator
  distributor :: FeeDistributor
  fe_treasury :: Treasury
  burn_engine :: BurnEngine
  fe_distribution :: FeeDistribution

definition new_fee_engine :: "u64 \<Rightarrow> FeeConfig \<Rightarrow> FeeDistribution \<Rightarrow> FeeEngine" where
  "new_fee_engine now cfg d = \<lparr> fe_calculator = new_fee_calculator cfg, distributor = \<lparr> dist_config = d, dist_treasury = new_treasury now \<rparr>,
     fe_treasury = new_treasury now, burn_engine = new_burn_engine (fd_burn_rate d), fe_distribution = d \<rparr>"

definition default_fee_engine :: "u64 \<Rightarrow> FeeEngine" where
  "default_fee_engine now = new_fee_engine now default_fee_config default_fee_distribution"

definition process_fees :: "u64 \<Rightarrow> u128 \<Rightarrow> (FeeEngine, string, unit) comp" where
  "process_fees now amt e = (case distribute now amt (distributor e) of
      (Inl err, d) \<Rightarrow> (Inl err, e\<lparr> distributor := d \<rparr>)
    | (Inr a, d) \<Rightarrow> (Inr (), e\<lparr> distributor := d \<rparr>))"

definition update_config :: "FeeConfig \<Rightarrow> FeeEngine \<Rightarrow> FeeEngine" where
  "update_config cfg e = e\<lparr> fe_calculator := new_fee_calculator cfg \<rparr>"

definition update_distribution :: "FeeDistribution \<Rightarrow> FeeEngine \<Rightarrow> FeeEngine" where
  "update_distribution d e = e\<lparr> fe_distribution := d, distributor := \<lparr> dist_config = d, dist_treasury = fe_treasury e \<rparr> \<rparr>"

section \<open>Halving\<close>

record HalvingEngine =
  he_current_epoch :: u64
  halving_interval :: u64
  initial_reward :: u128

definition new_halving_engine :: "u64 \<Rightarrow> u128 \<Rightarrow> HalvingEngine" where
  "new_halving_engine interval reward = \<lparr> he_current_epoch = 0, halving_interval = interval, initial_reward = reward \<rparr>"

definition halving_from_storage :: HalvingEngine where
  "halving_from_storage = new_halving_engine 25000000 50000000000"

definition get_current_reward :: "HalvingEngine \<Rightarrow> u128 option" where
  "get_current_reward h =
    (if halving_interval h = 0 then None
     else Some (drop_bit (unat (min (he_current_epoch h div halving_interval h) 63)) (initial_reward h)))"

definition advance_epoch :: "HalvingEngine \<Rightarrow> HalvingEngine" where
  "advance_epoch h = h\<lparr> he_current_epoch := he_current_epoch h + 1 \<rparr>"

definition is_halving_due :: "HalvingEngine \<Rightarrow> bool option" where
  "is_halving_due h =
    (if he_current_epoch h = 0 then Some False
     else if halving_interval h = 0 then None else Some (he_current_epoch h mod halving_interval h = 0))"

definition blocks_until_halving :: "HalvingEngine \<Rightarrow> u64 option" where
  "blocks_until_halving h =
    (if halving_interval h = 0 then None
     else Some ((he_current_epoch h div halving_interval h + 1) * halving_interval h - he_current_epoch h))"

record HalvingInfo =
  hi_current_epoch :: u64
  hi_current_reward :: u128
  next_halving_epoch :: u64
  hi_blocks_until_halving :: u64
  hi_halving_interval :: u64
  total_halvings :: u64

definition get_halving_info :: "HalvingEngine \<Rightarrow> HalvingInfo option" where
  "get_halving_info h = Option.bind (get_current_reward h) (\<lambda>reward.
    (let next_epoch = (he_current_epoch h div halving_interval h + 1) * halving_interval h in
     Some \<lparr> hi_current_epoch = he_current_epoch h, hi_current_reward = reward, next_halving_epoch = next_epoch,
       hi_blocks_until_halving = next_epoch - he_current_epoch h, hi_halving_interval = halving_interval h,
       total_halvings = he_current_epoch h div halving_interval h \<rparr>))"

section \<open>Fees of contract calls\<close>

record ContractFee =
  cf_engine :: FeeEngine
  fee_distribution :: FeeDistribution
  cf_gas_price :: u128

definition new_contract_fee :: "u64 \<Rightarrow> ContractFee" where
  "new_contract_fee now = \<lparr> cf_engine = default_fee_engine now, fee_distribution = default_fee_distribution, cf_gas_price = 1000000 \<rparr>"

definition with_gas_price :: "u64 \<Rightarrow> u128 \<Rightarrow> ContractFee" where
  "with_gas_price now price = \<lparr> cf_engine = default_fee_engine now, fee_distribution = default_fee_distribution, cf_gas_price = price \<rparr>"

definition calculate_fee_from_gas :: "ContractFee \<Rightarrow> u64 \<Rightarrow> u128 option \<Rightarrow> u128 option" where
  "calculate_fee_from_gas c gas price = checked_mul (ucast gas) (case price of Some p \<Rightarrow> p | None \<Rightarrow> cf_gas_price c)"

definition calculate_fee_from_gas_meter :: "ContractFee \<Rightarrow> GasMeter \<Rightarrow> u128 option \<Rightarrow> u128 option" where
  "calculate_fee_from_gas_meter c g price = calculate_fee_from_gas c (gas_used_total g) price"

type_synonym accounts = "(bytes \<times> Account) list"

text \<open>The split after the burn; the accounts of the overlay are passed in and not changed.\<close>

definition distribute_fees_after_burn :: "u128 \<Rightarrow> accounts \<Rightarrow> DistributionAmounts \<times> accounts" where
  "distribute_fees_after_burn net ov =
    (let t = net div 10; m = net div 10; p = saturating_sub (saturating_sub net t) m
     in (\<lparr> burn_amount = 0, treasury_amount = t, validator_amount = m, proposer_amount = p, da_treasury = t, da_masternode = m,
           da_proposer_p2p = p \<rparr>, ov))"

subsection \<open>Vote tokens of a distribution\<close>

definition pay :: "bytes \<times> u128 \<Rightarrow> kv \<Rightarrow> kv" where
  "pay p db = (if 0 < snd p then increment_vote_token_balance (fst p) (snd p) db else db)"

text \<open>The first node with the lowest score.\<close>

fun min_by_score :: "bytes \<times> u64 \<Rightarrow> (bytes \<times> u64) list \<Rightarrow> bytes \<times> u64" where
  "min_by_score m [] = m"
| "min_by_score m (n # ns) = min_by_score (if snd n < snd m then n else m) ns"

definition eligible_nodes :: "(bytes \<times> u64) list \<Rightarrow> (bytes \<times> u64) list" where
  "eligible_nodes ns = (case ns of [] \<Rightarrow> [] | n # rest \<Rightarrow> remove1 (min_by_score n rest) ns)"

fun pou_payments :: "u128 \<Rightarrow> u64 \<Rightarrow> (bytes \<times> u64) list \<Rightarrow> u128 \<Rightarrow> (bytes \<times> u128) list" where
  "pou_payments tokens pou_sum [] distributed = []"
| "pou_payments tokens pou_sum ((a, score) # ns) distributed =
    (let n = (if ns = [] then tokens - distributed else share_of tokens (ucast score) (ucast pou_sum)) in
     (a, n) # pou_payments tokens pou_sum ns
       (if 0 < n then (case checked_add distributed n of Some d \<Rightarrow> d | None \<Rightarrow> distributed) else distributed))"

definition equal_payments :: "u128 \<Rightarrow> (bytes \<times> u64) list \<Rightarrow> (bytes \<times> u128) list" where
  "equal_payments tokens ns = (case ns of [] \<Rightarrow> []
    | (a, _) # rest \<Rightarrow> (let k = word_of_nat (length ns) in
        (a, tokens div k + tokens mod k) # map (\<lambda>(b, _). (b, tokens div k)) rest))"

definition p2p_payments :: "u128 \<Rightarrow> u128 \<Rightarrow> bytes \<Rightarrow> (bytes \<times> u64) list option \<Rightarrow> (bytes \<times> u128) list" where
  "p2p_payments p2p_fee tokens proposer nodes = (case nodes of
      None \<Rightarrow> if 0 < p2p_fee then [(proposer, tokens)] else []
    | Some ns \<Rightarrow>
        (if 0 < p2p_fee then
           (let el = eligible_nodes ns; pou_sum = sum_list (map snd el) in
            if el = [] then [] else if 0 < pou_sum then pou_payments tokens pou_sum el 0 else equal_payments tokens el)
         else []))"

definition distribute_vote_tokens ::
  "u128 \<Rightarrow> DistributionAmounts \<Rightarrow> bytes \<Rightarrow> bytes \<Rightarrow> (bytes \<times> u64) list option \<Rightarrow> u128 \<Rightarrow> unit gov" where
  "distribute_vote_tokens tokens d masternode proposer nodes net =
    (if tokens = 0 \<or> net = 0 then ret ()
     else
       (let m = da_masternode d; pp = da_proposer_p2p d;
            proposer_fee = share_of pp 8500 10000;
            p2p_fee = (case checked_sub pp proposer_fee of Some v \<Rightarrow> v | None \<Rightarrow> 0) in
        bindc (ok_or (checked_add m pp) ''fee overflow'') (\<lambda>received.
          if received = 0 then ret ()
          else
            bindc (if masternode = proposer then
                     bindc (ok_or (checked_add m proposer_fee) ''fee overflow'') (\<lambda>combined.
                       modify (pay (masternode, share_of tokens combined received)))
                   else
                     bindc (modify (pay (masternode, share_of tokens m received))) (\<lambda>_.
                       modify (pay (proposer, share_of tokens proposer_fee received)))) (\<lambda>_.
              modify (fold pay (p2p_payments p2p_fee (share_of tokens p2p_fee received) proposer nodes))))))"

text \<open>An operation of governance beside the overlay of accounts.\<close>

definition on_store :: "'a gov \<Rightarrow> (kv \<times> accounts, string, 'a) comp" where
  "on_store m s = (case m (fst s) of (r, db) \<Rightarrow> (r, (db, snd s)))"

definition distribute_fees ::
  "ContractFee \<Rightarrow> u128 \<Rightarrow> bytes \<Rightarrow> bytes \<Rightarrow> (bytes \<times> u64) list option \<Rightarrow> (kv \<times> accounts, string, DistributionAmounts) comp" where
  "distribute_fees c fees masternode proposer nodes =
    (if fees = 0 then ret \<lparr> burn_amount = 0, treasury_amount = 0, validator_amount = 0, proposer_amount = 0, da_treasury = 0,
        da_masternode = 0, da_proposer_p2p = 0 \<rparr>
     else
       (let burned = calculate_burn_amount (update_volume fees (new_burn_engine 0)) in
        bindc (ok_or (checked_sub fees burned) ''Burn amount exceeds total fees for contract calls'') (\<lambda>net.
        bindc (\<lambda>s. case distribute_fees_after_burn net (snd s) of (d, ov) \<Rightarrow> (Inr d, (fst s, ov))) (\<lambda>d.
        bindc (if 0 < mint_from_fees fees
               then on_store (distribute_vote_tokens (mint_from_fees fees) d masternode proposer nodes net) else ret ()) (\<lambda>_. ret d)))))"

definition mint_vote_tokens :: "u128 \<Rightarrow> u128" where
  "mint_vote_tokens fees = mint_from_fees fees"

subsection \<open>Charging the caller\<close>

text \<open>The caller's account: of the overlay, else stored, else empty.  The decoder is a parameter.\<close>

definition caller_account :: "(bytes \<Rightarrow> Account option) \<Rightarrow> (bytes \<Rightarrow> bytes option) \<Rightarrow> bytes \<Rightarrow> accounts \<Rightarrow> Account" where
  "caller_account dec_account get_account key ov = (case map_of ov key of
      Some a \<Rightarrow> a
    | None \<Rightarrow> (let empty = \<lparr> balance = 0, acc_nonce = 0 \<rparr> in
        case get_account key of
          None \<Rightarrow> empty
        | Some bs \<Rightarrow> if 1024 * 1024 < length bs then empty else (case dec_account bs of Some a \<Rightarrow> a | None \<Rightarrow> empty)))"

definition deduct_fee_with_gas ::
  "ContractFee \<Rightarrow> (bytes \<Rightarrow> Account option) \<Rightarrow> (bytes \<Rightarrow> bytes option) \<Rightarrow> u64 \<Rightarrow> bytes \<Rightarrow> u128 option \<Rightarrow> (accounts, string, u128) comp" where
  "deduct_fee_with_gas c dec_account get_account gas key price =
    bindc (ok_or (calculate_fee_from_gas c gas price) ''Failed to calculate fee from gas'') (\<lambda>fee.
      if fee = 0 then ret 0
      else
        bindc (gets (caller_account dec_account get_account key)) (\<lambda>a.
        bindc (need (fee \<le> balance a) ''Insufficient balance for contract call fee'') (\<lambda>_.
        bindc (ok_or (case debit fee a of Inr a' \<Rightarrow> Some a' | Inl _ \<Rightarrow> None) ''Failed to debit fee from caller'') (\<lambda>a'.
        bindc (modify (bt_insert key a')) (\<lambda>_. ret fee)))))"

definition deduct_fee_from_caller ::
  "ContractFee \<Rightarrow> (bytes \<Rightarrow> Account option) \<Rightarrow> (bytes \<Rightarrow> bytes option) \<Rightarrow> GasMeter \<Rightarrow> bytes \<Rightarrow> u128 option \<Rightarrow> (accounts, string, u128) comp" where
  "deduct_fee_from_caller c dec_account get_account g key price = deduct_fee_with_gas c dec_account get_account (gas_used_total g) key price"

section \<open>Lemmas\<close>

subsection \<open>Shares and payments\<close>

lemma unat_share_of: "unat (share_of tokens part whole) \<le> unat tokens * unat part div unat whole"
  by (auto simp: share_of_def checked_mul_def unat_div unat_word_ariths split: option.splits)

lemma share_le: "part \<le> whole \<Longrightarrow> unat (share_of tokens part whole) \<le> unat tokens"
proof -
  assume "part \<le> whole"
  then have "unat tokens * unat part div unat whole \<le> unat tokens * unat whole div unat whole"
    by (intro div_le_mono mult_le_mono2) (simp add: word_le_nat_alt)
  also have "\<dots> \<le> unat tokens" by simp
  finally show ?thesis using unat_share_of order.trans by blast
qed

abbreviation paid :: "(bytes \<times> u128) list \<Rightarrow> nat" where
  "paid ps \<equiv> sum_list (map (unat \<circ> snd) ps)"

text \<open>The floors of the parts of a whole do not exceed the floor of the whole.\<close>

lemma sum_div_le: "sum_list (map (\<lambda>x. n * f x div d) xs) \<le> n * sum_list (map f xs) div (d :: nat)"
proof (induction xs)
  case (Cons x xs)
  have "n * f x div d + n * sum_list (map f xs) div d \<le> (n * f x + n * sum_list (map f xs)) div d"
    by (metis div_add1_eq le_add1)
  then show ?case using Cons by (simp add: distrib_left)
qed simp

lemma pou_payments_le:
  assumes "unat d + sum_list (map (\<lambda>n. unat tokens * unat (snd n) div unat s) ns) \<le> unat tokens" "0 < s"
  shows "paid (pou_payments tokens s ns d) + unat d \<le> unat tokens"
  using assms(1)
proof (induction ns arbitrary: d)
  case (Cons n ns)
  obtain a score where n: "n = (a, score)" by (cases n)
  show ?case
  proof (cases "ns = []")
    case True
    have "unat d \<le> unat tokens" using Cons.prems by simp
    then show ?thesis using True by (simp add: n Let_def unat_sub word_le_nat_alt)
  next
    case False
    let ?n = "share_of tokens (ucast score) (ucast s)"
    have sc: "unat (ucast score :: u128) = unat score" "unat (ucast s :: u128) = unat s" by (rule unat_ucast_u128)+
    have le: "unat ?n \<le> unat tokens * unat score div unat s" using unat_share_of [of tokens "ucast score" "ucast s"] by (simp add: sc)
    then have b: "unat d + unat ?n \<le> unat tokens" using Cons.prems by (simp add: n)
    then have lt: "unat d + unat ?n < 2 ^ 128" by (rule order.strict_trans1) (rule order.strict_trans2 [OF unsigned_less], simp)
    then have u: "unat (d + ?n) = unat d + unat ?n" by (simp add: unat_word_ariths)
    have ca: "checked_add d ?n = Some (d + ?n)" using lt by (simp add: checked_add_def add_no_wrap_iff)
    have "unat (d + ?n) + sum_list (map (\<lambda>n. unat tokens * unat (snd n) div unat s) ns) \<le> unat tokens"
      using Cons.prems le by (simp add: n u)
    from Cons.IH [OF this] show ?thesis using False u by (cases "?n = 0") (auto simp: n Let_def ca word_gt_0)
  qed
qed simp

lemma paid_equal_payments:
  assumes "length ns < 2 ^ 64"
  shows "paid (equal_payments tokens ns) \<le> unat tokens"
proof (cases ns)
  case (Cons n rest)
  let ?k = "word_of_nat (length ns) :: u128"
  have k: "unat ?k = length ns" using assms by (simp add: unat_of_nat)
  have eq: "unat tokens div length ns + unat tokens mod length ns + length rest * (unat tokens div length ns) = unat tokens"
    using mult_div_mod_eq [of "length ns" "unat tokens"] by (simp add: Cons add_ac)
  then have "unat (tokens div ?k) + unat (tokens mod ?k) \<le> unat tokens" unfolding unat_div unat_mod k by linarith
  then have "unat (tokens div ?k) + unat (tokens mod ?k) < 2 ^ 128"
    by (rule order.strict_trans1) (rule order.strict_trans2 [OF unsigned_less], simp)
  then have 1: "unat (tokens div ?k + tokens mod ?k) = unat (tokens div ?k) + unat (tokens mod ?k)" by (simp add: unat_word_ariths)
  have "sum_list (map (unat \<circ> snd) (map (\<lambda>(b, _). (b, tokens div ?k)) rest)) = length rest * (unat tokens div length ns)"
    by (induction rest) (auto simp: unat_div k)
  moreover have "equal_payments tokens ns = (fst n, tokens div ?k + tokens mod ?k) # map (\<lambda>(b, _). (b, tokens div ?k)) rest"
    unfolding equal_payments_def Let_def by (simp add: Cons split: prod.splits)
  ultimately have "paid (equal_payments tokens ns) = unat (tokens div ?k) + unat (tokens mod ?k) + length rest * (unat tokens div length ns)"
    using 1 by simp
  then show ?thesis using eq unfolding unat_div unat_mod k by simp
qed (simp add: equal_payments_def)

lemma eligible_sum: "sum_list (map (unat \<circ> snd) (eligible_nodes ns)) \<le> sum_list (map (unat \<circ> snd) ns)" "length (eligible_nodes ns) \<le> length ns"
proof -
  have "sum_list (map f (remove1 x xs)) \<le> sum_list (map f xs)" for x xs and f :: "bytes \<times> u64 \<Rightarrow> nat" by (induction xs) auto
  then show "sum_list (map (unat \<circ> snd) (eligible_nodes ns)) \<le> sum_list (map (unat \<circ> snd) ns)"
    unfolding eligible_nodes_def by (cases ns) (simp, simp only: list.case)
  show "length (eligible_nodes ns) \<le> length ns"
    unfolding eligible_nodes_def by (cases ns) (simp, simp only: list.case length_remove1, simp)
qed

lemma unat_sum_list: "sum_list (map (unat \<circ> snd) ns) < 2 ^ 64 \<Longrightarrow> unat (sum_list (map snd ns) :: u64) = sum_list (map (unat \<circ> snd) ns)"
  by (induction ns) (auto simp: unat_word_ariths)

lemma paid_p2p:
  assumes "case nodes of Some ns \<Rightarrow> sum_list (map (unat \<circ> snd) ns) < 2 ^ 64 \<and> length ns < 2 ^ 64 | None \<Rightarrow> True"
  shows "paid (p2p_payments fee tokens proposer nodes) \<le> unat tokens"
proof (cases nodes)
  case (Some ns)
  let ?el = "eligible_nodes ns"
  have b: "sum_list (map (unat \<circ> snd) ?el) < 2 ^ 64" "length ?el < 2 ^ 64" using assms Some eligible_sum [of ns] by (auto intro: order.strict_trans1)
  have s: "unat (sum_list (map snd ?el)) = sum_list (map (unat \<circ> snd) ?el)" by (rule unat_sum_list [OF b(1)])
  have "paid (pou_payments tokens (sum_list (map snd ?el)) ?el 0) \<le> unat tokens" if "0 < sum_list (map snd ?el)"
  proof -
    have "sum_list (map (\<lambda>n. unat tokens * unat (snd n) div unat (sum_list (map snd ?el))) ?el) \<le>
        unat tokens * sum_list (map (\<lambda>n. unat (snd n)) ?el) div unat (sum_list (map snd ?el))" by (rule sum_div_le)
    also have "\<dots> \<le> unat tokens" by (simp add: s comp_def)
    finally show ?thesis using pou_payments_le [OF _ that, of 0] by simp
  qed
  then show ?thesis using paid_equal_payments [OF b(2)] by (auto simp: p2p_payments_def Some Let_def)
qed (auto simp: p2p_payments_def)

subsection \<open>Balances\<close>

lemma pay_wf: "bt_wf db \<Longrightarrow> bt_wf (pay p db)"
  by (simp add: pay_def increment_store(1))

lemma fold_pay_wf: "bt_wf db \<Longrightarrow> bt_wf (fold pay ps db)"
  by (induction ps arbitrary: db) (auto simp: pay_wf)

definition token_sum :: "bytes set \<Rightarrow> kv \<Rightarrow> nat" where
  "token_sum A db = (\<Sum>a \<in> A. unat (get_vote_token_balance a db))"

lemma token_sum_pay:
  assumes "bt_wf db" "finite A"
  shows "token_sum A (pay p db) \<le> token_sum A db + unat (snd p)"
proof -
  have "unat (get_vote_token_balance a (pay p db)) \<le> unat (get_vote_token_balance a db) + (if a = fst p then unat (snd p) else 0)" for a
    by (auto simp: pay_def increment_store(2) [OF assms(1)] unat_saturating_add)
  then have "token_sum A (pay p db) \<le> (\<Sum>a \<in> A. unat (get_vote_token_balance a db) + (if a = fst p then unat (snd p) else 0))"
    unfolding token_sum_def by (intro sum_mono)
  also have "\<dots> = token_sum A db + (\<Sum>a \<in> A. if a = fst p then unat (snd p) else 0)" by (simp add: sum.distrib token_sum_def)
  also have "(\<Sum>a \<in> A. if a = fst p then unat (snd p) else 0) \<le> unat (snd p)" using assms(2) by (simp add: sum.delta)
  finally show ?thesis by simp
qed

lemma token_sum_fold: "bt_wf db \<Longrightarrow> finite A \<Longrightarrow> token_sum A (fold pay ps db) \<le> token_sum A db + paid ps"
proof (induction ps arbitrary: db)
  case (Cons p ps)
  show ?case using Cons.IH [OF pay_wf [OF Cons.prems(1), of p] Cons.prems(2)] token_sum_pay [OF Cons.prems, of p] by simp
qed simp

lemma three_shares:
  assumes "unat a + unat b + unat c \<le> unat whole" "0 < whole"
  shows "unat (share_of n a whole) + unat (share_of n b whole) + unat (share_of n c whole) \<le> unat n"
proof -
  have w: "0 < unat whole" using assms(2) by (simp add: word_less_nat_alt)
  have "unat n * unat a div unat whole + unat n * unat b div unat whole + unat n * unat c div unat whole
      \<le> unat n * (unat a + unat b + unat c) div unat whole"
    using sum_div_le [of "unat n" id "unat whole" "[unat a, unat b, unat c]"] by (simp add: add.assoc)
  also have "\<dots> \<le> unat n * unat whole div unat whole" using assms(1) by (intro div_le_mono mult_le_mono2)
  also have "\<dots> = unat n" using w by simp
  finally show ?thesis
    using unat_share_of [of n a whole] unat_share_of [of n b whole] unat_share_of [of n c whole] by linarith
qed

text \<open>The proposer's part of the common part, and what is left for the other nodes.\<close>

lemma proposer_part:
  "share_of pp 8500 10000 \<le> pp"
  "unat (share_of pp 8500 10000) + unat (case checked_sub pp (share_of pp 8500 10000) of Some v \<Rightarrow> v | None \<Rightarrow> 0) = unat (pp :: u128)"
proof -
  have "unat (share_of pp 8500 10000) \<le> unat pp * unat (8500 :: u128) div unat (10000 :: u128)" by (rule unat_share_of)
  also have "\<dots> \<le> unat pp" by simp
  finally show le: "share_of pp 8500 10000 \<le> pp" by (simp add: word_le_nat_alt)
  then show "unat (share_of pp 8500 10000) + unat (case checked_sub pp (share_of pp 8500 10000) of Some v \<Rightarrow> v | None \<Rightarrow> 0) = unat pp"
    by (simp add: checked_sub_def unat_sub word_le_nat_alt)
qed

lemma distribute_vote_tokens_ok:
  assumes "unat (da_masternode d) + unat (da_proposer_p2p d) < 2 ^ 128"
  shows "\<exists>db'. distribute_vote_tokens tokens d masternode proposer nodes net db = (Inr (), db')"
proof -
  let ?m = "da_masternode d" and ?pp = "da_proposer_p2p d"
  have "unat ?m + unat (share_of ?pp 8500 10000) < 2 ^ 128"
    using assms proposer_part(1) [of ?pp] by (simp add: word_le_nat_alt)
  then have "checked_add ?m (share_of ?pp 8500 10000) = Some (?m + share_of ?pp 8500 10000)" "checked_add ?m ?pp = Some (?m + ?pp)"
    using assms by (simp_all add: checked_add_def add_no_wrap_iff)
  then show ?thesis by (simp add: distribute_vote_tokens_def Let_def bindc_def run_simps)
qed

lemma after_burn_split:
  assumes "distribute_fees_after_burn net ov = (d, ov')"
  shows "ov' = ov" "unat (da_treasury d) = unat net div 10" "da_masternode d = da_treasury d"
    "unat (da_treasury d) + unat (da_masternode d) + unat (da_proposer_p2p d) = unat net"
proof -
  have t: "unat (net div 10) = unat net div 10" by (simp add: unat_div)
  show "ov' = ov" "unat (da_treasury d) = unat net div 10" "da_masternode d = da_treasury d"
    "unat (da_treasury d) + unat (da_masternode d) + unat (da_proposer_p2p d) = unat net"
    using assms by (auto simp: distribute_fees_after_burn_def Let_def unat_saturating_sub t)
qed

text \<open>The calls that change a fee engine.\<close>

inductive fee_step :: "FeeEngine \<Rightarrow> FeeEngine \<Rightarrow> bool" where
  process: "process_fees now amount e = (r, e') \<Longrightarrow> fee_step e e'"
| config: "fee_step e (update_config cfg e)"
| distribution: "fee_step e (update_distribution d e)"

lemma fee_step_treasury: "fee_step e e' \<Longrightarrow> fe_treasury e' = fe_treasury e"
  by (induction rule: fee_step.induct)
    (auto simp: process_fees_def update_config_def update_distribution_def split: prod.splits sum.splits)

interpretation fee: inv_system "\<lambda>e. \<exists>now cfg d. e = new_fee_engine now cfg d" fee_step
  "\<lambda>e. tr_balance (fe_treasury e) = 0 \<and> total_collected (fe_treasury e) = 0"
  by unfold_locales (auto simp: new_fee_engine_def new_treasury_def dest: fee_step_treasury)

text \<open>The calls with amounts that do not wrap and with distributions that burn at least as much as they
  give the treasury, as the default one does.\<close>

inductive burning_step :: "FeeEngine \<Rightarrow> FeeEngine \<Rightarrow> bool" where
  process: "unat amount < 2 ^ 112 \<Longrightarrow> process_fees now amount e = (r, e') \<Longrightarrow> burning_step e e'"
| config: "burning_step e (update_config cfg e)"
| distribution: "treasury_rate d \<le> fd_burn_rate d \<Longrightarrow> burning_step e (update_distribution d e)"

definition never_collected :: "FeeEngine \<Rightarrow> bool" where
  "never_collected e \<longleftrightarrow> treasury_rate (dist_config (distributor e)) \<le> fd_burn_rate (dist_config (distributor e))
     \<and> tr_balance (dist_treasury (distributor e)) = 0 \<and> total_collected (dist_treasury (distributor e)) = 0
     \<and> tr_balance (fe_treasury e) = 0 \<and> total_collected (fe_treasury e) = 0"

lemma unat_share:
  assumes "unat amount < 2 ^ 112"
  shows "unat (amount * ucast (rate :: u16) div 10000 :: u128) = unat amount * unat rate div 10000"
proof -
  have r: "unat (ucast rate :: u128) = unat rate"
    unfolding unat_ucast_mod by (rule mod_less, rule order.strict_trans2 [OF unsigned_less]) simp
  have "unat rate < 2 ^ 16" by (rule order.strict_trans2 [OF unsigned_less]) simp
  then have "unat amount * unat rate < 2 ^ 112 * 2 ^ 16" using assms by (intro mult_strict_mono) simp_all
  then have "unat (amount * ucast rate) = unat amount * unat rate"
    by (subst unat_mult_lem [THEN iffD1]) (simp_all add: r)
  then show ?thesis by (simp add: unat_div)
qed

lemma share_pos:
  assumes "unat amount < 2 ^ 112"
  shows "0 < burn_amount (from_total amount b t v) \<longleftrightarrow> 10000 \<le> unat amount * unat b"
    "t \<le> b \<Longrightarrow> \<not> 10000 \<le> unat amount * unat b \<Longrightarrow> treasury_amount (from_total amount b t v) = 0"
proof -
  show "0 < burn_amount (from_total amount b t v) \<longleftrightarrow> 10000 \<le> unat amount * unat b"
    by (auto simp: from_total_def Let_def word_less_nat_alt unat_share [OF assms] div_greater_zero_iff)
  assume "t \<le> b" "\<not> 10000 \<le> unat amount * unat b"
  then have "unat amount * unat t \<le> unat amount * unat b" "unat amount * unat b < 10000"
    by (auto simp: word_le_nat_alt intro: mult_le_mono2)
  then have "unat amount * unat t < 10000" by (rule le_less_trans)
  then have "unat amount * unat t div 10000 = 0" by simp
  then show "treasury_amount (from_total amount b t v) = 0"
    by (simp add: from_total_def Let_def word_unat_eq_iff unat_share [OF assms])
qed

lemma process_fees_burning:
  assumes "never_collected e" "unat amount < 2 ^ 112"
  shows "process_fees now amount e =
    (if 10000 \<le> unat amount * unat (fd_burn_rate (dist_config (distributor e)))
     then (Inl ''Insufficient treasury balance for burning'', e) else (Inr (), e))"
proof -
  let ?c = "dist_config (distributor e)"
  let ?a = "from_total amount (fd_burn_rate ?c) (treasury_rate ?c) (validator_rate ?c)"
  note p = share_pos [OF assms(2), where b = "fd_burn_rate ?c" and t = "treasury_rate ?c" and v = "validator_rate ?c"]
  show ?thesis
  proof (cases "0 < burn_amount ?a")
    case True
    then have "\<not> burn_amount ?a \<le> tr_balance (dist_treasury (distributor e))" using assms(1) by (auto simp: never_collected_def)
    then show ?thesis
      using True p(1) by (simp add: process_fees_def distribute_def bindc_def run_simps Let_def in_treasury_def tr_burn_def)
  next
    case False
    have le: "treasury_rate ?c \<le> fd_burn_rate ?c" using assms(1) by (simp add: never_collected_def)
    have "treasury_amount ?a = 0" by (rule p(2) [OF le]) (use False p(1) in blast)
    then show ?thesis
      using False p(1) by (simp add: process_fees_def distribute_def bindc_def run_simps Let_def)
  qed
qed

lemma never_collected_step: "burning_step e e' \<Longrightarrow> never_collected e \<Longrightarrow> never_collected e'"
  by (induction rule: burning_step.induct)
    (auto simp: process_fees_burning split: if_splits, auto simp: update_config_def update_distribution_def never_collected_def)

interpretation burning: inv_system "\<lambda>e. \<exists>now. e = default_fee_engine now" burning_step never_collected
  by unfold_locales
    (fastforce simp: never_collected_def default_fee_engine_def new_fee_engine_def new_treasury_def default_fee_distribution_def,
     rule never_collected_step)

section \<open>Properties\<close>

text \<open>C23. When the scores of the nodes add up to less than \<open>2 ^ 64\<close>, one distribution of vote tokens never
  credits more than the tokens it distributes: over any set of accounts, the balances grow by at most
  that amount, whoever the masternode, the proposer and the nodes are, equal or not.\<close>

theorem vote_tokens_not_exceeded:
  assumes "bt_wf db" "finite A" "distribute_vote_tokens tokens d masternode proposer nodes net db = (r, db')"
    and n: "case nodes of Some ns \<Rightarrow> sum_list (map (unat \<circ> snd) ns) < 2 ^ 64 \<and> length ns < 2 ^ 64 | None \<Rightarrow> True"
  shows "token_sum A db' \<le> token_sum A db + unat tokens"
proof -
  let ?m = "da_masternode d" and ?pp = "da_proposer_p2p d"
  let ?pf = "share_of ?pp 8500 10000"
  let ?q = "case checked_sub ?pp ?pf of Some v \<Rightarrow> v | None \<Rightarrow> 0"
  show ?thesis
  proof (cases "tokens = 0 \<or> net = 0 \<or> checked_add ?m ?pp = None \<or> checked_add ?m ?pp = Some 0")
    case True
    then have "db' = db" using assms(3) by (auto simp: distribute_vote_tokens_def Let_def bindc_def run_simps split: if_splits)
    then show ?thesis by simp
  next
    case False
    then obtain R where R: "checked_add ?m ?pp = Some R" "R \<noteq> 0" by auto
    then have whole: "unat R = unat ?m + unat ?pp" by (auto simp: checked_add_def add_no_wrap_iff unat_word_ariths split: if_splits)
    let ?ps = "p2p_payments ?q (share_of tokens ?q R) proposer nodes"
    have p2p: "paid ?ps \<le> unat (share_of tokens ?q R)" by (rule paid_p2p [OF n])
    have three: "unat ?m + unat ?pf + unat ?q \<le> unat R" using proposer_part(2) [of ?pp] whole by simp
    have pos: "0 < R" using R(2) by (simp add: word_gt_0)
    have sh: "unat (share_of tokens ?m R) + unat (share_of tokens ?pf R) + unat (share_of tokens ?q R) \<le> unat tokens"
      by (rule three_shares [OF three pos])
    show ?thesis
    proof (cases "masternode = proposer")
      case True
      have "unat ?m + unat ?pf \<le> unat R" using three by simp
      moreover have "unat R < 2 ^ 128" by (rule order.strict_trans2 [OF unsigned_less]) simp
      ultimately have nw: "unat ?m + unat ?pf < 2 ^ 128" by linarith
      then have c: "checked_add ?m ?pf = Some (?m + ?pf)" "unat (?m + ?pf) = unat ?m + unat ?pf"
        by (simp_all add: checked_add_def add_no_wrap_iff unat_word_ariths)
      have "unat (share_of tokens (?m + ?pf) R) + unat (share_of tokens ?q R) \<le> unat tokens"
        using three_shares [of "?m + ?pf" 0 ?q R tokens] three pos c(2) by simp
      moreover have "db' = fold pay ?ps (pay (masternode, share_of tokens (?m + ?pf) R) db)"
        using assms(3) False R True by (simp add: distribute_vote_tokens_def Let_def bindc_def run_simps c(1) split: if_splits)
      ultimately show ?thesis
        using token_sum_fold [OF pay_wf [OF assms(1)] assms(2), of ?ps "(masternode, share_of tokens (?m + ?pf) R)"]
          token_sum_pay [OF assms(1,2), of "(masternode, share_of tokens (?m + ?pf) R)"] p2p by simp
    next
      case neq: False
      have "db' = fold pay ?ps (pay (proposer, share_of tokens ?pf R) (pay (masternode, share_of tokens ?m R) db))"
        using assms(3) False R neq by (simp add: distribute_vote_tokens_def Let_def bindc_def run_simps split: if_splits)
      then show ?thesis
        using token_sum_fold [OF pay_wf [OF pay_wf [OF assms(1)]] assms(2), of ?ps "(proposer, share_of tokens ?pf R)" "(masternode, share_of tokens ?m R)"]
          token_sum_pay [OF pay_wf [OF assms(1)] assms(2), of "(proposer, share_of tokens ?pf R)" "(masternode, share_of tokens ?m R)"]
          token_sum_pay [OF assms(1,2), of "(masternode, share_of tokens ?m R)"] p2p sh by simp
    qed
  qed
qed

theorem vote_tokens_not_exceeded_witness:
  "token_sum {[1], [2], [3]} (snd (distribute_vote_tokens 1000
      \<lparr> burn_amount = 0, treasury_amount = 10, validator_amount = 10, proposer_amount = 80, da_treasury = 10, da_masternode = 10,
        da_proposer_p2p = 80 \<rparr> [1] [2] (Some [([3], 7), ([4], 2)]) 100 [])) \<le> token_sum {[1], [2], [3]} [] + 1000"
  by (rule order_trans [OF vote_tokens_not_exceeded [OF _ _ surjective_pairing]]) simp_all

text \<open>With larger scores the bound fails: the sum of the scores wraps, here to 1, and the first of three
  nodes is paid its score times the tokens.\<close>

theorem score_sum_wraps:
  "hd (p2p_payments 15 1000 [2] (Some [([3], 2 ^ 63), ([4], 2 ^ 63), ([5], 1), ([6], 0)])) = ([3], 1000 * 2 ^ 63)"
  by (simp add: p2p_payments_def eligible_nodes_def share_of_def checked_mul_def Let_def)

text \<open>A fee engine's own treasury, the one it shows, is empty in every reachable state, whatever it was
  configured with, whatever amounts it processes and however often it is reconfigured: fees go to a
  copy inside the distributor, which the next change of the distribution discards.\<close>

theorem shown_treasury_empty:
  assumes "reachable (\<lambda>e. \<exists>now cfg d. e = new_fee_engine now cfg d) fee_step e"
  shows "tr_balance (fe_treasury e) = 0 \<and> total_collected (fe_treasury e) = 0"
  by (rule fee.inv_reachable [OF assms])

theorem shown_treasury_empty_witness:
  "tr_balance (dist_treasury (distributor (snd (process_fees 1 10000 (new_fee_engine 0 default_fee_config
       \<lparr> fd_burn_rate = 0, treasury_rate = 3000, validator_rate = 2000 \<rparr>))))) = 3000
   \<and> tr_balance (fe_treasury (snd (process_fees 1 10000 (new_fee_engine 0 default_fee_config
       \<lparr> fd_burn_rate = 0, treasury_rate = 3000, validator_rate = 2000 \<rparr>)))) = 0"
proof -
  let ?e = "new_fee_engine 0 default_fee_config \<lparr> fd_burn_rate = 0, treasury_rate = 3000, validator_rate = 2000 \<rparr>"
  have "reachable (\<lambda>e. \<exists>now cfg d. e = new_fee_engine now cfg d) fee_step (snd (process_fees 1 10000 ?e))"
    by (rule reachable.move [where s = ?e], rule reachable.start) (auto intro: fee_step.process prod.collapse [symmetric])
  from shown_treasury_empty [OF this] show ?thesis
    by (simp add: process_fees_def distribute_def bindc_def run_simps Let_def in_treasury_def tr_deposit_def from_total_def
        new_fee_engine_def new_treasury_def saturating_add_def checked_add_def)
qed

text \<open>C29. The default fee engine never collects a fee, not even in its distributor: in every state it can
  reach by processing amounts below \<open>2 ^ 112\<close>, changing its fee configuration, and changing to
  distributions that burn at least as much as they give the treasury, both treasuries are empty, and
  processing such an amount changes nothing; it fails as soon as there is a unit to burn, because the
  burn is taken from the treasury before anything is deposited there.\<close>

theorem fee_engine_never_collects:
  assumes "reachable (\<lambda>e. \<exists>now. e = default_fee_engine now) burning_step e" "unat amount < 2 ^ 112"
  shows "process_fees now amount e =
      (if 10000 \<le> unat amount * unat (fd_burn_rate (dist_config (distributor e)))
       then (Inl ''Insufficient treasury balance for burning'', e) else (Inr (), e))
    \<and> tr_balance (dist_treasury (distributor e)) = 0 \<and> total_collected (dist_treasury (distributor e)) = 0
    \<and> tr_balance (fe_treasury e) = 0 \<and> total_collected (fe_treasury e) = 0"
  using burning.inv_reachable [OF assms(1)] process_fees_burning [OF _ assms(2)] by (auto simp: never_collected_def)

theorem fee_engine_never_collects_witness:
  "process_fees 0 1000 (update_distribution default_fee_distribution (default_fee_engine 0)) =
     (Inl ''Insufficient treasury balance for burning'', update_distribution default_fee_distribution (default_fee_engine 0))"
proof -
  have "reachable (\<lambda>e. \<exists>now. e = default_fee_engine now) burning_step (update_distribution default_fee_distribution (default_fee_engine 0))"
    by (rule reachable.move [where s = "default_fee_engine 0"], rule reachable.start)
      (auto intro!: burning_step.distribution simp: default_fee_distribution_def)
  from fee_engine_never_collects [OF this, of 1000 0] show ?thesis
    by (simp add: update_distribution_def default_fee_distribution_def)
qed

text \<open>Fees of contract calls below 1000 cannot be distributed, and above it the 1000 are taken off, the rest
  is split without loss into three parts, and no account of the overlay is credited with its part.\<close>

theorem distribute_fees_exact:
  assumes "fees \<noteq> 0"
  shows "if fees < 1000 then distribute_fees c fees masternode proposer nodes (db, ov) = (Inl ''Burn amount exceeds total fees for contract calls'', (db, ov))
    else \<exists>d db'. distribute_fees c fees masternode proposer nodes (db, ov) = (Inr d, (db', ov))
      \<and> unat (da_treasury d) + unat (da_masternode d) + unat (da_proposer_p2p d) = unat fees - 1000
      \<and> unat (da_treasury d) = (unat fees - 1000) div 10 \<and> da_masternode d = da_treasury d"
proof -
  have b: "calculate_burn_amount (update_volume fees (new_burn_engine 0)) = 1000"
    by (simp add: calculate_burn_amount_def update_volume_def new_burn_engine_def saturating_add_def checked_add_def)
  show ?thesis
  proof (cases "fees < 1000")
    case True
    then have "\<not> 1000 \<le> fees" by simp
    then show ?thesis
      using assms b True by (simp add: distribute_fees_def bindc_def run_simps checked_sub_def)
  next
    case False
    obtain d ov' where a: "distribute_fees_after_burn (fees - 1000) ov = (d, ov')" by (rule prod.exhaust)
    note s = after_burn_split [OF a]
    have n: "unat (fees - 1000) = unat fees - 1000" using False by (simp add: unat_sub not_less)
    have "unat (fees - 1000) < 2 ^ 128" by (rule order.strict_trans2 [OF unsigned_less]) simp
    then have "unat (da_masternode d) + unat (da_proposer_p2p d) < 2 ^ 128" using s(4) by linarith
    then obtain db' where v: "distribute_vote_tokens (mint_from_fees fees) d masternode proposer nodes (fees - 1000) db = (Inr (), db')"
      using distribute_vote_tokens_ok by blast
    have "\<exists>db'. distribute_fees c fees masternode proposer nodes (db, ov) = (Inr d, (db', ov))"
      using assms False a s(1) v by (auto simp: distribute_fees_def b bindc_def run_simps checked_sub_def on_store_def)
    then show ?thesis using False s n by auto
  qed
qed

theorem distribute_fees_exact_witness:
  "(999 :: u128) \<noteq> 0 \<and> distribute_fees (new_contract_fee 0) 999 [1] [2] None ([], []) = (Inl ''Burn amount exceeds total fees for contract calls'', ([], []))"
  using distribute_fees_exact [of 999 "new_contract_fee 0" "[1]" "[2]" None "[]" "[]"] by simp

text \<open>C24. Charging a caller: a call that succeeds took exactly its gas at the price used from the account the
  caller had, kept its nonce and left every other account of the overlay as it was; a call that fails
  changed nothing.\<close>

theorem deduct_fee_exact:
  assumes "bt_wf ov" "deduct_fee_with_gas c dec_account get_account gas key price ov = (r, ov')"
  shows "case r of
      Inl _ \<Rightarrow> ov' = ov
    | Inr fee \<Rightarrow> calculate_fee_from_gas c gas price = Some fee \<and> (fee = 0 \<longrightarrow> ov' = ov)
        \<and> (fee \<noteq> 0 \<longrightarrow> (\<exists>a. map_of ov' key = Some a
              \<and> unat (balance a) + unat fee = unat (balance (caller_account dec_account get_account key ov))
              \<and> acc_nonce a = acc_nonce (caller_account dec_account get_account key ov)
              \<and> (\<forall>k. k \<noteq> key \<longrightarrow> map_of ov' k = map_of ov k)))"
  using assms
  by (auto simp: deduct_fee_with_gas_def bindc_def run_simps debit_def map_of_bt_insert unat_sub word_le_nat_alt checked_sub_def split: if_splits option.splits sum.splits)

theorem deduct_fee_exact_witness:
  "\<exists>a. map_of (snd (deduct_fee_with_gas (new_contract_fee 0) (\<lambda>_. None) (\<lambda>_. None) 5 [1] (Some 2)
        [([1], \<lparr> balance = 100, acc_nonce = 3 \<rparr>)])) [1] = Some a \<and> unat (balance a) + 10 = 100 \<and> acc_nonce a = 3"
proof -
  let ?ov = "[([1], \<lparr> balance = 100, acc_nonce = 3 \<rparr>)] :: accounts"
  have r: "deduct_fee_with_gas (new_contract_fee 0) (\<lambda>_. None) (\<lambda>_. None) 5 [1] (Some 2) ?ov =
      (Inr 10, [([1], \<lparr> balance = 90, acc_nonce = 3 \<rparr>)])"
    by (simp add: deduct_fee_with_gas_def calculate_fee_from_gas_def caller_account_def bindc_def run_simps debit_def checked_sub_def
        checked_mul_def)
  from deduct_fee_exact [OF _ r] r show ?thesis by (simp add: caller_account_def)
qed

end
