(* ===== verification/Bft_Engine.thy ===== *)
theory Bft_Engine
  imports State_Error Primitives
begin

text \<open>
  The BFT engine (\<open>savitri-consensus/src/protocols/bft.rs\<close>): validators, proposals and votes of the
  current round, the decision and the advance to the next round, and the message interface.  Each field
  of the engine sits behind an asynchronous lock that is not re-entrant, so the locks are part of the
  state: a call that asks for a lock whose write guard is held, by an earlier call that never returned or
  by itself, does not return (\<open>Blocked\<close>) and keeps its own guards.  Calls do not overlap otherwise.  The
  clock is an argument, ed25519 the record \<open>crypto\<close>, the signing key its signing function.  Formatted
  arguments of messages, the metadata of validators and the floating-point fields are left out.
\<close>

section \<open>Types\<close>

record BftConfig =
  min_validators :: nat
  max_faulty :: u64
  total_validators :: u64
  round_timeout_ms :: u64
  max_rounds :: u64
  enable_fast_path :: bool
  fast_path_threshold_permille :: u32

definition default_bft_config :: BftConfig where
  "default_bft_config = \<lparr> min_validators = 4, max_faulty = 1, total_validators = 4, round_timeout_ms = 5000, max_rounds = 100,
     enable_fast_path = True, fast_path_threshold_permille = 670 \<rparr>"

datatype BftState = Initial | Proposing | Voting | Committed | Timeout

record BftProposal =
  bp_proposal_id :: string
  bp_round :: u64
  block_data :: bytes
  bp_proposer_id :: string
  bp_timestamp :: u64
  bp_signature :: bytes

record BftVote =
  bv_vote_id :: string
  bv_round :: u64
  bv_proposal_id :: string
  bv_voter_id :: string
  bv_vote :: bool
  bv_timestamp :: u64
  bv_signature :: bytes

record BftStats =
  total_rounds :: u64
  successful_rounds :: u64
  failed_rounds :: u64
  total_proposals :: u64
  bft_total_votes :: u64
  fast_path_agreements :: u64
  timeout_events :: u64

datatype ValidatorStatus = Active | Inactive | Slashed | Jailed | Pending_validator

record ValidatorInfo =
  vi_validator_id :: string
  vi_public_key :: bytes
  vi_stake :: u64
  vi_score :: u32
  vi_status :: ValidatorStatus
  vi_last_active :: u64

datatype BftLock = Validators | Current_round | Proposals | Votes | State | Stats

record BftConsensus =
  bft_config :: BftConfig
  validators :: "(string \<times> ValidatorInfo) list"
  current_round :: u64
  proposals :: "(u64 \<times> BftProposal) list"
  votes :: "(u64 \<times> (string \<times> BftVote) list) list"
  bft_state :: BftState
  stats :: BftStats
  local_signing_key :: "(bytes \<Rightarrow> bytes) option"
  id_counter :: u64
  write_held :: "BftLock list"

datatype bft_error = Blocked | ValidationFailed string | InvalidSignature string

type_synonym 'a bft = "(BftConsensus, bft_error, 'a) comp"

definition new_bft :: "BftConfig \<Rightarrow> BftConsensus" where
  "new_bft cfg = \<lparr> bft_config = cfg, validators = [], current_round = 0, proposals = [], votes = [], bft_state = Initial,
     stats = \<lparr> total_rounds = 0, successful_rounds = 0, failed_rounds = 0, total_proposals = 0, bft_total_votes = 0,
       fast_path_agreements = 0, timeout_events = 0 \<rparr>,
     local_signing_key = None, id_counter = 0, write_held = [] \<rparr>"

section \<open>Locks\<close>

text \<open>A guard that is dropped at once, a write guard kept to the end of the call, and the end of a call:
  one that returns, with a result or an error, drops the guards it took.\<close>

definition lock :: "BftLock \<Rightarrow> unit bft" where
  "lock l = bindc (gets write_held) (\<lambda>held. need (l \<notin> set held) Blocked)"

definition hold :: "BftLock \<Rightarrow> unit bft" where
  "hold l = bindc (lock l) (\<lambda>_. modify (\<lambda>b. b\<lparr> write_held := l # write_held b \<rparr>))"

definition call :: "'a bft \<Rightarrow> 'a bft" where
  "call m b = (case m b of
      (Inl Blocked, b') \<Rightarrow> (Inl Blocked, b')
    | (r, b') \<Rightarrow> (r, b'\<lparr> write_held := write_held b \<rparr>))"

definition set_state :: "BftState \<Rightarrow> unit bft" where
  "set_state st = bindc (lock State) (\<lambda>_. modify (\<lambda>b. b\<lparr> bft_state := st \<rparr>))"

definition update_stats :: "(BftStats \<Rightarrow> BftStats) \<Rightarrow> unit bft" where
  "update_stats h = bindc (hold Stats) (\<lambda>_. modify (\<lambda>b. b\<lparr> stats := h (stats b) \<rparr>))"

section \<open>Messages and signatures\<close>

definition build_proposal_message :: "crypto \<Rightarrow> u64 \<Rightarrow> string \<Rightarrow> bytes \<Rightarrow> u64 \<Rightarrow> bytes" where
  "build_proposal_message C r proposer block ts =
    str_bytes ''BFT-PROP'' @ le_bytes 8 r @ le_bytes 4 (word_of_nat (length proposer) :: u32) @ str_bytes proposer @
    blake3 C block @ le_bytes 8 ts"

definition build_vote_message :: "u64 \<Rightarrow> string \<Rightarrow> string \<Rightarrow> bool \<Rightarrow> u64 \<Rightarrow> bytes" where
  "build_vote_message r pid voter v ts =
    str_bytes ''BFT-VOTE'' @ le_bytes 8 r @ le_bytes 4 (word_of_nat (length pid) :: u32) @ str_bytes pid @
    le_bytes 4 (word_of_nat (length voter) :: u32) @ str_bytes voter @ [if v then 1 else 0] @ le_bytes 8 ts"

definition verify_signature :: "crypto \<Rightarrow> bytes \<Rightarrow> bytes \<Rightarrow> bytes \<Rightarrow> bool" where
  "verify_signature C msg sig pk \<longleftrightarrow> length sig = 64 \<and> length pk = 32 \<and> verify_with C pk msg sig"

definition verify_proposal_signature :: "crypto \<Rightarrow> BftProposal \<Rightarrow> bytes \<Rightarrow> bool" where
  "verify_proposal_signature C p pk =
    verify_signature C (build_proposal_message C (bp_round p) (bp_proposer_id p) (block_data p) (bp_timestamp p)) (bp_signature p) pk"

definition bft_verify_vote_signature :: "crypto \<Rightarrow> BftVote \<Rightarrow> bytes \<Rightarrow> bool" where
  "bft_verify_vote_signature C v pk =
    verify_signature C (build_vote_message (bv_round v) (bv_proposal_id v) (bv_voter_id v) (bv_vote v) (bv_timestamp v)) (bv_signature v) pk"

definition no_signature :: bytes where
  "no_signature = replicate 64 0"

text \<open>Without a signing key the signature is zero.\<close>

definition sign_local :: "bytes \<Rightarrow> bytes bft" where
  "sign_local msg = gets (\<lambda>b. case local_signing_key b of None \<Rightarrow> no_signature | Some sign_with \<Rightarrow> sign_with msg)"

definition next_seq :: "u64 bft" where
  "next_seq = bindc (gets id_counter) (\<lambda>n. bindc (modify (\<lambda>b. b\<lparr> id_counter := n + 1 \<rparr>)) (\<lambda>_. ret n))"

definition make_id :: "string \<Rightarrow> string \<Rightarrow> u64 \<Rightarrow> string" where
  "make_id a m seq = a @ ''-'' @ m @ ''-'' @ dec (unat seq)"

section \<open>The engine\<close>

definition set_signing_key :: "(bytes \<Rightarrow> bytes) \<Rightarrow> unit bft" where
  "set_signing_key sign_with = modify (\<lambda>b. b\<lparr> local_signing_key := Some sign_with \<rparr>)"

definition add_validator :: "ValidatorInfo \<Rightarrow> unit bft" where
  "add_validator v = call (bindc (hold Validators) (\<lambda>_. modify (\<lambda>b. b\<lparr> validators := AList.update (vi_validator_id v) v (validators b) \<rparr>)))"

definition remove_validator :: "string \<Rightarrow> unit bft" where
  "remove_validator vid = call (bindc (hold Validators) (\<lambda>_. modify (\<lambda>b. b\<lparr> validators := AList.delete vid (validators b) \<rparr>)))"

definition get_validators :: "ValidatorInfo list bft" where
  "get_validators = bindc (lock Validators) (\<lambda>_. gets (\<lambda>b. map snd (validators b)))"

definition bft_create_proposal :: "crypto \<Rightarrow> u64 \<Rightarrow> bytes \<Rightarrow> string \<Rightarrow> BftProposal bft" where
  "bft_create_proposal C now block proposer = call (
    bindc (lock Validators) (\<lambda>_.
    bindc (gets (\<lambda>b. map_of (validators b) proposer)) (\<lambda>vi.
    bindc (need (case vi of Some v \<Rightarrow> vi_status v \<noteq> Slashed \<and> vi_status v \<noteq> Jailed | None \<Rightarrow> True) (ValidationFailed ''Proposer cannot create proposals'')) (\<lambda>_.
    bindc (lock Current_round) (\<lambda>_.
    bindc (gets current_round) (\<lambda>r.
    bindc next_seq (\<lambda>seq.
    bindc (sign_local (build_proposal_message C r proposer block now)) (\<lambda>sig.
    (let p = \<lparr> bp_proposal_id = make_id proposer (dec (unat r)) seq, bp_round = r, block_data = block, bp_proposer_id = proposer,
               bp_timestamp = now, bp_signature = sig \<rparr> in
    bindc (need (sig \<noteq> no_signature) (InvalidSignature ''signing key required'')) (\<lambda>_.
    bindc (hold Proposals) (\<lambda>_.
    bindc (gets (\<lambda>b. map_of (proposals b) r)) (\<lambda>existing.
    bindc (need (case existing of Some q \<Rightarrow> bp_proposer_id q = proposer \<and> bp_proposal_id q = bp_proposal_id p | None \<Rightarrow> True)
             (ValidationFailed ''Equivocation'')) (\<lambda>_.
    bindc (modify (\<lambda>b. b\<lparr> proposals := AList.update r p (proposals b) \<rparr>)) (\<lambda>_.
    bindc (set_state Proposing) (\<lambda>_.
    bindc (update_stats (\<lambda>st. st\<lparr> total_proposals := total_proposals st + 1 \<rparr>)) (\<lambda>_. ret p))))))))))))))))"

text \<open>The votes of a round that count: those of active validators.\<close>

definition valid_round_votes :: "(string \<times> ValidatorInfo) list \<Rightarrow> (string \<times> BftVote) list \<Rightarrow> BftVote list" where
  "valid_round_votes vals rv =
    filter (\<lambda>v. case map_of vals (bv_voter_id v) of Some vi \<Rightarrow> vi_status vi = Active | None \<Rightarrow> False) (map snd rv)"

definition check_consensus :: "u64 \<Rightarrow> bool bft" where
  "check_consensus r =
    bindc (lock Votes) (\<lambda>_.
    bindc (lock Validators) (\<lambda>_ b.
      (case map_of (votes b) r of
         None \<Rightarrow> (Inr False, b)
       | Some rv \<Rightarrow>
           (let valid = valid_round_votes (validators b) rv;
                yes = length (filter bv_vote valid);
                no = length (filter (\<lambda>v. \<not> bv_vote v) valid);
                required = unat (total_validators (bft_config b) - max_faulty (bft_config b));
                quorum = unat (2 * max_faulty (bft_config b) + 1)
            in if required \<le> yes + no then
                 (if quorum \<le> yes then
                    bindc (set_state Committed) (\<lambda>_.
                    bindc (update_stats (\<lambda>st. st\<lparr> successful_rounds := successful_rounds st + 1,
                                            fast_path_agreements := fast_path_agreements st + 1 \<rparr>)) (\<lambda>_. ret True)) b
                  else if quorum \<le> no then
                    bindc (set_state Timeout) (\<lambda>_.
                    bindc (update_stats (\<lambda>st. st\<lparr> failed_rounds := failed_rounds st + 1 \<rparr>)) (\<lambda>_. ret False)) b
                  else (Inr False, b))
               else (Inr False, b)))))"

definition may_vote :: "ValidatorInfo option \<Rightarrow> unit bft" where
  "may_vote vi = (case vi of
      None \<Rightarrow> throw (ValidationFailed ''Unknown validator cannot vote'')
    | Some v \<Rightarrow>
        (case vi_status v of
           Slashed \<Rightarrow> throw (ValidationFailed ''Slashed validator cannot vote'')
         | Jailed \<Rightarrow> throw (ValidationFailed ''Jailed validator cannot vote'')
         | Inactive \<Rightarrow> throw (ValidationFailed ''Inactive validator cannot vote'')
         | _ \<Rightarrow> ret ()))"

text \<open>The map of a round's votes, empty when there is none yet.\<close>

definition round_votes :: "u64 \<Rightarrow> BftConsensus \<Rightarrow> (string \<times> BftVote) list" where
  "round_votes r b = (case map_of (votes b) r of None \<Rightarrow> [] | Some rv \<Rightarrow> rv)"

definition bft_vote :: "crypto \<Rightarrow> u64 \<Rightarrow> string \<Rightarrow> string \<Rightarrow> bool \<Rightarrow> BftVote bft" where
  "bft_vote C now pid voter v = call (
    bindc (lock Current_round) (\<lambda>_.
    bindc (gets current_round) (\<lambda>r.
    bindc next_seq (\<lambda>seq.
    bindc (lock Validators) (\<lambda>_.
    bindc (gets (\<lambda>b. map_of (validators b) voter)) (\<lambda>vi.
    bindc (may_vote vi) (\<lambda>_.
    bindc (sign_local (build_vote_message r pid voter v now)) (\<lambda>sig.
    (let bv = \<lparr> bv_vote_id = make_id voter pid seq, bv_round = r, bv_proposal_id = pid, bv_voter_id = voter, bv_vote = v,
                bv_timestamp = now, bv_signature = sig \<rparr> in
    bindc (need (sig \<noteq> no_signature) (InvalidSignature ''signing key required'')) (\<lambda>_.
    bindc (lock Validators) (\<lambda>_.
    bindc (need (case vi of Some w \<Rightarrow> bft_verify_vote_signature C bv (vi_public_key w) | None \<Rightarrow> True) (InvalidSignature ''Vote signature verification failed'')) (\<lambda>_.
    bindc (hold Votes) (\<lambda>_.
    bindc (modify (\<lambda>b. b\<lparr> votes := AList.update r (round_votes r b) (votes b) \<rparr>)) (\<lambda>_.
    bindc (gets (\<lambda>b. map_of (round_votes r b) voter)) (\<lambda>prev.
    bindc (need (prev = None) (ValidationFailed ''Double-vote detected'')) (\<lambda>_.
    bindc (modify (\<lambda>b. b\<lparr> votes := AList.update r (AList.update voter bv (round_votes r b)) (votes b) \<rparr>)) (\<lambda>_.
    bindc (set_state Voting) (\<lambda>_.
    bindc (update_stats (\<lambda>st. st\<lparr> bft_total_votes := bft_total_votes st + 1 \<rparr>)) (\<lambda>_.
    bindc (check_consensus r) (\<lambda>_. ret bv))))))))))))))))))))"

definition next_round :: "unit bft" where
  "next_round = call (
    bindc (lock State) (\<lambda>_.
    bindc (gets bft_state) (\<lambda>st.
    bindc (need (st = Committed \<or> st = Timeout) (ValidationFailed ''Cannot advance round'')) (\<lambda>_.
    bindc (hold Current_round) (\<lambda>_.
    bindc (gets current_round) (\<lambda>prev.
    bindc (modify (\<lambda>b. b\<lparr> current_round := prev + 1 \<rparr>)) (\<lambda>_.
    bindc (hold Proposals) (\<lambda>_.
    bindc (hold Votes) (\<lambda>_.
    bindc (modify (\<lambda>b. (let keep = saturating_sub (prev + 1) 10 in
             b\<lparr> proposals := filter (\<lambda>(r, _). keep \<le> r) (AList.delete prev (proposals b)),
                votes := filter (\<lambda>(r, _). keep \<le> r) (AList.delete prev (votes b)) \<rparr>))) (\<lambda>_.
    bindc (set_state Initial) (\<lambda>_.
      update_stats (\<lambda>st. st\<lparr> total_rounds := total_rounds st + 1 \<rparr>))))))))))))"

definition is_consensus_reached :: "bool bft" where
  "is_consensus_reached = bindc (lock State) (\<lambda>_. gets (\<lambda>b. bft_state b = Committed))"

definition is_bft_valid :: "BftConsensus \<Rightarrow> bool" where
  "is_bft_valid b \<longleftrightarrow> 3 * max_faulty (bft_config b) + 1 \<le> total_validators (bft_config b)"

definition get_required_votes :: "BftConsensus \<Rightarrow> u64" where
  "get_required_votes b = total_validators (bft_config b) - max_faulty (bft_config b)"

definition min_validators_for_faulty :: "u64 \<Rightarrow> u64" where
  "min_validators_for_faulty faulty = 3 * faulty + 1"

definition max_faulty_for_validators :: "u64 \<Rightarrow> u64" where
  "max_faulty_for_validators n = (n - 1) div 3"

definition is_valid_bft_parameters :: "u64 \<Rightarrow> u64 \<Rightarrow> bool" where
  "is_valid_bft_parameters n faulty \<longleftrightarrow> 3 * faulty + 1 \<le> n"

definition supermajority_threshold_permille :: "u64 \<Rightarrow> u64 \<Rightarrow> u32" where
  "supermajority_threshold_permille n faulty = (if n = 0 then 0 else ucast ((n - faulty) * 1000 div n))"

section \<open>The message interface\<close>

record BftCommit =
  bc_validator_id :: string
  bc_round :: u64
  bc_block_hash :: bytes
  bc_signature :: bytes

datatype BftMessage =
  MProposal BftProposal
| MVote BftVote
| MCommit BftCommit
| MTimeout u64 string
| MSyncRequest u64 u64
| MSyncResponse "BftProposal list" "BftVote list"

datatype BftResponse = RSuccess string bytes | RError u32 string | RConsensus BftProposal "BftVote list" | RTimeout u64

definition initialize :: "ValidatorInfo list \<Rightarrow> unit bft" where
  "initialize vs = foldr (\<lambda>v m. bindc (add_validator v) (\<lambda>_. m)) vs (ret ())"

definition process_message :: "crypto \<Rightarrow> BftMessage \<Rightarrow> BftResponse bft" where
  "process_message C m = (case m of
      MProposal p \<Rightarrow>
        bindc (if bp_signature p = no_signature then ret ()
               else bindc (lock Validators) (\<lambda>_.
                    bindc (gets (\<lambda>b. map_of (validators b) (bp_proposer_id p))) (\<lambda>vi. case vi of
                      None \<Rightarrow> throw (ValidationFailed ''Unknown proposer'')
                    | Some v \<Rightarrow> need (verify_proposal_signature C p (vi_public_key v)) (InvalidSignature ''Proposal signature verification failed''))))
          (\<lambda>_. ret (RSuccess ''Proposal received'' []))
    | MVote v \<Rightarrow>
        bindc (if bv_signature v = no_signature then ret ()
               else bindc (lock Validators) (\<lambda>_.
                    bindc (gets (\<lambda>b. map_of (validators b) (bv_voter_id v))) (\<lambda>vi. case vi of
                      None \<Rightarrow> throw (ValidationFailed ''Unknown validator'')
                    | Some w \<Rightarrow> need (bft_verify_vote_signature C v (vi_public_key w)) (InvalidSignature ''Vote signature verification failed''))))
          (\<lambda>_. ret (RSuccess ''Vote received'' []))
    | MCommit c \<Rightarrow> ret (RSuccess ''Commit received'' [])
    | MTimeout r vid \<Rightarrow> ret (RSuccess ''Timeout handled'' [])
    | MSyncRequest a b \<Rightarrow> ret (RSuccess ''Sync request received'' [])
    | MSyncResponse ps vs \<Rightarrow> ret (RSuccess ''Sync response received'' []))"

section \<open>Lemmas\<close>

lemma run_call:
  "call m b = (Inr v, b') \<longleftrightarrow> (\<exists>b1. m b = (Inr v, b1) \<and> b' = b1\<lparr> write_held := write_held b \<rparr>)"
  by (auto simp: call_def split: prod.splits sum.splits bft_error.splits)

lemma lock_run: "lock l b = (if l \<in> set (write_held b) then (Inl Blocked, b) else (Inr (), b))"
  by (simp add: lock_def bindc_def run_simps)

lemma hold_run: "hold l b = (if l \<in> set (write_held b) then (Inl Blocked, b) else (Inr (), b\<lparr> write_held := l # write_held b \<rparr>))"
  by (simp add: hold_def bindc_def run_simps lock_run)

lemma set_state_run: "set_state st b = (if State \<in> set (write_held b) then (Inl Blocked, b) else (Inr (), b\<lparr> bft_state := st \<rparr>))"
  by (simp add: set_state_def bindc_def run_simps lock_run)

lemma update_stats_run:
  "update_stats h b = (if Stats \<in> set (write_held b) then (Inl Blocked, b)
     else (Inr (), b\<lparr> write_held := Stats # write_held b, stats := h (stats b) \<rparr>))"
  by (simp add: update_stats_def bindc_def run_simps hold_run)

lemmas bft_run = run_simps lock_run hold_run set_state_run update_stats_run

text \<open>The decision needs the votes' lock.\<close>

lemma check_consensus_blocked: "Votes \<in> set (write_held b) \<Longrightarrow> check_consensus r b = (Inl Blocked, b)"
  by (simp add: check_consensus_def bindc_def bft_run)

text \<open>A vote does not return a result: it holds the votes' lock when it asks for it again.\<close>

lemma bft_vote_not_Inr: "bft_vote C now pid voter v b \<noteq> (Inr bv, b')"
  by (auto simp: bft_vote_def run_call bindc_Inr Let_def bft_run check_consensus_def split: if_splits)

definition undecided :: "BftConsensus \<Rightarrow> bool" where
  "undecided b \<longleftrightarrow> bft_state b \<noteq> Committed \<and> bft_state b \<noteq> Timeout \<and> current_round b = 0"

inductive bft_step :: "crypto \<Rightarrow> BftConsensus \<Rightarrow> BftConsensus \<Rightarrow> bool" for C where
  key: "set_signing_key s b = (r, b') \<Longrightarrow> bft_step C b b'"
| add: "add_validator vi b = (r, b') \<Longrightarrow> bft_step C b b'"
| remove: "remove_validator vid b = (r, b') \<Longrightarrow> bft_step C b b'"
| propose: "bft_create_proposal C now block proposer b = (r, b') \<Longrightarrow> bft_step C b b'"
| vote: "bft_vote C now pid voter v b = (r, b') \<Longrightarrow> bft_step C b b'"
| advance: "next_round b = (r, b') \<Longrightarrow> bft_step C b b'"
| message: "process_message C m b = (r, b') \<Longrightarrow> bft_step C b b'"

lemma undecided_call: "preserves undecided m \<Longrightarrow> preserves undecided (call m)"
  by (fastforce simp: preserves_def call_def undecided_def split: prod.splits sum.splits bft_error.splits)

lemma undecided_basic [preserves_intros]:
  "preserves undecided (lock l)" "preserves undecided (hold l)" "preserves undecided (update_stats h)" "preserves undecided next_seq"
  "preserves undecided (sign_local msg)" "preserves undecided (may_vote vi)"
  by (auto simp: preserves_def bft_run undecided_def next_seq_def bindc_def sign_local_def may_vote_def
      split: option.splits ValidatorStatus.splits)

lemma undecided_set_state [preserves_intros]: "st \<noteq> Committed \<Longrightarrow> st \<noteq> Timeout \<Longrightarrow> preserves undecided (set_state st)"
  by (auto simp: preserves_def bft_run undecided_def)

lemma wp_locks:
  "wp (lock l) Q E b = (if l \<in> set (write_held b) then E Blocked b else Q () b)"
  "wp (hold l) Q E b = (if l \<in> set (write_held b) then E Blocked b else Q () (b\<lparr> write_held := l # write_held b \<rparr>))"
  "wp (set_state st) Q E b = (if State \<in> set (write_held b) then E Blocked b else Q () (b\<lparr> bft_state := st \<rparr>))"
  "wp (update_stats h) Q E b = (if Stats \<in> set (write_held b) then E Blocked b
     else Q () (b\<lparr> write_held := Stats # write_held b, stats := h (stats b) \<rparr>))"
  "wp next_seq Q' E b = Q' (id_counter b) (b\<lparr> id_counter := id_counter b + 1 \<rparr>)"
  by (simp_all add: wp_def bft_run next_seq_def bindc_def)

lemma wp_check_blocked: "Votes \<in> set (write_held b) \<Longrightarrow> wp (check_consensus r) Q E b = E Blocked b"
  by (simp add: wp_def check_consensus_blocked)

lemma preserves_wp: "(\<And>b. I b \<Longrightarrow> wp m (\<lambda>_. I) (\<lambda>_. I) b) \<Longrightarrow> preserves I m"
  unfolding preserves_def
proof (intro allI impI)
  fix b assume "\<And>b. I b \<Longrightarrow> wp m (\<lambda>_. I) (\<lambda>_. I) b" "I b"
  then show "I (snd (m b))" by (cases "m b"; cases "fst (m b)") (auto simp: wp_def dest!: meta_spec [of _ b])
qed

lemma undecided_vote: "preserves undecided (bft_vote C now pid voter v)"
  unfolding bft_vote_def
  by (rule undecided_call, rule preserves_wp)
    (simp add: wp_locks wp_check_blocked undecided_def sign_local_def may_vote_def Let_def split: option.split ValidatorStatus.split)

lemma undecided_step: "bft_step C b b' \<Longrightarrow> undecided b \<Longrightarrow> undecided b'"
proof (induction rule: bft_step.induct)
  case (propose now block proposer b r b')
  have "preserves undecided (bft_create_proposal C now block proposer)"
    unfolding bft_create_proposal_def
    by (rule undecided_call, rule preserves_wp) (simp add: wp_locks undecided_def sign_local_def Let_def)
  from preservesD [OF this propose(2,1)] show ?case .
next
  case (vote now pid voter v b r b')
  show ?case by (rule preservesD [OF undecided_vote vote(2,1)])
next
  case (advance b r b')
  then show ?case by (auto simp: next_round_def call_def bindc_def bft_run undecided_def split: if_splits)
next
  case (message m b r b')
  have "preserves undecided (process_message C m)"
    unfolding process_message_def by (cases m) (auto intro!: preserves_intros)
  from preservesD [OF this message(2,1)] show ?case .
qed (auto simp: set_signing_key_def add_validator_def remove_validator_def call_def bindc_def bft_run undecided_def split: if_splits)

interpretation bft: inv_system "\<lambda>b. \<exists>cfg. b = new_bft cfg" "bft_step C" undecided for C
  by unfold_locales (fastforce simp: new_bft_def undecided_def, rule undecided_step)

text \<open>A validator set of one, its key known and its signature accepted.\<close>

definition toy_bft_crypto :: crypto where
  "toy_bft_crypto = \<lparr> vkey_from_bytes = Some, sig_verify = \<lambda>k m s. True, blake3 = \<lambda>m. replicate 32 0 \<rparr>"

definition toy_validator :: "string \<Rightarrow> ValidatorInfo" where
  "toy_validator vid = \<lparr> vi_validator_id = vid, vi_public_key = replicate 32 1, vi_stake = 0, vi_score = 0, vi_status = Active,
     vi_last_active = 0 \<rparr>"

definition toy_bft :: BftConsensus where
  "toy_bft = (new_bft default_bft_config)\<lparr> validators := [(''a'', toy_validator ''a'')], local_signing_key := Some (\<lambda>_. replicate 64 1) \<rparr>"

lemma toy_bft_reachable: "reachable (\<lambda>b. \<exists>cfg. b = new_bft cfg) (bft_step C) toy_bft"
proof -
  let ?b = "(new_bft default_bft_config)\<lparr> validators := [(''a'', toy_validator ''a'')] \<rparr>"
  have "add_validator (toy_validator ''a'') (new_bft default_bft_config) = (Inr (), ?b)"
    by (simp add: add_validator_def call_def bindc_def bft_run new_bft_def toy_validator_def)
  then have "reachable (\<lambda>b. \<exists>cfg. b = new_bft cfg) (bft_step C) ?b"
    by (intro reachable.move [OF reachable.start] bft_step.add) auto
  moreover have "set_signing_key (\<lambda>_. replicate 64 1) ?b = (Inr (), toy_bft)" by (simp add: set_signing_key_def run_simps toy_bft_def)
  ultimately show ?thesis by (intro reachable.move [where t = toy_bft] bft_step.key)
qed

section \<open>Properties\<close>

text \<open>An acceptable vote never returns: it is recorded, and the call then asks for the lock of the votes
  while it holds it.  It keeps that lock and the one of the statistics for good.\<close>

theorem bft_vote_blocks:
  assumes held: "write_held b = []" and w: "map_of (validators b) voter = Some w" "vi_status w = Active \<or> vi_status w = Pending_validator"
    and sig: "local_signing_key b = Some sign_with" "sign_with (build_vote_message (current_round b) pid voter v now) \<noteq> no_signature"
    and bv: "bv = \<lparr> bv_vote_id = make_id voter pid (id_counter b), bv_round = current_round b, bv_proposal_id = pid, bv_voter_id = voter,
               bv_vote = v, bv_timestamp = now, bv_signature = sign_with (build_vote_message (current_round b) pid voter v now) \<rparr>"
    and verified: "bft_verify_vote_signature C bv (vi_public_key w)" and fresh: "map_of (round_votes (current_round b) b) voter = None"
  shows "\<exists>b'. bft_vote C now pid voter v b = (Inl Blocked, b') \<and> map_of (round_votes (current_round b) b') voter = Some bv
    \<and> bft_state b' = Voting \<and> Votes \<in> set (write_held b') \<and> Stats \<in> set (write_held b')"
proof -
  have m: "may_vote (Some w) = ret ()" using w(2) by (auto simp: may_vote_def)
  show ?thesis
    using held w(1) sig verified fresh
    by (simp add: bft_vote_def call_def bindc_def Let_def bft_run next_seq_def sign_local_def m bv [symmetric] check_consensus_def round_votes_def
        map_of_update split: option.splits)
qed

theorem bft_vote_blocks_witness:
  "\<exists>b'. bft_vote toy_bft_crypto 0 ''p'' ''a'' True toy_bft = (Inl Blocked, b') \<and> bft_state b' = Voting"
proof -
  let ?bv = "\<lparr> bv_vote_id = make_id ''a'' ''p'' 0, bv_round = 0, bv_proposal_id = ''p'', bv_voter_id = ''a'', bv_vote = True,
    bv_timestamp = 0, bv_signature = replicate 64 1 \<rparr>"
  have "replicate 64 1 \<noteq> no_signature" by code_simp
  moreover have "bft_verify_vote_signature toy_bft_crypto ?bv (replicate 32 1)"
    by (simp add: bft_verify_vote_signature_def verify_signature_def verify_with_def toy_bft_crypto_def)
  ultimately show ?thesis
    using bft_vote_blocks [of toy_bft "''a''" "toy_validator ''a''" "\<lambda>_. replicate 64 1" "''p''" True 0 ?bv toy_bft_crypto]
    by (auto simp: toy_bft_def toy_validator_def new_bft_def round_votes_def)
qed

text \<open>C15. The engine never decides: in every state it can reach, the round is the first one and is neither
  committed nor timed out, no vote returns and no call advances the round.\<close>

theorem bft_never_decides:
  assumes "reachable (\<lambda>b. \<exists>cfg. b = new_bft cfg) (bft_step C) b"
  shows "bft_state b \<noteq> Committed \<and> bft_state b \<noteq> Timeout \<and> current_round b = 0
    \<and> (\<forall>now pid voter v bv b'. bft_vote C now pid voter v b \<noteq> (Inr bv, b')) \<and> (\<forall>b'. next_round b \<noteq> (Inr (), b'))"
proof -
  have u: "undecided b" using bft.inv_reachable [OF assms] .
  then have "next_round b \<noteq> (Inr (), b')" for b'
    by (auto simp: next_round_def run_call bindc_Inr bft_run undecided_def split: if_splits)
  then show ?thesis using u bft_vote_not_Inr by (auto simp: undecided_def)
qed

theorem bft_never_decides_witness:
  "reachable (\<lambda>b. \<exists>cfg. b = new_bft cfg) (bft_step toy_bft_crypto) toy_bft \<and> validators toy_bft \<noteq> [] \<and> next_round toy_bft \<noteq> (Inr (), toy_bft)"
  using bft_never_decides [OF toy_bft_reachable [of toy_bft_crypto]] toy_bft_reachable by (simp add: toy_bft_def)

end
