(* ===== verification/Spec2Isabelle.thy ===== *)
theory Spec2Isabelle
  imports Lattice_Runtime Vote_Aggregator Merkle Slashing Bonds Mempool_Drain Tx_Validator Savitri721 Evm_Interpreter Governance Fees Bft_Engine
begin

text \<open>
  Verification development for the Savitri network node, a blockchain written in Rust.  Paths are
  relative to \<open>src/\<close>.

  \<^bold>\<open>The program.\<close>  Light nodes are put into groups.  A group agrees on cells of a lattice (a directed
  acyclic graph): each member publishes one cell a round, the others attest it, a quorum of
  attestations makes a certificate, and a walk over the certified cells commits a cycle.  Masternodes
  vote on block proposals and certify them.  Peers report latencies; reports and observed behaviour
  give a peer's score, misbehaviour slashes it and its bond.  Transactions enter the mempool through
  the replay filter and admission control, wait in the queued pool while a nonce is missing, and are
  drained round robin.  Contracts run on a metered storage, either as standard contracts (the tokens)
  or as bytecode, and their callers pay fees.  Vote tokens, minted from fees, govern the parameters.

  \<^bold>\<open>Shared vocabulary.\<close>  \<open>Rust_Prelude\<close> holds Rust's integer arithmetic on words (\<open>checked_*\<close>,
  \<open>saturating_*\<close>, collection \<open>rust_int\<close>), the two map types (a \<open>HashMap\<close> is an association list without
  repeated keys, a \<open>BTreeMap\<close> or column family a key-ordered one), and \<open>reachable\<close> with the locale
  \<open>inv_system\<close>: an invariant that holds at the start and is kept by each step holds in all reachable
  states.  Each component with calls has a step relation (one constructor per call) and an
  interpretation of \<open>inv_system\<close>.  \<open>State_Error\<close> holds fallible operations on a mutable state, with
  weakest-precondition rules; contracts and governance are written in it.  \<open>Primitives\<close> holds the
  quorum threshold with the locale of intersecting quorums, the slot and epoch arithmetic and the
  group identifiers (\<open>savitri-consensus/src/primitives\<close>).

  \<^bold>\<open>Consensus.\<close>  \<open>Lattice\<close> (\<open>savitri-consensus/src/types/lattice.rs\<close>, \<open>lattice/aggregator.rs\<close>): cells,
  attestations, the aggregator.  Its invariant: every certificate has a quorum of valid attestations of
  distinct signer names on the cell it certifies.  \<open>Lattice_Commit\<close> (\<open>lattice/pivot.rs\<close>,
  \<open>lattice/commit.rs\<close>): a commit lists exactly the certified causal history of the pivot's cell, and it
  panics exactly when the scan reaches the last round of 64 bits; the work list loop ends because each
  turn sees a new parent or shortens the queue.  \<open>Lattice_Runtime\<close>
  (\<open>savitri-lightnode/src/lattice_runtime.rs\<close>): the two receive handlers and the two periodic tasks keep
  the aggregator's invariant.  \<open>Vote_Aggregator\<close> (\<open>savitri-masternode/src/vote_aggregator.rs\<close>): two
  certificates of one group, height and round are for one block when all their voters are masternodes
  of the group, which the code does not check, and fewer than a third of these are faulty; at
  most one certificate per proposal; a quorum of valid votes gives one.  \<open>Merkle\<close>
  (\<open>savitri-storage/src/storage/merkle_trie.rs\<close>, \<open>savitri-consensus/src/crypto/merkle.rs\<close>): proofs of
  membership are complete, and sound up to a collision of the hash.  \<open>Bft_Engine\<close>
  (\<open>savitri-consensus/src/protocols/bft.rs\<close>): the engine with its asynchronous locks as part of the state;
  no call ever decides a round, because a vote waits for a lock it holds.

  \<^bold>\<open>Scores and penalties.\<close>  \<open>Latency_Canon\<close> (\<open>types/latency_canon.rs\<close>, \<open>types/latency_table.rs\<close>,
  \<open>savitri-lightnode/src/latency_canon_state.rs\<close>): the table refines a specification by lower medians
  (its window has no upper end) and
  depends only on the order of each reporter's reports.  \<open>Scoring\<close> (\<open>types/score.rs\<close>,
  \<open>scoring/observations.rs\<close>, \<open>latency_canon_publisher.rs\<close>): the measurement of a peer counts exactly the
  events of the window.  \<open>Slashing\<close> (\<open>slashing.rs\<close>, \<open>types/slashing.rs\<close>): the records are the history of
  accepted reports, whatever the clock, and every branch of a report is described.  \<open>Bonds\<close>
  (\<open>savitri-storage/src/storage/bonds.rs\<close>): the total is the sum of the bonds and of those overwritten,
  and a slash takes exactly its share.

  \<^bold>\<open>Mempool.\<close>  \<open>Core_Types\<close> (\<open>savitri-core/src/core/types.rs\<close>) and \<open>Mempool_Types\<close>
  (\<open>savitri-mempool/src/mempool/types.rs\<close>): transactions, accounts, classes, fees.  \<open>Queued_Pool\<close>,
  \<open>Replay_Prevention\<close>, \<open>Admission\<close> (the files of these names): limits hold, promotion takes exactly the
  consecutive nonces, an admitted transaction is payable and admitted once.  \<open>Mempool_Core\<close> is
  \<open>mempool/core.rs\<close>; \<open>Mempool_Props\<close> and \<open>Mempool_Drain\<close> show that in every reachable state no operation
  panics and the counters are exact, and that a drain keeps the nonce order; it delivers
  all it can while transactions are only added and drained and none expires in the pool (\<open>calm\<close>), since
  the removal of a queue that still has a turn leaves the turn behind.
  \<open>Tx_Validator\<close> (\<open>savitri-mempool/src/executor/transaction_validator.rs\<close>): exactly what it accepts, and that
  the nonces it lets execute are consecutive for each sender, provided a batch holds one transaction a
  sender and no nonce is the largest (\<open>validator_step\<close>; \<open>same_nonce_twice\<close> shows the first is needed).

  \<^bold>\<open>Contracts\<close> (\<open>Savitri-contracts/src/contracts\<close>).  \<open>Contract_Gas\<close> (\<open>gas.rs\<close>), \<open>Contract_Events\<close>
  (\<open>events.rs\<close>), \<open>Contract_Storage\<close> (\<open>storage.rs\<close>), \<open>Contract_Runtime\<close> (\<open>runtime.rs\<close>), \<open>Base_Contract\<close>
  (\<open>base.rs\<close>), \<open>Savitri20\<close> (\<open>standards/savitri20.rs\<close>), \<open>Savitri721\<close> (\<open>standards/savitri721.rs\<close>),
  \<open>Evm_Interpreter\<close> (\<open>evm_interpreter.rs\<close>): gas is accounted, events found again, a write read back and kept by a commit, a
  call stack never re-entered, the owner changed only by the owner, a transfer moves exactly the amount
  or the token, an address of token data read back as written, and bytecode always ends.

  \<^bold>\<open>Fees.\<close>  \<open>Fees\<close> (\<open>Savitri-contracts/src/fee.rs\<close>, \<open>contracts/fee.rs\<close>): fee calculation, treasury, burning,
  halving, and what a contract call's caller pays.  A charge takes exactly gas times price, a
  distribution never credits more vote tokens than it has unless the sum of the scores wraps
  (\<open>score_sum_wraps\<close>), fees of calls are split without loss but credited to nobody, the treasury the
  engine shows is always empty (\<open>shown_treasury_empty\<close>), and with distributions that burn at least what
  they give the treasury the engine collects nothing at all (\<open>burning_step\<close>).

  \<^bold>\<open>Governance.\<close>  \<open>Gov_Storage\<close> (\<open>savitri-storage/src/storage/mod.rs\<close>, \<open>storage/governance.rs\<close>) and
  \<open>Governance\<close> (\<open>Savitri-contracts/src/governance\<close>): what a vote does, and two theorems that the life
  cycle cannot start or complete as written.

  \<^bold>\<open>Conventions.\<close>  Machine integers keep their width; \<open>usize\<close> counts of elements in memory are natural
  numbers; \<open>+\<close> without a check wraps, as in the release profile.  A panic is \<open>None\<close> or an outcome of its
  own, an error a value.  A call under a lock is one step.  The clock is an argument.  Third-party
  functions (blake3, SHA-256, Keccak-256, ed25519, hex, bincode, the LRU cache) are parameters; where a
  theorem needs a law of one (a decoder inverts its encoder, a hash does not collide on the inputs at
  hand) it is a hypothesis, and a witness instantiates it with a concrete function.  The order in which
  a \<open>HashMap\<close> is iterated is the order of its list, which no theorem fixes.

  \<^bold>\<open>Bounds and fuel.\<close>  Loops are structural or have a termination proof.  Two may not end by their
  shape: the expiry loop of the replay filter, which depends on the cache's answers, and the
  interpreter's loop, a partial function; for the latter a theorem gives the end from the gas limit and
  the batch size, with no fuel.  No theorem is limited to a bounded number of nodes, messages or
  transactions.

  \<^bold>\<open>Not modelled.\<close>  Network and database input and output (\<open>savitri-p2p\<close>, \<open>savitri-rpc\<close>, the libp2p and
  start-up parts of \<open>savitri-lightnode\<close> and \<open>savitri-masternode\<close>, \<open>savitri-guardian\<close>, \<open>savitri-sdk\<close>,
  \<open>tools\<close>), worker threads and channels (mempool integration and prevalidation, parallel
  contract execution), wrappers of third-party proof systems (\<open>savitri-zkp\<close>), floating-point code
  (federated learning, the dispatcher's scores), metrics and tracing.  Of the modelled files: percentages
  that are only reported, log output, the text of formatted error arguments, and failures of the
  database.  The multi-token and collection standards, the decoder and deployment of calls, the block
  DAG, group formation and the execution of approved proposals are deterministic code that this
  development does not cover; no proposal reaches the last of them, as the governance theorems show.
\<close>

end
